(* ===== verification/Prism_Prelude.thy ===== *)
theory Prism_Prelude
  imports Complex_Main "HOL-Library.AList"
begin

text \<open>
  Shared vocabulary of the development: Python values, insertion-ordered dictionaries, string
  helpers, the errors the code raises, first-maximum selection and stable descending sort, and
  the interface of a transition function that keeps an invariant.

  Dictionaries are association lists in insertion order. Python's item assignment keeps the
  position of an existing key and appends a new one, which is \<open>AList.update\<close>; \<open>pop(k, None)\<close>
  is \<open>AList.delete\<close>. Finite floats are rationals: rounding is not modelled.
\<close>

named_theorems dict_simps "lookups, key sets and distinctness of dictionary operations"

section \<open>Python values\<close>

datatype pyfloat = Fin rat | PosInf | NegInf | NaN

datatype pval =
    PNone
  | PBool bool
  | PInt int
  | PFloat pyfloat
  | PStr string
  | PList "pval list"
  | PDict "(string \<times> pval) list"

type_synonym 'v pdict = "(string \<times> 'v) list"
type_synonym dict = "pval pdict"

text \<open>The library's own exceptions (\<open>src/prismpipe/exceptions.py\<close>), then every exception modelled.\<close>

datatype prism_error =
    CapabilityNotFound string
  | NodeExecutionError string string "string option"
  | CapabilityAccessDenied string string
  | RequestTimeoutError string rat
  | CircuitOpenError string
  | RateLimitError string rat
  | ValidationError "pval list"
  | StorageError string string

datatype py_error =
    KeyError string
  | ValueError string
  | RuntimeError string
  | CapacityError string
  | TypeError string
  | NameError string
  | NodeNotFoundError string
  | PrismError prism_error
  | OtherError string string

text \<open>Truth value testing: empty containers, zero, \<open>None\<close> and the empty string are false.\<close>

fun truthy :: "pval \<Rightarrow> bool" where
  "truthy PNone = False"
| "truthy (PBool b) = b"
| "truthy (PInt i) = (i \<noteq> 0)"
| "truthy (PFloat (Fin r)) = (r \<noteq> 0)"
| "truthy (PFloat _) = True"
| "truthy (PStr s) = (s \<noteq> [])"
| "truthy (PList xs) = (xs \<noteq> [])"
| "truthy (PDict d) = (d \<noteq> [])"

text \<open>An optional string is true when it is present and not empty.\<close>

fun truthy_opt :: "string option \<Rightarrow> bool" where
  "truthy_opt None = False"
| "truthy_opt (Some s) = (s \<noteq> [])"

lemma truthy_opt_iff: "truthy_opt x \<longleftrightarrow> x \<noteq> None \<and> x \<noteq> Some []"
  by (cases x) auto

text \<open>\<open>a or b\<close> on optional strings, and \<open>a or default\<close>.\<close>

definition or_opt :: "string option \<Rightarrow> string option \<Rightarrow> string option" where
  "or_opt a b = (if truthy_opt a then a else b)"

definition or_str :: "string option \<Rightarrow> string \<Rightarrow> string" where
  "or_str a d = (case a of Some s \<Rightarrow> if s \<noteq> [] then s else d | None \<Rightarrow> d)"

text \<open>The numeric value of a number; booleans are the integers 0 and 1.\<close>

fun num_of :: "pval \<Rightarrow> rat option" where
  "num_of (PBool b) = Some (if b then 1 else 0)"
| "num_of (PInt i) = Some (of_int i)"
| "num_of (PFloat (Fin r)) = Some r"
| "num_of _ = None"

text \<open>Elements of a list and values of a dictionary are smaller than the container.\<close>

lemma size_zip_less: "(x, y) \<in> set (zip xs ys) \<Longrightarrow> size x < Suc (size_list size xs)"
  by (induction xs ys rule: list_induct2') auto

lemma size_item_less:
  "(k, v) \<in> set d \<Longrightarrow> size v < Suc (size_list (size_prod (\<lambda>_. 0) size) d)"
  by (induction d) auto

text \<open>
  Equality \<open>==\<close>: numbers compare by value, lists pointwise, dictionaries as maps
  (regardless of insertion order), and a not-a-number float is equal to nothing.
\<close>

function py_eq :: "pval \<Rightarrow> pval \<Rightarrow> bool" where
  "py_eq a b =
     (case (num_of a, num_of b) of
        (Some x, Some y) \<Rightarrow> x = y
      | _ \<Rightarrow>
        (case a of
           PNone \<Rightarrow> b = PNone
         | PStr s \<Rightarrow> b = PStr s
         | PFloat f \<Rightarrow> f \<noteq> NaN \<and> b = PFloat f
         | PList xs \<Rightarrow>
             (case b of
                PList ys \<Rightarrow> length xs = length ys \<and>
                  (\<forall>(x, y) \<in> set (zip xs ys). py_eq x y)
              | _ \<Rightarrow> False)
         | PDict d \<Rightarrow>
             (case b of
                PDict e \<Rightarrow> length d = length e \<and>
                  (\<forall>(k, v) \<in> set d. case map_of e k of None \<Rightarrow> False | Some w \<Rightarrow> py_eq v w)
              | _ \<Rightarrow> False)
         | _ \<Rightarrow> False))"
  by pat_completeness auto
termination
  by (relation "measure (\<lambda>(a, b). size a)") (auto intro: size_zip_less size_item_less)

declare py_eq.simps [simp del]

section \<open>Dictionaries\<close>

text \<open>\<open>d.update(e)\<close>: the items of \<open>e\<close> are assigned in order.\<close>

definition dict_update :: "'v pdict \<Rightarrow> 'v pdict \<Rightarrow> 'v pdict" where
  "dict_update d e = fold (\<lambda>(k, v). AList.update k v) e d"

abbreviation wf_dict :: "('k \<times> 'v) list \<Rightarrow> bool" where
  "wf_dict d \<equiv> distinct (map fst d)"

text \<open>Lookups stay lookups: they are not turned into membership of pairs.\<close>

declare map_of_eq_Some_iff [simp del] Some_eq_map_of_iff [simp del]

lemma map_of_update [dict_simps]: "map_of (AList.update k v d) = (map_of d)(k \<mapsto> v)"
  by (rule update_conv')

lemma map_of_delete [dict_simps]: "map_of (AList.delete k d) = (map_of d)(k := None)"
  by (rule delete_conv')

lemma keys_update [dict_simps]: "fst ` set (AList.update k v d) = insert k (fst ` set d)"
  by (metis dom_map_of_conv_image_fst dom_fun_upd map_of_update option.distinct(1))

lemma keys_delete [dict_simps]: "fst ` set (AList.delete k d) = fst ` set d - {k}"
  by (auto simp: AList.delete_eq)

lemma wf_update [dict_simps]: "wf_dict d \<Longrightarrow> wf_dict (AList.update k v d)"
  by (rule distinct_update)

lemma wf_delete [dict_simps]: "wf_dict d \<Longrightarrow> wf_dict (AList.delete k d)"
  by (rule distinct_delete)

lemma map_of_keys: "k \<in> fst ` set d \<longleftrightarrow> (\<exists>v. map_of d k = Some v)"
  by (metis map_of_eq_None_iff not_Some_eq)

lemma length_update:
  "length (AList.update k v d) = (if k \<in> fst ` set d then length d else Suc (length d))"
  by (induction d) auto

lemma update_new: "k \<notin> fst ` set d \<Longrightarrow> AList.update k v d = d @ [(k, v)]"
  by (induction d) auto

lemma length_delete_le: "length (AList.delete k d) \<le> length d"
  by (simp add: AList.delete_eq)

lemma delete_absent: "k \<notin> fst ` set d \<Longrightarrow> AList.delete k d = d"
  by (induction d) (auto simp: AList.delete_eq)

lemma length_delete_present:
  "wf_dict d \<Longrightarrow> k \<in> fst ` set d \<Longrightarrow> Suc (length (AList.delete k d)) = length d"
proof (induction d)
  case Nil
  then show ?case by simp
next
  case (Cons p d)
  obtain k' v' where p: "p = (k', v')" by (cases p)
  show ?case
  proof (cases "k' = k")
    case True
    with Cons.prems p have "k \<notin> fst ` set d" by auto
    with True p show ?thesis using delete_absent [of k d] by simp
  next
    case False
    with Cons p show ?thesis by (auto simp: AList.delete_eq)
  qed
qed

lemma wf_dict_update [dict_simps]: "wf_dict d \<Longrightarrow> wf_dict (dict_update d e)"
  unfolding dict_update_def
  by (induction e arbitrary: d) (auto simp: wf_update split: prod.splits)

lemma map_of_dict_update:
  "map_of (dict_update d e) = (\<lambda>k. case map_of (rev e) k of Some v \<Rightarrow> Some v | None \<Rightarrow> map_of d k)"
proof (induction e arbitrary: d)
  case Nil
  then show ?case by (simp add: dict_update_def)
next
  case (Cons p e)
  obtain k v where p: "p = (k, v)" by (cases p)
  have "dict_update d (p # e) = dict_update (AList.update k v d) e"
    by (simp add: dict_update_def p)
  then show ?case
    using Cons.IH [of "AList.update k v d"]
    by (auto simp: fun_eq_iff p map_of_update map_add_def split: option.splits)
qed

lemma map_of_rev_wf: "wf_dict e \<Longrightarrow> map_of (rev e) = map_of e"
  by (induction e) (auto simp: fun_eq_iff map_add_def split: option.splits dest: map_of_SomeD intro: rev_image_eqI)

lemma map_of_dict_update_wf [dict_simps]:
  "wf_dict e \<Longrightarrow> map_of (dict_update d e) = map_of d ++ map_of e"
  by (simp add: map_of_dict_update map_of_rev_wf map_add_def)

text \<open>Keys that begin with an underscore are private to the runtime.\<close>

definition is_private :: "string \<Rightarrow> bool" where
  "is_private k = (case k of [] \<Rightarrow> False | c # _ \<Rightarrow> c = CHR ''_'')"

definition public_items :: "'v pdict \<Rightarrow> 'v pdict" where
  "public_items d = filter (\<lambda>(k, v). \<not> is_private k) d"

lemma wf_public [dict_simps]: "wf_dict d \<Longrightarrow> wf_dict (public_items d)"
  unfolding public_items_def by (induction d) auto

lemma map_of_public [dict_simps]:
  "map_of (public_items d) k = (if is_private k then None else map_of d k)"
  unfolding public_items_def by (induction d) auto

lemma public_public [simp]: "public_items (public_items d) = public_items d"
  by (simp add: public_items_def)

section \<open>Strings\<close>

definition starts_with :: "string \<Rightarrow> string \<Rightarrow> bool" where
  "starts_with p s = (take (length p) s = p)"

fun join :: "string \<Rightarrow> string list \<Rightarrow> string" where
  "join sep [] = []"
| "join sep [x] = x"
| "join sep (x # xs) = x @ sep @ join sep xs"

text \<open>\<open>str.lower\<close> on ASCII letters, and \<open>str.split()\<close> on runs of white space.\<close>

definition lower_char :: "char \<Rightarrow> char" where
  "lower_char c = (let n = of_char c :: nat in if 65 \<le> n \<and> n \<le> 90 then char_of (n + 32) else c)"

definition lower :: "string \<Rightarrow> string" where
  "lower = map lower_char"

definition is_space :: "char \<Rightarrow> bool" where
  "is_space c = (let n = of_char c :: nat in n = 32 \<or> 9 \<le> n \<and> n \<le> 13 \<or> 28 \<le> n \<and> n \<le> 31)"

fun split_words :: "string \<Rightarrow> string \<Rightarrow> string list" where
  "split_words w [] = (if w = [] then [] else [w])"
| "split_words w (c # cs) =
     (if is_space c then (if w = [] then split_words [] cs else w # split_words [] cs)
      else split_words (w @ [c]) cs)"

definition words :: "string \<Rightarrow> string list" where
  "words s = split_words [] s"

text \<open>\<open>p in s\<close>.\<close>

fun contains :: "string \<Rightarrow> string \<Rightarrow> bool" where
  "contains p [] = (p = [])"
| "contains p (c # cs) = (starts_with p (c # cs) \<or> contains p cs)"

text \<open>\<open>xs[:n]\<close>: a negative bound counts from the end.\<close>

definition py_prefix :: "int \<Rightarrow> 'a list \<Rightarrow> 'a list" where
  "py_prefix n xs = (if 0 \<le> n then take (nat n) xs else take (length xs - nat (- n)) xs)"

fun digit_char :: "nat \<Rightarrow> char" where
  "digit_char d = char_of (48 + d)"

fun show_nat :: "nat \<Rightarrow> string" where
  "show_nat n = (if n < 10 then [digit_char n] else show_nat (n div 10) @ [digit_char (n mod 10)])"

declare show_nat.simps [simp del]

definition show_int :: "int \<Rightarrow> string" where
  "show_int i = (if i < 0 then CHR ''-'' # show_nat (nat (- i)) else show_nat (nat i))"

section \<open>Selection and sorting by a key\<close>

text \<open>
  \<open>min(xs, key=f)\<close> returns the first element with the least key. \<open>sorted(xs, key=f)\<close> and
  \<open>sort(key=f, reverse=True)\<close> are stable, so descending order is \<open>sort_key\<close> of the negated key.
\<close>

fun first_min :: "('a \<Rightarrow> rat) \<Rightarrow> 'a list \<Rightarrow> 'a option" where
  "first_min f [] = None"
| "first_min f (x # xs) =
     (case first_min f xs of
        None \<Rightarrow> Some x
      | Some y \<Rightarrow> if f x \<le> f y then Some x else Some y)"

definition first_max :: "('a \<Rightarrow> rat) \<Rightarrow> 'a list \<Rightarrow> 'a option" where
  "first_max f = first_min (\<lambda>x. - f x)"

definition sort_desc :: "('a \<Rightarrow> rat) \<Rightarrow> 'a list \<Rightarrow> 'a list" where
  "sort_desc f = sort_key (\<lambda>x. - f x)"

lemma first_min_None [simp]: "first_min f xs = None \<longleftrightarrow> xs = []"
  by (cases xs) (auto split: option.splits)

lemma first_min_in: "first_min f xs = Some x \<Longrightarrow> x \<in> set xs"
  by (induction xs arbitrary: x) (auto split: option.splits if_splits)

lemma first_min_le: "first_min f xs = Some x \<Longrightarrow> y \<in> set xs \<Longrightarrow> f x \<le> f y"
proof (induction xs arbitrary: x)
  case Nil
  then show ?case by simp
next
  case (Cons z zs)
  then show ?case
    by (cases "first_min f zs") (force split: if_splits)+
qed

lemma first_min_first:
  "first_min f xs = Some x \<Longrightarrow>
     \<exists>as bs. xs = as @ x # bs \<and> (\<forall>y \<in> set as. f x < f y)"
proof (induction xs arbitrary: x)
  case Nil
  then show ?case by simp
next
  case (Cons z zs)
  show ?case
  proof (cases "first_min f zs")
    case None
    with Cons.prems show ?thesis by (intro exI [of _ "[]"] exI [of _ zs]) auto
  next
    case (Some y)
    show ?thesis
    proof (cases "f z \<le> f y")
      case True
      with Some Cons.prems show ?thesis by (intro exI [of _ "[]"] exI [of _ zs]) auto
    next
      case False
      with Some Cons.prems have "x = y" by simp
      with Cons.IH Some obtain as bs where "zs = as @ x # bs" "\<forall>y \<in> set as. f x < f y" by blast
      with False \<open>x = y\<close> show ?thesis by (intro exI [of _ "z # as"] exI [of _ bs]) auto
    qed
  qed
qed

lemma set_sort_desc [simp]: "set (sort_desc f xs) = set xs"
  by (simp add: sort_desc_def)

lemma sort_desc_sorted: "sorted (map (\<lambda>x. - f x) (sort_desc f xs))"
  by (simp add: sort_desc_def)

lemma hd_insort_key:
  "hd (insort_key g x xs) = (if xs = [] \<or> g x \<le> g (hd xs) then x else hd xs)"
  by (cases xs) auto

lemma insort_key_nonempty [simp]: "insort_key g x xs \<noteq> []"
  by (cases xs) auto

lemma sort_key_nonempty [simp]: "sort_key g xs = [] \<longleftrightarrow> xs = []"
  by (cases xs) auto

lemma hd_sort_key: "xs \<noteq> [] \<Longrightarrow> first_min g xs = Some (hd (sort_key g xs))"
proof (induction xs)
  case Nil
  then show ?case by simp
next
  case (Cons x xs)
  show ?case
  proof (cases "xs = []")
    case True
    then show ?thesis by simp
  next
    case False
    with Cons.IH have "first_min g xs = Some (hd (sort_key g xs))" by simp
    with False show ?thesis by (simp add: hd_insort_key del: first_min_None)
  qed
qed

lemma hd_sort_desc: "xs \<noteq> [] \<Longrightarrow> first_max f xs = Some (hd (sort_desc f xs))"
  by (simp add: first_max_def sort_desc_def hd_sort_key)

section \<open>Removing duplicates, first occurrence first\<close>

fun unique :: "'a list \<Rightarrow> 'a list \<Rightarrow> 'a list" where
  "unique seen [] = []"
| "unique seen (x # xs) =
     (if x \<in> set seen then unique seen xs else x # unique (x # seen) xs)"

lemma set_unique: "set (unique seen xs) = set xs - set seen"
  by (induction seen xs rule: unique.induct) auto

lemma distinct_unique: "distinct (unique seen xs)"
  by (induction seen xs rule: unique.induct) (auto simp: set_unique)

section \<open>Transition functions that keep an invariant\<close>

text \<open>
  The interface shared by the stateful components: every operation \<open>step e\<close> keeps \<open>inv\<close> when
  the environment's input \<open>e\<close> is admissible in the current state. A run folds the operations.
\<close>

fun run_steps :: "('e \<Rightarrow> 's \<Rightarrow> 's) \<Rightarrow> 'e list \<Rightarrow> 's \<Rightarrow> 's" where
  "run_steps step [] s = s"
| "run_steps step (e # es) s = run_steps step es (step e s)"

fun run_ok :: "('e \<Rightarrow> 's \<Rightarrow> 's) \<Rightarrow> ('e \<Rightarrow> 's \<Rightarrow> bool) \<Rightarrow> 'e list \<Rightarrow> 's \<Rightarrow> bool" where
  "run_ok step ok [] s = True"
| "run_ok step ok (e # es) s = (ok e s \<and> run_ok step ok es (step e s))"

locale invariant_machine =
  fixes step :: "'e \<Rightarrow> 's \<Rightarrow> 's"
    and ok :: "'e \<Rightarrow> 's \<Rightarrow> bool"
    and inv :: "'s \<Rightarrow> bool"
  assumes step_inv: "inv s \<Longrightarrow> ok e s \<Longrightarrow> inv (step e s)"
begin

lemma run_inv: "inv s \<Longrightarrow> run_ok step ok es s \<Longrightarrow> inv (run_steps step es s)"
  by (induction es arbitrary: s) (auto intro: step_inv)

lemma run_append: "run_steps step (es @ fs) s = run_steps step fs (run_steps step es s)"
  by (induction es arbitrary: s) auto

end

end
