(* ===== verification/Envelope.thy ===== *)
theory Envelope
  imports Prism_Prelude
begin

text \<open>
  The request envelope of \<open>src/prismpipe/core/envelope.py\<close>: intents, history entries, metadata,
  the execution plan and the envelope with its operations. Timestamps and durations are rationals
  supplied by the caller, who stands for the clock.
\<close>

section \<open>Intents\<close>

datatype intent =
    HTTP_REQUEST | WEBHOOK | SCHEDULED_TASK | STREAM | BATCH | AI_TASK | CUSTOM

fun intent_value :: "intent \<Rightarrow> string" where
  "intent_value HTTP_REQUEST = ''http_request''"
| "intent_value WEBHOOK = ''webhook''"
| "intent_value SCHEDULED_TASK = ''scheduled_task''"
| "intent_value STREAM = ''stream''"
| "intent_value BATCH = ''batch''"
| "intent_value AI_TASK = ''ai_task''"
| "intent_value CUSTOM = ''custom''"

definition all_intents :: "intent list" where
  "all_intents = [HTTP_REQUEST, WEBHOOK, SCHEDULED_TASK, STREAM, BATCH, AI_TASK, CUSTOM]"

text \<open>\<open>Intent(s)\<close>: the member with that value, or a \<open>ValueError\<close>.\<close>

definition intent_of :: "string \<Rightarrow> intent option" where
  "intent_of s = find (\<lambda>i. intent_value i = s) all_intents"

lemma intent_of_value [simp]: "intent_of (intent_value i) = Some i"
  by (cases i) (simp_all add: intent_of_def all_intents_def)

lemma intent_of_Some: "intent_of s = Some i \<Longrightarrow> intent_value i = s"
  by (auto simp: intent_of_def all_intents_def split: if_splits)

section \<open>Records\<close>

record history_entry =
  he_node_id :: string
  he_node_type :: string
  he_capability :: string
  he_action :: string
  he_timestamp :: rat
  he_duration_ms :: "rat option"
  he_input_snapshot :: "dict option"
  he_output_snapshot :: "dict option"

record metadata =
  md_source :: "string option"
  md_correlation_id :: "string option"
  md_trace_id :: "string option"
  md_user_agent :: "string option"
  md_ip_address :: "string option"
  md_ttl :: "int option"
  md_priority :: int
  md_tags :: "string pdict"
  md_custom :: dict

definition empty_metadata :: metadata where
  "empty_metadata =
     \<lparr>md_source = None, md_correlation_id = None, md_trace_id = None, md_user_agent = None,
      md_ip_address = None, md_ttl = None, md_priority = 0, md_tags = [], md_custom = []\<rparr>"

section \<open>Execution plan\<close>

record plan =
  plan_capabilities :: "string list"
  plan_index :: nat

definition empty_plan :: plan where
  "empty_plan = \<lparr>plan_capabilities = [], plan_index = 0\<rparr>"

definition plan_add :: "string \<Rightarrow> plan \<Rightarrow> plan" where
  "plan_add c p = p\<lparr>plan_capabilities := plan_capabilities p @ [c]\<rparr>"

text \<open>\<open>list.insert\<close>: a negative position counts from the end, both ends are clamped.\<close>

definition py_insert :: "int \<Rightarrow> 'a \<Rightarrow> 'a list \<Rightarrow> 'a list" where
  "py_insert i x xs =
     (let n = int (length xs);
          j = nat (if i < 0 then max 0 (n + i) else min i n)
      in take j xs @ x # drop j xs)"

definition plan_insert :: "int \<Rightarrow> string \<Rightarrow> plan \<Rightarrow> plan" where
  "plan_insert i c p = p\<lparr>plan_capabilities := py_insert i c (plan_capabilities p)\<rparr>"

definition plan_remove :: "string \<Rightarrow> plan \<Rightarrow> plan" where
  "plan_remove c p =
     (if c \<in> set (plan_capabilities p)
      then p\<lparr>plan_capabilities := remove1 c (plan_capabilities p)\<rparr> else p)"

definition plan_next :: "plan \<Rightarrow> string option \<times> plan" where
  "plan_next p =
     (if plan_index p < length (plan_capabilities p)
      then (Some (plan_capabilities p ! plan_index p), p\<lparr>plan_index := plan_index p + 1\<rparr>)
      else (None, p))"

definition plan_reset :: "plan \<Rightarrow> plan" where
  "plan_reset p = p\<lparr>plan_index := 0\<rparr>"

text \<open>The capabilities that repeated calls of \<open>next\<close> hand out.\<close>

fun plan_drain :: "nat \<Rightarrow> plan \<Rightarrow> string list" where
  "plan_drain 0 p = []"
| "plan_drain (Suc n) p =
     (case plan_next p of
        (None, p') \<Rightarrow> []
      | (Some c, p') \<Rightarrow> c # plan_drain n p')"

lemma plan_drain_drop:
  "plan_drain n p = take n (drop (plan_index p) (plan_capabilities p))"
proof (induction n arbitrary: p)
  case 0
  then show ?case by simp
next
  case (Suc n)
  show ?case
  proof (cases "plan_index p < length (plan_capabilities p)")
    case True
    then show ?thesis
      by (simp add: plan_next_def Suc.IH Cons_nth_drop_Suc [symmetric])
  next
    case False
    then show ?thesis by (simp add: plan_next_def)
  qed
qed

section \<open>The envelope\<close>

record envelope =
  env_id :: string
  env_intent :: intent
  env_input :: pval
  env_state :: dict
  env_history :: "history_entry list"
  env_metadata :: metadata
  env_plan :: plan
  env_next :: "string option"
  env_error :: "string option"
  env_terminated :: bool
  env_parent_id :: "string option"

definition env_record ::
    "string \<Rightarrow> string \<Rightarrow> string \<Rightarrow> string \<Rightarrow> rat option \<Rightarrow> rat \<Rightarrow> envelope \<Rightarrow> envelope" where
  "env_record node_id node_type capability action duration now e =
     e\<lparr>env_history := env_history e @
        [\<lparr>he_node_id = node_id, he_node_type = node_type, he_capability = capability,
          he_action = action, he_timestamp = now, he_duration_ms = duration,
          he_input_snapshot = Some (env_state e), he_output_snapshot = None\<rparr>]\<rparr>"

definition set_next :: "string option \<Rightarrow> envelope \<Rightarrow> envelope" where
  "set_next c e = e\<lparr>env_next := c\<rparr>"

text \<open>\<open>terminate(error)\<close>: the error is stored only when it is a non-empty string.\<close>

definition env_terminate :: "string option \<Rightarrow> envelope \<Rightarrow> envelope" where
  "env_terminate err e =
     (let e' = e\<lparr>env_terminated := True\<rparr>
      in if truthy_opt err then e'\<lparr>env_error := err\<rparr> else e')"

definition cap_prefix :: string where
  "cap_prefix = ''capability:''"

text \<open>The capability a next-hop names, shared by envelopes and organisms.\<close>

definition hop_capability :: "string option \<Rightarrow> string option" where
  "hop_capability nxt =
     (case nxt of
        None \<Rightarrow> None
      | Some s \<Rightarrow>
          if s = [] then None
          else if starts_with cap_prefix s then Some (drop (length cap_prefix) s)
          else Some s)"

definition get_capability :: "envelope \<Rightarrow> string option" where
  "get_capability e = hop_capability (env_next e)"

definition durations :: "history_entry list \<Rightarrow> rat list" where
  "durations h = List.map_filter he_duration_ms h"

definition execution_time_ms :: "history_entry list \<Rightarrow> rat option" where
  "execution_time_ms h =
     (if h = [] then None
      else if durations h = [] then None else Some (sum_list (durations h)))"

definition ancestry :: "envelope \<Rightarrow> string list" where
  "ancestry e = (if truthy_opt (env_parent_id e) then [the (env_parent_id e)] else [])"

definition create_envelope ::
    "string \<Rightarrow> intent + string \<Rightarrow> pval \<Rightarrow> dict \<Rightarrow> string option \<Rightarrow> metadata
       \<Rightarrow> py_error + envelope" where
  "create_envelope uid int_arg inp st nxt md =
     (case (case int_arg of Inl i \<Rightarrow> Some i | Inr s \<Rightarrow> intent_of s) of
        None \<Rightarrow> Inl (ValueError ''not a valid Intent'')
      | Some i \<Rightarrow>
          Inr \<lparr>env_id = ''req_'' @ uid, env_intent = i,
               env_input = (if truthy inp then inp else PDict []), env_state = st,
               env_history = [], env_metadata = md, env_plan = empty_plan, env_next = nxt,
               env_error = None, env_terminated = False, env_parent_id = None\<rparr>)"

lemma hop_capability_None:
  "hop_capability nxt = None \<longleftrightarrow> \<not> truthy_opt nxt"
  by (cases nxt) (auto simp: hop_capability_def)

lemma hop_capability_prefixed:
  "hop_capability (Some (cap_prefix @ c)) = Some c"
  by (simp add: hop_capability_def cap_prefix_def starts_with_def)

lemma hop_capability_plain:
  "c \<noteq> [] \<Longrightarrow> \<not> starts_with cap_prefix c \<Longrightarrow> hop_capability (Some c) = Some c"
  by (simp add: hop_capability_def)

lemma env_terminate_simps [simp]:
  "env_terminated (env_terminate err e)"
  "env_state (env_terminate err e) = env_state e"
  "env_history (env_terminate err e) = env_history e"
  "env_next (env_terminate err e) = env_next e"
  "env_error (env_terminate err e) = (if truthy_opt err then err else env_error e)"
  by (simp_all add: env_terminate_def Let_def)

lemma env_record_simps [simp]:
  "env_terminated (env_record a b c d t n e) = env_terminated e"
  "env_state (env_record a b c d t n e) = env_state e"
  "env_next (env_record a b c d t n e) = env_next e"
  "env_error (env_record a b c d t n e) = env_error e"
  "length (env_history (env_record a b c d t n e)) = Suc (length (env_history e))"
  by (simp_all add: env_record_def)

text \<open>A concrete envelope for examples.\<close>

definition demo_env :: "string option \<Rightarrow> envelope" where
  "demo_env nxt = \<lparr>env_id = ''req_1'', env_intent = CUSTOM, env_input = PDict [], env_state = [],
     env_history = [], env_metadata = empty_metadata, env_plan = empty_plan, env_next = nxt,
     env_error = None, env_terminated = False, env_parent_id = None\<rparr>"

end
