(* ===== verification/Router.thy ===== *)
theory Router
  imports Prism_Prelude
begin

text \<open>
  \<open>CapabilityRouter\<close> of \<open>src/prismpipe/core/router.py\<close>: registrations by capability name, one
  level of aliases, and the resolution the engine and the pipeline use. The node type is a
  parameter. The interface \<open>routing\<close> is what a client of the router relies on.
\<close>

record 'n registration =
  reg_capability :: string
  reg_node :: 'n
  reg_priority :: int
  reg_enabled :: bool
  reg_metadata :: dict

record 'n router =
  registrations :: "'n registration pdict"
  aliases :: "string pdict"

definition new_router :: "'n router" where
  "new_router = \<lparr>registrations = [], aliases = []\<rparr>"

definition register :: "string \<Rightarrow> 'n \<Rightarrow> int \<Rightarrow> dict \<Rightarrow> 'n router \<Rightarrow> 'n router" where
  "register c nd prio md r =
     r\<lparr>registrations := AList.update c
          \<lparr>reg_capability = c, reg_node = nd, reg_priority = prio, reg_enabled = True,
           reg_metadata = md\<rparr> (registrations r)\<rparr>"

definition unregister :: "string \<Rightarrow> 'n router \<Rightarrow> bool \<times> 'n router" where
  "unregister c r =
     (if map_of (registrations r) c \<noteq> None
      then (True, r\<lparr>registrations := AList.delete c (registrations r)\<rparr>)
      else if map_of (aliases r) c \<noteq> None
      then (True, r\<lparr>aliases := AList.delete c (aliases r)\<rparr>)
      else (False, r))"

definition add_alias :: "string \<Rightarrow> string \<Rightarrow> 'n router \<Rightarrow> py_error + 'n router" where
  "add_alias a c r =
     (if map_of (registrations r) c = None
      then Inl (ValueError (''Cannot alias to unregistered capability: '' @ c))
      else Inr (r\<lparr>aliases := AList.update a c (aliases r)\<rparr>))"

definition resolve_capability :: "'n router \<Rightarrow> string \<Rightarrow> string" where
  "resolve_capability r c = (case map_of (aliases r) c of Some c' \<Rightarrow> c' | None \<Rightarrow> c)"

definition resolve_registration :: "'n router \<Rightarrow> string \<Rightarrow> 'n registration option" where
  "resolve_registration r c = map_of (registrations r) (resolve_capability r c)"

definition resolve :: "'n router \<Rightarrow> string \<Rightarrow> py_error + 'n" where
  "resolve r c =
     (case map_of (registrations r) (resolve_capability r c) of
        None \<Rightarrow> Inl (NodeNotFoundError c)
      | Some reg \<Rightarrow> Inr (reg_node reg))"

definition has_capability :: "'n router \<Rightarrow> string \<Rightarrow> bool" where
  "has_capability r c = (map_of (registrations r) (resolve_capability r c) \<noteq> None)"

definition list_capabilities :: "'n router \<Rightarrow> string list" where
  "list_capabilities r = map fst (registrations r)"

definition get_node :: "'n router \<Rightarrow> string \<Rightarrow> 'n option" where
  "get_node r c = (case resolve r c of Inl _ \<Rightarrow> None | Inr n \<Rightarrow> Some n)"

lemmas router_defs =
  register_def unregister_def add_alias_def resolve_capability_def resolve_registration_def
  resolve_def has_capability_def get_node_def

lemma resolve_has: "has_capability r c \<longleftrightarrow> (\<exists>n. resolve r c = Inr n)"
  by (auto simp: router_defs split: option.splits)

lemma resolve_error: "resolve r c = Inl e \<longleftrightarrow> \<not> has_capability r c \<and> e = NodeNotFoundError c"
  by (auto simp: router_defs split: option.splits)

section \<open>The interface a client relies on\<close>

locale routing =
  fixes reg :: "string \<Rightarrow> 'n \<Rightarrow> 'r \<Rightarrow> 'r"
    and res :: "'r \<Rightarrow> string \<Rightarrow> py_error + 'n"
    and aliased :: "'r \<Rightarrow> string \<Rightarrow> bool"
  assumes res_reg_same: "\<not> aliased r c \<Longrightarrow> res (reg c n r) c = Inr n"
    and res_reg_other: "\<not> aliased r c' \<Longrightarrow> c' \<noteq> c \<Longrightarrow> res (reg c n r) c' = res r c'"
    and aliased_reg: "aliased (reg c n r) c' = aliased r c'"
begin

text \<open>\<open>register_nodes\<close>: registering a list leaves the last node registered under each name.\<close>

definition reg_all :: "(string \<times> 'n) list \<Rightarrow> 'r \<Rightarrow> 'r" where
  "reg_all ns r = fold (\<lambda>(c, n). reg c n) ns r"

lemma reg_all_simps:
  "reg_all [] r = r"
  "reg_all ((c, n) # ns) r = reg_all ns (reg c n r)"
  by (simp_all add: reg_all_def)

lemma reg_all_absent:
  "\<not> aliased r c \<Longrightarrow> c \<notin> fst ` set ns \<Longrightarrow> res (reg_all ns r) c = res r c"
proof (induction ns arbitrary: r)
  case Nil
  then show ?case by (simp add: reg_all_simps)
next
  case (Cons p ns)
  then show ?case by (cases p) (simp add: reg_all_simps aliased_reg res_reg_other)
qed

lemma reg_all_last:
  "\<not> aliased r c \<Longrightarrow> map_of (rev ns) c = Some n \<Longrightarrow> res (reg_all ns r) c = Inr n"
proof (induction ns arbitrary: r)
  case Nil
  then show ?case by simp
next
  case (Cons p ns)
  obtain c' n' where p: "p = (c', n')" by (cases p)
  show ?case
  proof (cases "map_of (rev ns) c")
    case (Some m)
    with Cons p show ?thesis by (simp add: reg_all_simps aliased_reg)
  next
    case None
    with Cons.prems p have "c' = c" "n' = n" by (auto split: if_splits)
    moreover from None have "c \<notin> fst ` set ns" by (simp add: map_of_eq_None_iff)
    ultimately show ?thesis
      using Cons.prems(1) p
      by (simp add: reg_all_simps reg_all_absent aliased_reg res_reg_same)
  qed
qed

end

definition is_alias :: "'n router \<Rightarrow> string \<Rightarrow> bool" where
  "is_alias r c = (map_of (aliases r) c \<noteq> None)"

interpretation rt: routing "\<lambda>c n. register c n 0 []" resolve is_alias
  by unfold_locales (auto simp: router_defs is_alias_def dict_simps split: option.splits)

section \<open>Aliases\<close>

lemma alias_resolves:
  "add_alias a c r = Inr r' \<Longrightarrow> resolve r' a = map_sum (\<lambda>_. NodeNotFoundError a) reg_node
      (case map_of (registrations r) c of None \<Rightarrow> Inl () | Some g \<Rightarrow> Inr g)"
  by (auto simp: router_defs dict_simps split: if_splits option.splits)

lemma unregister_removes:
  "unregister c r = (b, r') \<Longrightarrow> b \<longleftrightarrow>
     map_of (registrations r) c \<noteq> None \<or> map_of (aliases r) c \<noteq> None"
  by (auto simp: unregister_def split: if_splits)

text \<open>
  Note: After \<open>alias(a, c)\<close> succeeds, \<open>a\<close> resolves to the node of \<open>c\<close>; once \<open>c\<close> is
  unregistered the alias dangles, and resolving it raises \<open>NodeNotFoundError\<close> naming the alias.
\<close>

theorem alias_dangles:
  assumes "add_alias a c r = Inr r1" "unregister c r1 = (b, r2)"
  shows "b \<and> resolve r2 a = Inl (NodeNotFoundError a) \<and> is_alias r2 a"
  using assms
  by (auto simp: router_defs is_alias_def dict_simps split: if_splits option.splits)

theorem alias_dangles_witness:
  "resolve (snd (unregister ''c'' (register ''c'' (7 :: nat) 0 [] new_router\<lparr>aliases := [(''a'', ''c'')]\<rparr>))) ''a''
     = Inl (NodeNotFoundError ''a'')"
proof -
  define r where "r = register ''c'' (7 :: nat) 0 [] new_router"
  define r1 where "r1 = r\<lparr>aliases := [(''a'', ''c'')]\<rparr>"
  have "add_alias ''a'' ''c'' r = Inr r1"
    by (simp add: add_alias_def r_def r1_def register_def new_router_def)
  from alias_dangles [OF this, of "fst (unregister ''c'' r1)" "snd (unregister ''c'' r1)"]
  show ?thesis by (simp add: r1_def r_def)
qed

end
