(* ===== verification/Node.thy ===== *)
theory Node
  imports Envelope
begin

text \<open>
  Capability nodes and their execution (\<open>src/prismpipe/core/node.py\<close>): the bounded daemon
  executor as a state machine over futures, the synchronous execution path with its timeout,
  capacity and failure results, the commit of a worker's envelope, and the three node base classes.

  A node's \<open>process\<close> method is a function from the envelope to an outcome. What the scheduler
  decides (did the worker finish in time, was the queue full) is read from a \<open>runtime\<close>, together
  with the clocks and the \<open>:g\<close> float format.
\<close>

section \<open>The bounded executor\<close>

datatype fstate = FPending | FRunning | FDone | FCancelled

record nexec =
  ex_max_workers :: nat
  ex_max_pending :: nat
  ex_queue :: "nat list"
  ex_futures :: "(nat \<times> fstate) list"
  ex_shutdown :: bool

definition new_exec :: "nat \<Rightarrow> nat \<Rightarrow> py_error + nexec" where
  "new_exec workers pending =
     (if workers = 0 \<or> pending = 0
      then Inl (ValueError ''max_workers and max_pending must be positive'')
      else Inr \<lparr>ex_max_workers = workers, ex_max_pending = pending, ex_queue = [],
                ex_futures = [], ex_shutdown = False\<rparr>)"

definition set_future :: "nat \<Rightarrow> fstate \<Rightarrow> nexec \<Rightarrow> nexec" where
  "set_future f s x = x\<lparr>ex_futures := AList.update f s (ex_futures x)\<rparr>"

definition running :: "nexec \<Rightarrow> nat list" where
  "running x = map fst (filter (\<lambda>(f, s). s = FRunning) (ex_futures x))"

text \<open>\<open>submit\<close>: refused after shutdown and when the queue is full.\<close>

definition submit :: "nat \<Rightarrow> nexec \<Rightarrow> py_error + nexec" where
  "submit f x =
     (if ex_shutdown x then Inl (RuntimeError ''Node execution resources are shut down'')
      else if length (ex_queue x) \<ge> ex_max_pending x
      then Inl (CapacityError ''Synchronous node execution capacity exhausted'')
      else Inr ((set_future f FPending x)\<lparr>ex_queue := ex_queue x @ [f]\<rparr>))"

text \<open>\<open>Future.cancel\<close>: only a pending future can be cancelled.\<close>

definition cancel_future :: "nat \<Rightarrow> nexec \<Rightarrow> nexec" where
  "cancel_future f x =
     (if map_of (ex_futures x) f = Some FPending then set_future f FCancelled x else x)"

text \<open>\<open>shutdown\<close>: set the flag, then drain the queue, cancelling each future.\<close>

definition shutdown :: "nexec \<Rightarrow> nexec" where
  "shutdown x = (fold cancel_future (ex_queue x) x)\<lparr>ex_queue := [], ex_shutdown := True\<rparr>"

text \<open>
  One turn of a worker that is not busy: it takes the head of the queue, drops it when it was
  cancelled (or cancels it after shutdown) and otherwise marks it running.
\<close>

definition worker_take :: "nexec \<Rightarrow> nexec" where
  "worker_take x =
     (if length (running x) \<ge> ex_max_workers x then x
      else case ex_queue x of
        [] \<Rightarrow> x
      | f # q \<Rightarrow>
          let y = x\<lparr>ex_queue := q\<rparr>
          in if ex_shutdown x then cancel_future f y
             else if map_of (ex_futures x) f = Some FPending then set_future f FRunning y
             else y)"

definition worker_finish :: "nat \<Rightarrow> nexec \<Rightarrow> nexec" where
  "worker_finish f x =
     (if map_of (ex_futures x) f = Some FRunning then set_future f FDone x else x)"

datatype exec_event = ESubmit nat | ECancel nat | ETake | EFinish nat | EShutdown

fun exec_step :: "exec_event \<Rightarrow> nexec \<Rightarrow> nexec" where
  "exec_step (ESubmit f) x = (case submit f x of Inl _ \<Rightarrow> x | Inr y \<Rightarrow> y)"
| "exec_step (ECancel f) x = cancel_future f x"
| "exec_step ETake x = worker_take x"
| "exec_step (EFinish f) x = worker_finish f x"
| "exec_step EShutdown x = shutdown x"

text \<open>A submitted future is a new object.\<close>

fun exec_ok :: "exec_event \<Rightarrow> nexec \<Rightarrow> bool" where
  "exec_ok (ESubmit f) x = (f \<notin> fst ` set (ex_futures x))"
| "exec_ok _ x = True"

definition exec_inv :: "nexec \<Rightarrow> bool" where
  "exec_inv x \<longleftrightarrow>
     wf_dict (ex_futures x) \<and> distinct (ex_queue x) \<and>
     length (ex_queue x) \<le> ex_max_pending x \<and>
     length (running x) \<le> ex_max_workers x \<and>
     (\<forall>f. map_of (ex_futures x) f = Some FPending \<longrightarrow> f \<in> set (ex_queue x)) \<and>
     (\<forall>f \<in> set (ex_queue x). map_of (ex_futures x) f \<in> {Some FPending, Some FCancelled}) \<and>
     (ex_shutdown x \<longrightarrow> ex_queue x = [])"

lemma set_future_simps [simp]:
  "ex_queue (set_future f s x) = ex_queue x"
  "ex_shutdown (set_future f s x) = ex_shutdown x"
  "ex_max_pending (set_future f s x) = ex_max_pending x"
  "ex_max_workers (set_future f s x) = ex_max_workers x"
  "map_of (ex_futures (set_future f s x)) = (map_of (ex_futures x))(f \<mapsto> s)"
  "wf_dict (ex_futures x) \<Longrightarrow> wf_dict (ex_futures (set_future f s x))"
  by (simp_all add: set_future_def dict_simps)

lemma running_queue [simp]: "running (x\<lparr>ex_queue := q\<rparr>) = running x"
  by (simp add: running_def)

lemma running_update_count:
  "wf_dict d \<Longrightarrow>
     length (filter (\<lambda>(f, s). s = FRunning) (AList.update f t d)) \<le>
     length (filter (\<lambda>(f, s). s = FRunning) d) + (if t = FRunning then 1 else 0)"
  by (induction d) auto

lemma running_set_future:
  "wf_dict (ex_futures x) \<Longrightarrow>
     length (running (set_future f t x)) \<le> length (running x) + (if t = FRunning then 1 else 0)"
  by (simp add: running_def set_future_def running_update_count)

lemma cancel_simps [simp]:
  "ex_queue (cancel_future f x) = ex_queue x"
  "ex_shutdown (cancel_future f x) = ex_shutdown x"
  "ex_max_pending (cancel_future f x) = ex_max_pending x"
  "ex_max_workers (cancel_future f x) = ex_max_workers x"
  "wf_dict (ex_futures x) \<Longrightarrow> wf_dict (ex_futures (cancel_future f x))"
  by (simp_all add: cancel_future_def)

lemma cancel_running:
  "wf_dict (ex_futures x) \<Longrightarrow> length (running (cancel_future f x)) \<le> length (running x)"
  using running_set_future [of x f FCancelled] by (simp add: cancel_future_def)

lemma cancel_pending:
  "map_of (ex_futures (cancel_future f x)) g = Some FPending \<longleftrightarrow>
     g \<noteq> f \<and> map_of (ex_futures x) g = Some FPending"
  by (auto simp: cancel_future_def)

lemma fold_cancel:
  "wf_dict (ex_futures x) \<Longrightarrow>
     wf_dict (ex_futures (fold cancel_future fs x)) \<and>
     length (running (fold cancel_future fs x)) \<le> length (running x) \<and>
     ex_max_workers (fold cancel_future fs x) = ex_max_workers x \<and>
     ex_max_pending (fold cancel_future fs x) = ex_max_pending x \<and>
     (\<forall>g. map_of (ex_futures (fold cancel_future fs x)) g = Some FPending \<longleftrightarrow>
        g \<notin> set fs \<and> map_of (ex_futures x) g = Some FPending)"
proof (induction fs arbitrary: x)
  case Nil
  then show ?case by simp
next
  case (Cons f fs)
  then have "wf_dict (ex_futures (cancel_future f x))" by simp
  from Cons.IH [OF this] cancel_running [OF Cons.prems, of f] show ?case
    by (auto simp: cancel_pending)
qed

lemma exec_inv_shutdown: "exec_inv x \<Longrightarrow> exec_inv (shutdown x)"
  using fold_cancel [of x "ex_queue x"]
  by (auto simp: exec_inv_def shutdown_def running_def)

lemma exec_inv_submit: "exec_inv x \<Longrightarrow> f \<notin> fst ` set (ex_futures x) \<Longrightarrow> submit f x = Inr y \<Longrightarrow> exec_inv y"
  using running_set_future [of x f FPending]
  by (fastforce simp: exec_inv_def submit_def map_of_keys split: if_splits)

lemma exec_inv_cancel: "exec_inv x \<Longrightarrow> exec_inv (cancel_future f x)"
  using cancel_running [of x f]
  by (auto simp: exec_inv_def cancel_future_def split: if_splits)

lemma exec_inv_finish: "exec_inv x \<Longrightarrow> exec_inv (worker_finish f x)"
  using running_set_future [of x f FDone]
  by (auto simp: exec_inv_def worker_finish_def split: if_splits)

lemma exec_inv_take: "exec_inv x \<Longrightarrow> exec_inv (worker_take x)"
proof (cases "length (running x) \<ge> ex_max_workers x \<or> ex_queue x = []")
  case True
  then show "exec_inv x \<Longrightarrow> ?thesis" by (auto simp: worker_take_def)
next
  case False
  then obtain f q where q: "ex_queue x = f # q" by (cases "ex_queue x") auto
  let ?y = "x\<lparr>ex_queue := q\<rparr>"
  assume inv: "exec_inv x"
  with q have run: "length (running (set_future f FRunning ?y)) \<le> Suc (length (running x))"
    using running_set_future [of ?y f FRunning] by (simp add: exec_inv_def)
  from inv q have "\<not> ex_shutdown x" by (auto simp: exec_inv_def)
  with False q run inv show ?thesis
    by (auto simp: exec_inv_def worker_take_def Let_def split: if_splits)
qed

interpretation nexec: invariant_machine exec_step exec_ok exec_inv
proof
  fix s e
  assume inv: "exec_inv s" and ok: "exec_ok e s"
  show "exec_inv (exec_step e s)"
  proof (cases e)
    case (ESubmit f)
    with inv ok show ?thesis by (auto split: sum.splits intro: exec_inv_submit)
  qed (use inv in \<open>auto intro: exec_inv_cancel exec_inv_take exec_inv_finish exec_inv_shutdown\<close>)
qed

lemma exec_inv_new: "new_exec w p = Inr x \<Longrightarrow> exec_inv x"
  by (auto simp: new_exec_def exec_inv_def running_def split: if_splits)



section \<open>Nodes and their results\<close>

record node_result =
  res_envelope :: envelope
  res_success :: bool
  res_error :: "string option"
  res_metadata :: "string pdict"

text \<open>
  What a call of \<open>process\<close> does: it returns a result, or raises an exception (its type name and
  message) after whatever it had already written into the envelope.
\<close>

datatype outcome = Returned node_result | Raised envelope string string

record node =
  nd_id :: string
  nd_type :: string
  nd_capability :: string
  nd_timeout_ms :: "rat option"
  nd_offload :: bool
  nd_process :: "envelope \<Rightarrow> outcome"

datatype worker = WDone | WTimeout | WFull | WShutdown

record runtime =
  rt_mono :: "nat \<Rightarrow> rat"
  rt_wall :: "nat \<Rightarrow> rat"
  rt_dur :: "nat \<Rightarrow> rat"
  rt_worker :: "nat \<Rightarrow> worker"
  rt_fmt :: "rat \<Rightarrow> string"

definition ok_result :: "envelope \<Rightarrow> node_result" where
  "ok_result e = \<lparr>res_envelope = e, res_success = True, res_error = None, res_metadata = []\<rparr>"

definition show_opt :: "string option \<Rightarrow> string" where
  "show_opt x = (case x of None \<Rightarrow> ''None'' | Some s \<Rightarrow> s)"

definition action_description :: "node_result \<Rightarrow> string" where
  "action_description r =
     (if \<not> res_success r then ''failed: '' @ show_opt (res_error r)
      else case map_of (res_metadata r) ''action'' of Some a \<Rightarrow> a | None \<Rightarrow> ''completed'')"

definition finalize_result :: "runtime \<Rightarrow> nat \<Rightarrow> node \<Rightarrow> node_result \<Rightarrow> node_result" where
  "finalize_result rt t nd r =
     (let e = env_record (nd_id nd) (nd_type nd) (nd_capability nd) (action_description r)
                (Some (rt_dur rt t)) (rt_wall rt t) (res_envelope r)
      in r\<lparr>res_envelope := (if res_success r then e else e\<lparr>env_error := res_error r\<rparr>)\<rparr>)"

definition failure_result ::
    "runtime \<Rightarrow> nat \<Rightarrow> node \<Rightarrow> envelope \<Rightarrow> string \<Rightarrow> string \<Rightarrow> node_result" where
  "failure_result rt t nd e ty msg =
     \<lparr>res_envelope = env_terminate (Some msg)
        (env_record (nd_id nd) (nd_type nd) (nd_capability nd) (''error: '' @ ty)
           (Some (rt_dur rt t)) (rt_wall rt t) e),
      res_success = False, res_error = Some msg, res_metadata = []\<rparr>"

definition execute_sync :: "runtime \<Rightarrow> nat \<Rightarrow> node \<Rightarrow> envelope \<Rightarrow> node_result" where
  "execute_sync rt t nd e =
     (case nd_process nd e of
        Returned r \<Rightarrow> finalize_result rt t nd r
      | Raised e' ty msg \<Rightarrow> failure_result rt t nd e' ty msg)"

definition capacity_message :: string where
  "capacity_message = ''Synchronous node execution capacity exhausted''"

definition capacity_result :: "runtime \<Rightarrow> nat \<Rightarrow> node \<Rightarrow> envelope \<Rightarrow> node_result" where
  "capacity_result rt t nd e =
     \<lparr>res_envelope = env_terminate (Some capacity_message)
        (env_record (nd_id nd) (nd_type nd) (nd_capability nd) ''capacity_exhausted''
           (Some 0) (rt_wall rt t) e),
      res_success = False, res_error = Some capacity_message, res_metadata = []\<rparr>"

definition timeout_message :: "runtime \<Rightarrow> node \<Rightarrow> rat \<Rightarrow> string" where
  "timeout_message rt nd s =
     ''Node '' @ [CHR 39] @ nd_capability nd @ [CHR 39] @ '' timed out after '' @ rt_fmt rt s @ ''s''"

definition timeout_result :: "runtime \<Rightarrow> nat \<Rightarrow> node \<Rightarrow> envelope \<Rightarrow> rat \<Rightarrow> node_result" where
  "timeout_result rt t nd e s =
     (let msg = timeout_message rt nd s
      in \<lparr>res_envelope = env_terminate (Some msg)
            (env_record (nd_id nd) (nd_type nd) (nd_capability nd) ''timeout''
               (Some (max s 0 * 1000)) (rt_wall rt t) e),
          res_success = False, res_error = Some msg, res_metadata = []\<rparr>)"

text \<open>\<open>_effective_timeout\<close>: the least of the caller's deadline and the node's own timeout.\<close>

definition effective_timeout :: "node \<Rightarrow> rat option \<Rightarrow> rat option" where
  "effective_timeout nd s =
     (case (s, map_option (\<lambda>ms. ms / 1000) (nd_timeout_ms nd)) of
        (None, x) \<Rightarrow> x
      | (Some a, None) \<Rightarrow> Some a
      | (Some a, Some b) \<Rightarrow> Some (min a b))"

text \<open>\<open>commit_envelope\<close>: every declared field of the source is copied into the target.\<close>

definition commit_envelope :: "envelope \<Rightarrow> envelope \<Rightarrow> envelope" where
  "commit_envelope target source =
     target\<lparr>env_id := env_id source, env_intent := env_intent source,
            env_input := env_input source, env_state := env_state source,
            env_history := env_history source, env_metadata := env_metadata source,
            env_plan := env_plan source, env_next := env_next source,
            env_error := env_error source, env_terminated := env_terminated source,
            env_parent_id := env_parent_id source\<rparr>"

lemma commit_envelope_source [simp]: "commit_envelope target source = source"
  by (cases source) (simp add: commit_envelope_def)

definition commit_completed :: "envelope \<Rightarrow> node_result \<Rightarrow> node_result" where
  "commit_completed e r = r\<lparr>res_envelope := commit_envelope e (res_envelope r)\<rparr>"

lemma commit_completed_id [simp]: "commit_completed e r = r"
  by (simp add: commit_completed_def)

definition execute_with_timeout ::
    "runtime \<Rightarrow> nat \<Rightarrow> node \<Rightarrow> envelope \<Rightarrow> rat option \<Rightarrow> py_error + node_result" where
  "execute_with_timeout rt t nd e s =
     (case effective_timeout nd s of
        None \<Rightarrow> Inr (commit_completed e (execute_sync rt t nd e))
      | Some eff \<Rightarrow>
          if eff \<le> 0 then Inr (timeout_result rt t nd e eff)
          else case rt_worker rt t of
            WShutdown \<Rightarrow> Inl (RuntimeError ''Node execution resources are shut down'')
          | WFull \<Rightarrow> Inr (capacity_result rt t nd e)
          | WTimeout \<Rightarrow> Inr (timeout_result rt t nd e eff)
          | WDone \<Rightarrow> Inr (commit_completed e (execute_sync rt t nd e)))"

definition node_execute :: "runtime \<Rightarrow> nat \<Rightarrow> node \<Rightarrow> envelope \<Rightarrow> py_error + node_result" where
  "node_execute rt t nd e =
     execute_with_timeout rt t nd e (map_option (\<lambda>ms. ms / 1000) (nd_timeout_ms nd))"

lemmas node_defs =
  execute_sync_def finalize_result_def failure_result_def capacity_result_def timeout_result_def
  execute_with_timeout_def node_execute_def

text \<open>A result that is not a success always carries the failure in its envelope's history.\<close>

lemma timeout_keeps_state [simp]:
  "env_state (res_envelope (timeout_result rt t nd e s)) = env_state e"
  "env_next (res_envelope (timeout_result rt t nd e s)) = env_next e"
  "env_terminated (res_envelope (timeout_result rt t nd e s))"
  "res_success (timeout_result rt t nd e s) = False"
  by (simp_all add: timeout_result_def Let_def)

lemma capacity_keeps_state [simp]:
  "env_state (res_envelope (capacity_result rt t nd e)) = env_state e"
  "env_next (res_envelope (capacity_result rt t nd e)) = env_next e"
  "env_terminated (res_envelope (capacity_result rt t nd e))"
  "res_success (capacity_result rt t nd e) = False"
  by (simp_all add: capacity_result_def)

text \<open>
  Note: A node that gets no time, whose worker is late or for which no worker is free never touches the
  caller's request: the caller keeps its input, state, plan and next hop, the request is terminated
  with the error that is returned, and exactly one history entry of the node is added.
\<close>

theorem late_node_leaves_request:
  assumes "effective_timeout nd s = Some eff" "eff \<le> 0 \<or> rt_worker rt t \<in> {WTimeout, WFull}"
  shows "\<exists>res h. execute_with_timeout rt t nd e s = Inr res \<and> \<not> res_success res \<and>
    res_error res \<noteq> None \<and> env_error (res_envelope res) = res_error res \<and>
    env_terminated (res_envelope res) \<and> env_history (res_envelope res) = env_history e @ [h] \<and>
    he_capability h = nd_capability nd \<and> he_duration_ms h \<noteq> None \<and>
    (res_envelope res)\<lparr>env_history := env_history e, env_error := env_error e,
       env_terminated := env_terminated e\<rparr> = e"
  using assms
  by (auto simp: node_defs Let_def env_record_def env_terminate_def timeout_message_def
      capacity_message_def)

theorem late_node_leaves_request_witness:
  "\<exists>res. execute_with_timeout \<lparr>rt_mono = \<lambda>_. 0, rt_wall = \<lambda>_. 0, rt_dur = \<lambda>_. 0, rt_worker = \<lambda>_. WTimeout,
       rt_fmt = \<lambda>_. ''1''\<rparr> 0
     \<lparr>nd_id = ''n'', nd_type = ''N'', nd_capability = ''slow'', nd_timeout_ms = Some 1000,
        nd_offload = True, nd_process = \<lambda>e. Returned (ok_result (set_next (Some ''x'') e))\<rparr>
     (demo_env None) (Some 2) = Inr res \<and>
     env_next (res_envelope res) = None"
proof -
  define rt where "rt = \<lparr>rt_mono = \<lambda>_. 0, rt_wall = \<lambda>_. 0, rt_dur = \<lambda>_. 0, rt_worker = \<lambda>_. WTimeout,
       rt_fmt = \<lambda>_. ''1''\<rparr>"
  define nd where "nd = \<lparr>nd_id = ''n'', nd_type = ''N'', nd_capability = ''slow'', nd_timeout_ms = Some 1000,
        nd_offload = True, nd_process = \<lambda>e. Returned (ok_result (set_next (Some ''x'') e))\<rparr>"
  define e where "e = demo_env None"
  have eff: "effective_timeout nd (Some 2) = Some 1" by (simp add: effective_timeout_def nd_def)
  have late: "1 \<le> (0::rat) \<or> rt_worker rt 0 \<in> {WTimeout, WFull}" by (simp add: rt_def)
  from late_node_leaves_request [OF eff late, of e] obtain res where
    "execute_with_timeout rt 0 nd e (Some 2) = Inr res"
    "(res_envelope res)\<lparr>env_history := env_history e, env_error := env_error e,
       env_terminated := env_terminated e\<rparr> = e" by blast
  moreover from this(2) have "env_next (res_envelope res) = env_next e"
    by (metis envelope.select_convs(8) envelope.surjective envelope.update_convs(5,9,10))
  ultimately show ?thesis by (auto simp: rt_def nd_def e_def demo_env_def)
qed

section \<open>Node base classes\<close>

text \<open>\<open>TransformNode\<close>, \<open>EnrichmentNode\<close>, \<open>ValidationNode\<close>: the abstract method is a parameter.\<close>

definition set_state :: "string \<Rightarrow> pval \<Rightarrow> envelope \<Rightarrow> envelope" where
  "set_state k v e = e\<lparr>env_state := AList.update k v (env_state e)\<rparr>"

definition transform_process :: "(pval \<Rightarrow> dict \<Rightarrow> pval) \<Rightarrow> envelope \<Rightarrow> outcome" where
  "transform_process transform e =
     Returned (ok_result (set_state ''transformed'' (transform (env_input e) (env_state e)) e))"

definition enrich_process :: "(pval \<Rightarrow> dict \<Rightarrow> dict) \<Rightarrow> envelope \<Rightarrow> outcome" where
  "enrich_process enrich e =
     Returned (ok_result
       (e\<lparr>env_state := dict_update (env_state e) (enrich (env_input e) (env_state e))\<rparr>))"

definition validate_process :: "(pval \<Rightarrow> dict \<Rightarrow> string list) \<Rightarrow> envelope \<Rightarrow> outcome" where
  "validate_process validate e =
     (let errors = validate (env_input e) (env_state e)
      in if errors \<noteq> []
         then Returned \<lparr>res_envelope =
                  env_terminate (Some (''Validation failed: '' @ join '', '' errors)) e,
                res_success = False, res_error = Some (join '', '' errors), res_metadata = []\<rparr>
         else Returned (ok_result (set_state ''validation_passed'' (PBool True) e)))"

text \<open>A concrete node and runtime for examples.\<close>

definition demo_node :: "string \<Rightarrow> string \<Rightarrow> string option \<Rightarrow> node" where
  "demo_node i c nxt = \<lparr>nd_id = i, nd_type = ''Demo'', nd_capability = c, nd_timeout_ms = None,
     nd_offload = False, nd_process = (\<lambda>e. Returned (ok_result (set_next nxt e)))\<rparr>"

definition demo_runtime :: runtime where
  "demo_runtime = \<lparr>rt_mono = (\<lambda>n. of_nat n), rt_wall = (\<lambda>_. 0), rt_dur = (\<lambda>_. 1),
     rt_worker = (\<lambda>_. WDone), rt_fmt = (\<lambda>_. ''1'')\<rparr>"

end
