(* ===== verification/Errors.thy ===== *)
theory Errors
  imports Prism_Prelude
begin

text \<open>
  The text of exceptions: \<open>str(error)\<close>, and the code, message and details of the library's own
  exceptions (\<open>src/prismpipe/exceptions.py\<close>). How a float is printed is an argument.
\<close>

definition quoted :: "string \<Rightarrow> string" where
  "quoted s = [CHR 39] @ s @ [CHR 39]"

fun error_code :: "prism_error \<Rightarrow> string" where
  "error_code (CapabilityNotFound c) = ''NODE_NOT_FOUND''"
| "error_code (NodeExecutionError n m c) = ''NODE_EXECUTION_ERROR''"
| "error_code (CapabilityAccessDenied c r) = ''ACCESS_DENIED''"
| "error_code (RequestTimeoutError i s) = ''REQUEST_TIMEOUT''"
| "error_code (CircuitOpenError c) = ''CIRCUIT_OPEN''"
| "error_code (RateLimitError c l) = ''RATE_LIMIT_EXCEEDED''"
| "error_code (ValidationError es) = ''VALIDATION_ERROR''"
| "error_code (StorageError op r) = ''STORAGE_ERROR''"

fun error_message :: "(rat \<Rightarrow> string) \<Rightarrow> prism_error \<Rightarrow> string" where
  "error_message fmt (CapabilityNotFound c) = ''Capability '' @ quoted c @ '' not found''"
| "error_message fmt (NodeExecutionError n m c) = ''Node '' @ quoted n @ '' failed: '' @ m"
| "error_message fmt (CapabilityAccessDenied c r) =
     ''Access denied to capability '' @ quoted c @ '': '' @ r"
| "error_message fmt (RequestTimeoutError i s) =
     ''Request '' @ quoted i @ '' timed out after '' @ fmt s @ ''s''"
| "error_message fmt (CircuitOpenError c) = ''Circuit breaker is open for capability '' @ quoted c"
| "error_message fmt (RateLimitError c l) = ''Rate limit exceeded for capability '' @ quoted c"
| "error_message fmt (ValidationError es) = ''Request validation failed''"
| "error_message fmt (StorageError op r) = ''Storage operation '' @ quoted op @ '' failed: '' @ r"

fun error_details :: "prism_error \<Rightarrow> dict" where
  "error_details (CapabilityNotFound c) = [(''capability'', PStr c)]"
| "error_details (NodeExecutionError n m c) =
     (case c of
        None \<Rightarrow> [(''node'', PStr n)]
      | Some cause \<Rightarrow> [(''node'', PStr n), (''cause'', PStr cause)])"
| "error_details (CapabilityAccessDenied c r) = [(''capability'', PStr c), (''reason'', PStr r)]"
| "error_details (RequestTimeoutError i s) =
     [(''request_id'', PStr i), (''timeout_seconds'', PFloat (Fin s))]"
| "error_details (CircuitOpenError c) = [(''capability'', PStr c), (''retry_after'', PInt 60)]"
| "error_details (RateLimitError c l) = [(''capability'', PStr c), (''limit'', PFloat (Fin l))]"
| "error_details (ValidationError es) = [(''errors'', PList es)]"
| "error_details (StorageError op r) = [(''operation'', PStr op), (''reason'', PStr r)]"

text \<open>\<open>PrismPipeError.to_dict\<close>.\<close>

definition error_to_dict :: "(rat \<Rightarrow> string) \<Rightarrow> prism_error \<Rightarrow> dict" where
  "error_to_dict fmt e =
     [(''error'', PStr (error_code e)), (''message'', PStr (error_message fmt e)),
      (''details'', PDict (error_details e))]"

text \<open>\<open>str(error)\<close>; a \<open>KeyError\<close> prints the representation of its key.\<close>

fun exn_str :: "(rat \<Rightarrow> string) \<Rightarrow> py_error \<Rightarrow> string" where
  "exn_str fmt (NodeNotFoundError c) = ''No node registered for capability: '' @ c"
| "exn_str fmt (KeyError m) = quoted m"
| "exn_str fmt (ValueError m) = m"
| "exn_str fmt (RuntimeError m) = m"
| "exn_str fmt (CapacityError m) = m"
| "exn_str fmt (TypeError m) = m"
| "exn_str fmt (NameError m) = m"
| "exn_str fmt (PrismError e) = error_message fmt e"
| "exn_str fmt (OtherError ty m) = m"


end
