(* ===== verification/Pipeline.thy ===== *)
theory Pipeline
  imports Node Router Errors
begin

text \<open>
  The synchronous pipeline engine of \<open>src/prismpipe/core/pipeline.py\<close>. Hooks are functions on the
  envelope (what a callback does to it; an exception it raises is logged and dropped). Every reading
  of the monotonic clock advances the tick of the run, so the deadline checks happen in the order
  of the code. The loop ends because each round counts one iteration and stops above the maximum.
\<close>

type_synonym hook = "node option \<Rightarrow> node_result option \<Rightarrow> envelope \<Rightarrow> envelope"

record pipe_config =
  pc_max_iterations :: int
  pc_timeout_seconds :: "rat option"
  pc_continue_on_error :: bool
  pc_enable_history :: bool

record hooks =
  hk_before_node :: "hook list"
  hk_after_node :: "hook list"
  hk_before_execute :: "hook list"
  hk_after_execute :: "hook list"
  hk_on_error :: "hook list"

definition no_hooks :: hooks where
  "no_hooks = \<lparr>hk_before_node = [], hk_after_node = [], hk_before_execute = [],
               hk_after_execute = [], hk_on_error = []\<rparr>"

text \<open>\<open>Pipeline.hook\<close>: an unknown event name is a \<open>ValueError\<close>.\<close>

definition add_hook :: "string \<Rightarrow> hook \<Rightarrow> hooks \<Rightarrow> py_error + hooks" where
  "add_hook event cb h =
     (if event = ''before_node'' then Inr (h\<lparr>hk_before_node := hk_before_node h @ [cb]\<rparr>)
      else if event = ''after_node'' then Inr (h\<lparr>hk_after_node := hk_after_node h @ [cb]\<rparr>)
      else if event = ''before_execute''
        then Inr (h\<lparr>hk_before_execute := hk_before_execute h @ [cb]\<rparr>)
      else if event = ''after_execute''
        then Inr (h\<lparr>hk_after_execute := hk_after_execute h @ [cb]\<rparr>)
      else if event = ''on_error'' then Inr (h\<lparr>hk_on_error := hk_on_error h @ [cb]\<rparr>)
      else Inl (ValueError (''Unknown hook event: '' @ event)))"

text \<open>\<open>register_node\<close>: a node without a capability is refused.\<close>

definition register_node :: "node \<Rightarrow> node router \<Rightarrow> py_error + node router" where
  "register_node nd r =
     (if nd_capability nd = []
      then Inl (ValueError (''Node '' @ nd_type nd @ '' has no capability defined''))
      else Inr (register (nd_capability nd) nd 0 [] r))"

fun register_nodes :: "node list \<Rightarrow> node router \<Rightarrow> py_error + node router" where
  "register_nodes [] r = Inr r"
| "register_nodes (nd # nds) r =
     (case register_node nd r of Inl e \<Rightarrow> Inl e | Inr r' \<Rightarrow> register_nodes nds r')"

definition run_hook ::
    "hook list \<Rightarrow> node option \<Rightarrow> node_result option \<Rightarrow> envelope \<Rightarrow> envelope" where
  "run_hook cbs nd res e = fold (\<lambda>cb. cb nd res) cbs e"

record pipe_state =
  ps_env :: envelope
  ps_iterations :: int
  ps_nodes :: "string list"
  ps_errors :: "string list"
  ps_tick :: nat

record pipe_result =
  pr_envelope :: envelope
  pr_success :: bool
  pr_error :: "string option"
  pr_iterations :: int
  pr_nodes :: "string list"
  pr_errors :: "string list"

definition add_error :: "string \<Rightarrow> pipe_state \<Rightarrow> pipe_state" where
  "add_error m s = s\<lparr>ps_errors := ps_errors s @ [m]\<rparr>"

definition on_env :: "(envelope \<Rightarrow> envelope) \<Rightarrow> pipe_state \<Rightarrow> pipe_state" where
  "on_env f s = s\<lparr>ps_env := f (ps_env s)\<rparr>"

definition pipe_timeout_message :: "runtime \<Rightarrow> pipe_config \<Rightarrow> string" where
  "pipe_timeout_message rt cfg =
     ''Pipeline timed out after '' @
     (case pc_timeout_seconds cfg of Some s \<Rightarrow> rt_fmt rt s | None \<Rightarrow> []) @ ''s''"

text \<open>\<open>_deadline\<close> reads the clock once when a timeout is configured.\<close>

definition pipe_deadline :: "runtime \<Rightarrow> pipe_config \<Rightarrow> nat \<Rightarrow> rat option \<times> nat" where
  "pipe_deadline rt cfg t =
     (case pc_timeout_seconds cfg of
        None \<Rightarrow> (None, t)
      | Some s \<Rightarrow> (Some (rt_mono rt t + max s 0), t + 1))"

text \<open>\<open>_enforce_deadline\<close>: \<open>True\<close> when the deadline has passed; the error is recorded once.\<close>

definition enforce_deadline ::
    "runtime \<Rightarrow> pipe_config \<Rightarrow> rat option \<Rightarrow> pipe_state \<Rightarrow> bool \<times> pipe_state" where
  "enforce_deadline rt cfg deadline s =
     (case deadline of
        None \<Rightarrow> (False, s)
      | Some d \<Rightarrow>
          let s1 = s\<lparr>ps_tick := ps_tick s + 1\<rparr>
          in if rt_mono rt (ps_tick s) < d then (False, s1)
             else let msg = pipe_timeout_message rt cfg;
                      s2 = on_env (env_terminate (Some msg)) s1
                  in (True, if msg \<in> set (ps_errors s2) then s2 else add_error msg s2))"

definition remaining_timeout ::
    "runtime \<Rightarrow> rat option \<Rightarrow> pipe_state \<Rightarrow> rat option \<times> pipe_state" where
  "remaining_timeout rt deadline s =
     (case deadline of
        None \<Rightarrow> (None, s)
      | Some d \<Rightarrow> (Some (d - rt_mono rt (ps_tick s)), s\<lparr>ps_tick := ps_tick s + 1\<rparr>))"

definition max_iter_message :: "pipe_config \<Rightarrow> string" where
  "max_iter_message cfg =
     ''Max iterations ('' @ show_int (pc_max_iterations cfg) @ '') exceeded''"

datatype pipe_ctl = Break pipe_state | Continue pipe_state | Raise pipe_state py_error

text \<open>The part of the loop body after the node has been resolved.\<close>

definition pipe_call ::
    "runtime \<Rightarrow> pipe_config \<Rightarrow> hooks \<Rightarrow> rat option \<Rightarrow> node \<Rightarrow> pipe_state \<Rightarrow> pipe_ctl" where
  "pipe_call rt cfg h deadline nd s =
     (let (late, s1) = enforce_deadline rt cfg deadline s
      in if late then Break s1 else
      let (late, s2) = enforce_deadline rt cfg deadline
             (on_env (run_hook (hk_before_node h) (Some nd) None) s1)
      in if late then Break s2 else
      let (remaining, s3) = remaining_timeout rt deadline s2
      in if remaining \<noteq> None \<and> the remaining \<le> 0
         then Break (snd (enforce_deadline rt cfg deadline s3)) else
      case execute_with_timeout rt (ps_tick s3) nd (ps_env s3) remaining of
        Inl err \<Rightarrow> Raise s3 err
      | Inr res \<Rightarrow>
          let (late, s4) = enforce_deadline rt cfg deadline
                (s3\<lparr>ps_env := res_envelope res, ps_nodes := ps_nodes s3 @ [nd_id nd]\<rparr>)
          in if late then Break s4 else
          let (late, s5) = enforce_deadline rt cfg deadline
                (on_env (run_hook (hk_after_node h) (Some nd) (Some res)) s4)
          in if late then Break s5 else
          if res_success res then Continue s5
          else if pc_continue_on_error cfg
          then Continue (add_error (or_str (res_error res) ''Unknown error'') s5)
          else Break (add_error (or_str (res_error res) ''Unknown error'')
                        (on_env (env_terminate (res_error res)) s5)))"

definition pipe_step ::
    "runtime \<Rightarrow> pipe_config \<Rightarrow> hooks \<Rightarrow> node router \<Rightarrow> rat option \<Rightarrow> pipe_state \<Rightarrow> pipe_ctl" where
  "pipe_step rt cfg h r deadline s =
     (let (late, s1) = enforce_deadline rt cfg deadline s
      in if late then Break s1 else
      let s2 = s1\<lparr>ps_iterations := ps_iterations s1 + 1\<rparr>
      in if ps_iterations s2 > pc_max_iterations cfg
         then Break (on_env (env_terminate (Some (max_iter_message cfg))) s2) else
      case get_capability (ps_env s2) of
        None \<Rightarrow> Break s2
      | Some c \<Rightarrow>
          if c = [] then Break s2 else
          case resolve r c of
            Inl err \<Rightarrow>
              Break (add_error (exn_str (rt_fmt rt) err) (on_env (env_terminate (Some (exn_str (rt_fmt rt) err))) s2))
          | Inr nd \<Rightarrow> pipe_call rt cfg h deadline nd s2)"

lemma on_env_keeps [simp]:
  "ps_iterations (on_env f s) = ps_iterations s"
  "ps_nodes (on_env f s) = ps_nodes s"
  "ps_errors (on_env f s) = ps_errors s"
  "ps_tick (on_env f s) = ps_tick s"
  "ps_env (on_env f s) = f (ps_env s)"
  "ps_iterations (add_error m s) = ps_iterations s"
  "ps_nodes (add_error m s) = ps_nodes s"
  "ps_env (add_error m s) = ps_env s"
  "ps_tick (add_error m s) = ps_tick s"
  "ps_errors (add_error m s) = ps_errors s @ [m]"
  by (simp_all add: on_env_def add_error_def)

lemma enforce_keeps [simp]:
  "ps_iterations (snd (enforce_deadline rt cfg d s)) = ps_iterations s"
  "ps_nodes (snd (enforce_deadline rt cfg d s)) = ps_nodes s"
  by (simp_all add: enforce_deadline_def Let_def split: option.split)

lemma remaining_keeps [simp]:
  "ps_iterations (snd (remaining_timeout rt d s)) = ps_iterations s"
  "ps_nodes (snd (remaining_timeout rt d s)) = ps_nodes s"
  "ps_env (snd (remaining_timeout rt d s)) = ps_env s"
  by (simp_all add: remaining_timeout_def split: option.split)

fun ctl_state :: "pipe_ctl \<Rightarrow> pipe_state" where
  "ctl_state (Break s) = s"
| "ctl_state (Continue s) = s"
| "ctl_state (Raise s e) = s"

lemma pipe_call_iterations:
  "ps_iterations (ctl_state (pipe_call rt cfg h d nd s)) = ps_iterations s"
  by (simp add: pipe_call_def Let_def case_prod_beta split: sum.split)

lemma pipe_call_nodes:
  "length (ps_nodes s) = n \<Longrightarrow> length (ps_nodes (ctl_state (pipe_call rt cfg h d nd s))) \<le> Suc n"
  by (simp add: pipe_call_def Let_def case_prod_beta split: sum.split)

lemma pipe_step_iterations:
  "ps_iterations (ctl_state (pipe_step rt cfg h r d s)) \<le> ps_iterations s + 1"
  by (simp add: pipe_step_def Let_def case_prod_beta pipe_call_iterations
      split: sum.split option.split)

lemma pipe_step_nodes:
  "length (ps_nodes (ctl_state (pipe_step rt cfg h r d s))) \<le>
     length (ps_nodes s) + (if ps_iterations s + 1 > pc_max_iterations cfg then 0 else 1)"
  by (auto simp: pipe_step_def Let_def case_prod_beta intro!: pipe_call_nodes
      split: sum.split option.split)

lemma pipe_step_continue:
  assumes "pipe_step rt cfg h r d s = Continue s'"
  shows "ps_iterations s' = ps_iterations s + 1 \<and> ps_iterations s' \<le> pc_max_iterations cfg"
proof -
  let ?s2 = "(snd (enforce_deadline rt cfg d s))\<lparr>ps_iterations := ps_iterations s + 1\<rparr>"
  from assms obtain nd where call: "pipe_call rt cfg h d nd ?s2 = Continue s'"
    and le: "ps_iterations s + 1 \<le> pc_max_iterations cfg"
    by (auto simp: pipe_step_def Let_def case_prod_beta split: if_splits sum.splits option.splits)
  from call pipe_call_iterations [of rt cfg h d nd ?s2] le show ?thesis by simp
qed

function pipe_loop ::
    "runtime \<Rightarrow> pipe_config \<Rightarrow> hooks \<Rightarrow> node router \<Rightarrow> rat option \<Rightarrow> pipe_state
       \<Rightarrow> pipe_state \<times> py_error option" where
  "pipe_loop rt cfg h r d s =
     (if truthy_opt (env_next (ps_env s)) \<and> \<not> env_terminated (ps_env s)
      then (case pipe_step rt cfg h r d s of
              Break s' \<Rightarrow> (s', None)
            | Raise s' e \<Rightarrow> (s', Some e)
            | Continue s' \<Rightarrow> pipe_loop rt cfg h r d s')
      else (s, None))"
  by pat_completeness auto
termination
  by (relation "measure (\<lambda>(rt, cfg, h, r, d, s). nat (pc_max_iterations cfg + 1 - ps_iterations s))")
    (auto dest: pipe_step_continue)

declare pipe_loop.simps [simp del]

text \<open>\<open>Pipeline.execute\<close>.\<close>

definition pipe_start :: "pipe_config \<Rightarrow> envelope \<Rightarrow> envelope" where
  "pipe_start cfg e =
     (if env_next e = None \<and> pc_enable_history cfg \<and> env_history e \<noteq> []
      then e\<lparr>env_next := Some (he_capability (last (env_history e)))\<rparr> else e)"

definition pipe_execute ::
    "runtime \<Rightarrow> pipe_config \<Rightarrow> hooks \<Rightarrow> node router \<Rightarrow> envelope \<Rightarrow> pipe_result" where
  "pipe_execute rt cfg h r e =
     (let (d, t) = pipe_deadline rt cfg 0;
          s0 = \<lparr>ps_env = run_hook (hk_before_execute h) None None (pipe_start cfg e),
                ps_iterations = 0, ps_nodes = [], ps_errors = [], ps_tick = t\<rparr>;
          (s1, exn) = pipe_loop rt cfg h r d s0;
          s2 = (case exn of
                  None \<Rightarrow> s1
                | Some err \<Rightarrow>
                    on_env (run_hook (hk_on_error h) None None)
                      (add_error (exn_str (rt_fmt rt) err)
                        (on_env (env_terminate (Some (exn_str (rt_fmt rt) err))) s1)));
          s3 = on_env (run_hook (hk_after_execute h) None None) s2;
          s4 = snd (enforce_deadline rt cfg d s3);
          s5 = snd (enforce_deadline rt cfg d s4);
          env = ps_env s5
      in \<lparr>pr_envelope = env,
          pr_success = (\<not> env_terminated env \<or> env_error env = None),
          pr_error = env_error env, pr_iterations = ps_iterations s5,
          pr_nodes = ps_nodes s5, pr_errors = ps_errors s5\<rparr>)"

section \<open>Bounds\<close>

lemma pipe_loop_bounds:
  "0 \<le> ps_iterations s \<Longrightarrow> ps_iterations s \<le> max 0 (pc_max_iterations cfg) \<Longrightarrow>
     int (length (ps_nodes s)) \<le> ps_iterations s \<Longrightarrow>
     ps_iterations (fst (pipe_loop rt cfg h r d s)) \<le> max 0 (pc_max_iterations cfg) + 1 \<and>
     int (length (ps_nodes (fst (pipe_loop rt cfg h r d s)))) \<le> max 0 (pc_max_iterations cfg)"
proof (induction rt cfg h r d s rule: pipe_loop.induct)
  case (1 rt cfg h r d s)
  let ?c = "pipe_step rt cfg h r d s"
  have it: "ps_iterations (ctl_state ?c) \<le> ps_iterations s + 1" by (rule pipe_step_iterations)
  have nd: "length (ps_nodes (ctl_state ?c)) \<le>
      length (ps_nodes s) + (if ps_iterations s + 1 > pc_max_iterations cfg then 0 else 1)"
    by (rule pipe_step_nodes)
  show ?case
  proof (cases "truthy_opt (env_next (ps_env s)) \<and> \<not> env_terminated (ps_env s)")
    case False
    with "1.prems" show ?thesis by (auto simp: pipe_loop.simps [of rt cfg h r d s])
  next
    case True
    show ?thesis
    proof (cases ?c)
      case (Continue s2)
      from pipe_step_continue [OF Continue] nd Continue "1.prems"
      have "0 \<le> ps_iterations s2" "ps_iterations s2 \<le> max 0 (pc_max_iterations cfg)"
        "int (length (ps_nodes s2)) \<le> ps_iterations s2" by auto
      with "1.IH" [OF True Continue] True Continue show ?thesis
        by (simp add: pipe_loop.simps [of rt cfg h r d s])
    qed (use True it nd "1.prems" in
        \<open>auto simp: pipe_loop.simps [of rt cfg h r d s] split: if_splits\<close>)
  qed
qed

text \<open>
  C15: Whatever the nodes, hooks and clocks do, an execution counts at most
  \<open>max_iterations + 1\<close> iterations and executes at most \<open>max_iterations\<close> nodes, so a pipeline that
  routes back to itself ends.
\<close>

theorem pipe_execute_bounded:
  "pr_iterations (pipe_execute rt cfg h r e) \<le> max 0 (pc_max_iterations cfg) + 1 \<and>
   int (length (pr_nodes (pipe_execute rt cfg h r e))) \<le> max 0 (pc_max_iterations cfg)"
  using pipe_loop_bounds
  by (simp add: pipe_execute_def Let_def case_prod_beta split: option.split)

section \<open>What an execution without deadline and hooks does\<close>

lemma enforce_no_deadline [simp]: "enforce_deadline rt cfg None s = (False, s)"
  by (simp add: enforce_deadline_def)

lemma remaining_no_deadline [simp]: "remaining_timeout rt None s = (None, s)"
  by (simp add: remaining_timeout_def)

lemma run_no_hook [simp]: "run_hook [] a b e = e"
  by (simp add: run_hook_def)

lemma no_hooks_simps [simp]:
  "hk_before_node no_hooks = []" "hk_after_node no_hooks = []" "hk_before_execute no_hooks = []"
  "hk_after_execute no_hooks = []" "hk_on_error no_hooks = []"
  by (simp_all add: no_hooks_def)

lemma on_env_id [simp]: "on_env (\<lambda>e. e) s = s" "on_env (run_hook [] a b) s = s"
  by (simp_all add: on_env_def)

lemma untimed_execute [simp]:
  "nd_timeout_ms nd = None \<Longrightarrow> execute_with_timeout rt t nd e None = Inr (execute_sync rt t nd e)"
  by (simp add: execute_with_timeout_def effective_timeout_def)

text \<open>
  The specification of a run: the nodes an envelope passes through, hop by hop, while it names a
  next capability and is not terminated.
\<close>

inductive route :: "runtime \<Rightarrow> node router \<Rightarrow> envelope \<Rightarrow> node list \<Rightarrow> envelope \<Rightarrow> bool"
  for rt r where
  arrived: "\<not> (truthy_opt (env_next e) \<and> \<not> env_terminated e) \<Longrightarrow> route rt r e [] e"
| hop: "truthy_opt (env_next e) \<Longrightarrow> \<not> env_terminated e \<Longrightarrow> get_capability e = Some c \<Longrightarrow> c \<noteq> [] \<Longrightarrow>
    resolve r c = Inr nd \<Longrightarrow> nd_timeout_ms nd = None \<Longrightarrow>
    res_success (execute_sync rt 0 nd e) \<Longrightarrow>
    route rt r (res_envelope (execute_sync rt 0 nd e)) nds e' \<Longrightarrow> route rt r e (nd # nds) e'"

inductive_cases route_hopE: "route rt r e (nd # nds) e'"

lemma pipe_step_hop:
  assumes "get_capability (ps_env s) = Some c" "c \<noteq> []" "resolve r c = Inr nd"
    "nd_timeout_ms nd = None" "ps_iterations s < pc_max_iterations cfg" "ps_tick s = 0"
  shows "pipe_step rt cfg no_hooks r None s =
    (let res = execute_sync rt 0 nd (ps_env s);
         s' = s\<lparr>ps_env := res_envelope res, ps_iterations := ps_iterations s + 1,
                ps_nodes := ps_nodes s @ [nd_id nd]\<rparr>
     in if res_success res then Continue s'
        else if pc_continue_on_error cfg
        then Continue (add_error (or_str (res_error res) ''Unknown error'') s')
        else Break (add_error (or_str (res_error res) ''Unknown error'')
               (on_env (env_terminate (res_error res)) s')))"
  using assms by (simp add: pipe_step_def pipe_call_def Let_def)

lemma pipe_loop_route:
  "route rt r e nds e' \<Longrightarrow> ps_env s = e \<Longrightarrow> ps_tick s = 0 \<Longrightarrow>
     ps_iterations s + int (length nds) \<le> pc_max_iterations cfg \<Longrightarrow>
     pipe_loop rt cfg no_hooks r None s =
       (s\<lparr>ps_env := e', ps_iterations := ps_iterations s + int (length nds),
          ps_nodes := ps_nodes s @ map nd_id nds\<rparr>, None)"
proof (induction arbitrary: s rule: route.induct)
  case (arrived e)
  then show ?case by (subst pipe_loop.simps) auto
next
  case (hop e c nd nds e')
  then show ?case
    by (subst pipe_loop.simps) (simp add: pipe_step_hop [where c = c and nd = nd] Let_def)
qed

text \<open>
  C7: Without a deadline and hooks the loop implements the hop-by-hop specification: if the envelope
  passes successfully through the nodes \<open>nds\<close> and there are at most \<open>max_iterations\<close> of them, the
  pipeline executes exactly these nodes in this order, counts one iteration per node, reports no
  error and returns the specified envelope.
\<close>

theorem pipe_execute_route:
  assumes "route rt r e nds e'" "env_next e \<noteq> None" "pc_timeout_seconds cfg = None"
    and "int (length nds) \<le> pc_max_iterations cfg"
  shows "pipe_execute rt cfg no_hooks r e =
    \<lparr>pr_envelope = e', pr_success = (\<not> env_terminated e' \<or> env_error e' = None),
     pr_error = env_error e', pr_iterations = int (length nds), pr_nodes = map nd_id nds,
     pr_errors = []\<rparr>"
  using assms(2-4) pipe_loop_route [OF assms(1)]
  by (simp add: pipe_execute_def pipe_deadline_def pipe_start_def Let_def)

definition demo_cfg :: pipe_config where
  "demo_cfg = \<lparr>pc_max_iterations = 100, pc_timeout_seconds = None, pc_continue_on_error = False,
     pc_enable_history = True\<rparr>"

definition demo_router :: "node router" where
  "demo_router = register ''b'' (demo_node ''n2'' ''b'' None) 0 []
     (register ''a'' (demo_node ''n1'' ''a'' (Some ''capability:b'')) 0 [] new_router)"

lemmas demo_defs = demo_node_def demo_runtime_def demo_env_def demo_cfg_def demo_router_def
  new_router_def register_def

theorem pipe_execute_route_witness:
  "pr_nodes (pipe_execute demo_runtime demo_cfg no_hooks demo_router (demo_env (Some ''a''))) =
     [''n1'', ''n2'']"
proof -
  have a: "resolve demo_router ''a'' = Inr (demo_node ''n1'' ''a'' (Some ''capability:b''))"
    and b: "resolve demo_router ''b'' = Inr (demo_node ''n2'' ''b'' None)"
    by (simp_all add: resolve_def resolve_capability_def demo_defs)
  define e1 where "e1 = res_envelope (execute_sync demo_runtime 0
      (demo_node ''n1'' ''a'' (Some ''capability:b'')) (demo_env (Some ''a'')))"
  define e2 where "e2 = res_envelope (execute_sync demo_runtime 0 (demo_node ''n2'' ''b'' None) e1)"
  have n1: "env_next e1 = Some ''capability:b''" "\<not> env_terminated e1"
    by (simp_all add: e1_def demo_node_def execute_sync_def finalize_result_def ok_result_def
        set_next_def demo_env_def Let_def env_record_def)
  have n2: "env_next e2 = None"
    by (simp add: e2_def demo_node_def execute_sync_def finalize_result_def ok_result_def
        set_next_def Let_def env_record_def)
  have ok: "res_success (execute_sync demo_runtime 0 (demo_node i c nx) e)"
    and un: "nd_timeout_ms (demo_node i c nx) = None" and ni: "nd_id (demo_node i c nx) = i" for i c nx e
    by (simp_all add: demo_node_def execute_sync_def finalize_result_def ok_result_def Let_def)
  have "route demo_runtime demo_router e2 [] e2" using n2 by (intro route.arrived) simp
  then have r1: "route demo_runtime demo_router e1 [demo_node ''n2'' ''b'' None] e2"
    using n1 b ok un by (intro route.hop [where c = "''b''"])
      (simp_all add: e2_def get_capability_def hop_capability_def cap_prefix_def starts_with_def)
  have "route demo_runtime demo_router (demo_env (Some ''a''))
      [demo_node ''n1'' ''a'' (Some ''capability:b''), demo_node ''n2'' ''b'' None] e2"
  proof (rule route.hop [OF _ _ _ _ a un ok])
    show "get_capability (demo_env (Some ''a'')) = Some ''a''"
      by (simp add: demo_env_def get_capability_def hop_capability_def cap_prefix_def starts_with_def)
    show "route demo_runtime demo_router (res_envelope (execute_sync demo_runtime 0
        (demo_node ''n1'' ''a'' (Some ''capability:b'')) (demo_env (Some ''a''))))
        [demo_node ''n2'' ''b'' None] e2"
      using r1 by (simp only: e1_def)
  qed (simp_all add: demo_env_def)
  from pipe_execute_route [OF this, of demo_cfg] show ?thesis
    by (simp add: demo_cfg_def demo_env_def ni)
qed

text \<open>
  Note: A failing node without an error message is reported as a success: the pipeline stops, records
  \<open>Unknown error\<close> in its metrics and terminates the envelope, but \<open>terminate(None)\<close> stores no error
  and the result's success flag asks for a terminated envelope with an error.
\<close>

theorem unnamed_failure_reported_as_success:
  assumes "pc_timeout_seconds cfg = None" "\<not> pc_continue_on_error cfg" "1 \<le> pc_max_iterations cfg"
    and "\<not> env_terminated e" "get_capability e = Some c" "c \<noteq> []" "resolve r c = Inr nd"
    and "nd_timeout_ms nd = None" "nd_process nd e = Returned res" "\<not> res_success res"
      "res_error res = None"
  shows "let p = pipe_execute rt cfg no_hooks r e
         in pr_success p \<and> pr_error p = None \<and> pr_errors p = [''Unknown error''] \<and>
            env_terminated (pr_envelope p) \<and> pr_nodes p = [nd_id nd]"
proof -
  from assms(5) obtain n where n: "env_next e = Some n" "truthy_opt (Some n)"
    by (cases "env_next e") (auto simp: get_capability_def hop_capability_def split: if_splits)
  have ex: "execute_sync rt 0 nd e = finalize_result rt 0 nd res"
    by (simp add: execute_sync_def assms(9))
  let ?s = "\<lparr>ps_env = e, ps_iterations = 0, ps_nodes = [], ps_errors = [], ps_tick = 0\<rparr>"
  have "pipe_loop rt cfg no_hooks r None ?s =
      (add_error ''Unknown error'' (on_env (env_terminate None)
        (?s\<lparr>ps_env := res_envelope (finalize_result rt 0 nd res), ps_iterations := 1,
            ps_nodes := [nd_id nd]\<rparr>)), None)"
    using assms n pipe_step_hop [of ?s c r nd cfg rt]
    by (subst pipe_loop.simps) (simp add: Let_def ex finalize_result_def or_str_def)
  then show ?thesis
    using assms(1,2,10,11) n
    by (simp add: pipe_execute_def pipe_deadline_def pipe_start_def Let_def finalize_result_def)
qed

theorem unnamed_failure_reported_as_success_witness:
  "let nd = (demo_node ''n'' ''a'' None)\<lparr>nd_process := (\<lambda>e. Returned ((ok_result e)\<lparr>res_success := False\<rparr>))\<rparr>
   in pr_success (pipe_execute demo_runtime demo_cfg no_hooks (register ''a'' nd 0 [] new_router)
        (demo_env (Some ''a'')))"
proof -
  define nd where "nd = (demo_node ''n'' ''a'' None)
      \<lparr>nd_process := (\<lambda>e. Returned ((ok_result e)\<lparr>res_success := False\<rparr>))\<rparr>"
  have "resolve (register ''a'' nd 0 [] new_router) ''a'' = Inr nd"
    by (simp add: resolve_def resolve_capability_def new_router_def register_def)
  moreover have "get_capability (demo_env (Some ''a'')) = Some ''a''"
    by (simp add: demo_env_def get_capability_def hop_capability_def cap_prefix_def starts_with_def)
  ultimately show ?thesis
    using unnamed_failure_reported_as_success [of demo_cfg "demo_env (Some ''a'')" "''a''"
        "register ''a'' nd 0 [] new_router" nd "(ok_result (demo_env (Some ''a'')))\<lparr>res_success := False\<rparr>"
        demo_runtime]
    by (simp add: nd_def [symmetric] Let_def)
      (simp add: nd_def demo_cfg_def demo_env_def demo_node_def ok_result_def)
qed

lemma loop_late:
  assumes "\<And>n. 1 \<le> n \<Longrightarrow> d \<le> rt_mono rt n" "1 \<le> ps_tick s" "ps_nodes s = []" "ps_errors s = []"
  shows "\<exists>s'. pipe_loop rt cfg h r (Some d) s = (s', None) \<and> ps_nodes s' = [] \<and> 1 \<le> ps_tick s' \<and>
           ps_errors s' \<in> {[], [pipe_timeout_message rt cfg]}"
proof (cases "truthy_opt (env_next (ps_env s)) \<and> \<not> env_terminated (ps_env s)")
  case False
  with assms show ?thesis by (subst pipe_loop.simps) auto
next
  case True
  have "\<not> rt_mono rt (ps_tick s) < d" using assms(1,2) by (simp add: not_less)
  with True assms show ?thesis
    by (subst pipe_loop.simps) (simp add: pipe_step_def enforce_deadline_def Let_def)
qed

text \<open>
  Note: Deadlines: if every clock reading after the first is at or past the deadline, no node is
  executed and the result carries the timeout error, once.
\<close>

theorem deadline_stops_before_any_node:
  assumes "pc_timeout_seconds cfg = Some s" "\<And>n. 1 \<le> n \<Longrightarrow> rt_mono rt 0 + max s 0 \<le> rt_mono rt n"
  shows "let p = pipe_execute rt cfg h r e
         in pr_nodes p = [] \<and> env_terminated (pr_envelope p) \<and> \<not> pr_success p \<and>
            pr_error p = Some (pipe_timeout_message rt cfg) \<and>
            pr_errors p = [pipe_timeout_message rt cfg]"
proof -
  let ?d = "rt_mono rt 0 + max s 0"
  let ?s = "\<lparr>ps_env = run_hook (hk_before_execute h) None None (pipe_start cfg e),
      ps_iterations = 0, ps_nodes = [], ps_errors = [], ps_tick = 1\<rparr>"
  from loop_late [of ?d rt ?s cfg h r] assms(2) obtain s' where
    s': "pipe_loop rt cfg h r (Some ?d) ?s = (s', None)" "ps_nodes s' = []" "1 \<le> ps_tick s'"
      "ps_errors s' \<in> {[], [pipe_timeout_message rt cfg]}" by auto
  have late: "\<not> rt_mono rt n < ?d" if "1 \<le> n" for n using assms(2) [OF that] by simp
  have msg: "truthy_opt (Some (pipe_timeout_message rt cfg))"
    by (simp add: pipe_timeout_message_def)
  show ?thesis
    using assms(1) s' late msg
    by (auto simp: pipe_execute_def pipe_deadline_def enforce_deadline_def Let_def)
qed

theorem deadline_stops_before_any_node_witness:
  "pr_nodes (pipe_execute demo_runtime (demo_cfg\<lparr>pc_timeout_seconds := Some 1\<rparr>) no_hooks demo_router
     (demo_env (Some ''a''))) = []"
proof -
  have "rt_mono demo_runtime 0 + max 1 0 \<le> rt_mono demo_runtime n" if "1 \<le> n" for n
    using that by (simp add: demo_runtime_def)
  from deadline_stops_before_any_node [of "demo_cfg\<lparr>pc_timeout_seconds := Some 1\<rparr>" 1 demo_runtime
      no_hooks demo_router "demo_env (Some ''a'')", OF _ this]
  show ?thesis by (simp add: Let_def)
qed

end
