(* ===== verification/ComputationGraph.thy ===== *)
theory ComputationGraph
  imports Prism_Prelude
begin

text \<open>
  The shared computation cache \<open>ComputationGraph\<close> of \<open>src/prismpipe/engine/__init__.py\<close>:
  an in-process LRU cache with expiry (L1), hydration from Redis (L2), registration, negative
  caching and its statistics. Clock readings are arguments. The content hash of an input and what
  Redis answers are arguments too: neither is code of the repository. A Redis write is returned as
  a value.
\<close>

section \<open>State\<close>

record cnode =
  cn_id :: string
  cn_capability :: string
  cn_input_hash :: string
  cn_output_hash :: string
  cn_execution_count :: int
  cn_avg_latency_ms :: rat
  cn_success_rate :: rat
  cn_child_ids :: "string list"
  cn_parent_id :: "string option"

record coutput =
  co_state :: dict
  co_next :: "string option"
  co_success :: bool
  co_expires_at :: "rat option"
  co_lookup_key :: string

record cached =
  ca_node :: cnode
  ca_state :: dict
  ca_next :: "string option"

record cstats =
  st_count :: int
  st_total_latency :: rat
  st_failures :: int

record cgraph =
  cg_nodes :: "cnode pdict"
  cg_hash :: "string pdict"
  cg_outputs :: "coutput pdict"
  cg_max_entries :: nat
  cg_evictions :: nat
  cg_hits :: nat
  cg_misses :: nat
  cg_redis_hits :: nat
  cg_negative_hits :: nat
  cg_stats :: "cstats pdict"
  cg_ttl_seconds :: int
  cg_negative_ttl_seconds :: int
  cg_ttl_by_capability :: "int pdict"
  cg_redis_prefix :: string
  cg_redis :: bool

definition new_graph ::
    "int \<Rightarrow> int \<Rightarrow> int \<Rightarrow> int pdict \<Rightarrow> string \<Rightarrow> bool \<Rightarrow> cgraph" where
  "new_graph max_entries ttl neg_ttl by_cap prefix redis =
     \<lparr>cg_nodes = [], cg_hash = [], cg_outputs = [], cg_max_entries = nat (max 1 max_entries),
      cg_evictions = 0, cg_hits = 0, cg_misses = 0, cg_redis_hits = 0, cg_negative_hits = 0,
      cg_stats = [], cg_ttl_seconds = ttl, cg_negative_ttl_seconds = neg_ttl,
      cg_ttl_by_capability = by_cap, cg_redis_prefix = prefix, cg_redis = redis\<rparr>"

text \<open>What Redis answers to \<open>GET\<close> and \<open>TTL\<close>, decoded.\<close>

record payload =
  pl_node_id :: "string option"
  pl_output_hash :: string
  pl_latency_ms :: rat
  pl_success :: bool
  pl_state :: dict
  pl_next :: "string option"

datatype redis_get = GetError | GetMissing | GetUndecodable | GetPayload payload
datatype redis_ttl = Ttl int | TtlUnreadable

record redis_write =
  rw_key :: string
  rw_payload :: payload
  rw_ex :: "int option"

section \<open>Keys and times to live\<close>

definition redis_key :: "cgraph \<Rightarrow> string \<Rightarrow> string" where
  "redis_key g k = cg_redis_prefix g @ k"

definition flight_lock_key :: "cgraph \<Rightarrow> string \<Rightarrow> string" where
  "flight_lock_key g k = cg_redis_prefix g @ ''sf:'' @ k"

text \<open>\<open>SET key 1 NX EX ttl\<close>: \<open>reply\<close> is what Redis answered, \<open>None\<close> when the call raised.\<close>

definition try_acquire_flight_lock :: "cgraph \<Rightarrow> bool option \<Rightarrow> bool" where
  "try_acquire_flight_lock g reply =
     (if \<not> cg_redis g then True
      else case reply of None \<Rightarrow> True | Some b \<Rightarrow> b)"

text \<open>\<open>release_flight_lock\<close>: the key deleted from Redis, if any.\<close>

definition release_flight_lock :: "cgraph \<Rightarrow> string \<Rightarrow> string option" where
  "release_flight_lock g k = (if \<not> cg_redis g then None else Some (flight_lock_key g k))"

definition ttl_for :: "cgraph \<Rightarrow> string \<Rightarrow> bool \<Rightarrow> int" where
  "ttl_for g c success =
     (if \<not> success then max 1 (cg_negative_ttl_seconds g)
      else case map_of (cg_ttl_by_capability g) c of
        Some t \<Rightarrow> t
      | None \<Rightarrow> if cg_ttl_seconds g \<noteq> 0 then cg_ttl_seconds g else 30)"

definition lookup_key :: "string \<Rightarrow> string \<Rightarrow> string" where
  "lookup_key c h = c @ '':'' @ h"

text \<open>\<open>key.split(':', 1)[-1]\<close>.\<close>

definition after_colon :: "string \<Rightarrow> string" where
  "after_colon k = (case dropWhile (\<lambda>x. x \<noteq> CHR '':'') k of [] \<Rightarrow> k | _ # rest \<Rightarrow> rest)"

section \<open>Storing and evicting\<close>

definition move_to_end :: "string \<Rightarrow> 'v pdict \<Rightarrow> 'v pdict" where
  "move_to_end k d =
     (case map_of d k of None \<Rightarrow> d | Some v \<Rightarrow> AList.delete k d @ [(k, v)])"

definition evict_one :: "cgraph \<Rightarrow> cgraph" where
  "evict_one g =
     (case cg_outputs g of
        [] \<Rightarrow> g
      | (old_id, old) # rest \<Rightarrow>
          g\<lparr>cg_outputs := rest,
            cg_hash := (if map_of (cg_hash g) (co_lookup_key old) = Some old_id
                        then AList.delete (co_lookup_key old) (cg_hash g) else cg_hash g),
            cg_nodes := AList.delete old_id (cg_nodes g),
            cg_evictions := cg_evictions g + 1\<rparr>)"

lemma evict_one_simps [simp]:
  "cg_outputs (evict_one g) = tl (cg_outputs g)"
  "cg_max_entries (evict_one g) = cg_max_entries g"
  "cg_redis (evict_one g) = cg_redis g"
  by (auto simp: evict_one_def split: list.splits)

function evict :: "cgraph \<Rightarrow> cgraph" where
  "evict g = (if length (cg_outputs g) > cg_max_entries g then evict (evict_one g) else g)"
  by pat_completeness auto
termination
  by (relation "measure (\<lambda>g. length (cg_outputs g))") auto

declare evict.simps [simp del]

definition store_output ::
    "string \<Rightarrow> string \<Rightarrow> dict \<Rightarrow> string option \<Rightarrow> bool \<Rightarrow> rat option \<Rightarrow> cgraph \<Rightarrow> cgraph" where
  "store_output node_id key st nxt success expires g =
     evict (g\<lparr>cg_outputs := move_to_end node_id
        (AList.update node_id
           \<lparr>co_state = st, co_next = nxt, co_success = success, co_expires_at = expires,
            co_lookup_key = key\<rparr> (cg_outputs g))\<rparr>)"

section \<open>Lookup\<close>

definition bump_node :: "string \<Rightarrow> cnode \<Rightarrow> cgraph \<Rightarrow> cnode \<times> cgraph" where
  "bump_node node_id nd g =
     (let nd' = nd\<lparr>cn_execution_count := cn_execution_count nd + 1\<rparr>
      in (nd', g\<lparr>cg_nodes := AList.update node_id nd' (cg_nodes g)\<rparr>))"

definition find_shared_computation ::
    "string \<Rightarrow> string \<Rightarrow> cgraph \<Rightarrow> py_error + (cnode option \<times> cgraph)" where
  "find_shared_computation c input_hash g =
     (case map_of (cg_hash g) (lookup_key c input_hash) of
        None \<Rightarrow> Inr (None, g)
      | Some node_id \<Rightarrow>
          (case map_of (cg_nodes g) node_id of
             None \<Rightarrow> Inl (KeyError node_id)
           | Some nd \<Rightarrow> let (nd', g') = bump_node node_id nd g in Inr (Some nd', g')))"

definition hydrated_expiry :: "cgraph \<Rightarrow> string \<Rightarrow> redis_ttl \<Rightarrow> rat \<Rightarrow> rat option" where
  "hydrated_expiry g c ttl now =
     (case ttl of
        Ttl t \<Rightarrow> if t = -1 then None else Some (now + of_int (max 0 t))
      | TtlUnreadable \<Rightarrow> Some (now + of_int (ttl_for g c True)))"

definition hydrated_id :: "payload \<Rightarrow> string \<Rightarrow> string" where
  "hydrated_id p key =
     or_str (pl_node_id p) (''comp_redis_'' @ drop (length key - 8) key)"

definition hydrate_payload ::
    "string \<Rightarrow> string \<Rightarrow> payload \<Rightarrow> rat option \<Rightarrow> cgraph \<Rightarrow> cached \<times> cgraph" where
  "hydrate_payload c key p expires g =
     (let node_id = hydrated_id p key;
          fresh = \<lparr>cn_id = node_id, cn_capability = c, cn_input_hash = after_colon key,
                   cn_output_hash = take 16 (pl_output_hash p), cn_execution_count = 1,
                   cn_avg_latency_ms = pl_latency_ms p,
                   cn_success_rate = (if pl_success p then 1 else 0), cn_child_ids = [],
                   cn_parent_id = None\<rparr>;
          (nd, g1) = (case map_of (cg_nodes g) node_id of
                        Some nd \<Rightarrow> (nd, g)
                      | None \<Rightarrow> (fresh, g\<lparr>cg_nodes := AList.update node_id fresh (cg_nodes g),
                                          cg_hash := AList.update key node_id (cg_hash g)\<rparr>));
          g2 = store_output node_id key (pl_state p) (pl_next p) (pl_success p) expires g1;
          nd' = nd\<lparr>cn_execution_count := cn_execution_count nd + 1\<rparr>;
          g3 = g2\<lparr>cg_nodes := (if map_of (cg_nodes g2) node_id = None then cg_nodes g2
                                else AList.update node_id nd' (cg_nodes g2)),
                  cg_hits := cg_hits g2 + 1, cg_redis_hits := cg_redis_hits g2 + 1,
                  cg_negative_hits := cg_negative_hits g2 + (if pl_success p then 0 else 1)\<rparr>
      in (\<lparr>ca_node = nd', ca_state = pl_state p, ca_next = pl_next p\<rparr>, g3))"

definition hydrate_from_redis ::
    "string \<Rightarrow> string \<Rightarrow> redis_get \<Rightarrow> redis_ttl \<Rightarrow> rat \<Rightarrow> cgraph \<Rightarrow> (cached \<times> cgraph) option" where
  "hydrate_from_redis c key reply ttl now g =
     (if \<not> cg_redis g then None
      else case reply of
        GetError \<Rightarrow> None
      | GetMissing \<Rightarrow> None
      | GetUndecodable \<Rightarrow> None
      | GetPayload p \<Rightarrow>
          if ttl = Ttl (-2) then None
          else Some (hydrate_payload c key p (hydrated_expiry g c ttl now) g))"

text \<open>An entry is expired at \<open>now\<close> when it has an expiry that is not in the future.\<close>

definition expired :: "coutput \<Rightarrow> rat \<Rightarrow> bool" where
  "expired o' now = (case co_expires_at o' of None \<Rightarrow> False | Some t \<Rightarrow> t \<le> now)"

text \<open>The first half of the lookup: L1. \<open>None\<close> in the first component means "not served".\<close>

definition l1_lookup :: "string \<Rightarrow> rat \<Rightarrow> cgraph \<Rightarrow> py_error + (cached option \<times> cgraph)" where
  "l1_lookup key now g =
     (case map_of (cg_hash g) key of
        None \<Rightarrow> Inr (None, g)
      | Some node_id \<Rightarrow>
          (case map_of (cg_nodes g) node_id of
             None \<Rightarrow> Inl (KeyError node_id)
           | Some nd \<Rightarrow>
               (case map_of (cg_outputs g) node_id of
                  None \<Rightarrow> Inr (None, g)
                | Some st \<Rightarrow>
                    if expired st now
                    then Inr (None, g\<lparr>cg_hash := AList.delete key (cg_hash g),
                                      cg_outputs := AList.delete node_id (cg_outputs g)\<rparr>)
                    else let (nd', g1) = bump_node node_id nd g
                         in Inr (Some \<lparr>ca_node = nd', ca_state = co_state st, ca_next = co_next st\<rparr>,
                              g1\<lparr>cg_hits := cg_hits g1 + 1,
                                 cg_outputs := move_to_end node_id (cg_outputs g1),
                                 cg_negative_hits := cg_negative_hits g1 +
                                   (if co_success st then 0 else 1)\<rparr>))))"

definition get_cached_result_by_key ::
    "string \<Rightarrow> string \<Rightarrow> bool \<Rightarrow> redis_get \<Rightarrow> redis_ttl \<Rightarrow> rat \<Rightarrow> cgraph
       \<Rightarrow> py_error + (cached option \<times> cgraph)" where
  "get_cached_result_by_key c key use_redis reply ttl now g =
     (case l1_lookup key now g of
        Inl e \<Rightarrow> Inl e
      | Inr (Some r, g1) \<Rightarrow> Inr (Some r, g1)
      | Inr (None, g1) \<Rightarrow>
          if \<not> use_redis then Inr (None, g1)
          else (case hydrate_from_redis c key reply ttl now g1 of
                  Some (r, g2) \<Rightarrow> Inr (Some r, g2)
                | None \<Rightarrow> Inr (None, g1\<lparr>cg_misses := cg_misses g1 + 1\<rparr>)))"

definition get_cached_result ::
    "string \<Rightarrow> string \<Rightarrow> bool \<Rightarrow> redis_get \<Rightarrow> redis_ttl \<Rightarrow> rat \<Rightarrow> cgraph
       \<Rightarrow> py_error + (cached option \<times> cgraph)" where
  "get_cached_result c input_hash use_redis reply ttl now g =
     get_cached_result_by_key c (lookup_key c input_hash) use_redis reply ttl now g"

section \<open>Registration\<close>

definition store_redis ::
    "string \<Rightarrow> string \<Rightarrow> dict \<Rightarrow> string option \<Rightarrow> rat \<Rightarrow> bool \<Rightarrow> string \<Rightarrow> int \<Rightarrow> cgraph
       \<Rightarrow> redis_write option" where
  "store_redis key node_id out nxt latency success ohash ttl g =
     (if \<not> cg_redis g then None
      else Some \<lparr>rw_key = redis_key g key,
                 rw_payload = \<lparr>pl_node_id = Some node_id, pl_output_hash = ohash,
                   pl_latency_ms = latency, pl_success = success, pl_state = out,
                   pl_next = nxt\<rparr>,
                 rw_ex = (if ttl > 0 then Some ttl else None)\<rparr>)"

definition bump_stats :: "string \<Rightarrow> rat \<Rightarrow> bool \<Rightarrow> cstats pdict \<Rightarrow> cstats pdict" where
  "bump_stats c latency success d =
     (let s = (case map_of d c of
                 Some s \<Rightarrow> s
               | None \<Rightarrow> \<lparr>st_count = 0, st_total_latency = 0, st_failures = 0\<rparr>)
      in AList.update c
           \<lparr>st_count = st_count s + 1, st_total_latency = st_total_latency s + latency,
            st_failures = st_failures s + (if success then 0 else 1)\<rparr> d)"

definition add_child :: "string option \<Rightarrow> string \<Rightarrow> cnode pdict \<Rightarrow> cnode pdict" where
  "add_child parent child d =
     (case parent of
        None \<Rightarrow> d
      | Some p \<Rightarrow>
          if p = [] then d
          else case map_of d p of
            None \<Rightarrow> d
          | Some nd \<Rightarrow> AList.update p (nd\<lparr>cn_child_ids := cn_child_ids nd @ [child]\<rparr>) d)"

definition register_existing ::
    "string \<Rightarrow> string \<Rightarrow> cnode \<Rightarrow> dict \<Rightarrow> rat \<Rightarrow> bool \<Rightarrow> string option \<Rightarrow> bool \<Rightarrow> string \<Rightarrow> int \<Rightarrow> rat
       \<Rightarrow> cgraph \<Rightarrow> cnode \<times> cgraph \<times> redis_write option" where
  "register_existing node_id key ex out latency success nxt persist ohash ttl now g =
     (let n = cn_execution_count ex + 1;
          ex' = ex\<lparr>cn_execution_count := n,
                   cn_avg_latency_ms :=
                     (cn_avg_latency_ms ex * of_int (n - 1) + latency) / of_int n\<rparr>;
          g1 = store_output node_id key out nxt success (Some (now + of_int ttl))
                 (g\<lparr>cg_nodes := AList.update node_id ex' (cg_nodes g)\<rparr>)
      in (ex', g1,
          if persist
          then store_redis key node_id out nxt latency success
                 (or_str (Some (cn_output_hash ex)) ohash) ttl g1
          else None))"

definition register_new ::
    "string \<Rightarrow> string \<Rightarrow> string \<Rightarrow> string \<Rightarrow> string option \<Rightarrow> dict \<Rightarrow> rat \<Rightarrow> bool \<Rightarrow> string option
       \<Rightarrow> bool \<Rightarrow> string \<Rightarrow> int \<Rightarrow> rat \<Rightarrow> cgraph \<Rightarrow> cnode \<times> cgraph \<times> redis_write option" where
  "register_new node_id key c input_hash parent out latency success nxt persist ohash ttl now g =
     (let nd = \<lparr>cn_id = node_id, cn_capability = c, cn_input_hash = input_hash,
                cn_output_hash = ohash, cn_execution_count = 1, cn_avg_latency_ms = latency,
                cn_success_rate = (if success then 1 else 0), cn_child_ids = [],
                cn_parent_id = parent\<rparr>;
          g1 = store_output node_id key out nxt success (Some (now + of_int ttl))
                 (g\<lparr>cg_nodes := AList.update node_id nd (cg_nodes g),
                    cg_hash := AList.update key node_id (cg_hash g)\<rparr>);
          g2 = g1\<lparr>cg_nodes := add_child parent node_id (cg_nodes g1),
                  cg_stats := bump_stats c latency success (cg_stats g1)\<rparr>
      in (nd, g2,
          if persist then store_redis key node_id out nxt latency success ohash ttl g2 else None))"

text \<open>
  \<open>register_computation\<close>: \<open>uid\<close> is the fresh hexadecimal identifier, \<open>ohash\<close> the content hash of
  the output, used only when Redis is configured.
\<close>

definition register_computation ::
    "string \<Rightarrow> string \<Rightarrow> string \<Rightarrow> dict \<Rightarrow> rat \<Rightarrow> bool \<Rightarrow> string option \<Rightarrow> string option \<Rightarrow> bool
       \<Rightarrow> string \<Rightarrow> rat \<Rightarrow> cgraph \<Rightarrow> py_error + (cnode \<times> cgraph \<times> redis_write option)" where
  "register_computation uid c input_hash out latency success parent nxt persist ohash now g =
     (let ohash' = (if persist \<and> cg_redis g then ohash else []);
          key = lookup_key c input_hash;
          ttl = ttl_for g c success
      in case map_of (cg_hash g) key of
           Some existing_id \<Rightarrow>
             (case map_of (cg_nodes g) existing_id of
                None \<Rightarrow> Inl (KeyError existing_id)
              | Some ex \<Rightarrow>
                  Inr (register_existing existing_id key ex out latency success nxt persist
                         ohash' ttl now g))
         | None \<Rightarrow>
             Inr (register_new (''comp_'' @ uid) key c input_hash parent out latency success nxt
                    persist ohash' ttl now g))"

definition persist_computation_to_redis ::
    "string \<Rightarrow> string \<Rightarrow> dict \<Rightarrow> rat \<Rightarrow> bool \<Rightarrow> string option \<Rightarrow> cgraph \<Rightarrow> redis_write option" where
  "persist_computation_to_redis c input_hash out latency success nxt g =
     (if \<not> cg_redis g then None
      else case map_of (cg_hash g) (lookup_key c input_hash) of
        None \<Rightarrow> None
      | Some node_id \<Rightarrow>
          if node_id = [] then None
          else store_redis (lookup_key c input_hash) node_id out nxt latency success
                 (case map_of (cg_nodes g) node_id of
                    Some nd \<Rightarrow> cn_output_hash nd | None \<Rightarrow> [])
                 (ttl_for g c success) g)"

section \<open>Statistics and paths\<close>

definition total_reuses :: "cgraph \<Rightarrow> int" where
  "total_reuses g = sum_list (map (\<lambda>(i, nd). cn_execution_count nd - 1) (cg_nodes g))"

definition hit_ratio :: "cgraph \<Rightarrow> rat" where
  "hit_ratio g =
     of_nat (cg_hits g) / of_nat (max (cg_hits g + cg_misses g) 1)"

definition deduplication_ratio :: "cgraph \<Rightarrow> rat" where
  "deduplication_ratio g = of_int (total_reuses g) / of_nat (max (length (cg_nodes g)) 1)"

text \<open>\<open>get_deduplication_stats\<close>.\<close>

record capability_summary =
  cps_count :: int
  cps_avg_latency :: rat
  cps_success_rate :: rat

definition summary_of :: "cstats \<Rightarrow> capability_summary" where
  "summary_of s =
     \<lparr>cps_count = st_count s, cps_avg_latency = st_total_latency s / of_int (max (st_count s) 1),
      cps_success_rate = 1 - of_int (st_failures s) / of_int (max (st_count s) 1)\<rparr>"

record dedup_stats =
  dd_unique :: nat
  dd_reuses :: int
  dd_ratio :: rat
  dd_hits :: nat
  dd_misses :: nat
  dd_hit_ratio :: rat
  dd_redis_hits :: nat
  dd_negative_hits :: nat
  dd_l1_entries :: nat
  dd_l1_max_entries :: nat
  dd_evictions :: nat
  dd_redis_enabled :: bool
  dd_ttl_seconds :: int
  dd_negative_ttl_seconds :: int
  dd_ttl_by_capability :: "int pdict"
  dd_capabilities :: "capability_summary pdict"

definition get_deduplication_stats :: "cgraph \<Rightarrow> dedup_stats" where
  "get_deduplication_stats g =
     \<lparr>dd_unique = length (cg_nodes g), dd_reuses = total_reuses g, dd_ratio = deduplication_ratio g,
      dd_hits = cg_hits g, dd_misses = cg_misses g, dd_hit_ratio = hit_ratio g,
      dd_redis_hits = cg_redis_hits g, dd_negative_hits = cg_negative_hits g,
      dd_l1_entries = length (cg_outputs g), dd_l1_max_entries = cg_max_entries g,
      dd_evictions = cg_evictions g, dd_redis_enabled = cg_redis g, dd_ttl_seconds = cg_ttl_seconds g,
      dd_negative_ttl_seconds = cg_negative_ttl_seconds g, dd_ttl_by_capability = cg_ttl_by_capability g,
      dd_capabilities = map (\<lambda>(c, s). (c, summary_of s)) (cg_stats g)\<rparr>"

text \<open>The success rate of every capability is a proportion: failures never exceed computations.\<close>

definition stats_ok :: "cstats pdict \<Rightarrow> bool" where
  "stats_ok d \<longleftrightarrow> list_all (\<lambda>(c, s). 0 \<le> st_failures s \<and> st_failures s \<le> st_count s) d"

lemma stats_ok_update:
  "stats_ok d \<Longrightarrow> 0 \<le> st_failures s \<Longrightarrow> st_failures s \<le> st_count s \<Longrightarrow> stats_ok (AList.update c s d)"
  by (induction d) (auto simp: stats_ok_def)

lemma bump_stats_ok: "stats_ok d \<Longrightarrow> stats_ok (bump_stats c latency success d)"
proof -
  assume ok: "stats_ok d"
  then have "0 \<le> st_failures s \<and> st_failures s \<le> st_count s" if "map_of d c = Some s" for s
    using map_of_SomeD [OF that] by (auto simp: stats_ok_def list_all_iff)
  with ok show ?thesis
    by (auto simp: bump_stats_def Let_def intro!: stats_ok_update split: option.splits)
qed

lemma reported_rates_are_proportions:
  assumes "stats_ok (cg_stats g)" "(c, x) \<in> set (dd_capabilities (get_deduplication_stats g))"
  shows "0 \<le> cps_success_rate x \<and> cps_success_rate x \<le> 1"
proof -
  from assms obtain s where s: "x = summary_of s" "0 \<le> st_failures s" "st_failures s \<le> st_count s"
    by (auto simp: get_deduplication_stats_def stats_ok_def list_all_iff)
  let ?n = "max (st_count s) 1"
  have "of_int (st_failures s) \<le> (of_int ?n :: rat)" "(0 :: rat) < of_int ?n" using s by simp_all
  then have "of_int (st_failures s) / (of_int ?n :: rat) \<le> 1" by (subst divide_le_eq_1_pos)
  then show ?thesis using s by (simp add: summary_of_def)
qed

text \<open>
  \<open>get_computation_path\<close> follows parent links while they resolve. A cycle of parents never ends,
  so the result is an option.
\<close>

partial_function (option) computation_path ::
    "cnode pdict \<Rightarrow> string option \<Rightarrow> cnode list \<Rightarrow> cnode list option" where
  "computation_path d cur path =
     (case cur of
        None \<Rightarrow> Some path
      | Some i \<Rightarrow>
          if i = [] then Some path
          else (case map_of d i of
                  None \<Rightarrow> Some path
                | Some nd \<Rightarrow> computation_path d (cn_parent_id nd) (nd # path)))"

section \<open>The consistency invariant\<close>

text \<open>
  \<open>cg_wf\<close>: keys are unique, every stored output has its node, and an index row points to a stored
  output that was stored under that very key. The last part is what makes eviction drop the right
  index row and what keeps a lookup from raising \<open>KeyError\<close>.
\<close>

definition cg_wf :: "cgraph \<Rightarrow> bool" where
  "cg_wf g \<longleftrightarrow>
     wf_dict (cg_nodes g) \<and> wf_dict (cg_hash g) \<and> wf_dict (cg_outputs g) \<and>
     1 \<le> cg_max_entries g \<and>
     (\<forall>i. map_of (cg_outputs g) i \<noteq> None \<longrightarrow> map_of (cg_nodes g) i \<noteq> None) \<and>
     (\<forall>k i. map_of (cg_hash g) k = Some i \<longrightarrow>
        (\<exists>c. map_of (cg_outputs g) i = Some c \<and> co_lookup_key c = k))"

definition cg_inv :: "cgraph \<Rightarrow> bool" where
  "cg_inv g \<longleftrightarrow> cg_wf g \<and> length (cg_outputs g) \<le> cg_max_entries g"

lemma cg_inv_new: "cg_inv (new_graph m t n b p r)"
  by (simp add: cg_inv_def cg_wf_def new_graph_def)

lemma cg_wf_cong:
  "cg_wf g \<Longrightarrow> cg_nodes h = cg_nodes g \<Longrightarrow> cg_hash h = cg_hash g \<Longrightarrow> cg_outputs h = cg_outputs g
     \<Longrightarrow> cg_max_entries h = cg_max_entries g \<Longrightarrow> cg_wf h"
  by (simp add: cg_wf_def)

text \<open>Rewriting node rows that exist, or adding new ones, keeps the invariant.\<close>

lemma cg_wf_nodes:
  assumes "cg_wf g" "wf_dict d" "\<And>i. map_of (cg_nodes g) i \<noteq> None \<Longrightarrow> map_of d i \<noteq> None"
  shows "cg_wf (g\<lparr>cg_nodes := d\<rparr>)"
  using assms by (auto simp: cg_wf_def)

lemma cg_wf_index:
  "cg_wf g \<Longrightarrow> map_of (cg_hash g) k = Some i \<Longrightarrow>
     \<exists>c. map_of (cg_outputs g) i = Some c \<and> co_lookup_key c = k \<and> (\<exists>nd. map_of (cg_nodes g) i = Some nd)"
  by (fastforce simp: cg_wf_def)

lemma wf_ConsD: "wf_dict ((i, v) # d) \<Longrightarrow> map_of d i = None \<and> wf_dict d"
  by (simp add: map_of_eq_None_iff)

lemma evict_one_wf:
  assumes "cg_wf g" shows "cg_wf (evict_one g)"
proof (cases "cg_outputs g")
  case Nil
  with assms show ?thesis by (simp add: evict_one_def)
next
  case (Cons e rest)
  obtain i c where e: "e = (i, c)" by (cases e)
  from assms Cons e have "wf_dict ((i, c) # rest)" by (simp add: cg_wf_def)
  from wf_ConsD [OF this] have rest: "map_of rest i = None" "wf_dict rest" by blast+
  have lk: "map_of (cg_outputs g) = (map_of rest)(i \<mapsto> c)" by (simp add: Cons e)
  show ?thesis
    using assms rest unfolding cg_wf_def lk
    by (simp add: evict_one_def Cons e dict_simps) (metis option.inject)
qed

lemma evict_one_maps:
  assumes "cg_wf g" "cg_outputs g = (i, c) # rest"
  shows "map_of (cg_nodes (evict_one g)) = (map_of (cg_nodes g))(i := None)"
    and "map_of (cg_hash (evict_one g)) k = (if map_of (cg_hash g) k = Some i then None else map_of (cg_hash g) k)"
proof -
  show "map_of (cg_nodes (evict_one g)) = (map_of (cg_nodes g))(i := None)"
    by (simp add: evict_one_def assms(2) dict_simps)
  show "map_of (cg_hash (evict_one g)) k = (if map_of (cg_hash g) k = Some i then None else map_of (cg_hash g) k)"
  proof (cases "map_of (cg_hash g) k = Some i")
    case True
    with cg_wf_index [OF assms(1)] assms(2) have "co_lookup_key c = k" by fastforce
    with True show ?thesis by (simp add: evict_one_def assms(2) dict_simps)
  next
    case False
    then show ?thesis by (auto simp: evict_one_def assms(2) dict_simps)
  qed
qed

text \<open>The identifiers that eviction drops: the least recently used ones beyond the bound.\<close>

definition evicted :: "cgraph \<Rightarrow> string list" where
  "evicted g = map fst (take (length (cg_outputs g) - cg_max_entries g) (cg_outputs g))"

lemma evict_spec:
  "cg_wf g \<Longrightarrow>
     cg_wf (evict g) \<and>
     cg_outputs (evict g) = drop (length (cg_outputs g) - cg_max_entries g) (cg_outputs g) \<and>
     (\<forall>i. map_of (cg_nodes (evict g)) i =
        (if i \<in> set (evicted g) then None else map_of (cg_nodes g) i)) \<and>
     (\<forall>k. map_of (cg_hash (evict g)) k =
        (case map_of (cg_hash g) k of
           None \<Rightarrow> None | Some i \<Rightarrow> if i \<in> set (evicted g) then None else Some i)) \<and>
     cg_max_entries (evict g) = cg_max_entries g"
proof (induction g rule: evict.induct)
  case (1 g)
  show ?case
  proof (cases "length (cg_outputs g) > cg_max_entries g")
    case False
    with "1.prems" show ?thesis
      by (auto simp: evict.simps [of g] evicted_def split: option.splits)
  next
    case True
    then obtain i c rest where o: "cg_outputs g = (i, c) # rest"
      by (cases "cg_outputs g") auto
    from True o have suc: "length (cg_outputs g) - cg_max_entries g =
        Suc (length rest - cg_max_entries g)" by simp
    have ev: "evicted g = i # evicted (evict_one g)"
      using o suc by (simp add: evicted_def)
    note ih = "1.IH" [OF True evict_one_wf [OF "1.prems"]]
    have eq: "evict g = evict (evict_one g)" using True by (subst evict.simps) simp
    show ?thesis
      unfolding eq using ih evict_one_maps [OF "1.prems" o] ev o suc
      by (auto split: option.splits)
  qed
qed

lemma evict_fields [simp]:
  "cg_redis (evict g) = cg_redis g"
  "cg_hits (evict g) = cg_hits g"
  "cg_misses (evict g) = cg_misses g"
  "cg_ttl_seconds (evict g) = cg_ttl_seconds g"
  by (induction g rule: evict.induct; subst evict.simps; simp add: evict_one_def split: list.split)+

lemma delete_update_same [simp]: "AList.delete i (AList.update i v d) = AList.delete i d"
  by (induction d) (auto simp: AList.delete_eq)

lemma map_of_delete_snoc: "map_of (AList.delete i d @ [(i, v)]) = (map_of d)(i \<mapsto> v)"
  by (auto simp: fun_eq_iff map_add_def dict_simps split: option.splits)

lemma move_update: "move_to_end i (AList.update i v d) = AList.delete i d @ [(i, v)]"
  by (simp add: move_to_end_def dict_simps)

lemma map_of_move [simp]: "map_of (move_to_end i d) = map_of d"
  by (auto simp: move_to_end_def fun_eq_iff dict_simps map_add_def split: option.splits)

lemma wf_move [simp]: "wf_dict d \<Longrightarrow> wf_dict (move_to_end i d)"
  by (auto simp: move_to_end_def dict_simps keys_delete split: option.splits)

lemma length_move: "wf_dict d \<Longrightarrow> length (move_to_end i d) = length d"
  by (auto simp: move_to_end_def map_of_keys length_delete_present split: option.splits)

text \<open>
  What storing needs: the node exists, and the only index row that may point to it is the one of
  the key it is stored under. That row may be new, with no output stored yet.
\<close>

definition cg_pre :: "string \<Rightarrow> string \<Rightarrow> cgraph \<Rightarrow> bool" where
  "cg_pre key i g \<longleftrightarrow>
     wf_dict (cg_nodes g) \<and> wf_dict (cg_hash g) \<and> wf_dict (cg_outputs g) \<and>
     1 \<le> cg_max_entries g \<and> map_of (cg_nodes g) i \<noteq> None \<and>
     (\<forall>j. map_of (cg_outputs g) j \<noteq> None \<longrightarrow> map_of (cg_nodes g) j \<noteq> None) \<and>
     (\<forall>k j. map_of (cg_hash g) k = Some j \<longrightarrow>
        (j = i \<and> k = key) \<or>
        (j \<noteq> i \<and> (\<exists>c. map_of (cg_outputs g) j = Some c \<and> co_lookup_key c = k)))"

lemma store_output_spec:
  fixes st :: dict and nxt :: "string option" and su :: bool and ex :: "rat option"
    and i key :: string
  assumes pre: "cg_pre key i g"
  defines "entry \<equiv> \<lparr>co_state = st, co_next = nxt, co_success = su, co_expires_at = ex,
                     co_lookup_key = key\<rparr>"
    and "h \<equiv> store_output i key st nxt su ex g"
  shows "cg_inv h"
    and "cg_outputs h = drop (Suc (length (AList.delete i (cg_outputs g))) - cg_max_entries g)
           (AList.delete i (cg_outputs g) @ [(i, entry)])"
    and "map_of (cg_outputs h) i = Some entry"
    and "map_of (cg_nodes h) i = map_of (cg_nodes g) i"
    and "map_of (cg_hash g) key = Some i \<Longrightarrow> map_of (cg_hash h) key = Some i"
    and "map_of (cg_hash g) k' = None \<Longrightarrow> map_of (cg_hash h) k' = None"
    and "cg_max_entries h = cg_max_entries g"
proof -
  let ?g = "g\<lparr>cg_outputs := AList.delete i (cg_outputs g) @ [(i, entry)]\<rparr>"
  have h: "h = evict ?g"
    by (simp add: h_def store_output_def move_update entry_def)
  have lk: "map_of (cg_outputs ?g) = (map_of (cg_outputs g))(i \<mapsto> entry)"
    by (simp add: map_of_delete_snoc del: map_of_append)
  have wf': "cg_wf ?g"
    using pre unfolding cg_wf_def cg_pre_def lk
    by (simp add: dict_simps keys_delete entry_def) metis
  from pre have m: "1 \<le> cg_max_entries g" by (simp add: cg_pre_def)
  note sp = evict_spec [OF wf']
  show outs: "cg_outputs h = drop (Suc (length (AList.delete i (cg_outputs g))) - cg_max_entries g)
           (AList.delete i (cg_outputs g) @ [(i, entry)])"
    using sp by (simp add: h)
  show "cg_max_entries h = cg_max_entries g" using sp by (simp add: h)
  have wfh: "cg_wf h" using sp by (simp add: h)
  have len: "length (cg_outputs h) \<le> cg_max_entries h"
    using m unfolding outs \<open>cg_max_entries h = cg_max_entries g\<close> by simp
  from wfh len show "cg_inv h" by (simp add: cg_inv_def)
  have ne: "i \<notin> set (evicted ?g)"
    using m by (auto simp: evicted_def AList.delete_eq dest!: in_set_takeD)
  show "map_of (cg_nodes h) i = map_of (cg_nodes g) i" using sp ne by (simp add: h)
  show "map_of (cg_hash g) key = Some i \<Longrightarrow> map_of (cg_hash h) key = Some i"
    using sp ne by (simp add: h)
  show "map_of (cg_hash g) k' = None \<Longrightarrow> map_of (cg_hash h) k' = None"
    using sp by (simp add: h)
  have "(i, entry) \<in> set (cg_outputs h)"
    using m unfolding outs by simp
  moreover have "wf_dict (cg_outputs h)" using wfh by (simp add: cg_wf_def)
  ultimately show "map_of (cg_outputs h) i = Some entry" by (simp add: map_of_eq_Some_iff)
qed

lemma cg_pre_existing:
  assumes "cg_wf g" "map_of (cg_hash g) key = Some i"
  shows "cg_pre key i (g\<lparr>cg_nodes := AList.update i nd (cg_nodes g)\<rparr>)"
  using assms cg_wf_index [OF assms]
  by (auto simp: cg_pre_def cg_wf_def dict_simps) (metis option.inject)

lemma cg_pre_new:
  assumes "cg_wf g" "map_of (cg_nodes g) i = None" "map_of (cg_hash g) key = None"
  shows "cg_pre key i (g\<lparr>cg_nodes := AList.update i nd (cg_nodes g),
                        cg_hash := AList.update key i (cg_hash g)\<rparr>)"
  using assms by (auto simp: cg_pre_def cg_wf_def dict_simps) (metis option.distinct(1))+

lemma cg_pre_known:
  assumes "cg_wf g" "map_of (cg_nodes g) i \<noteq> None" "\<And>k. map_of (cg_hash g) k \<noteq> Some i"
  shows "cg_pre key i g"
  using assms by (auto simp: cg_pre_def cg_wf_def)

lemma cg_inv_wf [simp, dest]: "cg_inv g \<Longrightarrow> cg_wf g"
  by (simp add: cg_inv_def)

text \<open>Counters and statistics are not part of the invariant.\<close>

lemma cg_inv_counters [simp]:
  "cg_inv (g\<lparr>cg_hits := a\<rparr>) = cg_inv g"
  "cg_inv (g\<lparr>cg_misses := a\<rparr>) = cg_inv g"
  "cg_inv (g\<lparr>cg_redis_hits := a\<rparr>) = cg_inv g"
  "cg_inv (g\<lparr>cg_negative_hits := a\<rparr>) = cg_inv g"
  "cg_inv (g\<lparr>cg_stats := st\<rparr>) = cg_inv g"
  by (simp_all add: cg_inv_def cg_wf_def)

lemma cg_inv_nodes:
  assumes "cg_inv g" "wf_dict d" "\<And>i. map_of (cg_nodes g) i \<noteq> None \<Longrightarrow> map_of d i \<noteq> None"
  shows "cg_inv (g\<lparr>cg_nodes := d\<rparr>)"
  using assms cg_wf_nodes [of g d] by (simp add: cg_inv_def)

lemma cg_inv_bump:
  assumes "cg_inv g" shows "cg_inv (snd (bump_node i nd g))"
  using assms cg_inv_nodes [OF assms, of "AList.update i _ (cg_nodes g)"]
  by (auto simp: bump_node_def Let_def dict_simps cg_inv_def cg_wf_def)

section \<open>Every operation keeps the invariant and raises no KeyError\<close>

lemma l1_lookup_ok:
  assumes "cg_inv g"
  shows "\<exists>r g'. l1_lookup key now g = Inr (r, g') \<and> cg_inv g' \<and>
           (r = None \<longrightarrow> map_of (cg_hash g') key = None)"
proof (cases "map_of (cg_hash g) key")
  case None
  with assms show ?thesis by (simp add: l1_lookup_def)
next
  case (Some i)
  from cg_wf_index [OF cg_inv_wf [OF assms] Some] obtain c nd where
    c: "map_of (cg_outputs g) i = Some c" "co_lookup_key c = key"
    and nd: "map_of (cg_nodes g) i = Some nd" by blast
  show ?thesis
  proof (cases "expired c now")
    case True
    let ?h = "g\<lparr>cg_hash := AList.delete key (cg_hash g), cg_outputs := AList.delete i (cg_outputs g)\<rparr>"
    have "cg_wf ?h"
      using cg_inv_wf [OF assms] c unfolding cg_wf_def
      by (simp add: dict_simps) (metis option.inject)
    then have "cg_inv ?h"
      using assms length_delete_le [of i "cg_outputs g"] by (simp add: cg_inv_def)
    with True Some nd c show ?thesis by (simp add: l1_lookup_def dict_simps)
  next
    case False
    let ?b = "snd (bump_node i nd g)"
    have b: "cg_inv ?b" by (rule cg_inv_bump [OF assms])
    then have "cg_inv (?b\<lparr>cg_outputs := move_to_end i (cg_outputs ?b)\<rparr>)"
      by (simp add: cg_inv_def cg_wf_def length_move)
    with False Some nd c show ?thesis
      by (auto simp: l1_lookup_def case_prod_beta cg_inv_def cg_wf_def)
  qed
qed

text \<open>
  Redis is shared by workers that all write with \<open>store_redis\<close>, so an identifier belongs to one
  lookup key. This is what a payload must satisfy: no other key's index row uses its identifier.
\<close>

definition redis_consistent :: "string \<Rightarrow> payload \<Rightarrow> cgraph \<Rightarrow> bool" where
  "redis_consistent key p g \<longleftrightarrow>
     (\<forall>k \<in> set (map fst (cg_hash g)). k \<noteq> key \<longrightarrow> map_of (cg_hash g) k \<noteq> Some (hydrated_id p key))"

lemma hydrate_payload_ok:
  assumes inv: "cg_inv g" and nokey: "map_of (cg_hash g) key = None"
    and cons: "redis_consistent key p g"
  shows "cg_inv (snd (hydrate_payload c key p ex g))"
proof -
  let ?i = "hydrated_id p key"
  have none: "map_of (cg_hash g) k \<noteq> Some ?i" for k
    using cons nokey unfolding redis_consistent_def
    by (metis map_of_keys option.distinct(1) set_map)
  show ?thesis
  proof (cases "map_of (cg_nodes g) ?i")
    case None
    show ?thesis
      using store_output_spec(1,4) [OF cg_pre_new [OF cg_inv_wf [OF inv] None nokey]]
      by (auto simp: hydrate_payload_def Let_def None intro!: cg_inv_nodes)
        (auto simp: dict_simps cg_inv_def cg_wf_def)
  next
    case (Some nd)
    then have "cg_pre key ?i g" using cg_pre_known [OF cg_inv_wf [OF inv] _ none] by simp
    from store_output_spec(1) [OF this] show ?thesis
      by (auto simp: hydrate_payload_def Let_def Some intro!: cg_inv_nodes)
        (auto simp: dict_simps cg_inv_def cg_wf_def)
  qed
qed

lemma redis_consistent_mono:
  assumes "redis_consistent key p g"
    and "\<And>k. map_of (cg_hash h) k \<noteq> None \<Longrightarrow> map_of (cg_hash h) k = map_of (cg_hash g) k"
  shows "redis_consistent key p h"
  using assms unfolding redis_consistent_def
  by (metis map_of_keys option.distinct(1) set_map)

lemma l1_lookup_hash:
  "l1_lookup key now g = Inr (r, g') \<Longrightarrow> map_of (cg_hash g') k \<noteq> None \<Longrightarrow>
     map_of (cg_hash g') k = map_of (cg_hash g) k"
  by (auto simp: l1_lookup_def bump_node_def Let_def dict_simps split: option.splits if_splits)

fun reply_ok :: "string \<Rightarrow> redis_get \<Rightarrow> cgraph \<Rightarrow> bool" where
  "reply_ok key (GetPayload p) g = redis_consistent key p g"
| "reply_ok key _ g = True"

lemma hydrate_from_redis_ok:
  assumes "cg_inv g" "map_of (cg_hash g) key = None" "reply_ok key reply g"
    and "hydrate_from_redis c key reply ttl now g = Some (r, g')"
  shows "cg_inv g'"
  using assms hydrate_payload_ok [OF assms(1,2)]
  by (auto simp: hydrate_from_redis_def split: if_splits redis_get.splits)
    (metis prod.sel(2))

lemma get_by_key_ok:
  assumes inv: "cg_inv g" and ok: "reply_ok key reply g"
  shows "\<exists>r g'. get_cached_result_by_key c key u reply ttl now g = Inr (r, g') \<and> cg_inv g'"
proof -
  from l1_lookup_ok [OF inv, of key now] obtain r g1 where
    l1: "l1_lookup key now g = Inr (r, g1)" and inv1: "cg_inv g1"
    and nokey: "r = None \<longrightarrow> map_of (cg_hash g1) key = None" by blast
  have ok1: "reply_ok key reply g1"
    using ok redis_consistent_mono [OF _ l1_lookup_hash [OF l1]] by (cases reply) auto
  show ?thesis
  proof (cases r)
    case (Some v)
    with l1 inv1 show ?thesis by (simp add: get_cached_result_by_key_def)
  next
    case None
    with nokey have nk: "map_of (cg_hash g1) key = None" by simp
    show ?thesis
    proof (cases "hydrate_from_redis c key reply ttl now g1")
      case None
      with l1 \<open>r = None\<close> inv1 show ?thesis by (simp add: get_cached_result_by_key_def)
    next
      case (Some x)
      obtain v g2 where x: "x = (v, g2)" by (cases x)
      with hydrate_from_redis_ok [OF inv1 nk ok1] Some have "cg_inv g2" by blast
      with l1 \<open>r = None\<close> Some x inv1 show ?thesis
        by (simp add: get_cached_result_by_key_def)
    qed
  qed
qed

lemma add_child_keys: "map_of (add_child p i d) j = None \<longleftrightarrow> map_of d j = None"
  by (auto simp: add_child_def dict_simps split: option.splits)

lemma wf_add_child: "wf_dict d \<Longrightarrow> wf_dict (add_child p i d)"
  by (auto simp: add_child_def dict_simps split: option.splits)

lemma cg_inv_add_child:
  assumes "cg_inv g" shows "cg_inv (g\<lparr>cg_nodes := add_child p i (cg_nodes g)\<rparr>)"
  using assms by (intro cg_inv_nodes) (auto simp: add_child_keys wf_add_child cg_inv_def cg_wf_def)

lemma register_ok:
  assumes inv: "cg_inv g" and fresh: "map_of (cg_nodes g) (''comp_'' @ uid) = None"
  shows "\<exists>nd g' w. register_computation uid c ih out lat su parent nxt persist oh now g
           = Inr (nd, g', w) \<and> cg_inv g' \<and>
           (\<exists>i. map_of (cg_hash g') (lookup_key c ih) = Some i \<and>
              map_of (cg_outputs g') i = Some \<lparr>co_state = out, co_next = nxt, co_success = su,
                 co_expires_at = Some (now + of_int (ttl_for g c su)),
                 co_lookup_key = lookup_key c ih\<rparr>)"
proof (cases "map_of (cg_hash g) (lookup_key c ih)")
  case None
  note sp = store_output_spec [OF cg_pre_new [OF cg_inv_wf [OF inv] fresh None]]
  from sp(1) [THEN cg_inv_add_child] sp(3,5) show ?thesis
    by (simp add: register_computation_def register_new_def Let_def None dict_simps)
next
  case (Some i)
  from cg_wf_index [OF cg_inv_wf [OF inv] Some] obtain nd where nd: "map_of (cg_nodes g) i = Some nd"
    by blast
  note sp = store_output_spec [OF cg_pre_existing [OF cg_inv_wf [OF inv] Some]]
  from sp(1,3,5) show ?thesis
    by (simp add: register_computation_def register_existing_def Let_def Some nd)
qed

section \<open>Runs of the cache\<close>

datatype cg_event =
    Lookup string string bool redis_get redis_ttl rat
  | Register string string string dict rat bool "string option" "string option" bool string rat

fun cg_step :: "cg_event \<Rightarrow> cgraph \<Rightarrow> cgraph" where
  "cg_step (Lookup c key u reply ttl now) g =
     (case get_cached_result_by_key c key u reply ttl now g of Inl _ \<Rightarrow> g | Inr (_, g') \<Rightarrow> g')"
| "cg_step (Register uid c ih out lat su parent nxt persist oh now) g =
     (case register_computation uid c ih out lat su parent nxt persist oh now g of
        Inl _ \<Rightarrow> g | Inr (_, g', _) \<Rightarrow> g')"

text \<open>Identifiers are fresh, and Redis payloads carry the identifier of their own key.\<close>

fun cg_ok :: "cg_event \<Rightarrow> cgraph \<Rightarrow> bool" where
  "cg_ok (Lookup c key u reply ttl now) g = reply_ok key reply g"
| "cg_ok (Register uid c ih out lat su parent nxt persist oh now) g =
     (map_of (cg_nodes g) (''comp_'' @ uid) = None)"

interpretation cache: invariant_machine cg_step cg_ok cg_inv
proof
  fix s e
  assume inv: "cg_inv s" and ok: "cg_ok e s"
  show "cg_inv (cg_step e s)"
  proof (cases e)
    case (Lookup c key u reply ttl now)
    with ok get_by_key_ok [OF inv, of key reply c u ttl now] show ?thesis by auto
  next
    case (Register uid c ih out lat su parent nxt persist oh now)
    with ok register_ok [OF inv, of uid c ih out lat su parent nxt persist oh now]
    show ?thesis by auto
  qed
qed


abbreviation sample_graph :: cgraph where
  "sample_graph \<equiv> new_graph 1 30 3 [] ''p:'' False"

abbreviation sample_events :: "cg_event list" where
  "sample_events \<equiv>
     [Register ''a'' ''c'' ''h1'' [] 5 True None None False [] 0,
      Register ''b'' ''c'' ''h2'' [] 5 True None None False [] 1]"

lemmas cache_eval =
  new_graph_def register_computation_def register_new_def register_existing_def
  lookup_key_def ttl_for_def store_output_def evict.simps evict_one_def move_to_end_def
  add_child_def bump_stats_def store_redis_def l1_lookup_def expired_def bump_node_def
  get_cached_result_by_key_def get_cached_result_def hydrate_from_redis_def AList.delete_eq Let_def


text \<open>
  C5: A registered computation is served from the cache until it expires: a lookup of the same
  capability and input before the expiry returns the registered state and next capability and counts
  one hit.
\<close>

theorem registered_is_served:
  assumes inv: "cg_inv g" and fresh: "map_of (cg_nodes g) (''comp_'' @ uid) = None"
    and reg: "register_computation uid c ih out lat su parent nxt persist oh now g = Inr (nd, g', w)"
    and live: "now' < now + of_int (ttl_for g c su)"
  shows "\<exists>r g''. get_cached_result c ih u reply ttl now' g' = Inr (Some r, g'') \<and>
           ca_state r = out \<and> ca_next r = nxt \<and> cg_hits g'' = cg_hits g' + 1"
proof -
  from register_ok [OF inv fresh, of c ih out lat su parent nxt persist oh now] reg obtain i where
    inv': "cg_inv g'" and h: "map_of (cg_hash g') (lookup_key c ih) = Some i"
    and o': "map_of (cg_outputs g') i = Some \<lparr>co_state = out, co_next = nxt, co_success = su,
                 co_expires_at = Some (now + of_int (ttl_for g c su)),
                 co_lookup_key = lookup_key c ih\<rparr>"
    by auto
  from cg_wf_index [OF cg_inv_wf [OF inv'] h] obtain n where "map_of (cg_nodes g') i = Some n" by blast
  with h o' live show ?thesis
    by (simp add: get_cached_result_def get_cached_result_by_key_def l1_lookup_def expired_def
        bump_node_def Let_def)
qed

theorem registered_is_served_witness:
  "\<exists>r g''. get_cached_result ''c'' ''h1'' True GetMissing TtlUnreadable 29
       (cg_step (Register ''a'' ''c'' ''h1'' [(''x'', PInt 1)] 5 True None None False [] 0)
          sample_graph) = Inr (Some r, g'') \<and> ca_state r = [(''x'', PInt 1)]"
proof -
  have fr: "map_of (cg_nodes sample_graph) (''comp_'' @ ''a'') = None" by (simp add: new_graph_def)
  then obtain nd g' w where reg: "register_computation ''a'' ''c'' ''h1'' [(''x'', PInt 1)] 5 True None None
      False [] 0 sample_graph = Inr (nd, g', w)"
    using register_ok [OF cg_inv_new fr, of "''c''" "''h1''" "[(''x'', PInt 1)]" 5 True None None False "[]" 0]
    by blast
  have "(29::rat) < 0 + of_int (ttl_for sample_graph ''c'' True)"
    by (simp add: ttl_for_def new_graph_def)
  from registered_is_served [OF cg_inv_new fr reg this, of True GetMissing TtlUnreadable] reg
  show ?thesis by auto
qed

text \<open>
  C28: The L1 cache never serves a stale entry: whatever it serves at time \<open>now\<close> has no expiry or
  one after \<open>now\<close>, and it is an entry that was stored under the key asked for. An expired entry is
  dropped from the index and from the outputs.
\<close>

theorem l1_never_stale:
  assumes inv: "cg_inv g" and l1: "l1_lookup key now g = Inr (r, g')"
  shows "case r of
      Some v \<Rightarrow> \<exists>i c. map_of (cg_hash g) key = Some i \<and> map_of (cg_outputs g) i = Some c \<and>
                  co_lookup_key c = key \<and> ca_state v = co_state c \<and> ca_next v = co_next c \<and>
                  (\<forall>t. co_expires_at c = Some t \<longrightarrow> now < t)
    | None \<Rightarrow> map_of (cg_hash g') key = None \<and> cg_hits g' = cg_hits g"
proof (cases "map_of (cg_hash g) key")
  case None
  with l1 show ?thesis by (auto simp: l1_lookup_def)
next
  case (Some i)
  from cg_wf_index [OF cg_inv_wf [OF inv] Some] obtain c nd where
    "map_of (cg_outputs g) i = Some c" "co_lookup_key c = key" "map_of (cg_nodes g) i = Some nd"
    by blast
  with l1 Some show ?thesis
    by (auto simp: l1_lookup_def expired_def bump_node_def Let_def dict_simps
        split: if_splits option.splits)
qed

theorem l1_never_stale_witness:
  "\<exists>g'. l1_lookup ''c:h2'' 31 (run_steps cg_step sample_events sample_graph) = Inr (None, g') \<and>
     map_of (cg_hash g') ''c:h2'' = None"
proof -
  have ok: "run_ok cg_step cg_ok sample_events sample_graph" by (simp add: cache_eval)
  have inv: "cg_inv (run_steps cg_step sample_events sample_graph)"
    by (rule cache.run_inv [OF cg_inv_new ok])
  obtain r g' where l1: "l1_lookup ''c:h2'' 31 (run_steps cg_step sample_events sample_graph) = Inr (r, g')"
    using l1_lookup_ok [OF inv] by blast
  have "r = None" using l1 by (auto simp: cache_eval)
  with l1 l1_never_stale [OF inv l1] show ?thesis by auto
qed

text \<open>
  C32: Storing an output makes it the most recently used entry and, when the cache is full, evicts
  exactly the least recently used entries together with their node rows; all other entries keep
  their order. (Here for one store into a full cache under a new identifier.)
\<close>

theorem full_store_evicts_lru:
  assumes inv: "cg_inv g" and full: "cg_outputs g = (old, oc) # rest"
      "length (cg_outputs g) = cg_max_entries g"
    and new: "map_of (cg_nodes g) i = None" "map_of (cg_hash g) key = None"
    and h: "h = store_output i key st nxt su ex
      (g\<lparr>cg_nodes := AList.update i nd (cg_nodes g), cg_hash := AList.update key i (cg_hash g)\<rparr>)"
  shows "map fst (cg_outputs h) = map fst rest @ [i] \<and> map_of (cg_nodes h) old = None \<and>
         map_of (cg_hash h) key = Some i \<and> (\<forall>k. map_of (cg_hash h) k \<noteq> Some old)"
proof -
  let ?g = "g\<lparr>cg_nodes := AList.update i nd (cg_nodes g), cg_hash := AList.update key i (cg_hash g)\<rparr>"
  let ?e = "?g\<lparr>cg_outputs := cg_outputs g @ [(i, \<lparr>co_state = st, co_next = nxt, co_success = su,
      co_expires_at = ex, co_lookup_key = key\<rparr>)]\<rparr>"
  note sp = store_output_spec [OF cg_pre_new [OF cg_inv_wf [OF inv] new, of nd],
      where st = st and nxt = nxt and su = su and ex = ex, folded h]
  have oi: "map_of (cg_outputs g) i = None"
    using cg_inv_wf [OF inv] new(1) unfolding cg_wf_def by (metis not_None_eq)
  then have del: "AList.delete i (cg_outputs g) = cg_outputs g"
    by (simp add: delete_absent map_of_eq_None_iff)
  have outs: "cg_outputs h = rest @ [(i, \<lparr>co_state = st, co_next = nxt, co_success = su,
        co_expires_at = ex, co_lookup_key = key\<rparr>)]"
    using sp(2) full del by simp
  have "wf_dict ((old, oc) # rest)" using cg_inv_wf [OF inv] full by (simp add: cg_wf_def)
  then have "map_of rest old = None" using wf_ConsD by metis
  moreover have "old \<noteq> i" using oi full by auto
  ultimately have oldout: "map_of (cg_outputs h) old = None" by (simp add: outs)
  have "h = evict (evict_one ?e)"
    unfolding h store_output_def move_update by (subst evict.simps) (use full del in simp)
  also have "\<dots> = evict_one ?e" by (subst evict.simps) (use full in simp)
  finally have "map_of (cg_nodes h) old = None"
    using full by (simp add: evict_one_def dict_simps)
  moreover have "\<forall>k. map_of (cg_hash h) k \<noteq> Some old"
    using cg_wf_index [OF cg_inv_wf [OF sp(1)]] oldout by fastforce
  moreover have "map_of (cg_hash h) key = Some i" using sp(5) by (simp add: dict_simps)
  ultimately show ?thesis by (simp add: outs)
qed

theorem full_store_evicts_lru_witness:
  "map fst (cg_outputs (run_steps cg_step sample_events sample_graph)) = [''comp_b'']"
proof -
  let ?g = "cg_step (hd sample_events) sample_graph"
  have inv: "cg_inv ?g"
    using cache.step_inv [OF cg_inv_new, of "hd sample_events" 1 30 3 "[]" "''p:''" False]
    by (simp add: new_graph_def)
  obtain oc where o: "cg_outputs ?g = [(''comp_a'', oc)]" by (auto simp: cache_eval)
  have len: "length (cg_outputs ?g) = cg_max_entries ?g"
    and n: "map_of (cg_nodes ?g) ''comp_b'' = None" and k: "map_of (cg_hash ?g) ''c:h2'' = None"
    by (simp_all add: cache_eval)
  show ?thesis
    using full_store_evicts_lru [OF inv o len n k refl] by (simp add: cache_eval)
qed

section \<open>Where the cache falls short of its comments\<close>

text \<open>
  Note: Expiry leaks node rows. Looking up an expired entry without Redis drops its index row and its
  output but keeps its node row, and registering the computation again adds a node row under a new
  identifier: each expiry cycle of one and the same input grows \<open>_nodes\<close> by one while the number of
  outputs stays the same, so the bound on entries does not bound the node table.
\<close>

theorem expiry_cycle_leaks_node:
  assumes inv: "cg_inv g" and nored: "\<not> cg_redis g"
    and h: "map_of (cg_hash g) (lookup_key c ih) = Some i"
    and o: "map_of (cg_outputs g) i = Some st" "expired st now"
    and fresh: "map_of (cg_nodes g) (''comp_'' @ uid) = None"
    and g1: "g1 = cg_step (Lookup c (lookup_key c ih) u reply ttl now) g"
    and g2: "g2 = cg_step (Register uid c ih out lat su None nxt False oh now) g1"
  shows "length (cg_nodes g2) = Suc (length (cg_nodes g)) \<and>
         length (cg_outputs g2) = length (cg_outputs g) \<and> map_of (cg_nodes g2) i \<noteq> None"
proof -
  from cg_wf_index [OF cg_inv_wf [OF inv] h] o(1) obtain nd where nd: "map_of (cg_nodes g) i = Some nd"
    by blast
  have l: "l1_lookup (lookup_key c ih) now g = Inr (None,
      g\<lparr>cg_hash := AList.delete (lookup_key c ih) (cg_hash g), cg_outputs := AList.delete i (cg_outputs g)\<rparr>)"
    using h o nd by (simp add: l1_lookup_def)
  have g1': "cg_nodes g1 = cg_nodes g \<and> cg_outputs g1 = AList.delete i (cg_outputs g) \<and>
      map_of (cg_hash g1) (lookup_key c ih) = None \<and> cg_max_entries g1 = cg_max_entries g"
    unfolding g1 by (simp add: get_cached_result_by_key_def l hydrate_from_redis_def nored dict_simps)
  from l1_lookup_ok [OF inv, of "lookup_key c ih" now] l have inv1: "cg_inv g1"
    unfolding g1 by (auto simp: get_cached_result_by_key_def hydrate_from_redis_def nored)
  define j where "j = ''comp_'' @ uid"
  have fresh1: "map_of (cg_nodes g1) j = None" using g1' fresh by (simp add: j_def)
  have "i \<in> fst ` set (cg_outputs g)" using o(1) by (simp add: map_of_keys)
  moreover have "wf_dict (cg_outputs g)" using cg_inv_wf [OF inv] by (simp add: cg_wf_def)
  ultimately have len: "Suc (length (cg_outputs g1)) = length (cg_outputs g)"
    using g1' length_delete_present by simp
  have room: "length (cg_outputs g) \<le> cg_max_entries g" using inv by (simp add: cg_inv_def)
  have new: "map_of (cg_outputs g1) j = None"
    using cg_inv_wf [OF inv1] fresh1 unfolding cg_wf_def by (metis not_None_eq)
  have step: "g2 = fst (snd (register_new j (lookup_key c ih) c ih None out lat su nxt
      False [] (ttl_for g1 c su) now g1))"
    using g1' by (simp add: g2 j_def register_computation_def Let_def split: prod.split)
  have st: "store_output j k out nxt su e (g1\<lparr>cg_nodes := d, cg_hash := h'\<rparr>) =
      g1\<lparr>cg_nodes := d, cg_hash := h', cg_outputs := cg_outputs g1 @ [(j,
        \<lparr>co_state = out, co_next = nxt, co_success = su, co_expires_at = e, co_lookup_key = k\<rparr>)]\<rparr>"
    for d h' k e
    using new len room g1'
    by (simp add: store_output_def move_update delete_absent map_of_eq_None_iff evict.simps)
  have "j \<notin> fst ` set (cg_nodes g)" using fresh1 g1' by (simp add: map_of_eq_None_iff)
  then show ?thesis
    unfolding step using g1' len nd
    by (simp add: register_new_def st Let_def add_child_def length_update dict_simps)
qed

theorem expiry_cycle_leaks_node_witness:
  "length (cg_nodes (cg_step (Register ''n'' ''c'' ''h2'' [] 5 True None None False [] 40)
      (cg_step (Lookup ''c'' (lookup_key ''c'' ''h2'') True GetMissing TtlUnreadable 40)
         (run_steps cg_step sample_events sample_graph)))) = 2"
proof -
  let ?g = "run_steps cg_step sample_events sample_graph"
  have ok: "run_ok cg_step cg_ok sample_events sample_graph" by (simp add: cache_eval)
  have inv: "cg_inv ?g" by (rule cache.run_inv [OF cg_inv_new ok])
  obtain st where o: "map_of (cg_outputs ?g) ''comp_b'' = Some st" "expired st 40"
    by (auto simp: cache_eval)
  have "\<not> cg_redis ?g" "map_of (cg_hash ?g) (lookup_key ''c'' ''h2'') = Some ''comp_b''"
    "map_of (cg_nodes ?g) (''comp_'' @ ''n'') = None" "length (cg_nodes ?g) = 1"
    by (simp_all add: cache_eval)
  with expiry_cycle_leaks_node [OF inv _ _ o _ refl refl, of "''c''" "''h2''" "''n''"] show ?thesis
    by simp
qed

text \<open>
  Note: A result hydrated from Redis for a computation whose local entry had expired is never indexed
  again: the node row survived the expiry, so hydration takes the existing node and writes no index
  row. The next lookup of the key misses L1 even though the fresh copy is stored there.
\<close>

theorem rehydration_is_not_indexed:
  assumes "map_of (cg_hash g) key = None" "map_of (cg_nodes g) (hydrated_id p key) = Some nd"
    and "cg_pre key (hydrated_id p key) g"
    and "hydrate_payload c key p ex g = (r, g')"
  shows "map_of (cg_hash g') key = None \<and> l1_lookup key now g' = Inr (None, g') \<and>
         map_of (cg_outputs g') (hydrated_id p key) \<noteq> None"
proof -
  note sp = store_output_spec [OF assms(3), where st = "pl_state p" and nxt = "pl_next p"
      and su = "pl_success p" and ex = ex]
  have g': "cg_hash g' = cg_hash (store_output (hydrated_id p key) key (pl_state p) (pl_next p)
      (pl_success p) ex g)" "cg_outputs g' = cg_outputs (store_output (hydrated_id p key) key
      (pl_state p) (pl_next p) (pl_success p) ex g)"
    using assms(2,4) by (auto simp: hydrate_payload_def Let_def)
  have none: "map_of (cg_hash g') key = None" unfolding g' by (rule sp(6) [OF assms(1)])
  then show ?thesis using sp(3) by (simp add: g' l1_lookup_def)
qed

abbreviation sample_payload :: payload where
  "sample_payload \<equiv> \<lparr>pl_node_id = Some ''comp_b'', pl_output_hash = [], pl_latency_ms = 5,
     pl_success = True, pl_state = [], pl_next = None\<rparr>"

definition rehydration_graph :: cgraph where
  "rehydration_graph = cg_step (Lookup ''c'' ''c:h2'' True GetMissing TtlUnreadable 40)
     (run_steps cg_step sample_events sample_graph)"

theorem rehydration_is_not_indexed_witness:
  "\<exists>r g'. hydrate_payload ''c'' ''c:h2'' sample_payload (Some 70) rehydration_graph = (r, g') \<and>
     l1_lookup ''c:h2'' 41 g' = Inr (None, g')"
proof -
  have id: "hydrated_id sample_payload ''c:h2'' = ''comp_b''" by (simp add: hydrated_id_def or_str_def)
  have h: "map_of (cg_hash rehydration_graph) ''c:h2'' = None"
    by (simp add: rehydration_graph_def cache_eval)
  obtain nd where nd: "map_of (cg_nodes rehydration_graph) ''comp_b'' = Some nd"
    by (auto simp: rehydration_graph_def cache_eval)
  have pre: "cg_pre ''c:h2'' ''comp_b'' rehydration_graph"
    by (simp add: cg_pre_def rehydration_graph_def cache_eval)
  obtain r g' where
    "hydrate_payload ''c'' ''c:h2'' sample_payload (Some 70) rehydration_graph = (r, g')"
    by (metis surj_pair)
  with rehydration_is_not_indexed [OF h _ _ this] nd pre id show ?thesis by auto
qed

lemma after_colon_key: "CHR '':'' \<notin> set c \<Longrightarrow> after_colon (lookup_key c h) = h"
proof -
  assume "CHR '':'' \<notin> set c"
  then have "dropWhile (\<lambda>x. x \<noteq> CHR '':'') (c @ '':'' @ h) = '':'' @ h"
    by (subst dropWhile_append2) auto
  then show ?thesis by (simp add: lookup_key_def after_colon_def)
qed

lemma store_output_redis [simp]: "cg_redis (store_output i k st nx su ex g) = cg_redis g"
  by (simp add: store_output_def)

lemma l1_keeps_redis: "l1_lookup key now g = Inr (v, g') \<Longrightarrow> cg_redis g' = cg_redis g"
  by (auto simp: l1_lookup_def bump_node_def Let_def split: option.splits if_splits)

lemma hydrate_keeps_redis: "cg_redis (snd (hydrate_payload c key p ex g)) = cg_redis g"
  by (simp add: hydrate_payload_def Let_def split: option.split)

lemma lookup_keeps_redis:
  assumes "get_cached_result_by_key c key u reply ttl now g = Inr (v, g')"
  shows "cg_redis g' = cg_redis g"
proof (cases "l1_lookup key now g")
  case (Inl e)
  with assms show ?thesis by (simp add: get_cached_result_by_key_def)
next
  case (Inr q)
  obtain w g1 where q: "q = (w, g1)" by (cases q)
  from l1_keeps_redis Inr q have g1: "cg_redis g1 = cg_redis g" by blast
  have "cg_redis h = cg_redis g1" if "hydrate_from_redis c key reply ttl now g1 = Some (r, h)" for r h
    using that hydrate_keeps_redis [of c key _ _ g1]
    by (auto simp: hydrate_from_redis_def split: if_splits redis_get.splits) (metis snd_conv)
  with assms Inr q g1 show ?thesis
    by (cases w) (auto simp: get_cached_result_by_key_def split: if_splits option.splits)
qed

lemma register_keeps_redis:
  "register_computation uid c ih out lat su parent nxt persist oh now g = Inr (nd, g', w) \<Longrightarrow>
     cg_redis g' = cg_redis g"
  by (auto simp: register_computation_def register_new_def register_existing_def Let_def
      split: option.splits)

text \<open>A live entry is served, and stays where it is.\<close>

lemma served_from_l1:
  assumes "map_of (cg_hash g) key = Some i" "map_of (cg_outputs g) i = Some e" "\<not> expired e now"
    and "map_of (cg_nodes g) i = Some nd"
  shows "\<exists>g'. get_cached_result_by_key c key u reply ttl now g =
      Inr (Some \<lparr>ca_node = nd\<lparr>cn_execution_count := cn_execution_count nd + 1\<rparr>,
                ca_state = co_state e, ca_next = co_next e\<rparr>, g') \<and>
    map_of (cg_hash g') key = Some i \<and> map_of (cg_outputs g') i = Some e \<and>
    map_of (cg_nodes g') i = Some (nd\<lparr>cn_execution_count := cn_execution_count nd + 1\<rparr>)"
  using assms
  by (simp add: get_cached_result_by_key_def l1_lookup_def bump_node_def Let_def dict_simps)

text \<open>
  Note: The executor rebuilds the input hash from a lookup key by splitting at the first colon. For a
  capability without a colon registration then writes the very key that was looked up; for a
  capability that contains one it writes another key, so the result is never found again.
\<close>

theorem split_key_roundtrip:
  "lookup_key c (after_colon (lookup_key c h)) = lookup_key c h \<longleftrightarrow> CHR '':'' \<notin> set c"
proof (cases "CHR '':'' \<in> set c")
  case False
  then show ?thesis by (simp add: after_colon_key)
next
  case True
  then obtain a b where c: "c = a @ CHR '':'' # b" "CHR '':'' \<notin> set a"
    by (meson split_list_first)
  then have "dropWhile (\<lambda>x. x \<noteq> CHR '':'') (c @ '':'' @ h) = CHR '':'' # b @ '':'' @ h"
    by (simp add: dropWhile_append2) (subst dropWhile_append2, auto)
  with True show ?thesis by (simp add: lookup_key_def after_colon_def)
qed

text \<open>
  Note: Bookkeeping: a lookup that may use Redis counts exactly one hit or one miss, so the hit ratio
  lies between 0 and 1.
\<close>

theorem lookup_counts_once:
  assumes inv: "cg_inv g" and res: "get_cached_result_by_key c key True reply ttl now g = Inr (r, g')"
  shows "cg_hits g' + cg_misses g' = Suc (cg_hits g + cg_misses g) \<and>
         (r \<noteq> None \<longleftrightarrow> cg_hits g' = Suc (cg_hits g)) \<and> 0 \<le> hit_ratio g' \<and> hit_ratio g' \<le> 1"
proof -
  have l1: "l1_lookup key now g = Inr (x, g1) \<Longrightarrow> cg_misses g1 = cg_misses g \<and>
      cg_hits g1 = cg_hits g + (if x = None then 0 else 1)" for x g1
    by (auto simp: l1_lookup_def bump_node_def Let_def split: option.splits if_splits)
  have hyd: "hydrate_from_redis c key reply ttl now g1 = Some (x, g2) \<Longrightarrow>
      cg_misses g2 = cg_misses g1 \<and> cg_hits g2 = Suc (cg_hits g1)" for x g1 g2
    by (auto simp: hydrate_from_redis_def hydrate_payload_def Let_def store_output_def
        split: if_splits redis_get.splits option.splits)
  have "cg_hits g' + cg_misses g' = Suc (cg_hits g + cg_misses g) \<and>
      (r \<noteq> None \<longleftrightarrow> cg_hits g' = Suc (cg_hits g))"
    using res by (auto simp: get_cached_result_by_key_def dest!: l1 hyd
        split: sum.splits option.splits prod.splits)
  moreover have "0 \<le> hit_ratio g' \<and> hit_ratio g' \<le> 1"
    by (auto simp: hit_ratio_def divide_le_eq of_nat_le_iff simp flip: of_nat_max)
  ultimately show ?thesis by simp
qed

theorem lookup_counts_once_witness:
  "\<exists>r g'. get_cached_result_by_key ''c'' ''k'' True GetMissing TtlUnreadable 0 sample_graph = Inr (r, g')
     \<and> cg_hits g' + cg_misses g' = 1"
proof -
  obtain r g' where res: "get_cached_result_by_key ''c'' ''k'' True GetMissing TtlUnreadable 0
      sample_graph = Inr (r, g')"
    using get_by_key_ok [OF cg_inv_new, of "''k''" GetMissing 1 30 3 "[]" "''p:''" False "''c''" True TtlUnreadable 0] by auto
  have "cg_hits sample_graph + cg_misses sample_graph = 0" by (simp add: new_graph_def)
  with lookup_counts_once [OF cg_inv_new res] res show ?thesis by auto
qed

end
