(* ===== verification/Organism.thy ===== *)
theory Organism
  imports Envelope
begin

text \<open>
  Organisms (\<open>class Organism\<close> of \<open>src/prismpipe/engine/__init__.py\<close>): requests that keep state,
  history and knowledge, spawn children and inherit from each other.

  The code keeps every knowledge atom in a list and, under its key, in an index of the same atom
  objects. Only \<open>ingest_knowledge\<close> writes them, so one insertion-ordered dictionary stands for both.
  After \<open>evolve_pipeline\<close> the evolved pipeline and the plan's capabilities are one list object, so a
  flag records that the pipeline has evolved. Children are kept by their identifiers. Times and
  fresh hexadecimal identifiers are arguments.
\<close>

section \<open>State\<close>

datatype org_status =
  SPAWNED | EXPLORING | EXECUTING | LEARNING | STORED | EVOLVING | TERMINATED | SUSPENDED

record atom =
  ka_key :: string
  ka_value :: pval
  ka_confidence :: rat
  ka_source :: "string option"
  ka_timestamp :: rat
  ka_tags :: "string list"

text \<open>An intent is a member of the enumeration or a free string.\<close>

type_synonym org_intent = "intent + string"

record organism =
  og_id :: string
  og_intent :: org_intent
  og_input :: dict
  og_state :: dict
  og_history :: "history_entry list"
  og_metadata :: metadata
  og_status :: org_status
  og_plan :: plan
  og_next :: "string option"
  og_parent :: "string option"
  og_knowledge :: "atom pdict"
  og_execution_count :: nat
  og_created_at :: rat
  og_last_executed_at :: "rat option"
  og_computation_node :: "string option"
  og_evolved :: bool
  og_original :: "string list"
  og_children :: "string list"

definition normalize_intent :: "org_intent \<Rightarrow> org_intent" where
  "normalize_intent i =
     (case i of Inl v \<Rightarrow> Inl v
      | Inr s \<Rightarrow> (case intent_of s of Some v \<Rightarrow> Inl v | None \<Rightarrow> Inr s))"

definition intent_str :: "org_intent \<Rightarrow> string" where
  "intent_str i = (case i of Inl v \<Rightarrow> intent_value v | Inr s \<Rightarrow> s)"

text \<open>The enumeration member an envelope carries: a free string becomes \<open>CUSTOM\<close>.\<close>

definition envelope_intent :: "org_intent \<Rightarrow> intent" where
  "envelope_intent i = (case normalize_intent i of Inl v \<Rightarrow> v | Inr _ \<Rightarrow> CUSTOM)"

definition new_organism ::
    "string \<Rightarrow> rat \<Rightarrow> org_intent \<Rightarrow> dict \<Rightarrow> string option \<Rightarrow> string option \<Rightarrow> organism" where
  "new_organism uid now i inp cap parent =
     \<lparr>og_id = ''org_'' @ uid, og_intent = normalize_intent i, og_input = inp, og_state = [],
      og_history = [], og_metadata = empty_metadata, og_status = SPAWNED, og_plan = empty_plan,
      og_next = cap, og_parent = parent, og_knowledge = [], og_execution_count = 0,
      og_created_at = now, og_last_executed_at = None, og_computation_node = None,
      og_evolved = False, og_original = [], og_children = []\<rparr>"

section \<open>Envelopes\<close>

definition to_envelope :: "organism \<Rightarrow> envelope" where
  "to_envelope o' =
     \<lparr>env_id = og_id o', env_intent = envelope_intent (og_intent o'), env_input = PDict (og_input o'),
      env_state = og_state o', env_history = og_history o', env_metadata = og_metadata o',
      env_plan = og_plan o', env_next = og_next o', env_error = None, env_terminated = False,
      env_parent_id = og_parent o'\<rparr>"

text \<open>
  \<open>from_envelope\<close>. An organism's input is declared to be a dictionary; an envelope whose (non-empty)
  input is something else is outside that type and has no model.
\<close>

definition from_envelope :: "rat \<Rightarrow> envelope \<Rightarrow> organism option" where
  "from_envelope now e =
     (case (if truthy (env_input e) then env_input e else PDict []) of
        PDict d \<Rightarrow>
          Some ((new_organism [] now (Inl (env_intent e)) d None (env_parent_id e))
            \<lparr>og_id := env_id e, og_state := env_state e, og_history := env_history e,
             og_metadata := env_metadata e, og_plan := env_plan e, og_next := env_next e,
             og_status := (if env_terminated e then TERMINATED else SPAWNED)\<rparr>)
      | _ \<Rightarrow> None)"

section \<open>Knowledge\<close>

definition ingest_knowledge ::
    "rat \<Rightarrow> string \<Rightarrow> pval \<Rightarrow> rat \<Rightarrow> string option \<Rightarrow> string list \<Rightarrow> organism \<Rightarrow> organism" where
  "ingest_knowledge now k v c cap tags o' =
     (let a = (case map_of (og_knowledge o') k of
                 Some ex \<Rightarrow> ex\<lparr>ka_value := v, ka_confidence := max (ka_confidence ex) c,
                              ka_timestamp := now\<rparr>
               | None \<Rightarrow> \<lparr>ka_key = k, ka_value = v, ka_confidence = c, ka_source = cap,
                          ka_timestamp = now, ka_tags = tags\<rparr>)
      in o'\<lparr>og_knowledge := AList.update k a (og_knowledge o')\<rparr>)"

definition get_knowledge :: "string \<Rightarrow> organism \<Rightarrow> atom option" where
  "get_knowledge k o' = map_of (og_knowledge o') k"

text \<open>The loop of \<open>spawn_child\<close> and \<open>inherit_from\<close>: atoms above a threshold are taken over, decayed.\<close>

definition absorb :: "rat \<Rightarrow> rat \<Rightarrow> rat \<Rightarrow> atom list \<Rightarrow> organism \<Rightarrow> organism" where
  "absorb now threshold factor atoms o' =
     fold (\<lambda>a. if ka_confidence a > threshold
               then ingest_knowledge now (ka_key a) (ka_value a) (ka_confidence a * factor) None []
               else (\<lambda>x. x)) atoms o'"

definition atoms_of :: "organism \<Rightarrow> atom list" where
  "atoms_of o' = map snd (og_knowledge o')"

text \<open>\<open>spawn_child\<close> returns the child and the parent with the child recorded.\<close>

definition spawn_child ::
    "string \<Rightarrow> rat \<Rightarrow> org_intent option \<Rightarrow> dict \<Rightarrow> string option \<Rightarrow> organism \<Rightarrow> organism \<times> organism" where
  "spawn_child uid now i patch cap o' =
     (let ci = (case i of None \<Rightarrow> og_intent o'
                | Some j \<Rightarrow> if j = Inr [] then og_intent o' else j);
          c0 = new_organism uid now ci (dict_update (og_input o') patch)
                 (case cap of None \<Rightarrow> og_next o' | Some _ \<Rightarrow> cap) (Some (og_id o'));
          c1 = (if truthy_opt cap then c0\<lparr>og_plan := plan_add (the cap) (og_plan c0)\<rparr> else c0);
          c2 = c1\<lparr>og_state := og_state o', og_metadata := og_metadata o'\<rparr>;
          c3 = absorb now (1/2) (9/10) (atoms_of o') c2
      in (c3, o'\<lparr>og_children := og_children o' @ [og_id c3]\<rparr>))"

definition inherit_from :: "rat \<Rightarrow> organism \<Rightarrow> bool \<Rightarrow> bool \<Rightarrow> organism \<Rightarrow> organism" where
  "inherit_from now p inherit_state inherit_knowledge o' =
     (let o1 = o'\<lparr>og_parent := Some (og_id p)\<rparr>;
          o2 = (if inherit_state then o1\<lparr>og_state := dict_update (og_state o1) (og_state p)\<rparr>
                else o1)
      in if inherit_knowledge then absorb now (3/10) (8/10) (atoms_of p) o2 else o2)"

section \<open>Plan, history and control\<close>

definition evolve_pipeline :: "string list \<Rightarrow> organism \<Rightarrow> organism" where
  "evolve_pipeline caps o' =
     o'\<lparr>og_original := (if og_original o' = [] then plan_capabilities (og_plan o')
                       else og_original o'),
       og_evolved := True, og_plan := (og_plan o')\<lparr>plan_capabilities := caps\<rparr>,
       og_status := EVOLVING\<rparr>"

definition add_capability :: "string \<Rightarrow> int option \<Rightarrow> organism \<Rightarrow> organism" where
  "add_capability c position o' =
     (case position of
        None \<Rightarrow> o'\<lparr>og_plan := plan_add c (og_plan o')\<rparr>
      | Some i \<Rightarrow> o'\<lparr>og_plan := plan_insert i c (og_plan o')\<rparr>)"

definition remove_capability :: "string \<Rightarrow> organism \<Rightarrow> organism" where
  "remove_capability c o' = o'\<lparr>og_plan := plan_remove c (og_plan o')\<rparr>"

definition evolved_pipeline :: "organism \<Rightarrow> string list" where
  "evolved_pipeline o' = (if og_evolved o' then plan_capabilities (og_plan o') else [])"

definition org_pipeline :: "organism \<Rightarrow> string list" where
  "org_pipeline o' =
     (if evolved_pipeline o' \<noteq> [] then evolved_pipeline o'
      else if og_original o' \<noteq> [] then og_original o'
      else plan_capabilities (og_plan o'))"

definition org_record ::
    "string \<Rightarrow> string \<Rightarrow> string \<Rightarrow> string \<Rightarrow> rat option \<Rightarrow> rat \<Rightarrow> organism \<Rightarrow> organism" where
  "org_record nid nty c action dur now o' =
     o'\<lparr>og_history := og_history o' @
        [\<lparr>he_node_id = nid, he_node_type = nty, he_capability = c, he_action = action,
          he_timestamp = now, he_duration_ms = dur, he_input_snapshot = Some (og_state o'),
          he_output_snapshot = None\<rparr>]\<rparr>"

definition record_execution :: "string \<Rightarrow> rat \<Rightarrow> rat \<Rightarrow> organism \<Rightarrow> organism" where
  "record_execution c dur now o' =
     org_record (''node_'' @ c) ''organism'' c ''executed'' (Some dur) now
       (o'\<lparr>og_execution_count := og_execution_count o' + 1, og_last_executed_at := Some now\<rparr>)"

definition org_set_next :: "string option \<Rightarrow> organism \<Rightarrow> organism" where
  "org_set_next c o' = o'\<lparr>og_next := c\<rparr>"

definition org_capability :: "organism \<Rightarrow> string option" where
  "org_capability o' = hop_capability (og_next o')"

definition org_terminate :: "string option \<Rightarrow> organism \<Rightarrow> organism" where
  "org_terminate err o' =
     (if truthy_opt err
      then o'\<lparr>og_status := TERMINATED,
             og_state := AList.update ''_error'' (PStr (the err)) (og_state o')\<rparr>
      else o'\<lparr>og_status := TERMINATED\<rparr>)"

definition org_terminated :: "organism \<Rightarrow> bool" where
  "org_terminated o' = (og_status o' = TERMINATED)"

definition lineage :: "organism \<Rightarrow> string list" where
  "lineage o' = (if truthy_opt (og_parent o') then [the (og_parent o')] else [])"

definition org_execution_time_ms :: "organism \<Rightarrow> rat option" where
  "org_execution_time_ms o' = execution_time_ms (og_history o')"

section \<open>Knowledge stays consistent and decays\<close>

text \<open>Keys of the index are unique and are the keys of their atoms.\<close>

definition wf_knowledge :: "organism \<Rightarrow> bool" where
  "wf_knowledge o' \<longleftrightarrow> wf_dict (og_knowledge o') \<and> (\<forall>k a. get_knowledge k o' = Some a \<longrightarrow> ka_key a = k)"

lemma new_organism_simps [simp]:
  "og_knowledge (new_organism uid now i inp cap parent) = []"
  "og_parent (new_organism uid now i inp cap parent) = parent"
  "og_id (new_organism uid now i inp cap parent) = ''org_'' @ uid"
  "og_plan (new_organism uid now i inp cap parent) = empty_plan"
  "og_next (new_organism uid now i inp cap parent) = cap"
  "og_input (new_organism uid now i inp cap parent) = inp"
  "og_status (new_organism uid now i inp cap parent) = SPAWNED"
  "og_intent (new_organism uid now i inp cap parent) = normalize_intent i"
  by (simp_all add: new_organism_def)

lemma ingest_frame [simp]:
  "og_state (ingest_knowledge now k v c cap tags o') = og_state o'"
  "og_parent (ingest_knowledge now k v c cap tags o') = og_parent o'"
  "og_id (ingest_knowledge now k v c cap tags o') = og_id o'"
  "og_plan (ingest_knowledge now k v c cap tags o') = og_plan o'"
  "og_next (ingest_knowledge now k v c cap tags o') = og_next o'"
  "og_input (ingest_knowledge now k v c cap tags o') = og_input o'"
  "og_status (ingest_knowledge now k v c cap tags o') = og_status o'"
  "og_intent (ingest_knowledge now k v c cap tags o') = og_intent o'"
  "og_metadata (ingest_knowledge now k v c cap tags o') = og_metadata o'"
  by (simp_all add: ingest_knowledge_def Let_def)

lemma absorb_frame [simp]:
  "og_state (absorb now t f as o') = og_state o'"
  "og_parent (absorb now t f as o') = og_parent o'"
  "og_id (absorb now t f as o') = og_id o'"
  "og_plan (absorb now t f as o') = og_plan o'"
  "og_next (absorb now t f as o') = og_next o'"
  "og_input (absorb now t f as o') = og_input o'"
  "og_status (absorb now t f as o') = og_status o'"
  "og_intent (absorb now t f as o') = og_intent o'"
  "og_metadata (absorb now t f as o') = og_metadata o'"
  by (induction as arbitrary: o') (simp_all add: absorb_def)

text \<open>What one lookup sees after an ingestion.\<close>

lemma get_ingest:
  "get_knowledge j (ingest_knowledge now k v c cap tags o') =
     (if j \<noteq> k then get_knowledge j o'
      else Some (case get_knowledge k o' of
          Some ex \<Rightarrow> ex\<lparr>ka_value := v, ka_confidence := max (ka_confidence ex) c, ka_timestamp := now\<rparr>
        | None \<Rightarrow> \<lparr>ka_key = k, ka_value = v, ka_confidence = c, ka_source = cap,
                    ka_timestamp = now, ka_tags = tags\<rparr>))"
  by (simp add: get_knowledge_def ingest_knowledge_def Let_def dict_simps)

lemma ingest_wf: "wf_knowledge o' \<Longrightarrow> wf_knowledge (ingest_knowledge now k v c cap tags o')"
proof -
  assume wf: "wf_knowledge o'"
  then have "wf_dict (og_knowledge (ingest_knowledge now k v c cap tags o'))"
    by (simp add: wf_knowledge_def ingest_knowledge_def Let_def dict_simps)
  with wf show ?thesis
    by (auto simp: wf_knowledge_def get_ingest split: if_splits option.splits)
qed

lemma absorb_wf: "wf_knowledge o' \<Longrightarrow> wf_knowledge (absorb now t f as o')"
  unfolding absorb_def by (induction as arbitrary: o') (auto intro: ingest_wf)

lemma absorb_Cons:
  "absorb now t f (a # as) o' = absorb now t f as
     (if ka_confidence a > t
      then ingest_knowledge now (ka_key a) (ka_value a) (ka_confidence a * f) None [] o' else o')"
  by (simp add: absorb_def)

text \<open>
  Absorbing the atoms of a well-formed organism: key by key, an atom above the threshold is taken
  over with its decayed confidence, replacing the value and keeping the higher confidence.
\<close>

definition decayed :: "rat \<Rightarrow> rat \<Rightarrow> rat \<Rightarrow> atom option \<Rightarrow> atom option \<Rightarrow> atom option" where
  "decayed now t f old src =
     (case src of
        None \<Rightarrow> old
      | Some a \<Rightarrow>
          if ka_confidence a \<le> t then old
          else (case old of
              Some ex \<Rightarrow> Some (ex\<lparr>ka_value := ka_value a,
                               ka_confidence := max (ka_confidence ex) (ka_confidence a * f),
                               ka_timestamp := now\<rparr>)
            | None \<Rightarrow> Some \<lparr>ka_key = ka_key a, ka_value = ka_value a,
                            ka_confidence = ka_confidence a * f, ka_source = None,
                            ka_timestamp = now, ka_tags = []\<rparr>))"

lemma absorb_get:
  "wf_dict d \<Longrightarrow> (\<And>j a. map_of d j = Some a \<Longrightarrow> ka_key a = j) \<Longrightarrow>
     get_knowledge k (absorb now t f (map snd d) o') = decayed now t f (get_knowledge k o') (map_of d k)"
proof (induction d arbitrary: o')
  case Nil
  then show ?case by (simp add: absorb_def decayed_def)
next
  case (Cons p d)
  obtain j a where p: "p = (j, a)" by (cases p)
  with Cons.prems have key: "ka_key a = j" and wf: "wf_dict d" and fresh: "map_of d j = None"
    by (auto simp: map_of_eq_None_iff)
  have keys: "ka_key b = i" if "map_of d i = Some b" for i b
    using Cons.prems(2) [of i b] that fresh p by (cases "i = j") auto
  show ?case
    using Cons.IH [OF wf keys] fresh
    by (auto simp: p key absorb_Cons get_ingest decayed_def not_less split: option.split)
qed

lemma absorb_organism_get:
  "wf_knowledge p \<Longrightarrow> get_knowledge k (absorb now t f (atoms_of p) o') =
     decayed now t f (get_knowledge k o') (get_knowledge k p)"
  using absorb_get [of "og_knowledge p"]
  by (simp add: wf_knowledge_def atoms_of_def get_knowledge_def)

lemma new_wf [simp]: "wf_knowledge (new_organism uid now i inp cap parent)"
  by (simp add: wf_knowledge_def get_knowledge_def)

lemma wf_knowledge_cong: "og_knowledge a = og_knowledge b \<Longrightarrow> wf_knowledge a = wf_knowledge b"
  by (simp add: wf_knowledge_def get_knowledge_def)

lemma spawn_child_split:
  "\<exists>c2. fst (spawn_child uid now i patch cap o') = absorb now (1/2) (9/10) (atoms_of o') c2 \<and>
     og_knowledge c2 = [] \<and> og_state c2 = og_state o' \<and> og_parent c2 = Some (og_id o') \<and>
     og_id c2 = ''org_'' @ uid \<and> og_metadata c2 = og_metadata o' \<and> og_status c2 = SPAWNED"
  by (auto simp: spawn_child_def Let_def)

lemma spawn_child_wf: "wf_knowledge (fst (spawn_child uid now i patch cap o'))"
proof -
  obtain c2 where c2: "fst (spawn_child uid now i patch cap o') =
      absorb now (1/2) (9/10) (atoms_of o') c2" "og_knowledge c2 = []"
    using spawn_child_split by metis
  have "wf_knowledge c2" using c2(2) by (simp add: wf_knowledge_def get_knowledge_def)
  with c2(1) show ?thesis by (simp add: absorb_wf)
qed

lemma inherit_wf: "wf_knowledge o' \<Longrightarrow> wf_knowledge (inherit_from now p st kn o')"
proof -
  assume wf: "wf_knowledge o'"
  have "wf_knowledge q" if "og_knowledge q = og_knowledge o'" for q
    using wf wf_knowledge_cong [OF that] by simp
  then show ?thesis by (simp add: inherit_from_def Let_def absorb_wf)
qed

text \<open>
  Note: A child starts from its parent's state and metadata, points back to it, and knows exactly the
  parent's atoms of confidence above one half, each with nine tenths of that confidence.
\<close>

theorem child_inherits:
  assumes "wf_knowledge o'"
  shows "let c = fst (spawn_child uid now i patch cap o')
         in og_state c = og_state o' \<and> og_metadata c = og_metadata o' \<and>
            og_parent c = Some (og_id o') \<and> wf_knowledge c \<and>
            og_children (snd (spawn_child uid now i patch cap o')) = og_children o' @ [og_id c] \<and>
            (\<forall>k. map_option (\<lambda>a. (ka_value a, ka_confidence a)) (get_knowledge k c) =
               (case get_knowledge k o' of
                  None \<Rightarrow> None
                | Some a \<Rightarrow> if ka_confidence a > 1/2 then Some (ka_value a, ka_confidence a * 9/10)
                            else None))"
proof -
  obtain c2 where c2: "fst (spawn_child uid now i patch cap o') =
      absorb now (1/2) (9/10) (atoms_of o') c2" "og_knowledge c2 = []" "og_state c2 = og_state o'"
      "og_parent c2 = Some (og_id o')" "og_metadata c2 = og_metadata o'"
    using spawn_child_split by metis
  have "get_knowledge k c2 = None" for k using c2(2) by (simp add: get_knowledge_def)
  then have "get_knowledge k (fst (spawn_child uid now i patch cap o')) =
      decayed now (1/2) (9/10) None (get_knowledge k o')" for k
    using absorb_organism_get [OF assms] c2(1) by simp
  moreover have "og_children (snd (spawn_child uid now i patch cap o')) =
      og_children o' @ [og_id (fst (spawn_child uid now i patch cap o'))]"
    by (simp add: spawn_child_def Let_def)
  ultimately show ?thesis
    using c2 spawn_child_wf [of uid now i patch cap o']
    by (auto simp: Let_def decayed_def not_less split: option.split)
qed

text \<open>A concrete organism for examples.\<close>

definition demo_organism :: organism where
  "demo_organism = ingest_knowledge 0 ''k'' (PInt 1) 1 None []
     (new_organism ''1'' 0 (Inr ''summarize'') [] (Some ''a'') None)"

lemma demo_wf: "wf_knowledge demo_organism"
  by (simp add: demo_organism_def ingest_wf)

theorem child_inherits_witness:
  "og_parent (fst (spawn_child ''2'' 1 None [] None demo_organism)) = Some (og_id demo_organism)"
  using child_inherits [OF demo_wf, of "''2''" 1 None "[]" None] by (simp add: Let_def)

section \<open>Generations\<close>

definition confidence_bound :: "rat \<Rightarrow> organism \<Rightarrow> bool" where
  "confidence_bound c o' \<longleftrightarrow> (\<forall>k a. get_knowledge k o' = Some a \<longrightarrow> ka_confidence a \<le> c)"

text \<open>Descendants by repeated spawning: \<open>args\<close> are the arguments of each call.\<close>

fun descend :: "(string \<times> rat \<times> org_intent option \<times> dict \<times> string option) list \<Rightarrow> organism \<Rightarrow> organism" where
  "descend [] o' = o'"
| "descend ((uid, now, i, patch, cap) # args) o' =
     descend args (fst (spawn_child uid now i patch cap o'))"

lemma spawn_child_bound:
  assumes "wf_knowledge o'" "confidence_bound c o'"
  shows "confidence_bound (if c > 1/2 then c * 9/10 else 0) (fst (spawn_child uid now i patch cap o'))"
    and "c \<le> 1/2 \<Longrightarrow> og_knowledge (fst (spawn_child uid now i patch cap o')) = []"
proof -
  let ?c = "fst (spawn_child uid now i patch cap o')"
  obtain c2 where c2: "?c = absorb now (1/2) (9/10) (atoms_of o') c2" "og_knowledge c2 = []"
    using spawn_child_split by metis
  have get: "get_knowledge k ?c = decayed now (1/2) (9/10) None (get_knowledge k o')" for k
    using absorb_organism_get [OF assms(1)] c2 by (simp add: get_knowledge_def)
  have le: "ka_confidence a \<le> c" if "get_knowledge k o' = Some a" for k a
    using assms(2) that by (auto simp: confidence_bound_def)
  show "confidence_bound (if c > 1/2 then c * 9/10 else 0) ?c"
    using le by (force simp: confidence_bound_def get decayed_def not_le split: option.splits if_splits)
  show "og_knowledge ?c = []" if "c \<le> 1/2"
  proof -
    have "get_knowledge k ?c = None" for k
      using le [of k] that by (force simp: get decayed_def split: option.split)
    then show ?thesis by (simp add: get_knowledge_def flip: map_of_eq_empty_iff) (rule ext)
  qed
qed

text \<open>
  Note: Inherited knowledge dies out: whatever the arguments of the calls, when the atoms of an organism
  are at most certain (confidence 1), its descendants of the eighth generation know nothing.
\<close>

theorem knowledge_dies_out:
  assumes "wf_knowledge o'" "confidence_bound 1 o'" "length args = 8"
  shows "og_knowledge (descend args o') = []"
proof -
  have step: "wf_knowledge (descend as o') \<and>
      confidence_bound ((9/10) ^ length as) (descend as o')"
    if "length as \<le> 7" for as
    using that
  proof (induction as rule: rev_induct)
    case Nil
    then show ?case using assms by simp
  next
    case (snoc x xs)
    obtain uid now i patch cap where x: "x = (uid, now, i, patch, cap)" by (cases x)
    have app: "descend (ys @ [x]) p = fst (spawn_child uid now i patch cap (descend ys p))" for ys p
      by (induction ys arbitrary: p) (auto simp: x)
    from snoc have ih: "wf_knowledge (descend xs o')"
      "confidence_bound ((9/10) ^ length xs) (descend xs o')" by auto
    have "(9/10 :: rat) ^ 6 \<le> (9/10) ^ length xs"
      using snoc.prems by (intro power_decreasing) auto
    moreover have "(1/2 :: rat) < (9/10) ^ 6" by (simp add: power_divide)
    ultimately have "(1/2 :: rat) < (9/10) ^ length xs" by linarith
    with spawn_child_bound(1) [OF ih] show ?case by (simp add: app spawn_child_wf mult.commute)
  qed
  from assms(3) obtain as x where as: "args = as @ [x]" "length as = 7"
    by (cases args rule: rev_cases) auto
  obtain uid now i patch cap where x: "x = (uid, now, i, patch, cap)" by (cases x)
  have app: "descend (ys @ [x]) p = fst (spawn_child uid now i patch cap (descend ys p))" for ys p
    by (induction ys arbitrary: p) (auto simp: x)
  have "((9/10)::rat) ^ 7 \<le> 1/2" by (simp add: power_divide)
  with step [of as] as show ?thesis by (auto simp: app intro!: spawn_child_bound(2))
qed

theorem knowledge_dies_out_witness:
  "og_knowledge (descend (replicate 8 (''x'', 0, None, [], None)) demo_organism) = []"
proof -
  have "confidence_bound 1 demo_organism"
    by (auto simp: confidence_bound_def demo_organism_def ingest_knowledge_def get_knowledge_def
        split: if_splits)
  from knowledge_dies_out [OF demo_wf this] show ?thesis by simp
qed

text \<open>What inheriting from a parent adds, key by key.\<close>

lemma inherit_get:
  assumes "wf_knowledge p"
  shows "get_knowledge k (inherit_from now p st True o') =
    decayed now (3/10) (8/10) (get_knowledge k o') (get_knowledge k p)"
proof -
  have "get_knowledge k (absorb now (3/10) (8/10) (atoms_of p) q) =
      decayed now (3/10) (8/10) (get_knowledge k o') (get_knowledge k p)"
    if "og_knowledge q = og_knowledge o'" for q
    using absorb_organism_get [OF assms] that by (simp add: get_knowledge_def)
  then show ?thesis by (simp add: inherit_from_def Let_def)
qed

lemma inherit_never_less_confident:
  assumes "wf_knowledge p" "get_knowledge k o' = Some a"
  shows "\<exists>b. get_knowledge k (inherit_from now p st True o') = Some b \<and> ka_confidence a \<le> ka_confidence b"
  using assms(2) by (auto simp: inherit_get [OF assms(1)] decayed_def split: option.split)

section \<open>Round trip through an envelope\<close>

text \<open>
  Note: Turning an organism into an envelope and back keeps its identity, input, state, history,
  metadata, plan, next hop and parent; a free-form intent becomes \<open>CUSTOM\<close>, a terminated organism
  comes back alive, and its knowledge is gone.
\<close>

theorem envelope_roundtrip:
  "\<exists>p. from_envelope now (to_envelope o') = Some p \<and>
     to_envelope p = to_envelope o' \<and>
     og_intent p = (case normalize_intent (og_intent o') of Inl v \<Rightarrow> Inl v | Inr _ \<Rightarrow> Inl CUSTOM) \<and>
     og_status p = SPAWNED \<and> og_knowledge p = [] \<and> og_children p = []"
  by (cases "og_input o'")
    (auto simp: from_envelope_def to_envelope_def envelope_intent_def new_organism_def
      normalize_intent_def split: sum.split option.split)

end
