(* ===== verification/Storage.thy ===== *)
theory Storage
  imports Prism_Prelude "HOL-Library.List_Lexorder" "HOL-Library.Char_ord"
begin

text \<open>
  Storage backends (\<open>src/prismpipe/storage.py\<close>). The interface \<open>StorageBackend\<close> is a locale: what a
  client may rely on after a save, a delete and a listing, for the keys the backend supports.
  \<open>MemoryStorage\<close> gives the laws for every key. \<open>FileStorage\<close> turns a key into a file name, which is
  not injective, and stores JSON; it gives the laws for the keys that are their own file name.
\<close>

section \<open>The interface\<close>

locale kv_store =
  fixes save :: "string \<Rightarrow> 'v \<Rightarrow> 's \<Rightarrow> 's"
    and load :: "string \<Rightarrow> 's \<Rightarrow> 'v option"
    and delete :: "string \<Rightarrow> 's \<Rightarrow> 's"
    and list_keys :: "string \<Rightarrow> 's \<Rightarrow> string list"
    and usable :: "string \<Rightarrow> bool"
    and stored :: "'v \<Rightarrow> 'v"
  assumes load_save: "load k (save k v s) = Some (stored v)"
    and load_save_other: "usable k \<Longrightarrow> usable j \<Longrightarrow> j \<noteq> k \<Longrightarrow> load j (save k v s) = load j s"
    and load_delete: "load k (delete k s) = None"
    and load_delete_other: "usable k \<Longrightarrow> usable j \<Longrightarrow> j \<noteq> k \<Longrightarrow> load j (delete k s) = load j s"
    and list_complete: "usable k \<Longrightarrow> load k s \<noteq> None \<Longrightarrow> starts_with p k \<Longrightarrow> k \<in> set (list_keys p s)"
begin

text \<open>After a sequence of saves every key loads the last value it was given.\<close>

lemma load_saves_absent:
  "usable k \<Longrightarrow> \<forall>j \<in> fst ` set kvs. usable j \<Longrightarrow> k \<notin> fst ` set kvs \<Longrightarrow>
     load k (fold (\<lambda>(j, v). save j v) kvs s) = load k s"
  by (induction kvs arbitrary: s) (auto simp: load_save_other)

lemma load_saves:
  "usable k \<Longrightarrow> \<forall>j \<in> fst ` set kvs. usable j \<Longrightarrow>
     load k (fold (\<lambda>(j, v). save j v) kvs s) =
       (case map_of (rev kvs) k of Some v \<Rightarrow> Some (stored v) | None \<Rightarrow> load k s)"
proof (induction kvs arbitrary: s)
  case Nil
  then show ?case by simp
next
  case (Cons p kvs)
  obtain j v where p: "p = (j, v)" by (cases p)
  show ?case
  proof (cases "map_of (rev kvs) k")
    case None
    then have absent: "k \<notin> fst ` set kvs" by (simp add: map_of_eq_None_iff)
    with Cons.prems p None show ?thesis
      using load_saves_absent [of k kvs]
      by (cases "j = k") (auto simp: load_save load_save_other map_add_def)
  next
    case (Some w)
    with Cons p show ?thesis by (simp add: map_add_def)
  qed
qed

lemma overwrite: "load k (save k w (save k v s)) = Some (stored w)"
  by (rule load_save)

lemma delete_undoes_save: "load k (delete k (save k v s)) = None"
  by (rule load_delete)

end

section \<open>MemoryStorage\<close>

type_synonym 'v memory = "'v pdict"

definition mem_save :: "string \<Rightarrow> 'v \<Rightarrow> 'v memory \<Rightarrow> 'v memory" where
  "mem_save k v s = AList.update k v s"

definition mem_load :: "string \<Rightarrow> 'v memory \<Rightarrow> 'v option" where
  "mem_load k s = map_of s k"

definition mem_delete :: "string \<Rightarrow> 'v memory \<Rightarrow> 'v memory" where
  "mem_delete k s = AList.delete k s"

definition mem_exists :: "string \<Rightarrow> 'v memory \<Rightarrow> bool" where
  "mem_exists k s = (k \<in> fst ` set s)"

definition mem_list_keys :: "string \<Rightarrow> 'v memory \<Rightarrow> string list" where
  "mem_list_keys p s =
     (if p \<noteq> [] then filter (starts_with p) (map fst s) else map fst s)"

lemmas mem_defs = mem_save_def mem_load_def mem_delete_def mem_exists_def mem_list_keys_def

interpretation mem: kv_store mem_save mem_load mem_delete mem_list_keys "\<lambda>_. True" "\<lambda>v. v"
proof
  fix k p and s :: "'v memory"
  assume "mem_load k s \<noteq> None" "starts_with p k"
  then show "k \<in> set (mem_list_keys p s)"
    by (auto simp: mem_defs map_of_eq_None_iff)
qed (simp_all add: mem_defs dict_simps)

lemma mem_exists_iff: "mem_exists k s \<longleftrightarrow> mem_load k s \<noteq> None"
  by (simp add: mem_defs map_of_eq_None_iff)

section \<open>FileStorage\<close>

text \<open>\<open>str.replace('..', '_')\<close>: from left to right, without overlaps.\<close>

fun replace_dots :: "string \<Rightarrow> string" where
  "replace_dots (a # b # r) =
     (if a = CHR ''.'' \<and> b = CHR ''.'' then CHR ''_'' # replace_dots r
      else a # replace_dots (b # r))"
| "replace_dots r = r"

definition slash_out :: "char \<Rightarrow> char" where
  "slash_out c = (if c = CHR ''/'' then CHR ''_'' else c)"

definition replace_slash :: "string \<Rightarrow> string" where
  "replace_slash = map slash_out"

text \<open>\<open>_get_path\<close>: the name of the file without its \<open>.json\<close> suffix.\<close>

definition safe_key :: "string \<Rightarrow> string" where
  "safe_key k = replace_slash (replace_dots k)"

text \<open>
  What \<open>json.dump(..., sort_keys=True)\<close> followed by \<open>json.load\<close> gives back: the same value with the
  keys of every dictionary in order.
\<close>

fun json_norm :: "pval \<Rightarrow> pval" where
  "json_norm (PList xs) = PList (map json_norm xs)"
| "json_norm (PDict d) = PDict (sort_key fst (map (\<lambda>(k, v). (k, json_norm v)) d))"
| "json_norm v = v"

text \<open>
  The directory maps file names to the stored JSON value. Writing goes through a temporary file, so a
  failed write (its message is an argument) leaves the directory as it was.
\<close>

type_synonym files = "pval pdict"

definition file_save :: "string \<Rightarrow> pval \<Rightarrow> string option \<Rightarrow> files \<Rightarrow> py_error + files" where
  "file_save k v failure fs =
     (case failure of
        Some msg \<Rightarrow> Inl (PrismError (StorageError ''save'' msg))
      | None \<Rightarrow> Inr (AList.update (safe_key k) (json_norm v) fs))"

definition file_load :: "string \<Rightarrow> files \<Rightarrow> pval option" where
  "file_load k fs = map_of fs (safe_key k)"

definition file_delete :: "string \<Rightarrow> files \<Rightarrow> files" where
  "file_delete k fs = AList.delete (safe_key k) fs"

definition file_exists :: "string \<Rightarrow> files \<Rightarrow> bool" where
  "file_exists k fs = (safe_key k \<in> fst ` set fs)"

text \<open>\<open>path.stem\<close>: a file called just \<open>.json\<close> has no suffix to drop.\<close>

definition stem :: "string \<Rightarrow> string" where
  "stem f = (if f = [] then ''.json'' else f)"

definition file_list_keys :: "string \<Rightarrow> files \<Rightarrow> string list" where
  "file_list_keys p fs = sort (map stem (filter (starts_with p) (map fst fs)))"

lemmas file_defs = file_save_def file_load_def file_delete_def file_exists_def

text \<open>The keys that are their own file name.\<close>

definition plain_key :: "string \<Rightarrow> bool" where
  "plain_key k = (k \<noteq> [] \<and> safe_key k = k)"

definition file_put :: "string \<Rightarrow> pval \<Rightarrow> files \<Rightarrow> files" where
  "file_put k v fs = AList.update (safe_key k) (json_norm v) fs"

interpretation fstore: kv_store file_put file_load file_delete file_list_keys plain_key json_norm
proof
  fix k p and s :: files
  assume "plain_key k" "file_load k s \<noteq> None" "starts_with p k"
  then show "k \<in> set (file_list_keys p s)"
    by (auto simp: plain_key_def file_load_def file_list_keys_def map_of_eq_None_iff stem_def
        intro!: image_eqI)
qed (auto simp: file_defs file_put_def plain_key_def dict_simps)



text \<open>Two dots never survive the replacement.\<close>

fun dotdot :: "string \<Rightarrow> bool" where
  "dotdot (a # b # r) = ((a = CHR ''.'' \<and> b = CHR ''.'') \<or> dotdot (b # r))"
| "dotdot r = False"

lemma replace_dots_hd: "r \<noteq> [] \<Longrightarrow> hd r \<noteq> CHR ''.'' \<Longrightarrow> hd (replace_dots r) \<noteq> CHR ''.''"
  by (cases r rule: replace_dots.cases) auto

lemma dotdot_Cons: "dotdot (a # r) \<longleftrightarrow> (a = CHR ''.'' \<and> r \<noteq> [] \<and> hd r = CHR ''.'') \<or> dotdot r"
  by (cases r) auto

lemma replace_dots_none: "\<not> dotdot (replace_dots k)"
proof (induction k rule: replace_dots.induct)
  case (1 a b r)
  then show ?case
    using replace_dots_hd [of "b # r"] by (auto simp: dotdot_Cons)
qed auto

lemma dotdot_map:
  "(\<And>c. f c = CHR ''.'' \<Longrightarrow> c = CHR ''.'') \<Longrightarrow> dotdot (map f k) \<Longrightarrow> dotdot k"
  by (induction k rule: dotdot.induct) auto

text \<open>
  C36: No key, whatever a client chooses, leads out of the storage directory: the file name it is turned
  into has no path separator and no parent reference.
\<close>

theorem file_keys_stay_inside: "CHR ''/'' \<notin> set (safe_key k) \<and> \<not> dotdot (safe_key k)"
proof
  show "CHR ''/'' \<notin> set (safe_key k)" by (auto simp: safe_key_def replace_slash_def slash_out_def)
  have dot: "c = CHR ''.''" if "slash_out c = CHR ''.''" for c
    using that by (simp add: slash_out_def split: if_splits)
  show "\<not> dotdot (safe_key k)"
  proof
    assume "dotdot (safe_key k)"
    then have "dotdot (map slash_out (replace_dots k))"
      by (simp only: safe_key_def replace_slash_def)
    from dotdot_map [OF dot this] have "dotdot (replace_dots k)" .
    with replace_dots_none [of k] show False ..
  qed
qed

text \<open>
  Note: The price is that distinct keys may share a file: saving one key overwrites, and deleting it
  removes, the value of every key with the same file name.
\<close>

theorem file_keys_collide:
  assumes "safe_key j = safe_key k" "file_save k v None fs = Inr fs1"
  shows "file_load j fs1 = Some (json_norm v) \<and> file_load j (file_delete k fs1) = None"
  using assms by (auto simp: file_defs dict_simps)

theorem file_keys_collide_witness:
  "\<exists>fs. file_save ''tenant/a'' (PInt 2) None (file_put ''tenant_a'' (PInt 1) []) = Inr fs \<and>
     file_load ''tenant_a'' fs = Some (PInt 2)"
proof -
  have "safe_key ''tenant_a'' = safe_key ''tenant/a''"
    by (simp add: safe_key_def replace_slash_def slash_out_def)
  from file_keys_collide [OF this, of "PInt 2" "file_put ''tenant_a'' (PInt 1) []"] show ?thesis
    by (simp add: file_save_def)
qed

end
