(* ===== verification/Lifecycle.thy ===== *)
theory Lifecycle
  imports Organism Storage
begin

text \<open>
  What is kept around an organism while it lives (\<open>src/prismpipe/engine/__init__.py\<close>): watchers,
  the record of its mutations, hibernation, partial results, its events and its migrations.

  A callback is a function: what it does to the organism it is given. An exception it raises is
  dropped by the code, so it has no other effect. The value model copies a state where the code keeps
  a reference to the same dictionary.
\<close>

section \<open>OrganismWatcher\<close>

record watch_event =
  we_organism :: string
  we_event :: string
  we_at :: rat
  we_state :: dict

type_synonym watch_callback = "string \<Rightarrow> organism \<Rightarrow> organism"

record watcher =
  wt_watchers :: "watch_callback list pdict"
  wt_events :: "watch_event list"

definition new_watcher :: watcher where
  "new_watcher = \<lparr>wt_watchers = [], wt_events = []\<rparr>"

definition callbacks_of :: "string \<Rightarrow> 'c list pdict \<Rightarrow> 'c list" where
  "callbacks_of k d = (case map_of d k of None \<Rightarrow> [] | Some cs \<Rightarrow> cs)"

definition watch :: "string \<Rightarrow> watch_callback \<Rightarrow> watcher \<Rightarrow> watcher" where
  "watch oid cb w =
     w\<lparr>wt_watchers := AList.update oid (callbacks_of oid (wt_watchers w) @ [cb]) (wt_watchers w)\<rparr>"

definition notify :: "rat \<Rightarrow> string \<Rightarrow> organism \<Rightarrow> watcher \<Rightarrow> organism \<times> watcher" where
  "notify now ev o' w =
     (fold (\<lambda>cb. cb ev) (callbacks_of (og_id o') (wt_watchers w)) o',
      w\<lparr>wt_events := wt_events w @
          [\<lparr>we_organism = og_id o', we_event = ev, we_at = now, we_state = og_state o'\<rparr>]\<rparr>)"

definition get_events :: "string option \<Rightarrow> string option \<Rightarrow> watcher \<Rightarrow> watch_event list" where
  "get_events oid ev w =
     (let es = wt_events w;
          es1 = (if truthy_opt oid then filter (\<lambda>e. we_organism e = the oid) es else es)
      in if truthy_opt ev then filter (\<lambda>e. we_event e = the ev) es1 else es1)"

lemma notify_unwatched:
  "map_of (wt_watchers w) (og_id o') = None \<Longrightarrow> fst (notify now ev o' w) = o'"
  by (simp add: notify_def callbacks_of_def)

lemma notify_watchers [simp]: "wt_watchers (snd (notify now ev o' w)) = wt_watchers w"
  by (simp add: notify_def)

section \<open>OrganismMutation\<close>

record change =
  ch_capability :: string
  ch_key :: string
  ch_old :: pval
  ch_new :: pval
  ch_at :: rat

record mutation =
  mu_organism :: string
  mu_changes :: "change list"
  mu_previous :: dict

definition new_mutation :: "string \<Rightarrow> mutation" where
  "new_mutation oid = \<lparr>mu_organism = oid, mu_changes = [], mu_previous = []\<rparr>"

definition record_change :: "rat \<Rightarrow> string \<Rightarrow> string \<Rightarrow> pval \<Rightarrow> pval \<Rightarrow> mutation \<Rightarrow> mutation" where
  "record_change now c k old new m =
     m\<lparr>mu_changes := mu_changes m @
         [\<lparr>ch_capability = c, ch_key = k, ch_old = old, ch_new = new, ch_at = now\<rparr>],
       mu_previous := AList.update k new (mu_previous m)\<rparr>"

definition get_timeline :: "mutation \<Rightarrow> change list" where
  "get_timeline m = mu_changes m"

definition get_changed_keys :: "mutation \<Rightarrow> string set" where
  "get_changed_keys m = set (map ch_key (mu_changes m))"

text \<open>\<open>d.get(k)\<close>: \<open>None\<close> for an absent key.\<close>

definition dict_get :: "string \<Rightarrow> dict \<Rightarrow> pval" where
  "dict_get k d = (case map_of d k of Some v \<Rightarrow> v | None \<Rightarrow> PNone)"

text \<open>
  The keys of both states. The code walks a set, whose order Python leaves open; the model takes the
  old keys and then the new ones.
\<close>

definition all_keys :: "dict \<Rightarrow> dict \<Rightarrow> string list" where
  "all_keys before after =
     map fst before @ filter (\<lambda>k. k \<notin> fst ` set before) (map fst after)"

text \<open>\<open>OrganismExecutor._record_mutations\<close>.\<close>

definition record_mutations :: "rat \<Rightarrow> string \<Rightarrow> dict \<Rightarrow> dict \<Rightarrow> mutation \<Rightarrow> mutation" where
  "record_mutations now c before after m =
     fold (\<lambda>k m. if \<not> py_eq (dict_get k before) (dict_get k after)
                 then record_change now c k (dict_get k before) (dict_get k after) m else m)
       (all_keys before after) m"

lemma set_all_keys: "set (all_keys before after) = fst ` set before \<union> fst ` set after"
  by (auto simp: all_keys_def)

lemma distinct_all_keys: "wf_dict before \<Longrightarrow> wf_dict after \<Longrightarrow> distinct (all_keys before after)"
  by (auto simp: all_keys_def)

lemma fold_record_keys:
  "get_changed_keys (fold (\<lambda>k m. if P k then record_change now c k (f k) (g k) m else m) ks m) =
     get_changed_keys m \<union> {k \<in> set ks. P k}"
  by (induction ks arbitrary: m) (auto simp: get_changed_keys_def record_change_def)

lemma record_mutations_keys:
  "get_changed_keys (record_mutations now c before after m) =
     get_changed_keys m \<union>
       {k \<in> fst ` set before \<union> fst ` set after. \<not> py_eq (dict_get k before) (dict_get k after)}"
  by (auto simp: record_mutations_def fold_record_keys set_all_keys)

lemma fold_record_changes:
  "mu_changes (fold (\<lambda>k m. if P k then record_change now c k (f k) (g k) m else m) ks m) =
     mu_changes m @ map (\<lambda>k. \<lparr>ch_capability = c, ch_key = k, ch_old = f k, ch_new = g k, ch_at = now\<rparr>)
       (filter P ks)"
  by (induction ks arbitrary: m) (auto simp: record_change_def)

section \<open>Hibernation\<close>

record saved_atom =
  sa_key :: string
  sa_value :: pval
  sa_confidence :: rat
  sa_source :: "string option"
  sa_tags :: "string list"

record hibernated =
  hb_id :: string
  hb_intent :: string
  hb_input :: dict
  hb_state :: dict
  hb_history :: "history_entry list"
  hb_knowledge :: "saved_atom list"
  hb_next :: "string option"
  hb_parent :: "string option"
  hb_created_at :: rat
  hb_hibernated_at :: rat

definition save_atom :: "atom \<Rightarrow> saved_atom" where
  "save_atom a = \<lparr>sa_key = ka_key a, sa_value = ka_value a, sa_confidence = ka_confidence a,
                  sa_source = ka_source a, sa_tags = ka_tags a\<rparr>"

definition serialize :: "rat \<Rightarrow> organism \<Rightarrow> hibernated" where
  "serialize now o' =
     \<lparr>hb_id = og_id o', hb_intent = intent_str (og_intent o'), hb_input = og_input o',
      hb_state = og_state o', hb_history = og_history o',
      hb_knowledge = map save_atom (atoms_of o'), hb_next = og_next o', hb_parent = og_parent o',
      hb_created_at = og_created_at o', hb_hibernated_at = now\<rparr>"

definition load_atom :: "rat \<Rightarrow> saved_atom \<Rightarrow> organism \<Rightarrow> organism" where
  "load_atom now k = ingest_knowledge now (sa_key k) (sa_value k) (sa_confidence k) (sa_source k) (sa_tags k)"

definition deserialize :: "rat \<Rightarrow> hibernated \<Rightarrow> organism" where
  "deserialize now h =
     fold (load_atom now) (hb_knowledge h)
       ((new_organism [] now (Inr (hb_intent h)) (hb_input h) None (hb_parent h))
          \<lparr>og_id := hb_id h, og_state := hb_state h, og_next := hb_next h,
           og_history := hb_history h\<rparr>)"

text \<open>
  \<open>hibernate\<close> returns the hibernation identifier, the data that is kept (and saved in the storage
  backend when there is one), the suspended organism and the new table.
\<close>

definition hibernate ::
    "string \<Rightarrow> rat \<Rightarrow> organism \<Rightarrow> hibernated pdict \<Rightarrow> string \<times> hibernated \<times> organism \<times> hibernated pdict" where
  "hibernate uid now o' p =
     (let hid = ''hib_'' @ uid; d = serialize now o'
      in (hid, d, o'\<lparr>og_status := SUSPENDED\<rparr>, AList.update hid d p))"

text \<open>\<open>wake\<close>: \<open>backend\<close> is what the storage backend loads when the table does not have the data.\<close>

definition wake ::
    "rat \<Rightarrow> string \<Rightarrow> hibernated option \<Rightarrow> hibernated pdict \<Rightarrow> organism option \<times> hibernated pdict" where
  "wake now hid backend p =
     (let (d, p') = (case map_of p hid of
                       Some d \<Rightarrow> (Some d, p)
                     | None \<Rightarrow> (case backend of
                         None \<Rightarrow> (None, p) | Some d \<Rightarrow> (Some d, AList.update hid d p)))
      in (map_option (\<lambda>d. (deserialize now d)\<lparr>og_status := SPAWNED\<rparr>) d, p'))"

definition list_hibernated :: "hibernated pdict \<Rightarrow> string list" where
  "list_hibernated p = map fst p"

text \<open>\<open>list_hibernated_async\<close>: \<open>stored\<close> are the keys the backend lists under the prefix \<open>hib_\<close>.\<close>

definition list_hibernated_async :: "string list \<Rightarrow> hibernated pdict \<Rightarrow> string list" where
  "list_hibernated_async stored p = sort (remdups (map fst p @ stored))"

lemma load_atom_frame [simp]:
  "og_state (load_atom now k o') = og_state o'" "og_id (load_atom now k o') = og_id o'"
  "og_next (load_atom now k o') = og_next o'" "og_parent (load_atom now k o') = og_parent o'"
  "og_input (load_atom now k o') = og_input o'" "og_intent (load_atom now k o') = og_intent o'"
  "og_history (load_atom now k o') = og_history o'"
  by (simp_all add: load_atom_def ingest_knowledge_def Let_def)

lemma load_atoms_frame [simp]:
  "og_state (fold (load_atom now) ks o') = og_state o'" "og_id (fold (load_atom now) ks o') = og_id o'"
  "og_next (fold (load_atom now) ks o') = og_next o'"
  "og_parent (fold (load_atom now) ks o') = og_parent o'"
  "og_input (fold (load_atom now) ks o') = og_input o'"
  "og_intent (fold (load_atom now) ks o') = og_intent o'"
  "og_history (fold (load_atom now) ks o') = og_history o'"
  by (induction ks arbitrary: o') simp_all

text \<open>Loading saved atoms with distinct keys into an organism that has none of them.\<close>

lemma load_atoms_knowledge:
  "wf_dict d \<Longrightarrow> (\<And>k a. map_of d k = Some a \<Longrightarrow> ka_key a = k) \<Longrightarrow> fst ` set d \<inter> fst ` set (og_knowledge o') = {} \<Longrightarrow>
     og_knowledge (fold (load_atom now) (map (save_atom \<circ> snd) d) o') =
       og_knowledge o' @ map (\<lambda>(k, a). (k, a\<lparr>ka_timestamp := now\<rparr>)) d"
proof (induction d arbitrary: o')
  case Nil
  then show ?case by simp
next
  case (Cons p d)
  obtain j a where p: "p = (j, a)" by (cases p)
  have key: "ka_key a = j" using Cons.prems(2) [of j a] p by simp
  have keys: "ka_key b = i" if "map_of d i = Some b" for i b
    using Cons.prems(1) Cons.prems(2) [of i b] that p
    by (cases "i = j") (auto dest: map_of_SomeD simp: image_iff)
  have fresh: "j \<notin> fst ` set (og_knowledge o')" using Cons.prems(3) p by auto
  then have step: "og_knowledge (load_atom now (save_atom a) o') =
      og_knowledge o' @ [(j, a\<lparr>ka_timestamp := now\<rparr>)]"
    by (auto simp: load_atom_def save_atom_def ingest_knowledge_def key Let_def update_new
        map_of_eq_None_iff [symmetric] split: option.split)
  from Cons.prems p have "wf_dict d"
    "fst ` set d \<inter> fst ` set (og_knowledge (load_atom now (save_atom a) o')) = {}"
    by (auto simp: step)
  from Cons.IH [OF this(1) keys this(2)] show ?case by (simp add: p step)
qed

lemma normalize_intent_str:
  "normalize_intent i = i \<Longrightarrow> normalize_intent (Inr (intent_str i)) = i"
  by (auto simp: normalize_intent_def intent_str_def intent_of_value split: sum.splits option.splits)

lemma deserialize_serialize:
  assumes "wf_knowledge o'" "normalize_intent (og_intent o') = og_intent o'"
  shows "let q = deserialize now (serialize t o') in
    og_id q = og_id o' \<and> og_intent q = og_intent o' \<and> og_input q = og_input o' \<and>
    og_state q = og_state o' \<and> og_history q = og_history o' \<and> og_next q = og_next o' \<and>
    og_parent q = og_parent o' \<and>
    og_knowledge q = map (\<lambda>(k, a). (k, a\<lparr>ka_timestamp := now\<rparr>)) (og_knowledge o')"
proof -
  have map: "map save_atom (atoms_of o') = map (save_atom \<circ> snd) (og_knowledge o')"
    by (simp add: atoms_of_def)
  show ?thesis
    using assms load_atoms_knowledge [of "og_knowledge o'"]
    by (simp add: deserialize_def serialize_def map Let_def normalize_intent_str wf_knowledge_def
        get_knowledge_def)
qed

text \<open>
  Note: Hibernating an organism and waking it, in the same process or in another one that only shares
  the storage backend, gives back its identity, intent, input, state, history, next hop, parent and
  every atom of its knowledge in order (with a new timestamp); its plan starts empty.
\<close>

theorem hibernation_roundtrip:
  assumes "wf_knowledge o'" "normalize_intent (og_intent o') = og_intent o'"
    and "hibernate uid t o' p = (hid, d, o1, p1)"
  shows "\<exists>q. fst (wake now hid b p1) = Some q \<and>
    fst (wake now hid (mem_load hid (mem_save hid d s)) []) = Some q \<and>
    og_id q = og_id o' \<and> og_intent q = og_intent o' \<and> og_input q = og_input o' \<and>
    og_state q = og_state o' \<and> og_history q = og_history o' \<and> og_next q = og_next o' \<and>
    og_parent q = og_parent o' \<and> og_status q = SPAWNED \<and> og_status o1 = SUSPENDED \<and>
    og_knowledge q = map (\<lambda>(k, a). (k, a\<lparr>ka_timestamp := now\<rparr>)) (og_knowledge o')"
proof -
  have "map_of p1 hid = Some d" "d = serialize t o'" "og_status o1 = SUSPENDED"
    using assms(3) by (auto simp: hibernate_def Let_def dict_simps)
  then show ?thesis
    using deserialize_serialize [OF assms(1,2), of now t]
    by (simp add: wake_def mem.load_save Let_def)
qed

theorem hibernation_roundtrip_witness:
  "\<exists>q. fst (wake 5 ''hib_1'' None (snd (snd (snd (hibernate ''1'' 2 demo_organism []))))) = Some q \<and>
     og_next q = Some ''a''"
proof -
  have i: "normalize_intent (og_intent demo_organism) = og_intent demo_organism"
    by (auto simp: demo_organism_def normalize_intent_def intent_of_def split: option.splits sum.splits)
  have n: "og_next demo_organism = Some ''a''" by (simp add: demo_organism_def)
  obtain d o1 p1 where h: "hibernate ''1'' 2 demo_organism [] = (''hib_1'', d, o1, p1)"
    by (simp add: hibernate_def Let_def)
  from hibernation_roundtrip [OF demo_wf i h, of 5 None "[]"] n h show ?thesis by auto
qed

text \<open>
  Note: The mutation record of an execution step names exactly the state keys whose value changed, each
  with its old and new value.
\<close>

theorem mutations_are_the_diff:
  "get_changed_keys (record_mutations now c before after (new_mutation oid)) =
     {k \<in> fst ` set before \<union> fst ` set after. \<not> py_eq (dict_get k before) (dict_get k after)} \<and>
   (\<forall>ch \<in> set (get_timeline (record_mutations now c before after (new_mutation oid))).
      ch_capability ch = c \<and> ch_old ch = dict_get (ch_key ch) before \<and>
      ch_new ch = dict_get (ch_key ch) after)"
proof
  show "get_changed_keys (record_mutations now c before after (new_mutation oid)) =
     {k \<in> fst ` set before \<union> fst ` set after. \<not> py_eq (dict_get k before) (dict_get k after)}"
    by (simp add: record_mutations_keys) (simp add: get_changed_keys_def new_mutation_def)
  show "\<forall>ch \<in> set (get_timeline (record_mutations now c before after (new_mutation oid))).
      ch_capability ch = c \<and> ch_old ch = dict_get (ch_key ch) before \<and>
      ch_new ch = dict_get (ch_key ch) after"
    by (auto simp: get_timeline_def record_mutations_def fold_record_changes new_mutation_def)
qed

theorem mutations_are_the_diff_witness:
  "get_changed_keys (record_mutations 0 ''c'' [(''a'', PInt 1), (''b'', PInt 2)]
     [(''a'', PInt 1), (''d'', PInt 3)] (new_mutation ''o'')) = {''b'', ''d''}"
  using mutations_are_the_diff [of 0 "''c''" "[(''a'', PInt 1), (''b'', PInt 2)]"
      "[(''a'', PInt 1), (''d'', PInt 3)]" "''o''"]
  by (auto simp: dict_get_def py_eq.simps)

section \<open>Streaming, event-driven and migrating organisms\<close>

text \<open>A subscriber's effect is outside the organism: what is delivered to it is returned.\<close>

record partial_result =
  pa_data :: dict
  pa_at :: rat
  pa_organism :: string

record streaming =
  so_organism :: organism
  so_subscribers :: "string list"
  so_results :: "partial_result list"

definition subscribe :: "string \<Rightarrow> streaming \<Rightarrow> streaming" where
  "subscribe cb s = s\<lparr>so_subscribers := so_subscribers s @ [cb]\<rparr>"

definition emit_partial ::
    "rat \<Rightarrow> dict \<Rightarrow> streaming \<Rightarrow> streaming \<times> (string \<times> partial_result) list" where
  "emit_partial now d s =
     (let r = \<lparr>pa_data = d, pa_at = now, pa_organism = og_id (so_organism s)\<rparr>
      in (s\<lparr>so_results := so_results s @ [r]\<rparr>, map (\<lambda>cb. (cb, r)) (so_subscribers s)))"

record org_event =
  oe_type :: string
  oe_data :: dict
  oe_organism :: string
  oe_at :: rat

record event_driven =
  ed_organism :: organism
  ed_handlers :: "string list pdict"
  ed_history :: "org_event list"

definition on_event :: "string \<Rightarrow> string \<Rightarrow> event_driven \<Rightarrow> event_driven" where
  "on_event ty h e =
     e\<lparr>ed_handlers := AList.update ty (callbacks_of ty (ed_handlers e) @ [h]) (ed_handlers e)\<rparr>"

definition emit_event ::
    "rat \<Rightarrow> string \<Rightarrow> dict \<Rightarrow> event_driven \<Rightarrow> event_driven \<times> (string \<times> org_event) list" where
  "emit_event now ty d e =
     (let ev = \<lparr>oe_type = ty, oe_data = d, oe_organism = og_id (ed_organism e), oe_at = now\<rparr>
      in (e\<lparr>ed_history := ed_history e @ [ev]\<rparr>,
          map (\<lambda>h. (h, ev)) (callbacks_of ty (ed_handlers e))))"

record migration =
  mi_from :: "string option"
  mi_to :: string
  mi_at :: rat
  mi_organism :: string
  mi_state_keys :: "string list"

record migratable =
  mg_organism :: organism
  mg_node :: "string option"
  mg_history :: "migration list"

definition migrate_to :: "rat \<Rightarrow> string \<Rightarrow> migratable \<Rightarrow> migratable" where
  "migrate_to now n m =
     m\<lparr>mg_history := mg_history m @
         [\<lparr>mi_from = mg_node m, mi_to = n, mi_at = now, mi_organism = og_id (mg_organism m),
           mi_state_keys = map fst (og_state (mg_organism m))\<rparr>],
       mg_node := Some n\<rparr>"

text \<open>The recorded migrations form a chain that starts nowhere and ends at the current node.\<close>

fun chained :: "string option \<Rightarrow> migration list \<Rightarrow> string option \<Rightarrow> bool" where
  "chained a [] b = (a = b)"
| "chained a (m # ms) b = (mi_from m = a \<and> chained (Some (mi_to m)) ms b)"

lemma chained_snoc: "chained a (ms @ [m]) b \<longleftrightarrow> chained a ms (mi_from m) \<and> b = Some (mi_to m)"
  by (induction ms arbitrary: a) auto

lemma migrations_chain:
  "chained None (mg_history m) (mg_node m) \<Longrightarrow>
     chained None (mg_history (migrate_to now n m)) (mg_node (migrate_to now n m))"
  by (simp add: migrate_to_def chained_snoc)

end
