(* ===== verification/Executor.thy ===== *)
theory Executor
  imports ComputationGraph Lifecycle Node Router Errors
begin

text \<open>
  \<open>OrganismExecutor\<close> of \<open>src/prismpipe/engine/__init__.py\<close>: an organism is driven from capability to
  capability, each step restored from the shared computation cache or computed by a node and then
  registered there.

  This is the run of one task: the in-process single-flight table has no other owner (theory
  SingleFlight has the interleavings). The content hash, fresh identifiers, clocks and what Redis
  answers are read from an oracle \<open>xio\<close>; every call that needs one advances the tick. A warm step
  makes \<open>envelope.state\<close> the organism's own dictionary, so the run remembers whether they are one
  object.
\<close>

section \<open>State\<close>

datatype bus_event =
    BusStarted string string
  | BusCacheHit string string string
  | BusNode string rat bool string
  | BusFailed string rat pval
  | BusCompleted string rat

record executor =
  x_watcher :: watcher
  x_mutations :: "mutation pdict"
  x_latencies :: "rat list"
  x_warm_steps :: nat
  x_cold_steps :: nat
  x_waits :: nat
  x_useful_true :: nat
  x_useful_false :: nat
  x_calls_saved :: int
  x_max_hops :: nat
  x_bus :: bool
  x_events :: "bus_event list"

text \<open>\<open>_max_hops\<close>: \<open>ORGANISM_MAX_HOPS\<close> parsed as an integer, \<open>None\<close> when it is not one.\<close>

definition max_hops_of :: "int option \<Rightarrow> nat" where
  "max_hops_of env_value = (case env_value of None \<Rightarrow> 100 | Some i \<Rightarrow> nat (max 1 i))"

definition new_executor :: "watcher \<Rightarrow> bool \<Rightarrow> int option \<Rightarrow> executor" where
  "new_executor w bus env_value =
     \<lparr>x_watcher = w, x_mutations = [], x_latencies = [], x_warm_steps = 0, x_cold_steps = 0,
      x_waits = 0, x_useful_true = 0, x_useful_false = 0, x_calls_saved = 0,
      x_max_hops = max_hops_of env_value, x_bus = bus, x_events = []\<rparr>"

record xio =
  xi_hash :: "string \<Rightarrow> dict \<Rightarrow> dict \<Rightarrow> string"
  xi_uid :: "nat \<Rightarrow> string"
  xi_ohash :: "nat \<Rightarrow> string"
  xi_get :: "nat \<Rightarrow> redis_get"
  xi_ttl :: "nat \<Rightarrow> redis_ttl"
  xi_lock :: "nat \<Rightarrow> bool option"
  xi_now :: "nat \<Rightarrow> rat"
  xi_perf :: "nat \<Rightarrow> rat"
  xi_rt :: runtime

record xrun =
  xr_org :: organism
  xr_env :: envelope
  xr_shared :: bool
  xr_graph :: cgraph
  xr_exec :: executor
  xr_tick :: nat

text \<open>The part of a run that the environment sees: one more reading of the oracle.\<close>

definition tick :: "xrun \<Rightarrow> xrun" where
  "tick r = r\<lparr>xr_tick := xr_tick r + 1\<rparr>"

definition on_org :: "(organism \<Rightarrow> organism) \<Rightarrow> xrun \<Rightarrow> xrun" where
  "on_org f r = r\<lparr>xr_org := f (xr_org r)\<rparr>"

definition on_exec :: "(executor \<Rightarrow> executor) \<Rightarrow> xrun \<Rightarrow> xrun" where
  "on_exec f r = r\<lparr>xr_exec := f (xr_exec r)\<rparr>"

text \<open>In-place writes to the organism's state reach the envelope when both share the dictionary.\<close>

definition sync_env :: "xrun \<Rightarrow> xrun" where
  "sync_env r =
     (if xr_shared r then r\<lparr>xr_env := (xr_env r)\<lparr>env_state := og_state (xr_org r)\<rparr>\<rparr> else r)"

definition publish :: "bus_event \<Rightarrow> xrun \<Rightarrow> xrun" where
  "publish e r =
     (if x_bus (xr_exec r) then on_exec (\<lambda>x. x\<lparr>x_events := x_events x @ [e]\<rparr>) r else r)"

definition notify_run :: "xio \<Rightarrow> string \<Rightarrow> xrun \<Rightarrow> xrun" where
  "notify_run io ev r =
     (let (o', w) = notify (xi_now io (xr_tick r)) ev (xr_org r) (x_watcher (xr_exec r))
      in sync_env (tick (r\<lparr>xr_org := o', xr_exec := (xr_exec r)\<lparr>x_watcher := w\<rparr>\<rparr>)))"

section \<open>One hop\<close>

definition set_org_state :: "string \<Rightarrow> pval \<Rightarrow> organism \<Rightarrow> organism" where
  "set_org_state k v o' = o'\<lparr>og_state := AList.update k v (og_state o')\<rparr>"

text \<open>A hit: the public part of the cached state is written into the organism's state.\<close>

definition restored :: "cached \<Rightarrow> organism \<Rightarrow> organism" where
  "restored c o' =
     (let o1 = o'\<lparr>og_state := dict_update (og_state o') (public_items (ca_state c))\<rparr>;
          o2 = set_org_state ''_shared_node_id'' (PStr (cn_id (ca_node c)))
                 (set_org_state ''_from_shared'' (PBool True) o1)
      in o2\<lparr>og_computation_node := Some (cn_id (ca_node c)), og_next := ca_next c\<rparr>)"

definition restore :: "cached \<Rightarrow> xrun \<Rightarrow> xrun" where
  "restore c r =
     (let o' = restored c (xr_org r)
      in r\<lparr>xr_org := o',
           xr_env := (xr_env r)\<lparr>env_state := og_state o', env_next := ca_next c\<rparr>,
           xr_shared := True,
           xr_exec := (xr_exec r)\<lparr>x_warm_steps := x_warm_steps (xr_exec r) + 1,
                                  x_calls_saved := x_calls_saved (xr_exec r) + 1\<rparr>\<rparr>)"

definition lookup ::
    "xio \<Rightarrow> string \<Rightarrow> string \<Rightarrow> xrun \<Rightarrow> (py_error + cached option) \<times> xrun" where
  "lookup io c key r =
     (case get_cached_result_by_key c key True (xi_get io (xr_tick r)) (xi_ttl io (xr_tick r))
             (xi_now io (xr_tick r)) (xr_graph r) of
        Inl err \<Rightarrow> (Inl err, tick r)
      | Inr (hit, g) \<Rightarrow> (Inr hit, tick (r\<lparr>xr_graph := g\<rparr>)))"

text \<open>\<open>for _ in range(100)\<close>: poll the cache while another replica holds the lock.\<close>

fun poll ::
    "nat \<Rightarrow> xio \<Rightarrow> string \<Rightarrow> string \<Rightarrow> xrun \<Rightarrow> (py_error + bool) \<times> xrun" where
  "poll 0 io c key r = (Inr False, r)"
| "poll (Suc n) io c key r =
     (case lookup io c key r of
        (Inl err, r1) \<Rightarrow> (Inl err, r1)
      | (Inr (Some hit), r1) \<Rightarrow> (Inr True, r1)
      | (Inr None, r1) \<Rightarrow> poll n io c key r1)"

text \<open>A node is resolved and executed; its result is taken over and registered.\<close>

definition take_result :: "node_result \<Rightarrow> xrun \<Rightarrow> xrun" where
  "take_result res r =
     (let e = res_envelope res
      in r\<lparr>xr_env := e, xr_shared := False,
           xr_org := (xr_org r)\<lparr>og_state := env_state e, og_history := env_history e,
                                og_next := env_next e\<rparr>\<rparr>)"

definition fail_step :: "xio \<Rightarrow> string \<Rightarrow> rat \<Rightarrow> py_error \<Rightarrow> xrun \<Rightarrow> xrun" where
  "fail_step io c start err r =
     (let r1 = on_org (org_terminate (Some (exn_str (rt_fmt (xi_rt io)) err))) r
      in publish (BusNode c ((xi_perf io (xr_tick r1) - start) * 1000) False (og_id (xr_org r1)))
           (tick r1))"

definition compute ::
    "xio \<Rightarrow> node router \<Rightarrow> string \<Rightarrow> string \<Rightarrow> rat \<Rightarrow> xrun \<Rightarrow> xrun" where
  "compute io nr c key start r =
     (case resolve nr c of
        Inl err \<Rightarrow> fail_step io c start err r
      | Inr nd \<Rightarrow>
          (case node_execute (xi_rt io) (xr_tick r) nd (xr_env r) of
             Inl err \<Rightarrow> fail_step io c start err (tick r)
           | Inr res \<Rightarrow>
               let r1 = tick (take_result res r);
                   latency = (xi_perf io (xr_tick r1) - start) * 1000;
                   ok = (res_success res \<and> \<not> env_terminated (xr_env r1))
               in case register_computation (xi_uid io (xr_tick r1)) c (after_colon key)
                         (public_items (og_state (xr_org r1))) latency ok None
                         (env_next (xr_env r1)) True (xi_ohash io (xr_tick r1))
                         (xi_now io (xr_tick r1)) (xr_graph r1) of
                    Inl err \<Rightarrow> fail_step io c start err (tick r1)
                  | Inr (nd', g, w) \<Rightarrow>
                      let r2 = publish (BusNode c latency ok (og_id (xr_org r1)))
                            (on_exec (\<lambda>x. x\<lparr>x_cold_steps := x_cold_steps x + 1\<rparr>)
                               (tick (r1\<lparr>xr_graph := g\<rparr>)))
                      in if ok then r2
                         else on_org (org_terminate (Some (or_str (or_opt (res_error res)
                                (env_error (xr_env r2))) ''node failed''))) r2))"

text \<open>
  One pass of the \<open>while True\<close> loop of a cold step: a second lookup, the cross-worker lock when Redis
  is configured, then the computation. \<open>Again\<close> is the \<open>continue\<close> after another replica's result
  has arrived.
\<close>

datatype pass = Done xrun | Again xrun | Failed xrun py_error

definition cold_pass ::
    "xio \<Rightarrow> node router \<Rightarrow> string \<Rightarrow> string \<Rightarrow> rat \<Rightarrow> xrun \<Rightarrow> pass" where
  "cold_pass io nr c key start r =
     (case lookup io c key r of
        (Inl err, r1) \<Rightarrow> Failed r1 err
      | (Inr (Some hit), r1) \<Rightarrow> Done (restore hit r1)
      | (Inr None, r1) \<Rightarrow>
          if \<not> cg_redis (xr_graph r1) \<or>
             try_acquire_flight_lock (xr_graph r1) (xi_lock io (xr_tick r1))
          then Done (compute io nr c key start (tick r1))
          else (case poll 100 io c key
                       (on_exec (\<lambda>x. x\<lparr>x_waits := x_waits x + 1\<rparr>) (tick r1)) of
                  (Inl err, r2) \<Rightarrow> Failed r2 err
                | (Inr True, r2) \<Rightarrow>
                    Again (sync_env (on_org (set_org_state ''_from_single_flight'' (PBool True)) r2))
                | (Inr False, r2) \<Rightarrow> Done (compute io nr c key start (tick r2))))"

partial_function (option) cold_loop ::
    "xio \<Rightarrow> node router \<Rightarrow> string \<Rightarrow> string \<Rightarrow> rat \<Rightarrow> xrun \<Rightarrow> pass option" where
  "cold_loop io nr c key start r =
     (case cold_pass io nr c key start r of
        Again r1 \<Rightarrow> cold_loop io nr c key start r1
      | p \<Rightarrow> Some p)"

definition step_key :: "xio \<Rightarrow> string \<Rightarrow> organism \<Rightarrow> string" where
  "step_key io c o' = lookup_key c (xi_hash io c (og_input o') (public_items (og_state o')))"

datatype hop = Stop xrun | Next xrun | Raised_err xrun py_error

text \<open>What the loop does after a hop: the mutation record and the watchers.\<close>

definition after_hop :: "xio \<Rightarrow> string \<Rightarrow> string \<Rightarrow> dict \<Rightarrow> xrun \<Rightarrow> xrun" where
  "after_hop io oid c before r =
     (let x = xr_exec r;
          m = (case map_of (x_mutations x) oid of Some m \<Rightarrow> m | None \<Rightarrow> new_mutation oid);
          m' = record_mutations (xi_now io (xr_tick r)) c before (og_state (xr_org r)) m
      in notify_run io ''node_executed''
           (tick (r\<lparr>xr_exec := x\<lparr>x_mutations := AList.update oid m' (x_mutations x)\<rparr>\<rparr>)))"

definition exec_hop :: "xio \<Rightarrow> node router \<Rightarrow> string \<Rightarrow> xrun \<Rightarrow> hop option" where
  "exec_hop io nr oid r =
     (case org_capability (xr_org r) of
        None \<Rightarrow> Some (Stop r)
      | Some c \<Rightarrow>
          if c = [] then Some (Stop r)
          else
            let before = og_state (xr_org r);
                start = xi_perf io (xr_tick r);
                key = step_key io c (xr_org r)
            in case lookup io c key (tick r) of
                 (Inl err, r1) \<Rightarrow> Some (Raised_err r1 err)
               | (Inr (Some hit), r1) \<Rightarrow>
                   Some (Next (after_hop io oid c before
                     (publish (BusCacheHit c (og_id (xr_org r1)) (cn_id (ca_node hit)))
                        (restore hit r1))))
               | (Inr None, r1) \<Rightarrow>
                   (case cold_loop io nr c key start r1 of
                      None \<Rightarrow> None
                    | Some (Done r2) \<Rightarrow>
                        if org_terminated (xr_org r2) then Some (Stop r2)
                        else Some (Next (after_hop io oid c before r2))
                    | Some (Again r2) \<Rightarrow> Some (Stop r2)
                    | Some (Failed r2 err) \<Rightarrow> Some (Raised_err r2 err)))"

section \<open>The run\<close>

definition show_repr :: "string option \<Rightarrow> string" where
  "show_repr s = (case s of None \<Rightarrow> ''None'' | Some x \<Rightarrow> quoted x)"

definition max_hops_message :: "nat \<Rightarrow> organism \<Rightarrow> string" where
  "max_hops_message n o' =
     ''Max hops ('' @ show_nat n @ '') exceeded; last capability='' @
     show_repr (org_capability o') @
     ''. Raise ORGANISM_MAX_HOPS if this pipeline legitimately needs more passes.''"

definition going :: "xrun \<Rightarrow> bool" where
  "going r = (truthy_opt (og_next (xr_org r)) \<and> \<not> org_terminated (xr_org r))"

text \<open>The loop with \<open>n\<close> hops left. \<open>None\<close> is a cold loop that never ends.\<close>

fun exec_loop :: "nat \<Rightarrow> xio \<Rightarrow> node router \<Rightarrow> string \<Rightarrow> xrun \<Rightarrow> (py_error option \<times> xrun) option" where
  "exec_loop 0 io nr oid r =
     Some (None, if \<not> going r then r
       else (on_org (\<lambda>o'. org_terminate (Some (max_hops_message (x_max_hops (xr_exec r)) o')) o') r)
              \<lparr>xr_env := env_terminate (Some ''max hops exceeded'') (xr_env r)\<rparr>)"
| "exec_loop (Suc n) io nr oid r =
     (if \<not> going r then Some (None, r)
      else case exec_hop io nr oid r of
        None \<Rightarrow> None
      | Some (Stop r1) \<Rightarrow> Some (None, r1)
      | Some (Next r1) \<Rightarrow> exec_loop n io nr oid r1
      | Some (Raised_err r1 err) \<Rightarrow> Some (Some err, r1))"

text \<open>\<open>a or b\<close> on values, and an \<open>isinstance(_, int)\<close> test, which a boolean passes.\<close>

definition or_val :: "pval \<Rightarrow> pval \<Rightarrow> pval" where
  "or_val a b = (if truthy a then a else b)"

fun as_int :: "pval \<Rightarrow> int option" where
  "as_int (PInt i) = Some i"
| "as_int (PBool b) = Some (if b then 1 else 0)"
| "as_int _ = None"

definition track_usefulness :: "dict \<Rightarrow> executor \<Rightarrow> executor" where
  "track_usefulness st x =
     (case or_val (dict_get ''deepiri_report'' st) (dict_get ''session'' st) of
        PDict report \<Rightarrow>
          if map_of report ''useful'' = None then x
          else
            let x1 = (if truthy (dict_get ''useful'' report)
                      then x\<lparr>x_useful_true := x_useful_true x + 1\<rparr>
                      else x\<lparr>x_useful_false := x_useful_false x + 1\<rparr>);
                saved = (case dict_get ''productivity'' report of
                           PDict p \<Rightarrow> as_int (dict_get ''client_round_trips_saved'' p)
                         | _ \<Rightarrow> None)
            in (case saved of
                  Some i \<Rightarrow> if truthy (dict_get ''_from_shared'' st)
                            then x1\<lparr>x_calls_saved := x_calls_saved x1 + max 0 i\<rparr> else x1
                | None \<Rightarrow> x1)
      | _ \<Rightarrow> x)"

definition finish_run :: "xio \<Rightarrow> rat \<Rightarrow> xrun \<Rightarrow> xrun" where
  "finish_run io start r =
     (let dur = (xi_perf io (xr_tick r) - start) * 1000;
          r1 = tick (on_exec (\<lambda>x. let y = track_usefulness (og_state (xr_org r)) x
                                  in y\<lparr>x_latencies := x_latencies y @ [dur]\<rparr>) r)
      in if org_terminated (xr_org r1)
         then let r2 = notify_run io ''failed'' r1
              in publish (BusFailed (og_id (xr_org r2)) dur
                    (dict_get ''_error'' (og_state (xr_org r2)))) r2
         else let r2 = notify_run io ''completed''
                    (on_org (\<lambda>o'. o'\<lparr>og_status := LEARNING\<rparr>) r1)
              in publish (BusCompleted (og_id (xr_org r2)) dur) r2)"

definition start_run :: "organism \<Rightarrow> cgraph \<Rightarrow> executor \<Rightarrow> xrun" where
  "start_run o' g x =
     (let o1 = o'\<lparr>og_status := EXECUTING\<rparr>
      in publish (BusStarted (og_id o') (intent_str (og_intent o')))
           \<lparr>xr_org = o1, xr_env = to_envelope o1, xr_shared = False, xr_graph = g,
            xr_exec = x\<lparr>x_mutations := AList.update (og_id o') (new_mutation (og_id o'))
                         (x_mutations x)\<rparr>,
            xr_tick = 1\<rparr>)"

text \<open>
  \<open>execute\<close>: an error that escapes the loop terminates the organism, is reported to the watchers and
  is raised again.
\<close>

definition org_execute ::
    "xio \<Rightarrow> node router \<Rightarrow> organism \<Rightarrow> cgraph \<Rightarrow> executor \<Rightarrow> (py_error option \<times> xrun) option" where
  "org_execute io nr o' g x =
     (case exec_loop (x_max_hops x) io nr (og_id o') (start_run o' g x) of
        None \<Rightarrow> None
      | Some (None, r) \<Rightarrow> Some (None, finish_run io (xi_perf io 0) r)
      | Some (Some err, r) \<Rightarrow>
          Some (Some err, notify_run io ''failed'' (on_org (\<lambda>o'. o'\<lparr>og_status := TERMINATED\<rparr>) r)))"

section \<open>Statistics\<close>

text \<open>Python's \<open>round\<close> to the nearest integer, ties to the even one.\<close>

definition py_round :: "rat \<Rightarrow> int" where
  "py_round x =
     (let f = \<lfloor>x\<rfloor>; d = x - of_int f
      in if d < 1/2 then f else if d > 1/2 then f + 1 else if even f then f else f + 1)"

definition percentile :: "rat \<Rightarrow> rat list \<Rightarrow> rat" where
  "percentile p values =
     (let n = int (length values);
          idx = min (n - 1) (max 0 (py_round (p * of_int (n - 1))))
      in values ! nat idx)"

record latency_stats =
  la_count :: nat
  la_p95 :: rat
  la_p99 :: rat
  la_avg :: rat

definition get_execute_latency_stats :: "executor \<Rightarrow> latency_stats" where
  "get_execute_latency_stats x =
     (if x_latencies x = [] then \<lparr>la_count = 0, la_p95 = 0, la_p99 = 0, la_avg = 0\<rparr>
      else let values = sort (x_latencies x)
           in \<lparr>la_count = length values, la_p95 = percentile (95/100) values,
               la_p99 = percentile (99/100) values,
               la_avg = sum_list values / of_nat (length values)\<rparr>)"

definition warm_rate :: "executor \<Rightarrow> rat" where
  "warm_rate x = of_nat (x_warm_steps x) / of_nat (max (x_warm_steps x + x_cold_steps x) 1)"

definition useful_rate :: "executor \<Rightarrow> rat" where
  "useful_rate x =
     of_nat (x_useful_true x) / of_nat (max (x_useful_true x + x_useful_false x) 1)"

section \<open>The run ends\<close>

definition steps :: "xrun \<Rightarrow> nat" where
  "steps r = x_warm_steps (xr_exec r) + x_cold_steps (xr_exec r)"

definition local :: "xrun \<Rightarrow> bool" where
  "local r = (\<not> cg_redis (xr_graph r))"

lemma bookkeeping_simps [simp]:
  "steps (tick r) = steps r" "local (tick r) = local r"
  "steps (on_org f r) = steps r" "local (on_org f r) = local r"
  "steps (sync_env r) = steps r" "local (sync_env r) = local r"
  "steps (publish e r) = steps r" "local (publish e r) = local r"
  "steps (take_result res r) = steps r" "local (take_result res r) = local r"
  "steps (restore hit r) = Suc (steps r)" "local (restore hit r) = local r"
  by (simp_all add: steps_def local_def tick_def on_org_def on_exec_def sync_env_def publish_def
      take_result_def restore_def Let_def)

lemma notify_run_simps [simp]:
  "steps (notify_run io ev r) = steps r" "local (notify_run io ev r) = local r"
  by (simp_all add: notify_run_def case_prod_beta Let_def)
    (simp_all add: steps_def local_def)

lemma after_hop_simps [simp]:
  "steps (after_hop io oid c before r) = steps r" "local (after_hop io oid c before r) = local r"
  by (simp_all add: after_hop_def Let_def) (simp_all add: steps_def local_def)

lemma fail_step_simps [simp]:
  "steps (fail_step io c start err r) = steps r" "local (fail_step io c start err r) = local r"
  by (simp_all add: fail_step_def Let_def)

lemma lookup_local:
  "lookup io c key r = (res, r') \<Longrightarrow> steps r' = steps r \<and> local r' = local r"
  by (auto simp: lookup_def steps_def local_def tick_def lookup_keeps_redis
      split: sum.splits prod.splits)

lemma compute_bound:
  "steps (compute io nr c key start r) \<le> Suc (steps r) \<and>
   local (compute io nr c key start r) = local r"
  by (auto simp: compute_def Let_def on_exec_def split: sum.splits prod.splits)
    (auto simp: steps_def local_def tick_def take_result_def Let_def dest: register_keeps_redis)

text \<open>Without Redis a cold step is one pass.\<close>

lemma cold_pass_local:
  "local r \<Longrightarrow> \<exists>p. cold_loop io nr c key start r = Some p \<and>
     (case p of Done r' \<Rightarrow> steps r' \<le> Suc (steps r) \<and> local r'
      | Failed r' err \<Rightarrow> steps r' = steps r \<and> local r' | Again r' \<Rightarrow> False)"
proof -
  assume loc: "local r"
  obtain res r1 where lk: "lookup io c key r = (res, r1)" by (cases "lookup io c key r")
  note l = lookup_local [OF lk]
  have comp: "steps (compute io nr c key start (tick r1)) \<le> Suc (steps r) \<and>
      local (compute io nr c key start (tick r1))"
    using compute_bound [of io nr c key start "tick r1"] l loc by simp
  have "case cold_pass io nr c key start r of Done r' \<Rightarrow> steps r' \<le> Suc (steps r) \<and> local r'
      | Failed r' err \<Rightarrow> steps r' = steps r \<and> local r' | Again r' \<Rightarrow> False"
  proof (cases res)
    case (Inl err)
    with lk l loc show ?thesis by (simp add: cold_pass_def)
  next
    case (Inr hit)
    have "\<not> cg_redis (xr_graph r1)" using l loc by (simp add: local_def)
    with Inr lk l loc comp show ?thesis by (cases hit) (simp_all add: cold_pass_def)
  qed
  then show ?thesis
    by (subst cold_loop.simps) (cases "cold_pass io nr c key start r"; auto)
qed

fun hop_run :: "hop \<Rightarrow> xrun" where
  "hop_run (Stop r) = r"
| "hop_run (Next r) = r"
| "hop_run (Raised_err r err) = r"

lemma exec_hop_local:
  assumes "local r"
  shows "\<exists>h. exec_hop io nr oid r = Some h \<and> steps (hop_run h) \<le> Suc (steps r) \<and> local (hop_run h)"
proof (cases "org_capability (xr_org r) = None \<or> org_capability (xr_org r) = Some []")
  case True
  with assms show ?thesis by (auto simp: exec_hop_def)
next
  case False
  then obtain c where c: "org_capability (xr_org r) = Some c" "c \<noteq> []" by (cases "org_capability (xr_org r)") auto
  let ?key = "step_key io c (xr_org r)" and ?start = "xi_perf io (xr_tick r)"
  obtain res r1 where lk: "lookup io c ?key (tick r) = (res, r1)"
    by (cases "lookup io c ?key (tick r)")
  note l = lookup_local [OF lk]
  show ?thesis
  proof (cases res)
    case (Inl err)
    with c lk l assms show ?thesis by (simp add: exec_hop_def Let_def)
  next
    case (Inr hit)
    show ?thesis
    proof (cases hit)
      case (Some h)
      with Inr c lk l assms show ?thesis by (simp add: exec_hop_def Let_def)
    next
      case None
      from l assms have "local r1" by simp
      from cold_pass_local [OF this, of io nr c ?key ?start] obtain p where
        p: "cold_loop io nr c ?key ?start r1 = Some p"
        "case p of Done r' \<Rightarrow> steps r' \<le> Suc (steps r1) \<and> local r'
         | Failed r' err \<Rightarrow> steps r' = steps r1 \<and> local r' | Again r' \<Rightarrow> False" by blast
      with None Inr c lk l assms show ?thesis
        by (cases p) (simp_all add: exec_hop_def Let_def)
    qed
  qed
qed

lemma exec_loop_local:
  "local r \<Longrightarrow> \<exists>err r'. exec_loop n io nr oid r = Some (err, r') \<and> steps r' \<le> steps r + n"
proof (induction n arbitrary: r)
  case 0
  then show ?case by (simp add: on_org_def) (simp add: steps_def)
next
  case (Suc n)
  show ?case
  proof (cases "going r")
    case False
    then show ?thesis by simp
  next
    case True
    from exec_hop_local [OF Suc.prems, of io nr oid] obtain h where
      h: "exec_hop io nr oid r = Some h" "steps (hop_run h) \<le> Suc (steps r)" "local (hop_run h)" by blast
    show ?thesis
    proof (cases h)
      case (Next r1)
      with h Suc.IH [of r1] obtain err r' where
        "exec_loop n io nr oid r1 = Some (err, r')" "steps r' \<le> steps r1 + n" by auto
      with True h Next show ?thesis by simp
    qed (use True h in auto)
  qed
qed


definition demo_io :: xio where
  "demo_io = \<lparr>xi_hash = \<lambda>c i st. ''h'' @ concat (map fst (i @ st)), xi_uid = \<lambda>n. show_nat n,
     xi_ohash = \<lambda>n. [], xi_get = \<lambda>n. GetMissing, xi_ttl = \<lambda>n. TtlUnreadable, xi_lock = \<lambda>n. None,
     xi_now = \<lambda>n. 0, xi_perf = \<lambda>n. of_nat n,
     xi_rt = \<lparr>rt_mono = \<lambda>n. 0, rt_wall = \<lambda>n. 0, rt_dur = \<lambda>n. 1, rt_worker = \<lambda>n. WDone,
              rt_fmt = \<lambda>_. ''1''\<rparr>\<rparr>"


section \<open>Warm steps replay cold steps\<close>

lemma is_private_flags [simp]:
  "is_private ''_from_shared''" "is_private ''_shared_node_id''" "is_private ''_from_single_flight''"
  by (simp_all add: is_private_def)

lemma restored_simps [simp]:
  "og_next (restored hit o') = ca_next hit" "og_input (restored hit o') = og_input o'"
  "og_status (restored hit o') = og_status o'" "og_id (restored hit o') = og_id o'"
  "og_computation_node (restored hit o') = Some (cn_id (ca_node hit))"
  by (simp_all add: restored_def set_org_state_def Let_def)

lemma restored_public:
  "wf_dict (ca_state hit) \<Longrightarrow> \<not> is_private k \<Longrightarrow>
     map_of (og_state (restored hit o')) k =
       (case map_of (ca_state hit) k of Some v \<Rightarrow> Some v | None \<Rightarrow> map_of (og_state o') k)"
  using is_private_flags
  by (auto simp: restored_def set_org_state_def Let_def dict_simps map_add_def wf_public
      split: option.split)

text \<open>What a computation registers, whether it succeeded or failed.\<close>

lemma compute_registers:
  fixes start :: rat and h :: string
  assumes inv: "cg_inv (xr_graph r)"
    and fresh: "\<And>n. map_of (cg_nodes (xr_graph r)) (''comp_'' @ xi_uid io n) = None"
    and nd: "resolve nr c = Inr nd" "nd_timeout_ms nd = None"
    and res: "execute_sync (xi_rt io) (xr_tick r) nd (xr_env r) = res"
    and c: "CHR '':'' \<notin> set c"
  defines "r1 \<equiv> compute io nr c (lookup_key c h) start r"
    and "ok \<equiv> res_success res \<and> \<not> env_terminated (res_envelope res)"
  shows "\<exists>i e nd' t. og_next (xr_org r1) = env_next (res_envelope res) \<and>
    (ok \<longrightarrow> og_state (xr_org r1) = env_state (res_envelope res)) \<and>
    map_of (cg_hash (xr_graph r1)) (lookup_key c h) = Some i \<and>
    map_of (cg_outputs (xr_graph r1)) i = Some e \<and> map_of (cg_nodes (xr_graph r1)) i = Some nd' \<and>
    co_state e = public_items (env_state (res_envelope res)) \<and>
    co_next e = env_next (res_envelope res) \<and> co_success e = ok \<and>
    co_expires_at e = Some (xi_now io t + of_int (ttl_for (xr_graph r) c ok))"
proof -
  have ex: "node_execute (xi_rt io) (xr_tick r) nd (xr_env r) = Inr res"
    using nd res by (simp add: node_execute_def execute_with_timeout_def effective_timeout_def)
  let ?r = "tick (take_result res r)"
  let ?lat = "(xi_perf io (xr_tick ?r) - start) * 1000"
  have g: "xr_graph ?r = xr_graph r" by (simp add: tick_def take_result_def Let_def)
  have e: "xr_env ?r = res_envelope res" "og_state (xr_org ?r) = env_state (res_envelope res)"
    "og_next (xr_org ?r) = env_next (res_envelope res)"
    by (simp_all add: tick_def take_result_def Let_def)
  from register_ok [OF inv fresh, of "xr_tick ?r" c h "public_items (env_state (res_envelope res))"
      ?lat ok None "env_next (res_envelope res)" True "xi_ohash io (xr_tick ?r)"
      "xi_now io (xr_tick ?r)"]
  obtain nd' g' w i where reg: "register_computation (xi_uid io (xr_tick ?r)) c h
      (public_items (env_state (res_envelope res))) ?lat ok None (env_next (res_envelope res)) True
      (xi_ohash io (xr_tick ?r)) (xi_now io (xr_tick ?r)) (xr_graph r) = Inr (nd', g', w)"
    and inv': "cg_inv g'" and i: "map_of (cg_hash g') (lookup_key c h) = Some i"
    "map_of (cg_outputs g') i = Some \<lparr>co_state = public_items (env_state (res_envelope res)),
       co_next = env_next (res_envelope res), co_success = ok,
       co_expires_at = Some (xi_now io (xr_tick ?r) + of_int (ttl_for (xr_graph r) c ok)),
       co_lookup_key = lookup_key c h\<rparr>" by blast
  from cg_wf_index [OF cg_inv_wf [OF inv'] i(1)] obtain nd2 where "map_of (cg_nodes g') i = Some nd2"
    by blast
  moreover have "xr_graph r1 = g' \<and> og_next (xr_org r1) = env_next (res_envelope res) \<and>
      (ok \<longrightarrow> og_state (xr_org r1) = env_state (res_envelope res))"
    using nd(1) ex reg e g
    by (cases "res_success res"; cases "env_terminated (res_envelope res)")
      (simp_all add: r1_def ok_def compute_def Let_def after_colon_key [OF c] publish_def
        on_exec_def tick_def on_org_def org_terminate_def)
  ultimately show ?thesis using i by auto
qed

text \<open>
  C19: A warm step gives what the cold step computed: after a node has succeeded for an organism, any
  organism that asks for the same capability and input hash before the entry expires is sent to the
  same next hop and gets every public value of the computed state. Keys the node had removed are the
  exception: they keep the value the organism had.
\<close>

theorem warm_step_replays_cold_step:
  fixes start :: rat and h :: string
  assumes "cg_inv (xr_graph r)"
    and "\<And>n. map_of (cg_nodes (xr_graph r)) (''comp_'' @ xi_uid io n) = None"
    and "resolve nr c = Inr nd" "nd_timeout_ms nd = None"
    and "execute_sync (xi_rt io) (xr_tick r) nd (xr_env r) = res" "res_success res"
      "\<not> env_terminated (res_envelope res)" "wf_dict (env_state (res_envelope res))"
    and "CHR '':'' \<notin> set c"
    and "\<And>t. now < xi_now io t + of_int (ttl_for (xr_graph r) c True)"
  defines "r1 \<equiv> compute io nr c (lookup_key c h) start r"
  shows "\<exists>hit g. get_cached_result_by_key c (lookup_key c h) u reply ttl now (xr_graph r1) =
      Inr (Some hit, g) \<and>
    og_next (restored hit o2) = og_next (xr_org r1) \<and>
    (\<forall>k. \<not> is_private k \<longrightarrow> map_of (og_state (restored hit o2)) k =
       (case map_of (og_state (xr_org r1)) k of
          Some v \<Rightarrow> Some v | None \<Rightarrow> map_of (og_state o2) k))"
proof -
  have ok: "(res_success res \<and> \<not> env_terminated (res_envelope res)) = True"
    using assms(6,7) by simp
  from compute_registers [OF assms(1-5,9), where h = h and start = start, unfolded ok]
  obtain i e nd' t where
    reg: "og_next (xr_org r1) = env_next (res_envelope res)"
      "og_state (xr_org r1) = env_state (res_envelope res)"
      "map_of (cg_hash (xr_graph r1)) (lookup_key c h) = Some i"
      "map_of (cg_outputs (xr_graph r1)) i = Some e" "map_of (cg_nodes (xr_graph r1)) i = Some nd'"
      "co_state e = public_items (env_state (res_envelope res))"
      "co_next e = env_next (res_envelope res)"
      "co_expires_at e = Some (xi_now io t + of_int (ttl_for (xr_graph r) c True))"
    unfolding r1_def by blast
  have "\<not> expired e now" using assms(10) [of t] reg(8) by (simp add: expired_def)
  from served_from_l1 [OF reg(3,4) this reg(5), of c u reply ttl] obtain g where
    "get_cached_result_by_key c (lookup_key c h) u reply ttl now (xr_graph r1) =
      Inr (Some \<lparr>ca_node = nd'\<lparr>cn_execution_count := cn_execution_count nd' + 1\<rparr>,
                ca_state = co_state e, ca_next = co_next e\<rparr>, g)" by blast
  then show ?thesis
    using reg assms(8)
    by (auto simp: restored_public wf_public map_of_public split: option.split)
qed

definition demo_run :: xrun where
  "demo_run = \<lparr>xr_org = demo_organism, xr_env = to_envelope demo_organism, xr_shared = False,
     xr_graph = new_graph 10 30 3 [] [] False, xr_exec = new_executor new_watcher False (Some 5),
     xr_tick = 0\<rparr>"

definition demo_routes :: "node router" where
  "demo_routes = register ''a'' (demo_node ''n'' ''a'' (Some ''b'')) 0 [] new_router"

theorem warm_step_replays_cold_step_witness:
  "\<exists>hit g. get_cached_result_by_key ''a'' (lookup_key ''a'' ''h'') True GetMissing TtlUnreadable 29
       (xr_graph (compute demo_io demo_routes ''a'' (lookup_key ''a'' ''h'') 0 demo_run)) =
      Inr (Some hit, g) \<and> og_next (restored hit demo_organism) = Some ''b''"
proof -
  let ?nd = "demo_node ''n'' ''a'' (Some ''b'')"
  define res where "res = execute_sync (xi_rt demo_io) 0 ?nd (xr_env demo_run)"
  have state: "og_state demo_organism = []" by (simp add: demo_organism_def new_organism_def)
  have next_b: "env_next (res_envelope res) = Some ''b''" and st: "env_state (res_envelope res) = []"
    and ok: "res_success res" "\<not> env_terminated (res_envelope res)"
    by (simp_all add: res_def execute_sync_def demo_node_def demo_run_def to_envelope_def state
        finalize_result_def ok_result_def set_next_def env_record_def Let_def)
  have nd: "resolve demo_routes ''a'' = Inr ?nd" "nd_timeout_ms ?nd = None"
    by (simp_all add: demo_routes_def resolve_def resolve_capability_def register_def new_router_def
        demo_node_def)
  have inv: "cg_inv (xr_graph demo_run)" by (simp add: demo_run_def cg_inv_new)
  have fresh: "map_of (cg_nodes (xr_graph demo_run)) (''comp_'' @ xi_uid demo_io n) = None" for n
    by (simp add: demo_run_def new_graph_def)
  have live: "29 < xi_now demo_io t + of_int (ttl_for (xr_graph demo_run) ''a'' True)" for t
    by (simp add: demo_io_def demo_run_def new_graph_def ttl_for_def)
  have exec: "execute_sync (xi_rt demo_io) (xr_tick demo_run) ?nd (xr_env demo_run) = res"
    by (simp add: res_def demo_run_def)
  have wf: "wf_dict (env_state (res_envelope res))" by (simp add: st)
  have colon: "CHR '':'' \<notin> set ''a''" by simp
  have "og_next (xr_org (compute demo_io demo_routes ''a'' (lookup_key ''a'' ''h'') 0 demo_run)) =
      Some ''b''"
    using compute_registers [OF inv fresh nd exec colon, where h = "''h''" and start = 0] next_b
    by auto
  with warm_step_replays_cold_step [OF inv fresh nd exec ok wf colon live, where h = "''h''"
      and start = 0 and u = True and reply = GetMissing and ttl = TtlUnreadable and ?o2.0 = demo_organism]
  show ?thesis by auto
qed

section \<open>Failures in the cache\<close>

lemma public_update_private: "is_private k \<Longrightarrow> public_items (AList.update k v d) = public_items d"
  by (induction d) (auto simp: public_items_def)

lemma update_same: "map_of d k = Some v \<Longrightarrow> AList.update k v d = d"
  by (induction d) auto

lemma dict_update_known:
  "(\<And>k v. (k, v) \<in> set e \<Longrightarrow> map_of d k = Some v) \<Longrightarrow> dict_update d e = d"
  by (induction e) (auto simp: dict_update_def update_same)

lemma dict_update_public: "wf_dict d \<Longrightarrow> dict_update d (public_items d) = d"
  by (rule dict_update_known) (auto simp: public_items_def)

text \<open>Restoring the public state an organism already has changes nothing public.\<close>

lemma restored_same:
  assumes "wf_dict (og_state o')" "ca_state hit = public_items (og_state o')"
  shows "public_items (og_state (restored hit o')) = public_items (og_state o')"
    and "wf_dict (og_state (restored hit o'))"
  using assms
  by (simp_all add: restored_def set_org_state_def Let_def dict_update_public public_update_private
      dict_simps)

lemma unwatched_notify_run:
  assumes "wt_watchers (x_watcher (xr_exec r)) = []"
  shows "xr_org (notify_run io ev r) = xr_org r" "xr_graph (notify_run io ev r) = xr_graph r"
    and "wt_watchers (x_watcher (xr_exec (notify_run io ev r))) = []"
    and "x_warm_steps (xr_exec (notify_run io ev r)) = x_warm_steps (xr_exec r)"
    and "x_cold_steps (xr_exec (notify_run io ev r)) = x_cold_steps (xr_exec r)"
    and "x_max_hops (xr_exec (notify_run io ev r)) = x_max_hops (xr_exec r)"
  using assms
  by (simp_all add: notify_run_def notify_def callbacks_of_def sync_env_def tick_def)

text \<open>
  A run at a capability whose cached result changes nothing and names the same capability again:
  every hop is a hit, until the hops are used up.
\<close>

definition stuck :: "xio \<Rightarrow> string \<Rightarrow> string \<Rightarrow> string \<Rightarrow> string \<Rightarrow> coutput \<Rightarrow> xrun \<Rightarrow> bool" where
  "stuck io n0 c key i e r \<longleftrightarrow>
     og_next (xr_org r) = Some n0 \<and> hop_capability (Some n0) = Some c \<and> c \<noteq> [] \<and>
     \<not> org_terminated (xr_org r) \<and> wf_dict (og_state (xr_org r)) \<and>
     wt_watchers (x_watcher (xr_exec r)) = [] \<and> step_key io c (xr_org r) = key \<and>
     co_state e = public_items (og_state (xr_org r)) \<and> co_next e = Some n0 \<and>
     map_of (cg_hash (xr_graph r)) key = Some i \<and> map_of (cg_outputs (xr_graph r)) i = Some e \<and>
     map_of (cg_nodes (xr_graph r)) i \<noteq> None \<and> (\<forall>t. \<not> expired e (xi_now io t))"

lemma stuck_hop:
  assumes "stuck io n0 c key i e r"
  shows "\<exists>r'. exec_hop io nr oid r = Some (Next r') \<and> stuck io n0 c key i e r' \<and>
    x_warm_steps (xr_exec r') = Suc (x_warm_steps (xr_exec r)) \<and>
    x_cold_steps (xr_exec r') = x_cold_steps (xr_exec r) \<and>
    x_max_hops (xr_exec r') = x_max_hops (xr_exec r)"
proof -
  from assms obtain nd where nd: "map_of (cg_nodes (xr_graph r)) i = Some nd"
    by (auto simp: stuck_def)
  let ?hit = "\<lparr>ca_node = nd\<lparr>cn_execution_count := cn_execution_count nd + 1\<rparr>,
               ca_state = co_state e, ca_next = co_next e\<rparr>"
  obtain g' where g: "get_cached_result_by_key c key True (xi_get io (xr_tick (tick r)))
      (xi_ttl io (xr_tick (tick r))) (xi_now io (xr_tick (tick r))) (xr_graph r) =
      Inr (Some ?hit, g')"
    "map_of (cg_hash g') key = Some i" "map_of (cg_outputs g') i = Some e"
    "map_of (cg_nodes g') i \<noteq> None"
    using served_from_l1 [of "xr_graph r" key i e "xi_now io (xr_tick (tick r))" nd c True] assms nd
    unfolding stuck_def by (metis option.distinct(1))
  let ?r1 = "tick ((tick r)\<lparr>xr_graph := g'\<rparr>)"
  have lk: "lookup io c key (tick r) = (Inr (Some ?hit), ?r1)"
    using g(1) by (simp add: lookup_def tick_def)
  let ?r2 = "publish (BusCacheHit c (og_id (xr_org ?r1)) (cn_id (ca_node ?hit))) (restore ?hit ?r1)"
  let ?r3 = "after_hop io oid c (og_state (xr_org r)) ?r2"
  have org2: "xr_org ?r2 = restored ?hit (xr_org r)" and gr2: "xr_graph ?r2 = g'"
    and w2: "wt_watchers (x_watcher (xr_exec ?r2)) = []"
    "x_warm_steps (xr_exec ?r2) = Suc (x_warm_steps (xr_exec r))"
    "x_cold_steps (xr_exec ?r2) = x_cold_steps (xr_exec r)"
    "x_max_hops (xr_exec ?r2) = x_max_hops (xr_exec r)"
    using assms by (auto simp: publish_def restore_def on_exec_def tick_def Let_def stuck_def)
  have r3: "xr_org ?r3 = restored ?hit (xr_org r)" "xr_graph ?r3 = g'"
    "wt_watchers (x_watcher (xr_exec ?r3)) = []"
    "x_warm_steps (xr_exec ?r3) = Suc (x_warm_steps (xr_exec r))"
    "x_cold_steps (xr_exec ?r3) = x_cold_steps (xr_exec r)"
    "x_max_hops (xr_exec ?r3) = x_max_hops (xr_exec r)"
    using org2 gr2 w2 by (simp_all add: after_hop_def Let_def unwatched_notify_run tick_def)
  have hop: "exec_hop io nr oid r = Some (Next ?r3)"
    using assms lk by (simp add: exec_hop_def stuck_def org_capability_def Let_def)
  have "stuck io n0 c key i e ?r3"
    using assms g r3 restored_same [of "xr_org r" ?hit]
    by (simp add: stuck_def org_terminated_def step_key_def)
  with hop r3 show ?thesis by blast
qed

lemma stuck_loop:
  "stuck io n0 c key i e r \<Longrightarrow> \<exists>r'. exec_loop n io nr oid r = Some (None, r') \<and>
     og_status (xr_org r') = TERMINATED \<and> org_capability (xr_org r') = Some c \<and>
     map_of (og_state (xr_org r')) ''_error'' =
       Some (PStr (max_hops_message (x_max_hops (xr_exec r)) (xr_org r'))) \<and>
     wt_watchers (x_watcher (xr_exec r')) = [] \<and>
     x_warm_steps (xr_exec r') = x_warm_steps (xr_exec r) + n \<and>
     x_cold_steps (xr_exec r') = x_cold_steps (xr_exec r)"
proof (induction n arbitrary: r)
  case 0
  then have cap: "org_capability (xr_org r) = Some c" and go: "going r"
    by (auto simp: stuck_def org_capability_def going_def hop_capability_def)
  have msg: "truthy_opt (Some (max_hops_message n o'))" for n o' by (simp add: max_hops_message_def)
  show ?case
    using 0 cap go msg
    by (simp add: on_org_def org_terminate_def dict_simps stuck_def org_capability_def
        max_hops_message_def)
next
  case (Suc n)
  from stuck_hop [OF Suc.prems, of nr oid] obtain r1 where
    r1: "exec_hop io nr oid r = Some (Next r1)" "stuck io n0 c key i e r1"
    "x_warm_steps (xr_exec r1) = Suc (x_warm_steps (xr_exec r))"
    "x_cold_steps (xr_exec r1) = x_cold_steps (xr_exec r)"
    "x_max_hops (xr_exec r1) = x_max_hops (xr_exec r)" by blast
  have "going r" using Suc.prems
    by (auto simp: stuck_def going_def hop_capability_def)
  with r1 Suc.IH [OF r1(2)] show ?case by auto
qed

lemma track_usefulness_simps [simp]:
  "x_warm_steps (track_usefulness st x) = x_warm_steps x"
  "x_cold_steps (track_usefulness st x) = x_cold_steps x"
  "x_watcher (track_usefulness st x) = x_watcher x"
  by (simp_all add: track_usefulness_def Let_def split: pval.split option.split)

lemma publish_simps [simp]:
  "xr_org (publish e r) = xr_org r" "xr_graph (publish e r) = xr_graph r"
  "x_warm_steps (xr_exec (publish e r)) = x_warm_steps (xr_exec r)"
  "x_cold_steps (xr_exec (publish e r)) = x_cold_steps (xr_exec r)"
  "x_max_hops (xr_exec (publish e r)) = x_max_hops (xr_exec r)"
  "x_watcher (xr_exec (publish e r)) = x_watcher (xr_exec r)"
  by (simp_all add: publish_def on_exec_def)

lemma finish_failed:
  assumes "wt_watchers (x_watcher (xr_exec r)) = []" "og_status (xr_org r) = TERMINATED"
  shows "xr_org (finish_run io t r) = xr_org r"
    and "x_warm_steps (xr_exec (finish_run io t r)) = x_warm_steps (xr_exec r)"
    and "x_cold_steps (xr_exec (finish_run io t r)) = x_cold_steps (xr_exec r)"
  using assms
  by (simp_all add: finish_run_def Let_def org_terminated_def on_exec_def tick_def
      unwatched_notify_run)

text \<open>
  Note: A failure that is cached is not replayed as a failure. When a node has raised an error without
  changing the request, an organism with the same input that arrives within the negative time to live
  finds the entry, is not told that it stands for a failure, and is sent to the same capability again:
  it spends all its hops on cache hits and ends with the hop-limit error instead of the node's.
\<close>

theorem cached_failure_burns_all_hops:
  fixes start :: rat and h :: string
  assumes "cg_inv (xr_graph r)"
    and "\<And>n. map_of (cg_nodes (xr_graph r)) (''comp_'' @ xi_uid io n) = None"
    and "resolve nr c = Inr nd" "nd_timeout_ms nd = None" "CHR '':'' \<notin> set c" "c \<noteq> []"
    and "nd_process nd (xr_env r) = Raised e' ty msg" "env_next e' = Some n0"
      "env_state e' = env_state (xr_env r)"
    and "\<And>t t'. xi_now io t' < xi_now io t + of_int (ttl_for (xr_graph r) c False)"
    and "og_next o2 = Some n0" "hop_capability (Some n0) = Some c" "wf_dict (og_state o2)"
      "step_key io c o2 = lookup_key c h" "public_items (og_state o2) = public_items (env_state (xr_env r))"
    and "wt_watchers (x_watcher x) = []"
  shows "\<exists>r2. org_execute io nr o2 (xr_graph (compute io nr c (lookup_key c h) start r)) x =
      Some (None, r2) \<and>
    og_status (xr_org r2) = TERMINATED \<and>
    map_of (og_state (xr_org r2)) ''_error'' =
      Some (PStr (max_hops_message (x_max_hops x) (xr_org r2))) \<and>
    x_warm_steps (xr_exec r2) = x_warm_steps x + x_max_hops x \<and>
    x_cold_steps (xr_exec r2) = x_cold_steps x"
proof -
  let ?g = "xr_graph (compute io nr c (lookup_key c h) start r)"
  define res where "res = execute_sync (xi_rt io) (xr_tick r) nd (xr_env r)"
  have res: "\<not> res_success res" "env_next (res_envelope res) = Some n0"
    "env_state (res_envelope res) = env_state (xr_env r)"
    using assms(7-9) by (simp_all add: res_def execute_sync_def failure_result_def)
  from compute_registers [OF assms(1-4) res_def [symmetric] assms(5), where h = h and start = start] res
  obtain i e nd' t where reg: "map_of (cg_hash ?g) (lookup_key c h) = Some i"
    "map_of (cg_outputs ?g) i = Some e" "map_of (cg_nodes ?g) i = Some nd'"
    "co_state e = public_items (env_state (xr_env r))" "co_next e = Some n0"
    "co_expires_at e = Some (xi_now io t + of_int (ttl_for (xr_graph r) c False))" by auto
  have live: "\<forall>t'. \<not> expired e (xi_now io t')"
    using assms(10) reg(6) by (simp add: expired_def not_le)
  let ?r = "start_run o2 ?g x"
  have key: "step_key io c (o2\<lparr>og_status := EXECUTING\<rparr>) = lookup_key c h"
    using assms(14) by (simp add: step_key_def)
  have "stuck io n0 c (lookup_key c h) i e ?r"
    using assms reg live key
    by (simp add: stuck_def start_run_def Let_def org_terminated_def)
  from stuck_loop [OF this, of "x_max_hops x" nr "og_id o2"] obtain r1 where r1:
    "exec_loop (x_max_hops x) io nr (og_id o2) ?r = Some (None, r1)"
    "og_status (xr_org r1) = TERMINATED"
    "map_of (og_state (xr_org r1)) ''_error'' =
       Some (PStr (max_hops_message (x_max_hops (xr_exec ?r)) (xr_org r1)))"
    "wt_watchers (x_watcher (xr_exec r1)) = []"
    "x_warm_steps (xr_exec r1) = x_warm_steps (xr_exec ?r) + x_max_hops x"
    "x_cold_steps (xr_exec r1) = x_cold_steps (xr_exec ?r)" by blast
  have start: "x_max_hops (xr_exec ?r) = x_max_hops x" "x_warm_steps (xr_exec ?r) = x_warm_steps x"
    "x_cold_steps (xr_exec ?r) = x_cold_steps x"
    by (simp_all add: start_run_def Let_def)
  show ?thesis
    using r1 start finish_failed [OF r1(4,2)] by (simp add: org_execute_def)
qed

definition failing_node :: node where
  "failing_node = (demo_node ''n'' ''a'' None)
     \<lparr>nd_process := (\<lambda>e. Raised e ''ValueError'' ''bad input'')\<rparr>"

theorem cached_failure_burns_all_hops_witness:
  "\<exists>r2. org_execute demo_io (register ''a'' failing_node 0 [] new_router) demo_organism
       (xr_graph (compute demo_io (register ''a'' failing_node 0 [] new_router) ''a''
          (lookup_key ''a'' ''h'') 0 demo_run)) (new_executor new_watcher False (Some 5)) =
      Some (None, r2) \<and> x_warm_steps (xr_exec r2) = 5"
proof -
  have state: "og_state demo_organism = []" and inp: "og_input demo_organism = []"
    and nxt: "og_next demo_organism = Some ''a''"
    by (simp_all add: demo_organism_def new_organism_def)
  have inv: "cg_inv (xr_graph demo_run)" by (simp add: demo_run_def cg_inv_new)
  have fresh: "map_of (cg_nodes (xr_graph demo_run)) (''comp_'' @ xi_uid demo_io n) = None" for n
    by (simp add: demo_run_def new_graph_def)
  have nd: "resolve (register ''a'' failing_node 0 [] new_router) ''a'' = Inr failing_node"
    "nd_timeout_ms failing_node = None"
    by (simp_all add: resolve_def resolve_capability_def register_def new_router_def
        failing_node_def demo_node_def)
  have raised: "nd_process failing_node (xr_env demo_run) = Raised (xr_env demo_run) ''ValueError'' ''bad input''"
    by (simp add: failing_node_def)
  have env: "env_next (xr_env demo_run) = Some ''a''" "env_state (xr_env demo_run) = []"
    by (simp_all add: demo_run_def to_envelope_def nxt state)
  have live: "xi_now demo_io t' < xi_now demo_io t + of_int (ttl_for (xr_graph demo_run) ''a'' False)" for t t'
    by (simp add: demo_io_def demo_run_def new_graph_def ttl_for_def)
  have cap: "hop_capability (Some ''a'') = Some ''a''"
    by (simp add: hop_capability_def cap_prefix_def starts_with_def)
  have key: "step_key demo_io ''a'' demo_organism = lookup_key ''a'' ''h''"
    by (simp add: step_key_def demo_io_def state inp public_items_def)
  have side: "CHR '':'' \<notin> set ''a''" "''a'' \<noteq> []" "wf_dict (og_state demo_organism)"
    "public_items (og_state demo_organism) = public_items (env_state (xr_env demo_run))"
    "wt_watchers (x_watcher (new_executor new_watcher False (Some 5))) = []"
    by (simp_all add: state env new_executor_def new_watcher_def)
  from cached_failure_burns_all_hops [OF inv fresh nd side(1,2) raised env(1) refl live nxt cap
      side(3) key side(4,5), where start = 0]
  show ?thesis by (auto simp: new_executor_def max_hops_of_def)
qed

end
