(* ===== verification/SingleFlight.thy ===== *)
theory SingleFlight
  imports Prism_Prelude
begin

text \<open>
  The in-process single-flight protocol of \<open>OrganismExecutor\<close> (\<open>src/prismpipe/engine/__init__.py\<close>):
  concurrent executions that miss the cache on one key coalesce on one computation. The state is the
  table of in-flight futures and the point each task has reached; a step is one task running until it
  awaits. \<open>await fut\<close> in a task that is cancelled cancels the future itself, which asyncio documents;
  \<open>except Exception\<close> does not catch a cancellation.
\<close>

section \<open>State and operations\<close>

datatype future_state = Awaited | Resolved bool | Aborted

datatype phase =
    Idle
  | Looking string
  | OwnerOf string nat
  | Straggler string nat
  | WaitingOn string nat
  | Served string
  | Gone

record flights =
  sf_inflight :: "nat pdict"
  sf_futures :: "(nat \<times> future_state) list"
  sf_next :: nat
  sf_phase :: "nat \<Rightarrow> phase"

definition no_flights :: flights where
  "no_flights = \<lparr>sf_inflight = [], sf_futures = [], sf_next = 0, sf_phase = (\<lambda>_. Idle)\<rparr>"

definition goto :: "nat \<Rightarrow> phase \<Rightarrow> flights \<Rightarrow> flights" where
  "goto t p s = s\<lparr>sf_phase := (sf_phase s)(t := p)\<rparr>"

definition set_fut :: "nat \<Rightarrow> future_state \<Rightarrow> flights \<Rightarrow> flights" where
  "set_fut f v s = s\<lparr>sf_futures := AList.update f v (sf_futures s)\<rparr>"

text \<open>\<open>_await_inflight_or_own\<close>: whether the caller owns the key, and the future.\<close>

definition await_inflight_or_own :: "string \<Rightarrow> flights \<Rightarrow> bool \<times> nat \<times> flights" where
  "await_inflight_or_own k s =
     (case map_of (sf_inflight s) k of
        Some f \<Rightarrow> (False, f, s)
      | None \<Rightarrow>
          (True, sf_next s,
           (set_fut (sf_next s) Awaited s)
             \<lparr>sf_inflight := AList.update k (sf_next s) (sf_inflight s), sf_next := sf_next s + 1\<rparr>))"

text \<open>\<open>_finish_inflight\<close>: resolve the future unless it is done, drop the key if it is still ours.\<close>

definition finish_inflight :: "string \<Rightarrow> nat \<Rightarrow> bool \<Rightarrow> flights \<Rightarrow> flights" where
  "finish_inflight k f ok s =
     (let s1 = (if map_of (sf_futures s) f = Some Awaited then set_fut f (Resolved ok) s else s)
      in if map_of (sf_inflight s1) k = Some f
         then s1\<lparr>sf_inflight := AList.delete k (sf_inflight s1)\<rparr> else s1)"

lemma flights_simps [simp]:
  "sf_inflight (goto t p s) = sf_inflight s" "sf_futures (goto t p s) = sf_futures s"
  "sf_next (goto t p s) = sf_next s" "sf_phase (goto t p s) = (sf_phase s)(t := p)"
  "sf_inflight (set_fut f v s) = sf_inflight s"
  "map_of (sf_futures (set_fut f v s)) = (map_of (sf_futures s))(f \<mapsto> v)"
  "sf_next (set_fut f v s) = sf_next s" "sf_phase (set_fut f v s) = sf_phase s"
  by (simp_all add: goto_def set_fut_def dict_simps)

lemma finish_simps [simp]:
  "sf_next (finish_inflight k f ok s) = sf_next s" "sf_phase (finish_inflight k f ok s) = sf_phase s"
  by (simp_all add: finish_inflight_def Let_def)

lemma finish_inflight_map:
  "map_of (sf_inflight (finish_inflight k f ok s)) =
     (if map_of (sf_inflight s) k = Some f then (map_of (sf_inflight s))(k := None)
      else map_of (sf_inflight s))"
  by (simp add: finish_inflight_def Let_def dict_simps)

lemma finish_futures:
  "map_of (sf_futures (finish_inflight k f ok s)) =
     (if map_of (sf_futures s) f = Some Awaited then (map_of (sf_futures s))(f \<mapsto> Resolved ok)
      else map_of (sf_futures s))"
  by (simp add: finish_inflight_def Let_def)

section \<open>Interleavings\<close>

datatype sf_label = LStart | LHit | LClaim | LFinish | LYield | LLate | LWake | LCancel | LAborted

text \<open>
  \<open>LYield\<close>: the owner finds another replica's result and starts over; \<open>LLate\<close>: it has waited for the
  other replica in vain, has given the key up and computes all the same.
\<close>

inductive sf_step :: "flights \<Rightarrow> sf_label \<Rightarrow> flights \<Rightarrow> bool" where
  start: "sf_phase s t = Idle \<Longrightarrow> sf_step s LStart (goto t (Looking k) s)"
| hit: "sf_phase s t = Looking k \<Longrightarrow> sf_step s LHit (goto t (Served k) s)"
| own: "sf_phase s t = Looking k \<Longrightarrow> await_inflight_or_own k s = (True, f, s') \<Longrightarrow>
    sf_step s LClaim (goto t (OwnerOf k f) s')"
| join: "sf_phase s t = Looking k \<Longrightarrow> await_inflight_or_own k s = (False, f, s') \<Longrightarrow>
    sf_step s LClaim (goto t (WaitingOn k f) s')"
| finish: "sf_phase s t = OwnerOf k f \<Longrightarrow>
    sf_step s LFinish (goto t (Served k) (finish_inflight k f ok s))"
| finish_late: "sf_phase s t = Straggler k f \<Longrightarrow>
    sf_step s LFinish (goto t (Served k) (finish_inflight k f ok s))"
| yield: "sf_phase s t = OwnerOf k f \<Longrightarrow>
    sf_step s LYield (goto t (Looking k) (finish_inflight k f True s))"
| late: "sf_phase s t = OwnerOf k f \<Longrightarrow>
    sf_step s LLate (goto t (Straggler k f) (finish_inflight k f True s))"
| wake: "sf_phase s t = WaitingOn k f \<Longrightarrow> map_of (sf_futures s) f = Some (Resolved b) \<Longrightarrow>
    sf_step s LWake (goto t (Looking k) s)"
| cancel_owner: "sf_phase s t = OwnerOf k f \<Longrightarrow> sf_step s LCancel (goto t Gone s)"
| cancel_late: "sf_phase s t = Straggler k f \<Longrightarrow> sf_step s LCancel (goto t Gone s)"
| cancel_waiter: "sf_phase s t = WaitingOn k f \<Longrightarrow> map_of (sf_futures s) f = Some Awaited \<Longrightarrow>
    sf_step s LCancel (goto t Gone (set_fut f Aborted s))"
| aborted: "sf_phase s t = WaitingOn k f \<Longrightarrow> map_of (sf_futures s) f = Some Aborted \<Longrightarrow>
    sf_step s LAborted (goto t Gone s)"

inductive_cases sf_stepE: "sf_step s l s'"

inductive sf_run :: "flights \<Rightarrow> sf_label list \<Rightarrow> flights \<Rightarrow> bool" where
  none: "sf_run s [] s"
| more: "sf_run s ls s' \<Longrightarrow> sf_step s' l s'' \<Longrightarrow> sf_run s (ls @ [l]) s''"

section \<open>The invariant\<close>

definition futures_ok :: "flights \<Rightarrow> bool" where
  "futures_ok s \<longleftrightarrow>
     (\<forall>k f. map_of (sf_inflight s) k = Some f \<longrightarrow> f < sf_next s \<and>
        (map_of (sf_futures s) f = Some Awaited \<or> map_of (sf_futures s) f = Some Aborted) \<and>
        (\<forall>j. map_of (sf_inflight s) j = Some f \<longrightarrow> j = k))"

definition owners_ok :: "flights \<Rightarrow> bool" where
  "owners_ok s \<longleftrightarrow>
     (\<forall>t k f. sf_phase s t = OwnerOf k f \<longrightarrow> map_of (sf_inflight s) k = Some f \<and>
        (\<forall>u g. sf_phase s u = OwnerOf k g \<longrightarrow> u = t))"

text \<open>A future nobody will resolve any more: it is done, and no key refers to it.\<close>

definition settled :: "flights \<Rightarrow> nat \<Rightarrow> bool" where
  "settled s f \<longleftrightarrow> f < sf_next s \<and> (\<exists>v. map_of (sf_futures s) f = Some v \<and> v \<noteq> Awaited)"

definition stragglers_ok :: "flights \<Rightarrow> bool" where
  "stragglers_ok s \<longleftrightarrow>
     (\<forall>t k f. sf_phase s t = Straggler k f \<longrightarrow> settled s f \<and>
        (\<forall>j. map_of (sf_inflight s) j \<noteq> Some f))"

definition waiters_ok :: "flights \<Rightarrow> bool" where
  "waiters_ok s \<longleftrightarrow>
     (\<forall>t k f. sf_phase s t = WaitingOn k f \<longrightarrow> map_of (sf_inflight s) k = Some f \<or> settled s f)"

definition sf_inv :: "flights \<Rightarrow> bool" where
  "sf_inv s \<longleftrightarrow> futures_ok s \<and> owners_ok s \<and> stragglers_ok s \<and> waiters_ok s"

lemmas sf_inv_defs = sf_inv_def futures_ok_def owners_ok_def stragglers_ok_def waiters_ok_def settled_def

lemma settled_goto [simp]: "settled (goto t p s) f = settled s f"
  by (simp add: settled_def)

lemma sf_inv_init: "sf_inv no_flights"
  by (simp add: sf_inv_defs no_flights_def)

lemma ownerD:
  "sf_inv s \<Longrightarrow> sf_phase s t = OwnerOf k f \<Longrightarrow> map_of (sf_inflight s) k = Some f"
  "sf_inv s \<Longrightarrow> sf_phase s t = OwnerOf k f \<Longrightarrow> sf_phase s u = OwnerOf k g \<Longrightarrow> u = t"
  unfolding sf_inv_def owners_ok_def by blast+

lemma flightD:
  assumes "sf_inv s" "map_of (sf_inflight s) k = Some f"
  shows "f < sf_next s"
    and "map_of (sf_futures s) f = Some Awaited \<or> map_of (sf_futures s) f = Some Aborted"
    and "map_of (sf_inflight s) j = Some f \<Longrightarrow> j = k"
  using assms unfolding sf_inv_def futures_ok_def by blast+

lemma stragglerD:
  assumes "sf_inv s" "sf_phase s t = Straggler k f"
  shows "settled s f" "map_of (sf_inflight s) j \<noteq> Some f"
  using assms unfolding sf_inv_def stragglers_ok_def by blast+

lemma waiterD:
  "sf_inv s \<Longrightarrow> sf_phase s t = WaitingOn k f \<Longrightarrow> map_of (sf_inflight s) k = Some f \<or> settled s f"
  unfolding sf_inv_def waiters_ok_def by blast

text \<open>Moving a task to a phase without a future keeps the invariant.\<close>

lemma goto_passive:
  "sf_inv s \<Longrightarrow> (\<forall>k f. p \<noteq> OwnerOf k f \<and> p \<noteq> Straggler k f \<and> p \<noteq> WaitingOn k f) \<Longrightarrow>
     sf_inv (goto t p s)"
  by (auto simp: sf_inv_defs)

lemma own_inv:
  assumes inv: "sf_inv s" and own: "await_inflight_or_own k s = (True, f, s')"
  shows "sf_inv (goto t (OwnerOf k f) s')"
proof -
  from own have new: "map_of (sf_inflight s) k = None" "f = sf_next s" and
    s': "map_of (sf_inflight s') = (map_of (sf_inflight s))(k \<mapsto> f)"
      "map_of (sf_futures s') = (map_of (sf_futures s))(f \<mapsto> Awaited)"
      "sf_next s' = Suc f" "sf_phase s' = sf_phase s"
    by (auto simp: await_inflight_or_own_def dict_simps split: option.splits)
  have lt: "g < f" if "map_of (sf_inflight s) j = Some g" for j g
    using inv that new(2) by (auto simp: sf_inv_defs)
  have settled: "settled s' g \<and> g \<noteq> f" if "settled s g" for g
    using that new(2) s' by (auto simp: settled_def)
  have fut: "futures_ok s'"
    using inv new s' lt unfolding sf_inv_def futures_ok_def
    by (auto simp: less_Suc_eq)
  have own: "owners_ok (goto t (OwnerOf k f) s')"
    using inv new(1) s' unfolding sf_inv_def owners_ok_def by auto
  have strag: "stragglers_ok (goto t (OwnerOf k f) s')"
    using inv s' settled unfolding sf_inv_def stragglers_ok_def
    by (simp add: fun_upd_def) blast
  have wait: "waiters_ok (goto t (OwnerOf k f) s')"
    using inv new(1) s' settled unfolding sf_inv_def waiters_ok_def
    by (simp add: fun_upd_def) (metis option.distinct(1))
  show ?thesis using fut own strag wait by (simp add: sf_inv_def futures_ok_def)
qed

lemma join_inv:
  assumes "sf_inv s" "await_inflight_or_own k s = (False, f, s')"
  shows "sf_inv (goto t (WaitingOn k f) s')"
proof -
  from assms(2) have "s' = s" "map_of (sf_inflight s) k = Some f"
    by (auto simp: await_inflight_or_own_def split: option.splits)
  with assms(1) show ?thesis by (auto simp: sf_inv_defs)
qed

text \<open>The owner gives its key up.\<close>

lemma finish_inv:
  assumes inv: "sf_inv s" and t: "sf_phase s t = OwnerOf k f"
    and p: "p = Served k \<or> p = Looking k \<or> p = Straggler k f"
  shows "sf_inv (goto t p (finish_inflight k f ok s))"
proof -
  let ?s = "finish_inflight k f ok s"
  from inv t have k: "map_of (sf_inflight s) k = Some f" "f < sf_next s"
    "map_of (sf_futures s) f = Some Awaited \<or> map_of (sf_futures s) f = Some Aborted"
    "\<And>j. map_of (sf_inflight s) j = Some f \<Longrightarrow> j = k"
    using ownerD(1) [OF inv t] flightD [OF inv ownerD(1) [OF inv t]] by blast+
  have fut: "map_of (sf_futures ?s) f \<in> {Some (Resolved ok), Some Aborted}"
    "\<And>g. g \<noteq> f \<Longrightarrow> map_of (sf_futures ?s) g = map_of (sf_futures s) g"
    using k(3) by (auto simp: finish_futures)
  have infl: "map_of (sf_inflight ?s) = (map_of (sf_inflight s))(k := None)"
    using k(1) by (simp add: finish_inflight_map)
  have done_f: "settled ?s f" using fut(1) k(2) by (auto simp: settled_def)
  have settled: "settled ?s g" if "settled s g" for g
    using that done_f fut(2) by (cases "g = f") (auto simp: settled_def)
  have "futures_ok ?s"
  proof -
    have "g \<noteq> f" if "map_of (sf_inflight s) j = Some g" "j \<noteq> k" for j g
      using k(4) that by blast
    then show ?thesis
      using inv fut(2) infl unfolding sf_inv_def futures_ok_def by (auto split: if_splits)
  qed
  moreover have "owners_ok (goto t p ?s)"
    using inv t p infl unfolding sf_inv_def owners_ok_def by (auto split: if_splits)
  moreover have "stragglers_ok (goto t p ?s)"
    using inv p infl settled done_f k(4) unfolding sf_inv_def stragglers_ok_def
    by (auto split: if_splits)
  moreover have "waiters_ok (goto t p ?s)"
  proof -
    have "map_of (sf_inflight ?s) j = Some g \<or> settled ?s g" if "sf_phase s u = WaitingOn j g" for u j g
      using waiterD [OF inv that] settled done_f infl k(1) by (cases "j = k") auto
    with p show ?thesis unfolding waiters_ok_def by auto
  qed
  ultimately show ?thesis by (simp add: sf_inv_def futures_ok_def)
qed

lemma finish_late_inv:
  assumes "sf_inv s" "sf_phase s t = Straggler k f"
  shows "sf_inv (goto t (Served k) (finish_inflight k f ok s))"
proof -
  have "map_of (sf_inflight s) k \<noteq> Some f" "map_of (sf_futures s) f \<noteq> Some Awaited"
    using stragglerD [OF assms] by (auto simp: settled_def)
  then have "finish_inflight k f ok s = s" by (simp add: finish_inflight_def)
  with goto_passive [OF assms(1)] show ?thesis by simp
qed

lemma abort_inv:
  assumes inv: "sf_inv s" and t: "sf_phase s t = WaitingOn k f" "map_of (sf_futures s) f = Some Awaited"
  shows "sf_inv (goto t Gone (set_fut f Aborted s))"
proof -
  have "settled (set_fut f Aborted s) g" if "settled s g" for g
    using that by (auto simp: settled_def)
  then have "map_of (sf_inflight s) j = Some g \<or> settled (set_fut f Aborted s) g"
    if "sf_phase s u = WaitingOn j g" for u j g
    using waiterD [OF inv that] by blast
  then have "waiters_ok (goto t Gone (set_fut f Aborted s))" by (simp add: waiters_ok_def)
  moreover have "stragglers_ok (goto t Gone (set_fut f Aborted s))"
    using stragglerD [OF inv] \<open>\<And>g. settled s g \<Longrightarrow> settled (set_fut f Aborted s) g\<close>
    by (simp add: stragglers_ok_def)
  moreover have "futures_ok (goto t Gone (set_fut f Aborted s))" "owners_ok (goto t Gone (set_fut f Aborted s))"
    using inv unfolding sf_inv_def futures_ok_def owners_ok_def by auto
  ultimately show ?thesis by (simp add: sf_inv_def)
qed

lemma sf_step_inv: "sf_step s l s' \<Longrightarrow> sf_inv s \<Longrightarrow> sf_inv s'"
  by (induction rule: sf_step.induct)
    (auto intro: goto_passive own_inv join_inv finish_inv finish_late_inv abort_inv)

lemma sf_run_inv: "sf_run s ls s' \<Longrightarrow> sf_inv s \<Longrightarrow> sf_inv s'"
  by (induction rule: sf_run.induct) (auto intro: sf_step_inv)

section \<open>What coalescing guarantees\<close>

text \<open>Without cancellations every key in flight has its owner, and no future is cancelled.\<close>

definition attended :: "flights \<Rightarrow> bool" where
  "attended s \<longleftrightarrow>
     (\<forall>k f. map_of (sf_inflight s) k = Some f \<longrightarrow> (\<exists>t. sf_phase s t = OwnerOf k f)) \<and>
     (\<forall>f. map_of (sf_futures s) f \<noteq> Some Aborted)"

lemma attended_goto:
  "attended s \<Longrightarrow> (\<forall>k f. sf_phase s t \<noteq> OwnerOf k f) \<Longrightarrow> attended (goto t p s)"
  unfolding attended_def by (auto, metis)

lemma attended_own:
  assumes "attended s" "sf_phase s t = Looking k" "await_inflight_or_own k s = (True, f, s')"
  shows "attended (goto t (OwnerOf k f) s')"
proof -
  from assms(3) have s': "map_of (sf_inflight s') = (map_of (sf_inflight s))(k \<mapsto> f)"
    "map_of (sf_futures s') = (map_of (sf_futures s))(f \<mapsto> Awaited)" "sf_phase s' = sf_phase s"
    by (auto simp: await_inflight_or_own_def dict_simps split: option.splits)
  have old: "\<exists>u. u \<noteq> t \<and> sf_phase s u = OwnerOf j g" if "map_of (sf_inflight s) j = Some g" for j g
  proof -
    from assms(1) that obtain u where "sf_phase s u = OwnerOf j g" unfolding attended_def by blast
    with assms(2) show ?thesis by (intro exI [of _ u]) auto
  qed
  show ?thesis
    unfolding attended_def
  proof (intro conjI allI impI)
    fix j g
    assume "map_of (sf_inflight (goto t (OwnerOf k f) s')) j = Some g"
    then show "\<exists>u. sf_phase (goto t (OwnerOf k f) s') u = OwnerOf j g"
      using s' old [of j g] by (cases "j = k") auto
  next
    fix h
    show "map_of (sf_futures (goto t (OwnerOf k f) s')) h \<noteq> Some Aborted"
      using assms(1) s' by (simp add: attended_def)
  qed
qed

lemma attended_finish:
  assumes inv: "sf_inv s" and "attended s" and t: "sf_phase s t = OwnerOf k f"
  shows "attended (goto t p (finish_inflight k f ok s))"
proof -
  have k: "map_of (sf_inflight s) k = Some f" by (rule ownerD(1) [OF inv t])
  have old: "\<exists>u. u \<noteq> t \<and> sf_phase s u = OwnerOf j g"
    if "map_of (sf_inflight s) j = Some g" "j \<noteq> k" for j g
  proof -
    from assms(2) that obtain u where "sf_phase s u = OwnerOf j g" unfolding attended_def by blast
    with t that show ?thesis by (intro exI [of _ u]) auto
  qed
  show ?thesis
    unfolding attended_def
  proof (intro conjI allI impI)
    fix j g
    assume "map_of (sf_inflight (goto t p (finish_inflight k f ok s))) j = Some g"
    then have "j \<noteq> k" "map_of (sf_inflight s) j = Some g"
      using k by (auto simp: finish_inflight_map split: if_splits)
    with old [of j g] show "\<exists>u. sf_phase (goto t p (finish_inflight k f ok s)) u = OwnerOf j g" by auto
  next
    fix h
    show "map_of (sf_futures (goto t p (finish_inflight k f ok s))) h \<noteq> Some Aborted"
      using assms(2) by (simp add: attended_def finish_futures)
  qed
qed

lemma sf_step_attended:
  "sf_step s l s' \<Longrightarrow> sf_inv s \<Longrightarrow> attended s \<Longrightarrow> l \<noteq> LCancel \<Longrightarrow> attended s'"
proof (induction rule: sf_step.induct)
  case (join s t k f s')
  then have "s' = s" by (auto simp: await_inflight_or_own_def split: option.splits)
  with join show ?case by (auto intro: attended_goto)
next
  case (finish_late s t k f ok)
  have "map_of (sf_inflight s) k \<noteq> Some f" "map_of (sf_futures s) f \<noteq> Some Awaited"
    using stragglerD [OF finish_late(2,1)] by (auto simp: settled_def)
  then have "finish_inflight k f ok s = s" by (simp add: finish_inflight_def)
  with finish_late show ?case by (auto intro: attended_goto)
qed (auto intro: attended_goto attended_own attended_finish)

lemma sf_run_attended:
  "sf_run s ls s' \<Longrightarrow> sf_inv s \<Longrightarrow> attended s \<Longrightarrow> LCancel \<notin> set ls \<Longrightarrow> attended s'"
proof (induction rule: sf_run.induct)
  case (more s ls s' l s'')
  then have "sf_inv s'" using sf_run_inv by blast
  with more show ?case using sf_step_attended [of s' l s''] by auto
qed simp

text \<open>
  C23: Single flight: in every interleaving of concurrent executions at most one of them owns a key, and
  as long as no task is cancelled, a task that waits for a key waits for a computation that is still
  under way or has just been resolved: no wake-up is lost.
\<close>

theorem single_flight_sound:
  assumes "sf_run no_flights ls s"
  shows "(\<forall>t u k f g. sf_phase s t = OwnerOf k f \<longrightarrow> sf_phase s u = OwnerOf k g \<longrightarrow> u = t) \<and>
    (LCancel \<notin> set ls \<longrightarrow>
      (\<forall>t k f. sf_phase s t = WaitingOn k f \<longrightarrow>
        (\<exists>u. sf_phase s u = OwnerOf k f) \<or> (\<exists>b. map_of (sf_futures s) f = Some (Resolved b))))"
proof (intro conjI impI allI)
  have inv: "sf_inv s" by (rule sf_run_inv [OF assms sf_inv_init])
  show "u = t" if "sf_phase s t = OwnerOf k f" "sf_phase s u = OwnerOf k g" for t u k f g
    by (rule ownerD(2) [OF inv that])
  fix t k f
  assume nc: "LCancel \<notin> set ls" and w: "sf_phase s t = WaitingOn k f"
  have att: "attended s"
    by (rule sf_run_attended [OF assms sf_inv_init _ nc]) (simp add: attended_def no_flights_def)
  from waiterD [OF inv w]
  show "(\<exists>u. sf_phase s u = OwnerOf k f) \<or> (\<exists>b. map_of (sf_futures s) f = Some (Resolved b))"
  proof
    assume "map_of (sf_inflight s) k = Some f"
    with att show ?thesis by (simp add: attended_def)
  next
    assume "settled s f"
    then obtain v where "map_of (sf_futures s) f = Some v" "v \<noteq> Awaited" by (auto simp: settled_def)
    with att show ?thesis unfolding attended_def by (cases v) auto
  qed
qed

text \<open>Two tasks on one key: one owns it, the other waits.\<close>

definition two_tasks :: flights where
  "two_tasks = goto 1 (WaitingOn ''k'' 0) (goto 1 (Looking ''k'')
     (goto 0 (OwnerOf ''k'' 0)
       \<lparr>sf_inflight = [(''k'', 0)], sf_futures = [(0, Awaited)], sf_next = 1,
        sf_phase = (\<lambda>_. Idle)(0 := Looking ''k'')\<rparr>))"

lemma two_tasks_run: "sf_run no_flights [LStart, LClaim, LStart, LClaim] two_tasks"
proof -
  let ?a = "goto 0 (Looking ''k'') no_flights"
  let ?b = "goto 0 (OwnerOf ''k'' 0) \<lparr>sf_inflight = [(''k'', 0)], sf_futures = [(0, Awaited)],
      sf_next = 1, sf_phase = (\<lambda>_. Idle)(0 := Looking ''k'')\<rparr>"
  let ?c = "goto 1 (Looking ''k'') ?b"
  have 1: "sf_step no_flights LStart ?a" by (rule sf_step.start) (simp add: no_flights_def)
  have 2: "sf_step ?a LClaim ?b"
    by (rule sf_step.own [where s = ?a]) (simp_all add: await_inflight_or_own_def no_flights_def
        set_fut_def goto_def)
  have 3: "sf_step ?b LStart ?c" by (rule sf_step.start) simp
  have 4: "sf_step ?c LClaim two_tasks"
    unfolding two_tasks_def
    by (rule sf_step.join [where s = ?c and s' = ?c]) (simp_all add: await_inflight_or_own_def)
  from sf_run.more [OF sf_run.more [OF sf_run.more [OF sf_run.more [OF sf_run.none 1] 2] 3] 4]
  show ?thesis by simp
qed

theorem single_flight_sound_witness:
  "(\<exists>u. sf_phase two_tasks u = OwnerOf ''k'' 0) \<or>
   (\<exists>b. map_of (sf_futures two_tasks) 0 = Some (Resolved b))"
proof -
  have "sf_phase two_tasks 1 = WaitingOn ''k'' 0" by (simp add: two_tasks_def)
  with single_flight_sound [OF two_tasks_run] show ?thesis by auto
qed

section \<open>What a cancellation breaks\<close>

text \<open>A key without an owner whose future is not resolved.\<close>

definition wedged :: "string \<Rightarrow> nat \<Rightarrow> flights \<Rightarrow> bool" where
  "wedged k f s \<longleftrightarrow> map_of (sf_inflight s) k = Some f \<and> (\<forall>t g. sf_phase s t \<noteq> OwnerOf k g)"

lemma wedged_goto: "wedged k f s \<Longrightarrow> (\<forall>g. p \<noteq> OwnerOf k g) \<Longrightarrow> wedged k f (goto t p s)"
  by (simp add: wedged_def)

lemma sf_step_wedged: "sf_step s l s' \<Longrightarrow> sf_inv s \<Longrightarrow> wedged k f s \<Longrightarrow> wedged k f s'"
proof (induction rule: sf_step.induct)
  case (own s t j g s')
  then show ?case
    by (auto simp: wedged_def await_inflight_or_own_def dict_simps split: option.splits)
next
  case (join s t j g s')
  then show ?case by (auto simp: wedged_def await_inflight_or_own_def split: option.splits)
next
  case (finish_late s t j g ok)
  then have "map_of (sf_inflight s) j \<noteq> Some g" using stragglerD(2) by blast
  with finish_late show ?case by (simp add: wedged_def finish_inflight_map)
qed (auto simp: wedged_def finish_inflight_map)

lemma sf_run_wedged: "sf_run s ls s' \<Longrightarrow> sf_inv s \<Longrightarrow> wedged k f s \<Longrightarrow> wedged k f s'"
proof (induction rule: sf_run.induct)
  case (more s ls s' l s'')
  then have "sf_inv s'" using sf_run_inv by blast
  with more show ?case using sf_step_wedged by simp
qed simp

text \<open>
  C40: Cancelling the owner of a key (a client that disconnects while its node runs) wedges the key for
  the life of the process: whatever happens afterwards, the future stays in the table, it is never
  resolved, and nobody ever owns the key again, so every later execution that misses the cache on it
  waits without end.
\<close>

theorem cancelled_owner_wedges_key:
  assumes "sf_run no_flights ls s" "sf_phase s t = OwnerOf k f" "sf_run (goto t Gone s) ls' s'"
  shows "map_of (sf_inflight s') k = Some f \<and> (\<forall>u g. sf_phase s' u \<noteq> OwnerOf k g) \<and>
    (\<forall>b. map_of (sf_futures s') f \<noteq> Some (Resolved b)) \<and>
    (\<forall>u. sf_phase s' u = Looking k \<longrightarrow> fst (await_inflight_or_own k s') = False)"
proof -
  have inv: "sf_inv s" by (rule sf_run_inv [OF assms(1) sf_inv_init])
  have inv1: "sf_inv (goto t Gone s)" by (rule goto_passive [OF inv]) simp
  have "wedged k f (goto t Gone s)"
    using ownerD [OF inv assms(2)] by (auto simp: wedged_def)
  then have w: "wedged k f s'" by (rule sf_run_wedged [OF assms(3) inv1])
  have inv': "sf_inv s'" by (rule sf_run_inv [OF assms(3) inv1])
  from w flightD(2) [OF inv', of k f] show ?thesis
    by (auto simp: wedged_def await_inflight_or_own_def)
qed

theorem cancelled_owner_wedges_key_witness:
  "map_of (sf_inflight (goto 0 Gone two_tasks)) ''k'' = Some 0 \<and>
   (\<forall>b. map_of (sf_futures (goto 0 Gone two_tasks)) 0 \<noteq> Some (Resolved b))"
proof -
  have "sf_phase two_tasks 0 = OwnerOf ''k'' 0" by (simp add: two_tasks_def)
  from cancelled_owner_wedges_key [OF two_tasks_run this sf_run.none] show ?thesis by blast
qed

end
