(* ===== verification/Registry.thy ===== *)
theory Registry
  imports Organism
begin

text \<open>
  \<open>OrganismRegistry\<close> of \<open>src/prismpipe/engine/__init__.py\<close>: living organisms by identifier, intent
  and parent, similarity between them, and the walks up and down the lineage. Walks along parent links
  that the code does not bound are partial functions: \<open>None\<close> is a walk that never returns.
\<close>

section \<open>OrganismRegistry\<close>

record registry =
  rg_organisms :: "organism pdict"
  rg_by_intent :: "string list pdict"
  rg_by_lineage :: "string list pdict"

definition new_registry :: registry where
  "new_registry = \<lparr>rg_organisms = [], rg_by_intent = [], rg_by_lineage = []\<rparr>"

definition ids_at :: "string \<Rightarrow> string list pdict \<Rightarrow> string list" where
  "ids_at k d = (case map_of d k of Some ids \<Rightarrow> ids | None \<Rightarrow> [])"

definition append_at :: "string \<Rightarrow> string \<Rightarrow> string list pdict \<Rightarrow> string list pdict" where
  "append_at k i d = AList.update k (ids_at k d @ [i]) d"

definition register_organism :: "organism \<Rightarrow> registry \<Rightarrow> registry" where
  "register_organism o' r =
     r\<lparr>rg_organisms := AList.update (og_id o') o' (rg_organisms r),
       rg_by_intent := append_at (intent_str (og_intent o')) (og_id o') (rg_by_intent r),
       rg_by_lineage := (if truthy_opt (og_parent o')
                         then append_at (the (og_parent o')) (og_id o') (rg_by_lineage r)
                         else rg_by_lineage r)\<rparr>"

definition get_organism :: "string \<Rightarrow> registry \<Rightarrow> organism option" where
  "get_organism i r = map_of (rg_organisms r) i"

definition find_by_intent :: "org_intent \<Rightarrow> registry \<Rightarrow> organism list" where
  "find_by_intent i r =
     List.map_filter (\<lambda>j. get_organism j r) (ids_at (intent_str i) (rg_by_intent r))"

text \<open>\<open>_compute_similarity\<close>: the same intent counts one half, shared state keys up to three tenths.\<close>

definition shared_keys :: "dict \<Rightarrow> dict \<Rightarrow> string list" where
  "shared_keys a b = filter (\<lambda>k. k \<in> set (map fst b)) (map fst a)"

definition union_keys :: "dict \<Rightarrow> dict \<Rightarrow> string list" where
  "union_keys a b = map fst a @ filter (\<lambda>k. k \<notin> set (map fst a)) (map fst b)"

definition similarity :: "organism \<Rightarrow> organism \<Rightarrow> rat" where
  "similarity a b =
     (if intent_str (og_intent a) = intent_str (og_intent b) then 1/2 else 0) +
     (let s = shared_keys (og_state a) (og_state b); u = union_keys (og_state a) (og_state b)
      in if s = [] then 0 else 3/10 * of_nat (length s) / of_nat (max (length u) 1))"

definition find_similar :: "organism \<Rightarrow> int \<Rightarrow> registry \<Rightarrow> organism list" where
  "find_similar o' n r =
     py_prefix n (sort_desc (similarity o')
       (filter (\<lambda>c. og_id c \<noteq> og_id o') (find_by_intent (Inr (intent_str (og_intent o'))) r)))"

partial_function (option) get_lineage ::
    "registry \<Rightarrow> string option \<Rightarrow> organism list \<Rightarrow> organism list option" where
  "get_lineage r cur acc =
     (if \<not> truthy_opt cur then Some acc
      else case get_organism (the cur) r of
        None \<Rightarrow> Some acc
      | Some o' \<Rightarrow> get_lineage r (og_parent o') (acc @ [o']))"

partial_function (option) get_descendants ::
    "registry \<Rightarrow> string list \<Rightarrow> organism list \<Rightarrow> organism list option" where
  "get_descendants r queue acc =
     (case queue of
        [] \<Rightarrow> Some acc
      | cur # rest \<Rightarrow>
          let kids = filter (\<lambda>i. get_organism i r \<noteq> None) (ids_at cur (rg_by_lineage r))
          in get_descendants r (rest @ kids) (acc @ map (\<lambda>i. the (get_organism i r)) kids))"

definition query_knowledge :: "string \<Rightarrow> rat \<Rightarrow> registry \<Rightarrow> (organism \<times> atom) list" where
  "query_knowledge k c r =
     List.map_filter (\<lambda>o'. case get_knowledge k o' of
         None \<Rightarrow> None
       | Some a \<Rightarrow> if c \<le> ka_confidence a then Some (o', a) else None)
       (map snd (rg_organisms r))"

text \<open>
  \<open>PrismEngine.inherit_from_similar\<close>. The registry holds the organism itself, so what the organism
  inherits shows in the registry when it is registered there.
\<close>

definition inherit_from_similar :: "rat \<Rightarrow> organism \<Rightarrow> registry \<Rightarrow> organism \<times> registry" where
  "inherit_from_similar now o' r =
     (case find_similar o' 5 r of
        [] \<Rightarrow> (o', r)
      | best # _ \<Rightarrow>
          let o1 = inherit_from now best True True o'
          in (o1, if get_organism (og_id o') r = None then r
                  else r\<lparr>rg_organisms := AList.update (og_id o') o1 (rg_organisms r)\<rparr>))"

lemma similarity_bounds: "0 \<le> similarity a b \<and> similarity a b \<le> 8/10"
proof -
  let ?s = "shared_keys (og_state a) (og_state b)" and ?u = "union_keys (og_state a) (og_state b)"
  have "length ?s \<le> length ?u"
    by (simp add: shared_keys_def union_keys_def le_trans [OF length_filter_le])
  then have "(of_nat (length ?s) :: rat) \<le> of_nat (max (length ?u) 1)"
    unfolding of_nat_le_iff by simp
  moreover have "0 < (of_nat (max (length ?u) 1) :: rat)" unfolding of_nat_0_less_iff by simp
  ultimately have "of_nat (length ?s) / of_nat (max (length ?u) 1) \<le> (1 :: rat)"
    by (simp only: divide_le_eq_1_pos)
  then have "3/10 * of_nat (length ?s) / of_nat (max (length ?u) 1) \<le> (3/10 :: rat)"
    by (metis mult.right_neutral mult_left_mono times_divide_eq_right zero_le_divide_iff zero_le_numeral)
  then show ?thesis by (auto simp: similarity_def Let_def)
qed

lemma find_similar_others: "c \<in> set (find_similar o' n r) \<Longrightarrow> og_id c \<noteq> og_id o'"
  unfolding find_similar_def py_prefix_def by (auto dest!: in_set_takeD split: if_splits)

text \<open>The best candidate comes first.\<close>

lemma find_similar_best:
  "find_similar o' 5 r = best # rest \<Longrightarrow> c \<in> set (find_by_intent (Inr (intent_str (og_intent o'))) r) \<Longrightarrow>
     og_id c \<noteq> og_id o' \<Longrightarrow> similarity o' c \<le> similarity o' best"
proof -
  let ?cs = "filter (\<lambda>c. og_id c \<noteq> og_id o') (find_by_intent (Inr (intent_str (og_intent o'))) r)"
  assume f: "find_similar o' 5 r = best # rest"
    and c: "c \<in> set (find_by_intent (Inr (intent_str (og_intent o'))) r)" "og_id c \<noteq> og_id o'"
  from f have ne: "?cs \<noteq> []" by (auto simp: find_similar_def py_prefix_def sort_desc_def)
  from f have "hd (sort_desc (similarity o') ?cs) = best"
    by (cases "sort_desc (similarity o') ?cs") (auto simp: find_similar_def py_prefix_def)
  with hd_sort_desc [OF ne] have "first_min (\<lambda>x. - similarity o' x) ?cs = Some best"
    by (simp add: first_max_def)
  from first_min_le [OF this, of c] c show ?thesis by simp
qed

section \<open>Walking the lineage\<close>

text \<open>A set of registered organisms that parent links never leave.\<close>

definition parent_closed :: "registry \<Rightarrow> string set \<Rightarrow> bool" where
  "parent_closed r C \<longleftrightarrow>
     (\<forall>i \<in> C. i \<noteq> [] \<and> (\<exists>o' p. get_organism i r = Some o' \<and> og_parent o' = Some p \<and> p \<in> C))"

lemma lineage_in_cycle:
  assumes "get_lineage r cur acc = Some l"
  shows "parent_closed r C \<longrightarrow> cur \<notin> Some ` C"
proof (rule get_lineage.raw_induct [where P = "\<lambda>r cur acc l. parent_closed r C \<longrightarrow> cur \<notin> Some ` C",
      OF _ assms])
  fix f r cur acc l
  assume IH: "\<And>r cur acc l. f r cur acc = Some l \<Longrightarrow> parent_closed r C \<longrightarrow> cur \<notin> Some ` C"
    and body: "(if \<not> truthy_opt cur then Some acc
      else case get_organism (the cur) r of
        None \<Rightarrow> Some acc | Some o' \<Rightarrow> f r (og_parent o') (acc @ [o'])) = Some l"
  show "parent_closed r C \<longrightarrow> cur \<notin> Some ` C"
  proof (intro impI notI)
    assume C: "parent_closed r C" and "cur \<in> Some ` C"
    then obtain i where i: "cur = Some i" "i \<in> C" by blast
    with C obtain o' p where o': "i \<noteq> []" "get_organism i r = Some o'" "og_parent o' = Some p" "p \<in> C"
      unfolding parent_closed_def by blast
    with i body have "f r (Some p) (acc @ [o']) = Some l" by simp
    from IH [OF this] C o' show False by simp
  qed
qed

lemma lineage_diverges: "parent_closed r C \<Longrightarrow> i \<in> C \<Longrightarrow> get_lineage r (Some i) acc = None"
  using lineage_in_cycle [of r "Some i" acc _ C] by (cases "get_lineage r (Some i) acc") auto

text \<open>Parent links that go down in some rank end.\<close>

lemma lineage_ends:
  assumes "\<And>i o' p. get_organism i r = Some o' \<Longrightarrow> og_parent o' = Some p \<Longrightarrow> (rank p :: nat) < rank i"
  shows "\<exists>l. get_lineage r cur acc = Some (acc @ l)"
proof (cases cur)
  case None
  then show ?thesis by (simp add: get_lineage.simps)
next
  case (Some i)
  have "\<exists>l. get_lineage r (Some i) acc = Some (acc @ l)" for i acc
  proof (induction i arbitrary: acc rule: measure_induct_rule [of rank])
    case (less i)
    show ?case
    proof (cases "i = [] \<or> get_organism i r = None")
      case True
      then show ?thesis by (subst get_lineage.simps) auto
    next
      case False
      then obtain o' where o': "get_organism i r = Some o'" "i \<noteq> []" by auto
      show ?thesis
      proof (cases "og_parent o'")
        case None
        with o' show ?thesis
          by (subst get_lineage.simps) (simp add: get_lineage.simps [of r None])
      next
        case (Some p)
        from less.IH [OF assms [OF o'(1) Some], of "acc @ [o']"] o' Some show ?thesis
          by (subst get_lineage.simps) auto
      qed
    qed
  qed
  with Some show ?thesis by blast
qed

text \<open>
  Note: Two organisms that inherit from each other, which \<open>inherit_from_similar\<close> does whenever each is the
  other's best match, become each other's parent: every later \<open>get_lineage\<close> of either never returns.
\<close>

theorem mutual_inheritance_hangs_lineage:
  assumes "get_organism (og_id a) r = Some a" "get_organism (og_id b) r = Some b"
    and "og_id a \<noteq> []" "og_id b \<noteq> []" "og_id a \<noteq> og_id b"
    and "find_similar a 5 r = b # bs" "inherit_from_similar t a r = (a1, r1)"
    and "find_similar b 5 r1 = a1 # as" "inherit_from_similar t' b r1 = (b1, r2)"
  shows "get_lineage r2 (Some (og_id a)) [] = None \<and> get_lineage r2 (Some (og_id b)) [] = None"
proof -
  have a1: "a1 = inherit_from t b True True a"
    "r1 = r\<lparr>rg_organisms := AList.update (og_id a) a1 (rg_organisms r)\<rparr>"
    using assms(1,6,7) by (auto simp: inherit_from_similar_def Let_def)
  have b1: "b1 = inherit_from t' a1 True True b"
    "r2 = r1\<lparr>rg_organisms := AList.update (og_id b) b1 (rg_organisms r1)\<rparr>"
    using assms(2,5,8,9) a1(2)
    by (auto simp: inherit_from_similar_def Let_def get_organism_def dict_simps)
  have parents: "og_parent a1 = Some (og_id b)" "og_parent b1 = Some (og_id a)"
    by (simp_all add: a1(1) b1(1) inherit_from_def Let_def)
  have "get_organism (og_id a) r2 = Some a1" "get_organism (og_id b) r2 = Some b1"
    using assms(5) by (simp_all add: a1(2) b1(2) get_organism_def dict_simps)
  with parents assms(3,4) have "parent_closed r2 {og_id a, og_id b}"
    by (auto simp: parent_closed_def)
  from lineage_diverges [OF this] show ?thesis by simp
qed

definition twin :: "string \<Rightarrow> organism" where
  "twin uid = new_organism uid 0 (Inr ''report'') [] None None"

theorem mutual_inheritance_hangs_lineage_witness:
  "\<exists>r. get_lineage r (Some ''org_1'') [] = None"
proof -
  define r where "r = register_organism (twin ''2'') (register_organism (twin ''1'') new_registry)"
  have i: "intent_str (og_intent (twin u)) = ''report''" for u
    by (simp add: twin_def normalize_intent_def intent_str_def intent_of_def all_intents_def)
  have i': "intent_str (Inr ''report'') = ''report''" by (simp add: intent_str_def)
  have p: "og_parent (twin u) = None" and st: "og_state (twin u) = []" and d: "og_id (twin u) = ''org_'' @ u" for u
    by (simp_all add: twin_def new_organism_def)
  have reg: "rg_organisms r = [(''org_1'', twin ''1''), (''org_2'', twin ''2'')]"
    "rg_by_intent r = [(''report'', [''org_1'', ''org_2''])]"
    by (simp_all add: r_def register_organism_def new_registry_def append_at_def ids_at_def i p d)
  have f1: "find_similar (twin ''1'') 5 r = [twin ''2'']"
    by (simp add: find_similar_def find_by_intent_def ids_at_def i reg get_organism_def
        List.map_filter_def d py_prefix_def sort_desc_def i')
  define a1 where "a1 = inherit_from 1 (twin ''2'') True True (twin ''1'')"
  define r1 where "r1 = r\<lparr>rg_organisms := AList.update ''org_1'' a1 (rg_organisms r)\<rparr>"
  have in1: "inherit_from_similar 1 (twin ''1'') r = (a1, r1)"
    by (simp add: inherit_from_similar_def f1 Let_def a1_def r1_def get_organism_def reg d)
  have a1: "og_id a1 = ''org_1''" "intent_str (og_intent a1) = ''report''"
    by (simp_all add: a1_def inherit_from_def Let_def d i)
  have reg1: "rg_organisms r1 = [(''org_1'', a1), (''org_2'', twin ''2'')]"
    "rg_by_intent r1 = [(''report'', [''org_1'', ''org_2''])]"
    by (simp_all add: r1_def reg)
  have f2: "find_similar (twin ''2'') 5 r1 = [a1]"
    by (simp add: find_similar_def find_by_intent_def ids_at_def i reg1 get_organism_def
        List.map_filter_def d py_prefix_def sort_desc_def i' a1)
  obtain b1 r2 where in2: "inherit_from_similar 2 (twin ''2'') r1 = (b1, r2)"
    by (metis surj_pair)
  have "get_organism (og_id (twin ''1'')) r = Some (twin ''1'')"
    "get_organism (og_id (twin ''2'')) r = Some (twin ''2'')"
    by (simp_all add: get_organism_def reg d)
  from mutual_inheritance_hangs_lineage [OF this _ _ _ f1 in1 f2 in2]
  have "get_lineage r2 (Some ''org_1'') [] = None" by (simp add: d)
  then show ?thesis by blast
qed

end
