(* ===== verification/Discovery.thy ===== *)
theory Discovery
  imports Envelope
begin

text \<open>
  Stores and indexes over requests of \<open>src/prismpipe/engine/__init__.py\<close>: \<open>CapabilityGraph\<close>,
  \<open>SemanticCache\<close>, \<open>AncestryTree\<close> and \<open>RequestMemory\<close>. The content hash of the semantic cache is an
  argument.
\<close>

definition items_at :: "string \<Rightarrow> 'v list pdict \<Rightarrow> 'v list" where
  "items_at k d = (case map_of d k of Some xs \<Rightarrow> xs | None \<Rightarrow> [])"

definition add_item :: "string \<Rightarrow> 'v \<Rightarrow> 'v list pdict \<Rightarrow> 'v list pdict" where
  "add_item k x d = AList.update k (items_at k d @ [x]) d"

lemma items_add: "items_at j (add_item k x d) = (if j = k then items_at k d @ [x] else items_at j d)"
  by (simp add: items_at_def add_item_def dict_simps)

section \<open>CapabilityGraph\<close>

record cap_spec =
  cs_capability :: string
  cs_description :: string
  cs_input_schema :: "string pdict"
  cs_output_schema :: "string pdict"
  cs_required :: "string list"

record cap_graph =
  gr_capabilities :: "cap_spec pdict"
  gr_edges :: "string list pdict"

definition new_cap_graph :: cap_graph where
  "new_cap_graph = \<lparr>gr_capabilities = [], gr_edges = []\<rparr>"

definition register_spec :: "cap_spec \<Rightarrow> cap_graph \<Rightarrow> cap_graph" where
  "register_spec sp g =
     (let e0 = (if map_of (gr_edges g) (cs_capability sp) = None
                then AList.update (cs_capability sp) [] (gr_edges g) else gr_edges g)
      in g\<lparr>gr_capabilities := AList.update (cs_capability sp) sp (gr_capabilities g),
           gr_edges := fold (\<lambda>req e. add_item req (cs_capability sp) e) (cs_required sp) e0\<rparr>)"

text \<open>
  The loop of \<open>_bfs_path\<close>: paths are built but never inspected. Each round visits the successors of
  the head of the queue that have not been visited.
\<close>

definition fresh_successors :: "cap_graph \<Rightarrow> string list \<Rightarrow> string \<Rightarrow> string list" where
  "fresh_successors g visited cur = unique visited (items_at cur (gr_edges g))"

definition targets :: "cap_graph \<Rightarrow> string set" where
  "targets g = (\<Union>(k, xs) \<in> set (gr_edges g). set xs)"

lemma finite_targets [simp]: "finite (targets g)"
  by (auto simp: targets_def)

lemma fresh_targets: "set (fresh_successors g visited cur) \<subseteq> targets g - set visited"
proof
  fix x assume "x \<in> set (fresh_successors g visited cur)"
  then have x: "x \<in> set (items_at cur (gr_edges g))" "x \<notin> set visited"
    by (auto simp: fresh_successors_def set_unique)
  then obtain xs where "map_of (gr_edges g) cur = Some xs" "x \<in> set xs"
    by (cases "map_of (gr_edges g) cur") (auto simp: items_at_def)
  then have "x \<in> targets g" unfolding targets_def by (auto dest!: map_of_SomeD intro!: bexI)
  with x show "x \<in> targets g - set visited" by simp
qed

function bfs :: "cap_graph \<Rightarrow> (string \<times> string list) list \<Rightarrow> string list \<Rightarrow> (string \<times> string list) list" where
  "bfs g [] visited = []"
| "bfs g ((cur, path) # queue) visited =
     (let new = fresh_successors g visited cur
      in (cur, path) # bfs g (queue @ map (\<lambda>n. (n, path @ [n])) new) (visited @ new))"
  by pat_completeness auto
termination
proof (relation "measures [\<lambda>(g, q, v). card (targets g - set v), \<lambda>(g, q, v). length q]", goal_cases)
  case 1
  show ?case by simp
next
  case (2 g cur path queue visited new)
  show ?case
  proof (cases "new = []")
    case True
    then show ?thesis by simp
  next
    case False
    from 2 have sub: "set new \<subseteq> targets g - set visited" using fresh_targets by simp
    with False obtain x where "x \<in> set new" by (cases new) auto
    with sub have "targets g - set (visited @ new) \<subset> targets g - set visited" by auto
    then show ?thesis by (simp add: psubset_card_mono)
  qed
qed

definition bfs_path :: "cap_graph \<Rightarrow> string \<Rightarrow> string list" where
  "bfs_path g start = (let order = bfs g [(start, [start])] [start] in [start])"

definition discover_path :: "cap_graph \<Rightarrow> string \<Rightarrow> string option \<Rightarrow> string list option" where
  "discover_path g intent start =
     (if truthy_opt start then Some (bfs_path g (the start)) else None)"

definition edge :: "cap_graph \<Rightarrow> (string \<times> string) set" where
  "edge g = {(a, b). b \<in> set (items_at a (gr_edges g))}"

lemma bfs_queue: "set (map fst q) \<subseteq> set (map fst (bfs g q v))"
  by (induction g q v rule: bfs.induct) (auto simp: Let_def)

lemma bfs_closed:
  "(cur, p) \<in> set (bfs g q v) \<Longrightarrow> (cur, x) \<in> edge g \<Longrightarrow> x \<in> set v \<union> fst ` set (bfs g q v)"
proof (induction g q v rule: bfs.induct)
  case (1 g v)
  then show ?case by simp
next
  case (2 g c path q v)
  let ?new = "fresh_successors g v c"
  let ?q = "q @ map (\<lambda>n. (n, path @ [n])) ?new"
  have sub: "fst ` set ?q \<subseteq> fst ` set (bfs g ?q (v @ ?new))"
    using bfs_queue [of ?q g "v @ ?new"] by (auto simp: image_iff)
  have new: "x \<in> set v \<union> fst ` set ?q" if "(c, x) \<in> edge g"
    using that by (force simp: edge_def fresh_successors_def set_unique)
  from 2(2) consider "cur = c" | "(cur, p) \<in> set (bfs g ?q (v @ ?new))" by (auto simp: Let_def)
  then show ?case
  proof cases
    case 1
    with 2(3) new sub show ?thesis by (auto simp: Let_def)
  next
    case 2
    have "x \<in> fst ` set (bfs g ?q (v @ ?new))" if "x \<in> set ?new"
    proof -
      have "x \<in> fst ` set ?q" using that by force
      with sub show ?thesis by blast
    qed
    with "2.IH" [OF refl 2 \<open>(cur, x) \<in> edge g\<close>] show ?thesis by (auto simp: Let_def)
  qed
qed

lemma bfs_reachable:
  "(\<And>c p. (c, p) \<in> set q \<Longrightarrow> (s, c) \<in> (edge g)\<^sup>*) \<Longrightarrow> (c, p) \<in> set (bfs g q v) \<Longrightarrow> (s, c) \<in> (edge g)\<^sup>*"
proof (induction g q v rule: bfs.induct)
  case (1 g v)
  then show ?case by simp
next
  case (2 g d path q v)
  let ?new = "fresh_successors g v d"
  have d: "(s, d) \<in> (edge g)\<^sup>*" using 2(2) by auto
  have "(s, n) \<in> (edge g)\<^sup>*" if "n \<in> set ?new" for n
    using that d by (auto simp: fresh_successors_def set_unique edge_def intro: rtrancl_into_rtrancl)
  then have "(s, c') \<in> (edge g)\<^sup>*"
    if "(c', p') \<in> set (q @ map (\<lambda>n. (n, path @ [n])) ?new)" for c' p'
    using that 2(2) by auto
  from "2.IH" [OF refl this] d 2(3) show ?case by (auto simp: Let_def)
qed

text \<open>
  Note: Path discovery terminates on every capability graph, cyclic ones included, and its search visits
  exactly the capabilities that can be reached from the start; but the paths it builds are dropped, and
  the answer is always the start alone.
\<close>

theorem discover_path_searches_in_vain:
  assumes "s \<noteq> []"
  shows "fst ` set (bfs g [(s, [s])] [s]) = {c. (s, c) \<in> (edge g)\<^sup>*} \<and>
    discover_path g intent (Some s) = Some [s]"
proof
  let ?R = "fst ` set (bfs g [(s, [s])] [s])"
  show "?R = {c. (s, c) \<in> (edge g)\<^sup>*}"
  proof
    show "?R \<subseteq> {c. (s, c) \<in> (edge g)\<^sup>*}"
      using bfs_reachable [of "[(s, [s])]" s g _ _ "[s]"] by auto
    have s: "s \<in> ?R" using bfs_queue [of "[(s, [s])]" g "[s]"] by simp
    have "c \<in> ?R" if "(s, c) \<in> (edge g)\<^sup>*" for c
      using that
    proof (induction rule: rtrancl_induct)
      case base
      show ?case by (rule s)
    next
      case (step y z)
      then obtain p where "(y, p) \<in> set (bfs g [(s, [s])] [s])" by auto
      from bfs_closed [OF this step(2)] s show ?case by auto
    qed
    then show "{c. (s, c) \<in> (edge g)\<^sup>*} \<subseteq> ?R" by blast
  qed
  show "discover_path g intent (Some s) = Some [s]"
    using assms by (simp add: discover_path_def bfs_path_def)
qed

theorem discover_path_searches_in_vain_witness:
  "discover_path (register_spec \<lparr>cs_capability = ''b'', cs_description = [], cs_input_schema = [],
       cs_output_schema = [], cs_required = [''a'']\<rparr> new_cap_graph) ''to b'' (Some ''a'') = Some [''a'']"
  using discover_path_searches_in_vain [of "''a''"] by blast

section \<open>SemanticCache\<close>

record sem_cache =
  sm_cache :: "(envelope \<times> rat) pdict"
  sm_index :: "string list pdict"

definition new_sem_cache :: sem_cache where
  "new_sem_cache = \<lparr>sm_cache = [], sm_index = []\<rparr>"

text \<open>\<open>_intents_similar\<close>: more than seven tenths of all words in common.\<close>

definition intents_similar :: "string \<Rightarrow> string \<Rightarrow> bool" where
  "intents_similar a b =
     (let wa = remdups (words (lower a)); wb = remdups (words (lower b));
          inter = filter (\<lambda>w. w \<in> set wb) wa; un = remdups (wa @ wb)
      in un \<noteq> [] \<and> (of_nat (length inter) / of_nat (length un) :: rat) > 7/10)"

fun first_hit :: "(envelope \<times> rat) pdict \<Rightarrow> string list \<Rightarrow> envelope option" where
  "first_hit d [] = None"
| "first_hit d (h # hs) = (case map_of d h of Some (e, _) \<Rightarrow> Some e | None \<Rightarrow> first_hit d hs)"

fun search_index ::
    "(envelope \<times> rat) pdict \<Rightarrow> string \<Rightarrow> (string \<times> string list) list \<Rightarrow> envelope option" where
  "search_index d i [] = None"
| "search_index d i ((j, hs) # rest) =
     (if intents_similar i j
      then (case first_hit d hs of Some e \<Rightarrow> Some e | None \<Rightarrow> search_index d i rest)
      else search_index d i rest)"

definition sem_get :: "(string \<Rightarrow> pval \<Rightarrow> string) \<Rightarrow> string \<Rightarrow> pval \<Rightarrow> sem_cache \<Rightarrow> envelope option" where
  "sem_get hash i st c =
     (case map_of (sm_cache c) (hash i st) of
        Some (e, _) \<Rightarrow> Some e
      | None \<Rightarrow> search_index (sm_cache c) i (sm_index c))"

definition sem_set ::
    "(string \<Rightarrow> pval \<Rightarrow> string) \<Rightarrow> rat \<Rightarrow> string \<Rightarrow> pval \<Rightarrow> envelope \<Rightarrow> sem_cache \<Rightarrow> sem_cache" where
  "sem_set hash now i st e c =
     c\<lparr>sm_cache := AList.update (hash i st) (e, now) (sm_cache c),
       sm_index := add_item i (hash i st) (sm_index c)\<rparr>"

lemma intents_similar_same_words:
  "set (words (lower a)) = set (words (lower b)) \<Longrightarrow> words (lower a) \<noteq> [] \<Longrightarrow> intents_similar a b"
proof -
  assume s: "set (words (lower a)) = set (words (lower b))" and ne: "words (lower a) \<noteq> []"
  let ?a = "remdups (words (lower a))" and ?b = "remdups (words (lower b))"
  have "filter (\<lambda>w. w \<in> set ?b) ?a = ?a" using s by (simp add: filter_id_conv)
  moreover have "length (remdups (?a @ ?b)) = length ?a"
    using s by (simp add: length_remdups_card_conv)
  ultimately show ?thesis using ne by (simp add: intents_similar_def Let_def)
qed

text \<open>
  Note: The semantic cache does not look at the input: once a result is cached for an intent that has a
  word in it, every request with that intent is answered from the cache, whatever its input is; in an
  otherwise empty cache with the result that was computed for the other input.
\<close>

theorem semantic_cache_ignores_input:
  assumes "words (lower i) \<noteq> []"
  shows "sem_get hash i other (sem_set hash now i st e c) \<noteq> None \<and>
    sem_get hash i other (sem_set hash now i st e new_sem_cache) = Some e"
proof
  have sim: "intents_similar i i" by (rule intents_similar_same_words [OF refl assms])
  have hit: "first_hit d hs \<noteq> None" if "h \<in> set hs" "map_of d h \<noteq> None" for d h hs
    using that by (induction hs) (auto split: option.splits)
  have found: "search_index d i idx \<noteq> None"
    if "(i, hs) \<in> set idx" "h \<in> set hs" "map_of d h \<noteq> None" for d idx hs h
    using that hit [OF that(2,3)] sim
    by (induction idx) (auto split: option.splits if_splits)
  let ?c = "sem_set hash now i st e c"
  have "map_of (sm_index ?c) i = Some (items_at i (sm_index c) @ [hash i st])"
    by (simp add: sem_set_def add_item_def dict_simps)
  then have "(i, items_at i (sm_index c) @ [hash i st]) \<in> set (sm_index ?c)" by (rule map_of_SomeD)
  from found [OF this, of "hash i st" "sm_cache ?c"]
  have "search_index (sm_cache ?c) i (sm_index ?c) \<noteq> None" by (simp add: sem_set_def dict_simps)
  then show "sem_get hash i other ?c \<noteq> None" by (auto simp: sem_get_def split: option.splits)
  show "sem_get hash i other (sem_set hash now i st e new_sem_cache) = Some e"
    using sim by (simp add: sem_get_def sem_set_def new_sem_cache_def add_item_def items_at_def)
qed

theorem semantic_cache_ignores_input_witness:
  "sem_get (\<lambda>i v. if v = PInt 1 then ''h1'' else ''h2'') ''webhook'' (PInt 2)
     (sem_set (\<lambda>i v. if v = PInt 1 then ''h1'' else ''h2'') 0 ''webhook'' (PInt 1) (demo_env None)
        new_sem_cache) = Some (demo_env None)"
proof -
  have "words (lower ''webhook'') \<noteq> []"
    by (simp add: words_def lower_def lower_char_def is_space_def Let_def)
  from semantic_cache_ignores_input [OF this] show ?thesis by simp
qed

section \<open>AncestryTree\<close>

definition tree_add_child :: "string \<Rightarrow> string \<Rightarrow> string list pdict \<Rightarrow> string list pdict" where
  "tree_add_child p c t = add_item p c t"

definition tree_parent :: "string \<Rightarrow> string list pdict \<Rightarrow> string option" where
  "tree_parent c t = map_option fst (find (\<lambda>(p, cs). c \<in> set cs) t)"

partial_function (option) tree_lineage ::
    "string list pdict \<Rightarrow> string \<Rightarrow> string list \<Rightarrow> string list option" where
  "tree_lineage t cur lineage =
     (if truthy_opt (tree_parent cur t)
      then tree_lineage t (the (tree_parent cur t)) (the (tree_parent cur t) # lineage)
      else Some lineage)"

definition tree_get_lineage :: "string list pdict \<Rightarrow> string \<Rightarrow> string list option" where
  "tree_get_lineage t i = tree_lineage t i [i]"

section \<open>RequestMemory\<close>

record knowledge_entry =
  ke_intent :: string
  ke_derived :: pval

record request_memory =
  rm_requests :: "envelope pdict"
  rm_knowledge :: "knowledge_entry pdict"

definition new_request_memory :: request_memory where
  "new_request_memory = \<lparr>rm_requests = [], rm_knowledge = []\<rparr>"

definition store_request :: "envelope \<Rightarrow> request_memory \<Rightarrow> request_memory" where
  "store_request e m =
     m\<lparr>rm_requests := AList.update (env_id e) e (rm_requests m),
       rm_knowledge := (if env_state e = [] then rm_knowledge m
         else AList.update (env_id e)
           \<lparr>ke_intent = intent_value (env_intent e),
            ke_derived = (case map_of (env_state e) ''derived_knowledge'' of
                            Some v \<Rightarrow> v | None \<Rightarrow> PDict [])\<rparr> (rm_knowledge m))\<rparr>"

definition retrieve_request :: "string \<Rightarrow> request_memory \<Rightarrow> envelope option" where
  "retrieve_request i m = map_of (rm_requests m) i"

definition find_similar_requests :: "string \<Rightarrow> int \<Rightarrow> request_memory \<Rightarrow> envelope list" where
  "find_similar_requests i limit m =
     py_prefix limit (filter (\<lambda>e. intent_value (env_intent e) = i) (map snd (rm_requests m)))"

lemma retrieve_stored:
  "retrieve_request j (store_request e m) = (if j = env_id e then Some e else retrieve_request j m)"
  by (simp add: retrieve_request_def store_request_def dict_simps)

end
