(* ===== verification/Swarm.thy ===== *)
theory Swarm
  imports Executor Discovery "HOL-Library.Multiset"
begin

text \<open>
  \<open>SwarmCoordinator\<close> of \<open>src/prismpipe/engine/__init__.py\<close>: workers spawned from a template, the data
  partitioned over them, each worker served from the shared cache or by the node, and the results
  reduced. The partition function and the reducers are the client's.
\<close>

section \<open>Partitions\<close>

text \<open>The keys of the items: the client's function, or round robin over the workers.\<close>

definition item_keys :: "('a \<Rightarrow> string) option \<Rightarrow> nat \<Rightarrow> 'a list \<Rightarrow> string list" where
  "item_keys f n xs =
     (case f of
        Some g \<Rightarrow> map g xs
      | None \<Rightarrow> map (\<lambda>i. show_nat (i mod max n 1)) [0..<length xs])"

definition partitions :: "('a \<Rightarrow> string) option \<Rightarrow> nat \<Rightarrow> 'a list \<Rightarrow> 'a list pdict" where
  "partitions f n xs = fold (\<lambda>(k, x). add_item k x) (zip (item_keys f n xs) xs) []"

text \<open>What each of the \<open>n\<close> workers is given.\<close>

definition assignments :: "('a \<Rightarrow> string) option \<Rightarrow> nat \<Rightarrow> 'a list \<Rightarrow> 'a list list" where
  "assignments f n xs =
     (let parts = partitions f n xs;
          vals = (if parts \<noteq> [] then map snd parts else replicate n [])
      in map (\<lambda>i. if vals = [] then [] else vals ! (i mod length vals)) [0..<n])"

lemma show_nat_nonempty [simp]: "show_nat n \<noteq> []"
  by (subst show_nat.simps) simp

lemma digit_char_inj: "a < 10 \<Longrightarrow> b < 10 \<Longrightarrow> digit_char a = digit_char b \<Longrightarrow> a = b"
proof -
  assume "a < 10" "b < 10" "digit_char a = digit_char b"
  then have "of_char (char_of (48 + a) :: char) = (of_char (char_of (48 + b) :: char) :: nat)" by simp
  with \<open>a < 10\<close> \<open>b < 10\<close> show "a = b" by (simp add: of_char_of)
qed

lemma show_nat_inj: "show_nat m = show_nat n \<Longrightarrow> m = n"
proof (induction m arbitrary: n rule: less_induct)
  case (less m)
  show ?case
  proof (cases "m < 10")
    case True
    show ?thesis
    proof (cases "n < 10")
      case True
      with \<open>m < 10\<close> less.prems digit_char_inj show ?thesis
        by (simp add: show_nat.simps [of m] show_nat.simps [of n] del: digit_char.simps)
    next
      case False
      with \<open>m < 10\<close> less.prems show ?thesis
        by (simp add: show_nat.simps [of m] show_nat.simps [of n] Cons_eq_append_conv)
    qed
  next
    case False
    show ?thesis
    proof (cases "n < 10")
      case True
      with False less.prems show ?thesis
        by (simp add: show_nat.simps [of m] show_nat.simps [of n] append_eq_Cons_conv)
    next
      case nf: False
      from False nf less.prems have "show_nat (m div 10) = show_nat (n div 10)"
        "digit_char (m mod 10) = digit_char (n mod 10)"
        by (simp_all add: show_nat.simps [of m] show_nat.simps [of n] del: digit_char.simps)
      with less.IH [of "m div 10"] False digit_char_inj [of "m mod 10" "n mod 10"]
      have "m div 10 = n div 10" "m mod 10 = n mod 10" by auto
      then show ?thesis by (metis div_mult_mod_eq)
    qed
  qed
qed

lemma items_of_update: "map_of d k = Some xs \<Longrightarrow> wf_dict d \<Longrightarrow>
  mset (concat (map snd (AList.update k (xs @ [x]) d))) = add_mset x (mset (concat (map snd d)))"
  by (induction d) (auto simp: map_of_eq_None_iff)

lemma add_item_mset:
  "wf_dict d \<Longrightarrow> mset (concat (map snd (add_item k x d))) = add_mset x (mset (concat (map snd d)))"
proof (cases "map_of d k")
  case None
  then have "k \<notin> fst ` set d" by (simp add: map_of_eq_None_iff)
  then show ?thesis by (simp add: add_item_def items_at_def None update_new)
next
  case (Some xs)
  then show "wf_dict d \<Longrightarrow> ?thesis" by (simp add: add_item_def items_at_def items_of_update)
qed

definition all_nonempty :: "'a list pdict \<Rightarrow> bool" where
  "all_nonempty d = (\<forall>xs \<in> snd ` set d. xs \<noteq> [])"

lemma add_item_nonempty: "all_nonempty d \<Longrightarrow> all_nonempty (add_item k x d)"
proof -
  have "set (AList.update k v d) \<subseteq> insert (k, v) (set d)" for v :: "'a list"
    by (induction d) auto
  then show "all_nonempty d \<Longrightarrow> all_nonempty (add_item k x d)"
    unfolding all_nonempty_def add_item_def by fastforce
qed

lemma fold_add_item_nonempty: "all_nonempty d \<Longrightarrow> all_nonempty (fold (\<lambda>(k, x). add_item k x) kxs d)"
  by (induction kxs arbitrary: d) (auto intro: add_item_nonempty)

lemma wf_add_item: "wf_dict d \<Longrightarrow> wf_dict (add_item k x d)"
  by (simp add: add_item_def dict_simps)

lemma keys_add_item: "fst ` set (add_item k x d) = insert k (fst ` set d)"
  by (simp add: add_item_def dict_simps)

lemma fold_add_item:
  "wf_dict d \<Longrightarrow>
     wf_dict (fold (\<lambda>(k, x). add_item k x) kxs d) \<and>
     fst ` set (fold (\<lambda>(k, x). add_item k x) kxs d) = fst ` set d \<union> fst ` set kxs \<and>
     mset (concat (map snd (fold (\<lambda>(k, x). add_item k x) kxs d))) =
       mset (concat (map snd d)) + mset (map snd kxs)"
proof (induction kxs arbitrary: d)
  case Nil
  then show ?case by simp
next
  case (Cons kx kxs)
  obtain k x where kx: "kx = (k, x)" by (cases kx)
  from Cons.IH [OF wf_add_item [OF Cons.prems, of k x]] show ?case
    by (simp add: kx keys_add_item add_item_mset [OF Cons.prems])
qed

lemma partitions_spec:
  "wf_dict (partitions f n xs)"
  "fst ` set (partitions f n xs) = set (item_keys f n xs)"
  "mset (concat (map snd (partitions f n xs))) = mset xs"
  "all_nonempty (partitions f n xs)"
proof -
  have len: "length (item_keys f n xs) = length xs" by (simp add: item_keys_def split: option.split)
  then have z: "map snd (zip (item_keys f n xs) xs) = xs" "map fst (zip (item_keys f n xs) xs) = item_keys f n xs"
    by simp_all
  have z2: "fst ` set (zip (item_keys f n xs) xs) = set (item_keys f n xs)"
    using z(2) by (metis set_map)
  note sp = fold_add_item [of "[]" "zip (item_keys f n xs) xs"]
  from sp show "wf_dict (partitions f n xs)" by (simp add: partitions_def)
  show "all_nonempty (partitions f n xs)"
    unfolding partitions_def by (rule fold_add_item_nonempty) (simp add: all_nonempty_def)
  from sp z2 show "fst ` set (partitions f n xs) = set (item_keys f n xs)"
    by (simp add: partitions_def)
  from sp z(1) show "mset (concat (map snd (partitions f n xs))) = mset xs"
    by (simp add: partitions_def del: map_snd_zip)
qed

lemma length_partitions: "length (partitions f n xs) = card (set (item_keys f n xs))"
  by (metis partitions_spec(1,2) distinct_card length_map set_map)

text \<open>With at least as many partitions as workers, the workers get the first ones.\<close>

lemma assignments_prefix:
  "n \<le> length (partitions f n xs) \<Longrightarrow> partitions f n xs \<noteq> [] \<Longrightarrow>
     assignments f n xs = take n (map snd (partitions f n xs))"
  by (rule nth_equalityI) (auto simp: assignments_def Let_def)

lemma round_robin_keys:
  assumes "0 < n" "n \<le> length xs"
  shows "card (set (item_keys None n xs)) = n"
proof -
  have "set (item_keys None n xs) = show_nat ` {..<n}"
  proof
    show "set (item_keys None n xs) \<subseteq> show_nat ` {..<n}"
      using assms by (auto simp: item_keys_def max_def)
    show "show_nat ` {..<n} \<subseteq> set (item_keys None n xs)"
    proof
      fix k assume "k \<in> show_nat ` {..<n}"
      then obtain i where i: "i < n" "k = show_nat i" by auto
      with assms have "i mod max n 1 = i" "i \<in> {0..<length xs}" by auto
      with i have "k = show_nat (i mod max n 1)" by simp
      with \<open>i \<in> {0..<length xs}\<close> show "k \<in> set (item_keys None n xs)"
        by (auto simp: item_keys_def simp del: max_0_1)
    qed
  qed
  moreover have "inj_on show_nat {..<n}" by (rule inj_onI) (rule show_nat_inj)
  ultimately show ?thesis by (simp add: card_image)
qed

text \<open>
  Note: Round robin gives every item to exactly one worker, as long as there are at least as many items as
  workers.
\<close>

theorem round_robin_exactly_once:
  assumes "0 < n" "n \<le> length xs"
  shows "mset (concat (assignments None n xs)) = mset xs \<and> length (assignments None n xs) = n"
proof -
  let ?p = "partitions None n xs"
  have len: "length ?p = n" by (simp add: length_partitions round_robin_keys [OF assms])
  with assms have "?p \<noteq> []" by auto
  with assignments_prefix [of n None xs] len have "assignments None n xs = map snd ?p" by simp
  with partitions_spec(3) [of None n xs] len show ?thesis by simp
qed

theorem round_robin_exactly_once_witness:
  "mset (concat (assignments None 2 [1, 2, 3 :: int])) = mset [1, 2, 3]"
  using round_robin_exactly_once [of 2 "[1, 2, 3 :: int]"] by simp

text \<open>Fewer items than workers: item \<open>i\<close> is a partition of its own.\<close>

lemma small_partitions:
  "length xs \<le> n \<Longrightarrow> partitions None n xs = map (\<lambda>i. (show_nat i, [xs ! i])) [0..<length xs]"
proof -
  have "length xs \<le> n \<Longrightarrow> fold (\<lambda>(k, x). add_item k x) (zip (map show_nat [0..<length xs]) xs) [] =
      map (\<lambda>i. (show_nat i, [xs ! i])) [0..<length xs]"
  proof (induction xs rule: rev_induct)
    case Nil
    then show ?case by simp
  next
    case (snoc x xs)
    let ?d = "map (\<lambda>i. (show_nat i, [xs ! i])) [0..<length xs]"
    have new: "show_nat (length xs) \<notin> fst ` set ?d"
      by (auto dest: show_nat_inj)
    then have "map_of ?d (show_nat (length xs)) = None"
      by (simp only: map_of_eq_None_iff not_False_eq_True)
    then have "add_item (show_nat (length xs)) x ?d = ?d @ [(show_nat (length xs), [x])]"
      using new by (simp add: add_item_def items_at_def update_new)
    moreover have "fold (\<lambda>(k, x). add_item k x)
        (zip (map show_nat [0..<length (xs @ [x])]) (xs @ [x])) [] = add_item (show_nat (length xs)) x ?d"
      using snoc by simp
    moreover have "map (\<lambda>i. (show_nat i, [(xs @ [x]) ! i])) [0..<length (xs @ [x])] =
        ?d @ [(show_nat (length xs), [x])]"
      by (simp add: nth_append)
    ultimately show ?case by (simp only:)
  qed
  moreover assume "length xs \<le> n"
  moreover from this have "item_keys None n xs = map show_nat [0..<length xs]"
    by (auto simp: item_keys_def max_def)
  ultimately show ?thesis by (simp add: partitions_def)
qed

text \<open>
  Note: With fewer items than workers the items are not shared out but handed out again: worker \<open>i\<close> works on
  item \<open>i mod length items\<close>, so the swarm produces one result per worker and a reducer that adds them
  up counts items twice.
\<close>

theorem small_data_is_duplicated:
  assumes "xs \<noteq> []" "length xs < n"
  shows "assignments None n xs = map (\<lambda>i. [xs ! (i mod length xs)]) [0..<n] \<and>
    length (concat (assignments None n xs)) = n \<and> n > length xs"
proof -
  have "length xs \<le> n" using assms by simp
  note sp = small_partitions [OF this]
  have a: "assignments None n xs = map (\<lambda>i. [xs ! (i mod length xs)]) [0..<n]"
    using assms by (simp add: assignments_def sp Let_def o_def)
  have "length (concat (map (\<lambda>i. [xs ! (i mod length xs)]) ns)) = length ns" for ns
    by (induction ns) auto
  with a assms show ?thesis by simp
qed

theorem small_data_is_duplicated_witness:
  "concat (assignments None 2 [10 :: int]) = [10, 10]"
  using small_data_is_duplicated [of "[10 :: int]" 2] by (simp add: upt_rec)

text \<open>
  Note: With a partition function that makes more groups than there are workers, the items of the groups
  beyond the number of workers are never processed, and nothing reports it.
\<close>

theorem excess_partitions_are_lost:
  assumes "0 < n" "n < card (set (map g xs))"
  shows "mset (concat (assignments (Some g) n xs)) \<subset># mset xs"
proof -
  let ?p = "partitions (Some g) n xs"
  have len: "n < length ?p" using assms(2) by (simp add: length_partitions item_keys_def)
  then have a: "assignments (Some g) n xs = take n (map snd ?p)"
    using assignments_prefix [of n "Some g" xs] by (cases ?p) auto
  have split: "mset xs = mset (concat (take n (map snd ?p))) + mset (concat (drop n (map snd ?p)))"
    using partitions_spec(3) [of "Some g" n xs]
    by (metis append_take_drop_id concat_append mset_append)
  have "concat (drop n (map snd ?p)) \<noteq> []"
  proof -
    have "map snd ?p ! n \<in> set (drop n (map snd ?p))" using len by (simp add: Cons_nth_drop_Suc [symmetric])
    moreover have "map snd ?p ! n \<noteq> []"
      using partitions_spec(4) [of "Some g" n xs] len
      by (metis all_nonempty_def length_map nth_mem set_map)
    ultimately show ?thesis by (auto simp: concat_eq_Nil_conv)
  qed
  with split a show ?thesis by (simp add: subset_mset_def)
qed

theorem excess_partitions_are_lost_witness:
  "mset (concat (assignments (Some (\<lambda>i. show_nat i)) 1 [1, 2])) \<subset># mset [1, 2]"
proof -
  have "show_nat 1 \<noteq> show_nat 2" using show_nat_inj [of 1 2] by auto
  then have "1 < card (set (map (\<lambda>i. show_nat i) [1, 2]))" by simp
  from excess_partitions_are_lost [OF _ this] show ?thesis by simp
qed

section \<open>The coordinator\<close>

text \<open>\<open>_shared_state[id]\<close> is empty until the swarm has results.\<close>

record coordinator =
  sc_swarms :: "organism list pdict"
  sc_shared :: "pval list option pdict"
  sc_partition :: "(pval \<Rightarrow> string) option"
  sc_reducers :: "(pval list \<Rightarrow> pval) pdict"
  sc_errors :: nat
  sc_workers :: nat

definition new_coordinator :: coordinator where
  "new_coordinator = \<lparr>sc_swarms = [], sc_shared = [], sc_partition = None, sc_reducers = [],
     sc_errors = 0, sc_workers = 0\<rparr>"

definition worker_name :: "string \<Rightarrow> nat \<Rightarrow> string" where
  "worker_name sid i = sid @ ''_worker_'' @ show_nat i"

definition spawn_worker :: "rat \<Rightarrow> string \<Rightarrow> organism \<Rightarrow> nat \<Rightarrow> organism" where
  "spawn_worker now sid template i =
     (fst (spawn_child [] now None [] None template))\<lparr>og_id := worker_name sid i, og_status := EXPLORING\<rparr>"

text \<open>\<open>create_swarm\<close> also records the workers as children of the template.\<close>

definition create_swarm ::
    "rat \<Rightarrow> string \<Rightarrow> organism \<Rightarrow> nat \<Rightarrow> coordinator \<Rightarrow> organism list \<times> organism \<times> coordinator" where
  "create_swarm now sid template n co =
     (let swarm = map (spawn_worker now sid template) [0..<n]
      in (swarm, template\<lparr>og_children := og_children template @ map og_id swarm\<rparr>,
          co\<lparr>sc_swarms := AList.update sid swarm (sc_swarms co),
             sc_shared := AList.update sid None (sc_shared co)\<rparr>))"

definition set_partition_fn :: "(pval \<Rightarrow> string) \<Rightarrow> coordinator \<Rightarrow> coordinator" where
  "set_partition_fn f co = co\<lparr>sc_partition := Some f\<rparr>"

definition register_reducer :: "string \<Rightarrow> (pval list \<Rightarrow> pval) \<Rightarrow> coordinator \<Rightarrow> coordinator" where
  "register_reducer sid f co = co\<lparr>sc_reducers := AList.update sid f (sc_reducers co)\<rparr>"

record swarm_run =
  sr_graph :: cgraph
  sr_tick :: nat
  sr_results :: "pval list"
  sr_errors :: nat

definition worker_result :: "dict \<Rightarrow> pval" where
  "worker_result st =
     (case map_of st ''partition_result'' of
        Some v \<Rightarrow> v
      | None \<Rightarrow> (case map_of st ''result'' of Some v \<Rightarrow> v | None \<Rightarrow> PDict st))"

definition assign :: "string \<Rightarrow> organism \<times> pval list \<Rightarrow> organism" where
  "assign c wd =
     org_set_next (Some c) ((fst wd)\<lparr>og_input :=
       AList.update ''partition_data'' (PList (snd wd)) (og_input (fst wd))\<rparr>)"

definition served_worker :: "cached \<Rightarrow> organism \<Rightarrow> organism" where
  "served_worker hit w =
     (set_org_state ''_from_shared'' (PBool True)
        (w\<lparr>og_state := dict_update (og_state w) (public_items (ca_state hit))\<rparr>))
       \<lparr>og_next := ca_next hit, og_status := LEARNING\<rparr>"

text \<open>The handler of \<open>except Exception\<close>: also entered by the error that \<open>fail_fast\<close> raises.\<close>

definition worker_failed ::
    "xio \<Rightarrow> bool \<Rightarrow> py_error \<Rightarrow> organism \<Rightarrow> swarm_run \<Rightarrow> py_error option \<times> organism \<times> swarm_run" where
  "worker_failed io ff err w s =
     (if ff then Some err else None, org_terminate (Some (exn_str (rt_fmt (xi_rt io)) err)) w,
      s\<lparr>sr_errors := sr_errors s + 1\<rparr>)"

definition worker_done :: "organism \<Rightarrow> swarm_run \<Rightarrow> py_error option \<times> organism \<times> swarm_run" where
  "worker_done w s = (None, w, s\<lparr>sr_results := sr_results s @ [worker_result (og_state w)]\<rparr>)"

definition run_worker ::
    "xio \<Rightarrow> node router \<Rightarrow> string \<Rightarrow> bool \<Rightarrow> organism \<Rightarrow> swarm_run
       \<Rightarrow> py_error option \<times> organism \<times> swarm_run" where
  "run_worker io nr c ff w s =
     (let h = xi_hash io c (og_input w) (public_items (og_state w)); t = sr_tick s;
          s0 = s\<lparr>sr_tick := t + 3\<rparr>
      in case get_cached_result c h True (xi_get io t) (xi_ttl io t) (xi_now io t) (sr_graph s) of
           Inl err \<Rightarrow> worker_failed io ff err w s0
         | Inr (Some hit, g) \<Rightarrow> worker_done (served_worker hit w) (s0\<lparr>sr_graph := g\<rparr>)
         | Inr (None, g) \<Rightarrow>
             let s1 = s0\<lparr>sr_graph := g\<rparr> in
             (case resolve nr c of
                Inl err \<Rightarrow> worker_failed io ff err w s1
              | Inr nd \<Rightarrow>
                  (case node_execute (xi_rt io) (t + 1) nd ((to_envelope w)\<lparr>env_next := Some c\<rparr>) of
                     Inl err \<Rightarrow> worker_failed io ff err w s1
                   | Inr res \<Rightarrow>
                       let e = res_envelope res;
                           w1 = w\<lparr>og_state := env_state e, og_history := env_history e,
                                  og_next := env_next e\<rparr>
                       in case register_computation (xi_uid io (t + 2)) c h
                                 (public_items (og_state w1)) 0 (res_success res) None (og_next w1) True
                                 (xi_ohash io (t + 2)) (xi_now io (t + 2)) g of
                            Inl err \<Rightarrow> worker_failed io ff err w1 s1
                          | Inr (nd', g2, wr) \<Rightarrow>
                              let s2 = s1\<lparr>sr_graph := g2\<rparr> in
                              if \<not> res_success res then
                                let m = or_str (res_error res) ''swarm worker failed'';
                                    w2 = org_terminate (Some m) w1;
                                    s3 = s2\<lparr>sr_errors := sr_errors s2 + 1\<rparr>
                                in if ff then worker_failed io ff (RuntimeError m) w2 s3
                                   else (None, w2, s3)
                              else worker_done (w1\<lparr>og_status := LEARNING\<rparr>) s2)))"

fun run_workers ::
    "xio \<Rightarrow> node router \<Rightarrow> string \<Rightarrow> bool \<Rightarrow> organism list \<Rightarrow> swarm_run
       \<Rightarrow> py_error option \<times> organism list \<times> swarm_run" where
  "run_workers io nr c ff [] s = (None, [], s)"
| "run_workers io nr c ff (w # ws) s =
     (case run_worker io nr c ff w s of
        (Some err, w', s') \<Rightarrow> (Some err, w' # ws, s')
      | (None, w', s') \<Rightarrow>
          (case run_workers io nr c ff ws s' of (r, ws', s'') \<Rightarrow> (r, w' # ws', s'')))"

text \<open>
  \<open>execute_swarm\<close>: the reduced result, or the error; the coordinator keeps the workers, the counts
  and, when no error was raised, the results.
\<close>

definition execute_swarm ::
    "xio \<Rightarrow> node router option \<Rightarrow> string \<Rightarrow> string \<Rightarrow> pval list \<Rightarrow> bool \<Rightarrow> cgraph \<Rightarrow> coordinator
       \<Rightarrow> (py_error + pval) \<times> coordinator \<times> cgraph" where
  "execute_swarm io router sid c data ff g co =
     (case map_of (sc_swarms co) sid of
        None \<Rightarrow> (Inl (ValueError (''Swarm '' @ sid @ '' not found'')), co, g)
      | Some swarm \<Rightarrow>
          (case router of
             None \<Rightarrow> (Inl (ValueError ''Router required to execute swarm workers''), co, g)
           | Some nr \<Rightarrow>
               let ws = map (assign c) (zip swarm (assignments (sc_partition co) (length swarm) data));
                   (r, ws', s) = run_workers io nr c ff ws
                     \<lparr>sr_graph = g, sr_tick = 0, sr_results = [], sr_errors = 0\<rparr>;
                   co1 = co\<lparr>sc_swarms := AList.update sid ws' (sc_swarms co),
                            sc_workers := length swarm, sc_errors := sr_errors s\<rparr>
               in case r of
                    Some err \<Rightarrow> (Inl err, co1, sr_graph s)
                  | None \<Rightarrow>
                      (Inr (case map_of (sc_reducers co) sid of
                              Some f \<Rightarrow> f (sr_results s) | None \<Rightarrow> PList (sr_results s)),
                       co1\<lparr>sc_shared := AList.update sid (Some (sr_results s)) (sc_shared co1)\<rparr>,
                       sr_graph s)))"

definition get_swarm_results :: "string \<Rightarrow> coordinator \<Rightarrow> organism list" where
  "get_swarm_results sid co = (case map_of (sc_swarms co) sid of Some ws \<Rightarrow> ws | None \<Rightarrow> [])"

definition swarm_error_rate :: "coordinator \<Rightarrow> rat" where
  "swarm_error_rate co = of_nat (sc_errors co) / of_nat (max (sc_workers co) 1)"

lemma worker_outcome:
  "run_worker io nr c False w s = (r, w', s') \<Longrightarrow>
     r = None \<and> length (sr_results s') + sr_errors s' = Suc (length (sr_results s) + sr_errors s)"
  by (auto simp: run_worker_def worker_failed_def worker_done_def Let_def
      split: sum.splits option.splits prod.splits if_splits)

lemma workers_outcome:
  "run_workers io nr c False ws s = (r, ws', s') \<Longrightarrow>
     r = None \<and> length (sr_results s') + sr_errors s' = length (sr_results s) + sr_errors s + length ws \<and>
     length ws' = length ws"
proof (induction ws arbitrary: s r ws' s')
  case Nil
  then show ?case by simp
next
  case (Cons w ws)
  obtain r1 w1 s1 where w1: "run_worker io nr c False w s = (r1, w1, s1)" by (metis surj_pair)
  obtain r2 ws2 s2 where w2: "run_workers io nr c False ws s1 = (r2, ws2, s2)" by (metis surj_pair)
  from worker_outcome [OF w1] Cons.IH [OF w2] Cons.prems w1 w2 show ?case by auto
qed

lemma length_assignments: "length (assignments f n xs) = n"
  by (simp add: assignments_def Let_def)

text \<open>
  Note: Unless it is told to fail fast, a swarm never raises a worker's error, and it accounts for every
  worker: each one has contributed either one result or one error.
\<close>

theorem swarm_accounts_every_worker:
  assumes "map_of (sc_swarms co) sid = Some swarm"
    and "execute_swarm io (Some nr) sid c data False g co = (r, co', g')"
  shows "\<exists>results v. r = Inr v \<and> map_of (sc_shared co') sid = Some (Some results) \<and>
    length results + sc_errors co' = length swarm \<and> sc_workers co' = length swarm \<and>
    0 \<le> swarm_error_rate co' \<and> swarm_error_rate co' \<le> 1"
proof -
  let ?ws = "map (assign c) (zip swarm (assignments (sc_partition co) (length swarm) data))"
  obtain e ws' s where run: "run_workers io nr c False ?ws
      \<lparr>sr_graph = g, sr_tick = 0, sr_results = [], sr_errors = 0\<rparr> = (e, ws', s)" by (metis surj_pair)
  from workers_outcome [OF run] have out: "e = None"
    "length (sr_results s) + sr_errors s = length swarm"
    by (simp_all add: length_assignments)
  have le: "(of_nat (sr_errors s) :: rat) \<le> of_nat (length swarm)"
    unfolding of_nat_le_iff using out(2) by simp
  have "(of_nat (sr_errors s) :: rat) / of_nat (max (length swarm) 1) \<le> 1"
  proof -
    have "(of_nat (sr_errors s) :: rat) \<le> of_nat (max (length swarm) 1)"
      unfolding of_nat_le_iff using out(2) by simp
    moreover have "0 < (of_nat (max (length swarm) 1) :: rat)" unfolding of_nat_0_less_iff by simp
    ultimately show ?thesis by (simp only: divide_le_eq_1_pos)
  qed
  with assms run out le show ?thesis
    by (auto simp: execute_swarm_def Let_def dict_simps swarm_error_rate_def)
qed

theorem swarm_accounts_every_worker_witness:
  "\<exists>results. map_of (sc_shared (fst (snd (execute_swarm demo_io (Some new_router) ''s'' ''a''
       [PInt 1, PInt 2] False (new_graph 10 30 3 [] [] False)
       (snd (snd (create_swarm 0 ''s'' demo_organism 2 new_coordinator))))))) ''s'' = Some (Some results)"
proof -
  let ?co = "snd (snd (create_swarm 0 ''s'' demo_organism 2 new_coordinator))"
  have sw: "map_of (sc_swarms ?co) ''s'' = Some (map (spawn_worker 0 ''s'' demo_organism) [0..<2])"
    by (simp add: create_swarm_def Let_def dict_simps)
  obtain r co' g' where ex: "execute_swarm demo_io (Some new_router) ''s'' ''a'' [PInt 1, PInt 2] False
      (new_graph 10 30 3 [] [] False) ?co = (r, co', g')" by (metis surj_pair)
  from swarm_accounts_every_worker [OF sw ex] ex show ?thesis by auto
qed

end
