(* ===== verification/TimeSplit.thy ===== *)
theory TimeSplit
  imports Executor
begin

text \<open>
  \<open>TimeSplitter\<close> of \<open>src/prismpipe/engine/__init__.py\<close>: an organism is forked into branches that
  run concurrently over one shared computation graph; the first branch to end without a failure wins.

  A race is a state and a sequence of events: a branch takes one pass of its loop, the thread of an
  offloaded node lands, the deadline of a branch expires, the waiting coroutine picks up finished
  branches (in an order the event loop chooses). The event loop runs a branch that never waits to its
  end at once; the events also allow other interleavings, so what holds for every sequence of events
  holds for the ones that occur.
\<close>

section \<open>Branches\<close>

datatype phase = Running | Offloaded string string node envelope | Finished

record task =
  tk_org :: organism
  tk_hops :: nat
  tk_start :: rat
  tk_phase :: phase

text \<open>The children of \<open>split\<close>, and the organism that remembers them.\<close>

definition fork :: "rat \<Rightarrow> string \<Rightarrow> string \<Rightarrow> organism \<Rightarrow> organism" where
  "fork now uid c o' = (fst (spawn_child uid now None [] None o'))\<lparr>og_next := Some c, og_status := EXPLORING\<rparr>"

definition split_branches :: "xio \<Rightarrow> nat \<Rightarrow> organism \<Rightarrow> string list \<Rightarrow> organism list" where
  "split_branches io max_branches o' caps =
     map (\<lambda>(i, c). fork (xi_now io i) (xi_uid io i) c o') (enumerate 0 (take max_branches caps))"

definition branch_hash :: "xio \<Rightarrow> string \<Rightarrow> organism \<Rightarrow> string" where
  "branch_hash io c o' = xi_hash io c (og_input o') (public_items (og_state o'))"

definition branch_restored :: "cached \<Rightarrow> organism \<Rightarrow> organism" where
  "branch_restored hit o' =
     (set_org_state ''_shared_node_id'' (PStr (cn_id (ca_node hit)))
        (set_org_state ''_from_shared'' (PBool True)
          (o'\<lparr>og_state := dict_update (og_state o') (public_items (ca_state hit))\<rparr>)))
       \<lparr>og_next := ca_next hit\<rparr>"

definition finish_task :: "organism \<Rightarrow> task \<Rightarrow> task" where
  "finish_task o' t =
     t\<lparr>tk_phase := Finished,
       tk_org := (if org_terminated o' then o' else o'\<lparr>og_status := LEARNING\<rparr>)\<rparr>"

definition branch_terminate :: "string \<Rightarrow> task \<Rightarrow> task" where
  "branch_terminate msg t = t\<lparr>tk_org := org_terminate (Some msg) (tk_org t)\<rparr>"

text \<open>The node's result: taken over, registered in the shared graph, a failure ends the branch.\<close>

definition settle ::
    "xio \<Rightarrow> nat \<Rightarrow> string \<Rightarrow> string \<Rightarrow> py_error + node_result \<Rightarrow> task \<Rightarrow> cgraph \<Rightarrow> task \<times> cgraph" where
  "settle io n c h outcome t g =
     (case outcome of
        Inl err \<Rightarrow> (branch_terminate (exn_str (rt_fmt (xi_rt io)) err) t, g)
      | Inr res \<Rightarrow>
          let e = res_envelope res;
              t1 = t\<lparr>tk_org := (tk_org t)\<lparr>og_state := env_state e, og_history := env_history e,
                                        og_next := env_next e\<rparr>\<rparr>
          in case register_computation (xi_uid io n) c h (public_items (env_state e))
                    ((xi_perf io n - tk_start t) * 1000) (res_success res) None (env_next e) True
                    (xi_ohash io n) (xi_now io n) g of
               Inl err \<Rightarrow> (branch_terminate (exn_str (rt_fmt (xi_rt io)) err) t1, g)
             | Inr (nd', g', w) \<Rightarrow>
                 (if \<not> res_success res \<or> env_terminated e
                  then branch_terminate (or_str (or_opt (res_error res) (env_error e))
                         ''branch node failed'') t1
                  else t1, g'))"

definition branch_message :: "nat \<Rightarrow> string" where
  "branch_message n = ''Max hops ('' @ show_nat n @ '') exceeded in branch execution''"

text \<open>One pass of the loop of \<open>execute_branch\<close>, up to where it waits for a thread.\<close>

definition branch_pass ::
    "xio \<Rightarrow> node router \<Rightarrow> nat \<Rightarrow> nat \<Rightarrow> task \<Rightarrow> cgraph \<Rightarrow> task \<times> cgraph" where
  "branch_pass io nr max_hops n t g =
     (let o' = tk_org t in
      if \<not> (truthy_opt (og_next o') \<and> \<not> org_terminated o') then (finish_task o' t, g)
      else
        let t1 = t\<lparr>tk_hops := tk_hops t + 1\<rparr> in
        if tk_hops t1 > max_hops
        then (finish_task (org_terminate (Some (branch_message max_hops)) o') t1, g)
        else
          case org_capability o' of
            None \<Rightarrow> (finish_task o' t1, g)
          | Some c \<Rightarrow>
              if c = [] then (finish_task o' t1, g)
              else
                let h = branch_hash io c o' in
                case get_cached_result c h True (xi_get io n) (xi_ttl io n) (xi_now io n) g of
                  Inl err \<Rightarrow>
                    (finish_task (org_terminate (Some (exn_str (rt_fmt (xi_rt io)) err)) o') t1, g)
                | Inr (Some hit, g') \<Rightarrow> (t1\<lparr>tk_org := branch_restored hit o'\<rparr>, g')
                | Inr (None, g') \<Rightarrow>
                    (case resolve nr c of
                       Inl err \<Rightarrow> (branch_terminate (exn_str (rt_fmt (xi_rt io)) err) t1, g')
                     | Inr nd \<Rightarrow>
                         if nd_offload nd
                         then (t1\<lparr>tk_phase := Offloaded c h nd (to_envelope o')\<rparr>, g')
                         else settle io (n + 1) c h (node_execute (xi_rt io) n nd (to_envelope o')) t1 g'))"

definition branch_land :: "xio \<Rightarrow> nat \<Rightarrow> task \<Rightarrow> cgraph \<Rightarrow> task \<times> cgraph" where
  "branch_land io n t g =
     (case tk_phase t of
        Offloaded c h nd e \<Rightarrow>
          settle io (n + 1) c h (node_execute (xi_rt io) n nd e) (t\<lparr>tk_phase := Running\<rparr>) g
      | _ \<Rightarrow> (t, g))"

section \<open>The race\<close>

datatype race_event = Pass nat | Land nat | Expire nat | Collect "nat list"

record race =
  rc_tasks :: "task list"
  rc_pending :: "nat list"
  rc_winner :: "nat option"
  rc_graph :: cgraph
  rc_tick :: nat

text \<open>
  \<open>start_time\<close> is read when a branch starts, and every latency of the branch is measured from it.
\<close>

definition start_race :: "xio \<Rightarrow> organism list \<Rightarrow> cgraph \<Rightarrow> race" where
  "start_race io branches g =
     \<lparr>rc_tasks = map (\<lambda>(i, b). \<lparr>tk_org = b, tk_hops = 0, tk_start = xi_perf io i, tk_phase = Running\<rparr>)
                   (enumerate 0 branches),
      rc_pending = [0..<length branches], rc_winner = None, rc_graph = g, rc_tick = length branches\<rparr>"

definition race_task :: "nat \<Rightarrow> (task \<Rightarrow> cgraph \<Rightarrow> task \<times> cgraph) \<Rightarrow> race \<Rightarrow> race" where
  "race_task i f r =
     (if i \<in> set (rc_pending r) \<and> i < length (rc_tasks r) \<and> rc_winner r = None
      then let (t, g) = f (rc_tasks r ! i) (rc_graph r)
           in r\<lparr>rc_tasks := (rc_tasks r)[i := t], rc_graph := g, rc_tick := rc_tick r + 2\<rparr>
      else r)"

definition expire :: "task \<Rightarrow> cgraph \<Rightarrow> task \<times> cgraph" where
  "expire t g =
     (if tk_phase t = Finished then (t, g)
      else (finish_task (org_terminate (Some ''branch timeout'') (tk_org t)) t, g))"

definition is_finished :: "race \<Rightarrow> nat \<Rightarrow> bool" where
  "is_finished r i = (tk_phase (rc_tasks r ! i) = Finished)"

text \<open>
  \<open>asyncio.wait\<close> returned: \<open>done\<close> is the set of pending tasks that have finished, scanned in some order
  for the first branch that is not terminated. A race that is over stays as it is.
\<close>

definition collect :: "nat list \<Rightarrow> race \<Rightarrow> race" where
  "collect order r =
     (if rc_winner r = None \<and> order \<noteq> [] \<and> distinct order \<and>
         set order = set (filter (is_finished r) (rc_pending r))
      then r\<lparr>rc_pending := filter (\<lambda>i. i \<notin> set order) (rc_pending r),
             rc_winner := find (\<lambda>i. \<not> org_terminated (tk_org (rc_tasks r ! i))) order\<rparr>
      else r)"

fun race_step :: "xio \<Rightarrow> node router \<Rightarrow> nat \<Rightarrow> race_event \<Rightarrow> race \<Rightarrow> race" where
  "race_step io nr max_hops (Pass i) r =
     race_task i (\<lambda>t g. if tk_phase t = Running then branch_pass io nr max_hops (rc_tick r) t g
                       else (t, g)) r"
| "race_step io nr max_hops (Land i) r = race_task i (\<lambda>t g. branch_land io (rc_tick r) t g) r"
| "race_step io nr max_hops (Expire i) r = race_task i expire r"
| "race_step io nr max_hops (Collect order) r = collect order r"

definition run_race :: "xio \<Rightarrow> node router \<Rightarrow> nat \<Rightarrow> race_event list \<Rightarrow> race \<Rightarrow> race" where
  "run_race io nr max_hops evs r = fold (race_step io nr max_hops) evs r"

definition crown :: "organism list \<Rightarrow> organism \<Rightarrow> organism \<Rightarrow> organism" where
  "crown branches w o' =
     set_org_state ''_time_split_winner'' (PStr (og_id w))
       (o'\<lparr>og_state := og_state w, og_history := og_history w, og_children := map og_id branches,
           og_status := LEARNING\<rparr>)"

text \<open>
  \<open>execute_time_split\<close>: \<open>None\<close> while branches are pending and there is no winner. Losers that are still
  pending are cancelled; nothing of them is used.
\<close>

definition execute_time_split ::
    "xio \<Rightarrow> node router \<Rightarrow> nat \<Rightarrow> nat \<Rightarrow> organism \<Rightarrow> string list \<Rightarrow> race_event list \<Rightarrow> cgraph
       \<Rightarrow> (organism \<times> cgraph) option" where
  "execute_time_split io nr max_branches max_hops o' caps evs g =
     (let branches = split_branches io max_branches o' caps;
          r = run_race io nr max_hops evs (start_race io branches g);
          parent = o'\<lparr>og_children := og_children o' @ map og_id branches\<rparr>
      in case rc_winner r of
           Some i \<Rightarrow> Some (crown branches (tk_org (rc_tasks r ! i)) parent, rc_graph r)
         | None \<Rightarrow> if rc_pending r = []
                   then Some (org_terminate (Some ''All branches failed'') parent, rc_graph r)
                   else None)"

section \<open>Bounds and outcome\<close>

definition task_ok :: "nat \<Rightarrow> task \<Rightarrow> bool" where
  "task_ok m t \<longleftrightarrow> tk_hops t \<le> Suc m \<and> (tk_phase t \<noteq> Finished \<longrightarrow> tk_hops t \<le> m)"

lemma finish_task_simps [simp]:
  "tk_phase (finish_task o' t) = Finished" "tk_hops (finish_task o' t) = tk_hops t"
  by (simp_all add: finish_task_def)

lemma branch_terminate_simps [simp]:
  "tk_phase (branch_terminate m t) = tk_phase t" "tk_hops (branch_terminate m t) = tk_hops t"
  by (simp_all add: branch_terminate_def)

lemma settle_frame:
  "settle io n c h outcome t g = (t', g') \<Longrightarrow> tk_phase t' = tk_phase t \<and> tk_hops t' = tk_hops t"
  by (auto simp: settle_def Let_def split: sum.splits prod.splits if_splits)

text \<open>A pass of a running branch counts a hop or ends the branch.\<close>

lemma branch_pass_hops:
  assumes "branch_pass io nr m n t g = (t', g')" "tk_phase t = Running" "tk_hops t \<le> m"
  shows "task_ok m t' \<and> (tk_phase t' = Finished \<or> tk_hops t' = Suc (tk_hops t))"
  using assms
  by (auto simp: branch_pass_def Let_def task_ok_def dest!: settle_frame
      split: if_splits option.splits sum.splits prod.splits)

lemma branch_land_hops:
  "branch_land io n t g = (t', g') \<Longrightarrow>
     tk_hops t' = tk_hops t \<and> tk_phase t' = (if tk_phase t = Finished then Finished else Running)"
  by (auto simp: branch_land_def dest!: settle_frame split: phase.splits)

lemma expire_hops:
  "expire t g = (t', g') \<Longrightarrow> tk_hops t' = tk_hops t \<and> tk_phase t' = Finished"
  by (auto simp: expire_def split: if_splits)

definition race_ok :: "nat \<Rightarrow> nat \<Rightarrow> race \<Rightarrow> bool" where
  "race_ok m n r \<longleftrightarrow> length (rc_tasks r) = n \<and> distinct (rc_pending r) \<and>
     (\<forall>t \<in> set (rc_tasks r). task_ok m t) \<and>
     (\<forall>i \<in> set (rc_pending r). i < n) \<and>
     (\<forall>i < n. i \<notin> set (rc_pending r) \<longrightarrow> is_finished r i) \<and>
     (case rc_winner r of
        Some i \<Rightarrow> i < n \<and> is_finished r i \<and> \<not> org_terminated (tk_org (rc_tasks r ! i))
      | None \<Rightarrow> (\<forall>i < n. i \<notin> set (rc_pending r) \<longrightarrow> org_terminated (tk_org (rc_tasks r ! i))))"

lemma race_okD:
  assumes "race_ok m n r"
  shows "length (rc_tasks r) = n" "distinct (rc_pending r)"
    "\<And>t. t \<in> set (rc_tasks r) \<Longrightarrow> task_ok m t" "\<And>i. i \<in> set (rc_pending r) \<Longrightarrow> i < n"
    "\<And>i. i < n \<Longrightarrow> i \<notin> set (rc_pending r) \<Longrightarrow> is_finished r i"
    "\<And>i. rc_winner r = Some i \<Longrightarrow> i < n \<and> is_finished r i \<and> \<not> org_terminated (tk_org (rc_tasks r ! i))"
    "\<And>i. rc_winner r = None \<Longrightarrow> i < n \<Longrightarrow> i \<notin> set (rc_pending r) \<Longrightarrow>
       org_terminated (tk_org (rc_tasks r ! i))"
  using assms by (auto simp: race_ok_def)

lemma race_ok_start: "race_ok m (length bs) (start_race io bs g)"
  by (auto simp: race_ok_def start_race_def task_ok_def enumerate_eq_zip)

text \<open>Work on one pending branch keeps the invariant when it keeps the branch in its bound.\<close>

lemma race_ok_task:
  assumes ok: "race_ok m n r"
    and f: "\<And>t g t' g'. f t g = (t', g') \<Longrightarrow> task_ok m t \<Longrightarrow> task_ok m t'"
  shows "race_ok m n (race_task i f r)"
proof (cases "i \<in> set (rc_pending r) \<and> i < length (rc_tasks r) \<and> rc_winner r = None")
  case False
  have "race_task i f r = r" unfolding race_task_def by (rule if_not_P [OF False])
  with ok show ?thesis by simp
next
  case True
  obtain t g where fg: "f (rc_tasks r ! i) (rc_graph r) = (t, g)" by (metis surj_pair)
  note D = race_okD [OF ok]
  have t: "task_ok m t" using f [OF fg] D(3) True by simp
  let ?ts = "(rc_tasks r)[i := t]"
  have same: "?ts ! j = rc_tasks r ! j" if "j \<notin> set (rc_pending r)" for j
    using that True by (metis nth_list_update_neq)
  have "\<forall>t \<in> set ?ts. task_ok m t" using t D(3) by (auto dest!: set_update_subset_insert [THEN subsetD])
  with True fg D same show ?thesis
    by (auto simp: race_ok_def race_task_def is_finished_def)
qed

lemma race_ok_collected:
  assumes "race_ok m n r" "rc_tasks r' = rc_tasks r"
    "rc_pending r' = filter P (rc_pending r)" "is_finished r' = is_finished r"
    "\<And>i. i < n \<Longrightarrow> i \<notin> set (rc_pending r') \<Longrightarrow> is_finished r i"
    "case rc_winner r' of
        Some i \<Rightarrow> i < n \<and> is_finished r i \<and> \<not> org_terminated (tk_org (rc_tasks r ! i))
      | None \<Rightarrow> (\<forall>i<n. i \<notin> set (rc_pending r') \<longrightarrow> org_terminated (tk_org (rc_tasks r ! i)))"
  shows "race_ok m n r'"
proof -
  have "\<forall>t \<in> set (rc_tasks r). task_ok m t" "\<forall>i \<in> set (rc_pending r). i < n"
    using race_okD(3,4) [OF assms(1)] by auto
  moreover have "\<forall>i<n. i \<notin> set (rc_pending r') \<longrightarrow> is_finished r i" using assms(5) by blast
  ultimately show ?thesis
    using race_okD(1,2) [OF assms(1)] assms(6) unfolding race_ok_def assms(2,4)
    by (auto simp: assms(3))
qed

lemma race_ok_collect:
  assumes ok: "race_ok m n r"
  shows "race_ok m n (collect order r)"
proof (cases "rc_winner r = None \<and> order \<noteq> [] \<and> distinct order \<and>
    set order = set (filter (is_finished r) (rc_pending r))")
  case False
  then have "collect order r = r" by (auto simp: collect_def)
  with ok show ?thesis by simp
next
  case True
  note D = race_okD [OF ok]
  let ?r = "collect order r"
  have r': "rc_tasks ?r = rc_tasks r" "rc_pending ?r = filter (\<lambda>i. i \<notin> set order) (rc_pending r)"
    "rc_winner ?r = find (\<lambda>i. \<not> org_terminated (tk_org (rc_tasks r ! i))) order"
    using True by (auto simp: collect_def)
  have fin: "is_finished ?r = is_finished r" by (simp add: is_finished_def fun_eq_iff r'(1))
  have ord: "i < n \<and> is_finished r i" if "i \<in> set order" for i using that True D(4) by auto
  have over: "is_finished r i" if "i < n" "i \<notin> set (rc_pending ?r)" for i
    using that ord D(5) r'(2) by auto
  show ?thesis
  proof (cases "rc_winner ?r")
    case None
    then have o: "org_terminated (tk_org (rc_tasks r ! i))" if "i \<in> set order" for i
      using that by (auto simp: r'(3) find_None_iff)
    have "org_terminated (tk_org (rc_tasks r ! i))" if i: "i < n" "i \<notin> set (rc_pending ?r)" for i
    proof (cases "i \<in> set order")
      case False
      with i(2) have "i \<notin> set (rc_pending r)" by (simp add: r'(2))
      from D(7) [OF conjunct1 [OF True] i(1) this] show ?thesis .
    qed (rule o)
    then show ?thesis by (intro race_ok_collected [OF ok r'(1,2) fin over]) (simp_all add: None)
  next
    case (Some i)
    then have "i \<in> set order" "\<not> org_terminated (tk_org (rc_tasks r ! i))"
      by (auto simp: r'(3) find_Some_iff)
    with ord Some have "case rc_winner ?r of
        Some i \<Rightarrow> i < n \<and> is_finished r i \<and> \<not> org_terminated (tk_org (rc_tasks r ! i))
      | None \<Rightarrow> (\<forall>i<n. i \<notin> set (rc_pending ?r) \<longrightarrow> org_terminated (tk_org (rc_tasks r ! i)))" by simp
    from race_ok_collected [OF ok r'(1,2) fin _ this] over show ?thesis by blast
  qed
qed

lemma race_ok_step: "race_ok m n r \<Longrightarrow> race_ok m n (race_step io nr m e r)"
proof (cases e)
  case (Pass i)
  assume ok: "race_ok m n r"
  have "task_ok m t'"
    if "(if tk_phase t = Running then branch_pass io nr m (rc_tick r) t g else (t, g)) = (t', g')"
      "task_ok m t" for t g t' g'
    using that branch_pass_hops [of io nr m "rc_tick r" t g t' g']
    by (auto simp: task_ok_def split: if_splits)
  from race_ok_task [OF ok this] show ?thesis by (simp add: Pass)
next
  case (Land i)
  assume ok: "race_ok m n r"
  show ?thesis unfolding Land race_step.simps
    by (rule race_ok_task [OF ok]) (auto simp: task_ok_def dest!: branch_land_hops split: if_splits)
next
  case (Expire i)
  assume ok: "race_ok m n r"
  show ?thesis unfolding Expire race_step.simps
    by (rule race_ok_task [OF ok]) (auto simp: task_ok_def dest!: expire_hops)
next
  case (Collect order)
  assume "race_ok m n r"
  then show ?thesis by (simp add: Collect race_ok_collect)
qed

lemma race_ok_run: "race_ok m n r \<Longrightarrow> race_ok m n (run_race io nr m evs r)"
  unfolding run_race_def by (induction evs arbitrary: r) (auto intro: race_ok_step)

lemma length_split_branches [simp]:
  "length (split_branches io k o' caps) = length (take k caps)"
  by (simp add: split_branches_def)

lemma split_ok:
  "race_ok m (length (take k caps))
     (run_race io nr m evs (start_race io (split_branches io k o' caps) g))"
  using race_ok_run [OF race_ok_start [of m "split_branches io k o' caps" io g]] by simp

lemma set_org_state_frame [simp]:
  "og_status (set_org_state k v o') = og_status o'"
  "og_history (set_org_state k v o') = og_history o'"
  "og_state (set_org_state k v o') = AList.update k v (og_state o')"
  by (simp_all add: set_org_state_def)


section \<open>Every race ends\<close>

text \<open>A branch that is given its turns, and whose threads land, ends.\<close>

definition turns :: "nat \<Rightarrow> nat \<Rightarrow> race_event list" where
  "turns m i = concat (replicate (m + 2) [Pass i, Land i])"

definition drain :: "nat \<Rightarrow> nat \<Rightarrow> race_event list" where
  "drain m n = concat (map (turns m) [0..<n])"

lemma race_task_frame [simp]:
  "rc_pending (race_task i f r) = rc_pending r" "rc_winner (race_task i f r) = rc_winner r"
  "length (rc_tasks (race_task i f r)) = length (rc_tasks r)"
  "j \<noteq> i \<Longrightarrow> rc_tasks (race_task i f r) ! j = rc_tasks r ! j"
  by (auto simp: race_task_def split: prod.splits)

lemma race_task_nth:
  "i \<in> set (rc_pending r) \<Longrightarrow> i < length (rc_tasks r) \<Longrightarrow> rc_winner r = None \<Longrightarrow>
     rc_tasks (race_task i f r) ! i = fst (f (rc_tasks r ! i) (rc_graph r))"
  by (auto simp: race_task_def split: prod.splits)

text \<open>The state of one branch \<open>i\<close> of a race that is not over.\<close>

definition contender :: "race \<Rightarrow> nat \<Rightarrow> bool" where
  "contender r i \<longleftrightarrow> i \<in> set (rc_pending r) \<and> i < length (rc_tasks r) \<and> rc_winner r = None"

definition ahead :: "nat \<Rightarrow> race \<Rightarrow> nat \<Rightarrow> bool" where
  "ahead k r i \<longleftrightarrow> (is_finished r i \<or> (tk_phase (rc_tasks r ! i) = Running \<and> k \<le> tk_hops (rc_tasks r ! i)))"

lemma pass_land:
  assumes "contender r i" "task_ok m (rc_tasks r ! i)"
    and r': "r' = race_step io nr m (Land i) (race_step io nr m (Pass i) r)"
  shows "rc_pending r' = rc_pending r" "rc_winner r' = rc_winner r"
    "length (rc_tasks r') = length (rc_tasks r)"
    "\<And>j. j \<noteq> i \<Longrightarrow> rc_tasks r' ! j = rc_tasks r ! j"
    "ahead 0 r' i" "ahead k r i \<Longrightarrow> ahead (Suc k) r' i" "is_finished r i \<Longrightarrow> is_finished r' i"
proof -
  let ?t = "rc_tasks r ! i"
  obtain t1 g1 where p: "(if tk_phase ?t = Running then branch_pass io nr m (rc_tick r) ?t (rc_graph r)
      else (?t, rc_graph r)) = (t1, g1)" by (metis surj_pair)
  let ?r1 = "race_step io nr m (Pass i) r"
  have r1: "rc_tasks ?r1 ! i = t1"
    using assms(1) race_task_nth [of i r] p by (simp add: contender_def)
  obtain t2 g2 where l: "branch_land io (rc_tick ?r1) t1 (rc_graph ?r1) = (t2, g2)" by (metis surj_pair)
  have r2: "rc_tasks r' ! i = t2"
    unfolding r' using assms(1) r1 l race_task_nth [of i ?r1]
    by (simp add: contender_def)
  have t2: "tk_hops t2 = tk_hops t1" "tk_phase t2 = (if tk_phase t1 = Finished then Finished else Running)"
    using branch_land_hops [OF l] by simp_all
  have t1: "tk_phase ?t = Running \<Longrightarrow> tk_phase t1 = Finished \<or> tk_hops t1 = Suc (tk_hops ?t)"
    "tk_phase ?t \<noteq> Running \<Longrightarrow> t1 = ?t"
    using p branch_pass_hops [of io nr m "rc_tick r" ?t "rc_graph r" t1 g1] assms(2)
    by (auto simp: task_ok_def split: if_splits)
  show "rc_pending r' = rc_pending r" "rc_winner r' = rc_winner r"
    "length (rc_tasks r') = length (rc_tasks r)"
    "\<And>j. j \<noteq> i \<Longrightarrow> rc_tasks r' ! j = rc_tasks r ! j"
    unfolding r' by simp_all
  show "ahead 0 r' i" using t2 by (auto simp: ahead_def is_finished_def r2)
  show "ahead k r i \<Longrightarrow> ahead (Suc k) r' i"
    using t1 t2 by (cases "tk_phase ?t = Running") (auto simp: ahead_def is_finished_def r2 split: if_splits)
  show "is_finished r i \<Longrightarrow> is_finished r' i"
    using t1(2) t2 by (auto simp: is_finished_def r2)
qed

lemma contender_task_ok: "race_ok m n r \<Longrightarrow> contender r i \<Longrightarrow> task_ok m (rc_tasks r ! i)"
  using race_okD(3) [of m n r "rc_tasks r ! i"] by (simp add: contender_def)

lemma contender_cong:
  "rc_pending r' = rc_pending r \<Longrightarrow> rc_winner r' = rc_winner r \<Longrightarrow>
     length (rc_tasks r') = length (rc_tasks r) \<Longrightarrow> contender r' i = contender r i"
  by (simp add: contender_def)

lemma concat_replicate_snoc: "concat (replicate (Suc k) xs) = concat (replicate k xs) @ xs"
  by (induction k) simp_all

text \<open>What \<open>k + 1\<close> turns of branch \<open>i\<close> do; after more hops than the limit it has finished.\<close>

lemma turns_step:
  assumes "race_ok m n r" "contender r i"
  shows "let r' = run_race io nr m (concat (replicate (Suc k) [Pass i, Land i])) r in
     race_ok m n r' \<and> rc_pending r' = rc_pending r \<and> rc_winner r' = rc_winner r \<and>
     (\<forall>j. j \<noteq> i \<longrightarrow> rc_tasks r' ! j = rc_tasks r ! j) \<and> ahead k r' i"
  using assms
proof (induction k arbitrary: r)
  case 0
  have "run_race io nr m (concat (replicate (Suc 0) [Pass i, Land i])) r =
      race_step io nr m (Land i) (race_step io nr m (Pass i) r)" by (simp add: run_race_def)
  with pass_land [OF 0(2) contender_task_ok [OF 0] refl, where io = io and nr = nr] 0(1) show ?case
    by (simp add: Let_def race_ok_step del: race_step.simps)
next
  case (Suc k)
  let ?r1 = "run_race io nr m (concat (replicate (Suc k) [Pass i, Land i])) r"
  let ?r2 = "race_step io nr m (Land i) (race_step io nr m (Pass i) ?r1)"
  have split: "concat (replicate (Suc (Suc k)) [Pass i, Land i]) =
      concat (replicate (Suc k) [Pass i, Land i]) @ [Pass i, Land i]"
    by (rule concat_replicate_snoc)
  have eq: "run_race io nr m (concat (replicate (Suc (Suc k)) [Pass i, Land i])) r = ?r2"
    unfolding split by (simp add: run_race_def)
  from Suc.IH [OF Suc.prems] have ih: "race_ok m n ?r1" "rc_pending ?r1 = rc_pending r"
    "rc_winner ?r1 = rc_winner r" "\<forall>j. j \<noteq> i \<longrightarrow> rc_tasks ?r1 ! j = rc_tasks r ! j" "ahead k ?r1 i"
    by (simp_all add: Let_def)
  have "length (rc_tasks ?r1) = length (rc_tasks r)"
    using race_okD(1) [OF ih(1)] race_okD(1) [OF Suc.prems(1)] by simp
  with Suc.prems(2) ih(2,3) have c: "contender ?r1 i" by (simp add: contender_def)
  note s = pass_land [OF c contender_task_ok [OF ih(1) c] refl, where io = io and nr = nr]
  have "race_ok m n ?r2" by (intro race_ok_step ih(1))
  then show ?case
    unfolding eq Let_def using s(1,2,4) s(6) [OF ih(5)] ih(2-4) by simp
qed

lemma turns_finish:
  assumes "race_ok m n r" "contender r i"
  shows "let r' = run_race io nr m (turns m i) r in
     race_ok m n r' \<and> rc_pending r' = rc_pending r \<and> rc_winner r' = rc_winner r \<and>
     (\<forall>j. j \<noteq> i \<longrightarrow> rc_tasks r' ! j = rc_tasks r ! j) \<and> is_finished r' i"
proof -
  let ?r = "run_race io nr m (turns m i) r"
  from turns_step [OF assms, where io = io and nr = nr and k = "Suc m"]
  have t: "race_ok m n ?r" "rc_pending ?r = rc_pending r" "rc_winner ?r = rc_winner r"
    "\<forall>j. j \<noteq> i \<longrightarrow> rc_tasks ?r ! j = rc_tasks r ! j" "ahead (Suc m) ?r i"
    by (simp_all add: turns_def Let_def)
  have "i < length (rc_tasks ?r)"
    using assms race_okD(1) [OF t(1)] race_okD(1) [OF assms(1)] by (simp add: contender_def)
  with race_okD(3) [OF t(1)] have "task_ok m (rc_tasks ?r ! i)" by simp
  with t(5) have "is_finished ?r i" by (auto simp: ahead_def task_ok_def)
  with t show ?thesis by (simp add: Let_def)
qed

lemma turns_idle:
  assumes "\<not> contender r i"
  shows "run_race io nr m (turns m i) r = r"
proof -
  have same: "race_task i f r = r" for f
    unfolding race_task_def by (rule if_not_P) (use assms in \<open>auto simp: contender_def\<close>)
  have "run_race io nr m (concat (replicate k [Pass i, Land i])) r = r" for k
    by (induction k) (simp_all add: run_race_def same)
  then show ?thesis unfolding turns_def .
qed

lemma run_race_append: "run_race io nr m (es @ fs) r = run_race io nr m fs (run_race io nr m es r)"
  by (simp add: run_race_def)

lemma drain_finishes:
  assumes "race_ok m n r" "rc_winner r = None"
  shows "let r' = run_race io nr m (concat (map (turns m) js)) r in
     race_ok m n r' \<and> rc_pending r' = rc_pending r \<and> rc_winner r' = None \<and>
     (\<forall>i. is_finished r i \<or> (i \<in> set js \<and> i \<in> set (rc_pending r)) \<longrightarrow> is_finished r' i)"
  using assms
proof (induction js arbitrary: r)
  case Nil
  then show ?case by (simp add: run_race_def)
next
  case (Cons i js)
  let ?r1 = "run_race io nr m (turns m i) r"
  have r1: "race_ok m n ?r1 \<and> rc_pending ?r1 = rc_pending r \<and> rc_winner ?r1 = None \<and>
      (\<forall>j. is_finished r j \<or> (j = i \<and> j \<in> set (rc_pending r)) \<longrightarrow> is_finished ?r1 j)"
  proof (cases "contender r i")
    case True
    have "is_finished ?r1 j" if "is_finished r j" for j
      using that turns_finish [OF Cons.prems(1) True, of io nr]
      by (cases "j = i") (simp_all add: Let_def is_finished_def)
    then show ?thesis
      using turns_finish [OF Cons.prems(1) True, of io nr] Cons.prems(2) by (simp add: Let_def)
  next
    case False
    then have "i \<notin> set (rc_pending r)"
      using Cons.prems race_okD(1,4) [OF Cons.prems(1)] by (auto simp: contender_def)
    with turns_idle [OF False, of io nr m] Cons.prems show ?thesis by simp
  qed
  then have "race_ok m n ?r1" "rc_winner ?r1 = None" by simp_all
  from Cons.IH [OF this] r1 show ?case by (simp add: Let_def run_race_append) blast
qed

lemma drained_race:
  fixes io nr k m o' caps evs g
  defines "n \<equiv> min k (length caps)"
  defines "r \<equiv> run_race io nr m evs (start_race io (split_branches io k o' caps) g)"
  defines "r' \<equiv> collect (rc_pending r) (run_race io nr m (drain m n) r)"
  shows "rc_winner r' \<noteq> None \<or> rc_pending r' = []"
proof -
  let ?r1 = "run_race io nr m (drain m n) r"
  have ok: "race_ok m n r" using split_ok [of m k caps io nr evs o' g] by (simp add: min.commute n_def r_def)
  show ?thesis
  proof (cases "rc_winner r")
    case None
    from drain_finishes [OF ok None, of io nr "[0..<n]"]
    have r1: "race_ok m n ?r1" "rc_pending ?r1 = rc_pending r" "rc_winner ?r1 = None"
      "\<And>i. i < n \<Longrightarrow> i \<in> set (rc_pending r) \<Longrightarrow> is_finished ?r1 i"
      by (simp_all add: drain_def Let_def)
    have fin: "filter (is_finished ?r1) (rc_pending r) = rc_pending r"
      using r1(4) race_okD(4) [OF ok] by (simp add: filter_id_conv)
    have "rc_pending r' = []"
      using race_okD(2) [OF ok] r1(2,3) fin by (cases "rc_pending r") (auto simp: collect_def r'_def)
    then show ?thesis by simp
  next
    case (Some i)
    have keep: "rc_winner (race_step io nr m e q) = rc_winner q" if "rc_winner q \<noteq> None" for e q
      using that by (cases e) (auto simp: collect_def)
    have "rc_winner (run_race io nr m es q) = rc_winner q" if "rc_winner q \<noteq> None" for es q
      using that unfolding run_race_def by (induction es arbitrary: q) (simp_all add: keep)
    with Some have "rc_winner ?r1 = Some i" by simp
    then have "rc_winner r' = Some i" by (simp add: collect_def r'_def)
    then show ?thesis by simp
  qed
qed

lemma drained_split:
  "execute_time_split io nr k m o' caps
     (evs @ drain m (min k (length caps)) @
       [Collect (rc_pending (run_race io nr m evs (start_race io (split_branches io k o' caps) g)))]) g \<noteq> None"
  using drained_race [where io = io and nr = nr and k = k and m = m and o' = o' and caps = caps
      and evs = evs and g = g]
  by (auto simp: execute_time_split_def Let_def run_race_append run_race_def split: option.split)

text \<open>
  C29: A time split is never stuck: at every point of the race, whatever has happened so far, giving each
  branch its turns, landing its threads and collecting the finished branches yields a result, because the
  hop limit ends every branch.
\<close>

theorem time_split_never_stuck:
  "execute_time_split io nr k m o' caps
     (evs @ drain m (min k (length caps)) @
       [Collect (rc_pending (run_race io nr m evs (start_race io (split_branches io k o' caps) g)))]) g \<noteq> None"
  by (rule drained_split)


end
