(* ===== verification/Planner.thy ===== *)
theory Planner
  imports Discovery Organism
begin

text \<open>
  The components of \<open>src/prismpipe/engine/__init__.py\<close> that choose: \<open>PipelineEvolver\<close> (the best
  recorded pipeline of an intent), \<open>IntentPlanner\<close> (capabilities for a text by keyword),
  \<open>GravityEngine\<close> (the cluster that has the data) and \<open>CostOptimizer\<close> (a node by cost).
\<close>

section \<open>PipelineEvolver\<close>

record pipe_stats =
  ps_executions :: nat
  ps_latency :: rat
  ps_failures :: nat

record evolver =
  ev_performance :: "pipe_stats pdict"
  ev_optimal :: "string list pdict"
  ev_intents :: "string list list pdict"

definition new_evolver :: evolver where
  "new_evolver = \<lparr>ev_performance = [], ev_optimal = [], ev_intents = []\<rparr>"

definition pipeline_key :: "string list \<Rightarrow> string" where
  "pipeline_key p = join ''->'' p"

definition zero_stats :: pipe_stats where
  "zero_stats = \<lparr>ps_executions = 0, ps_latency = 0, ps_failures = 0\<rparr>"

definition stats_of :: "evolver \<Rightarrow> string list \<Rightarrow> pipe_stats" where
  "stats_of ev p =
     (case map_of (ev_performance ev) (pipeline_key p) of Some s \<Rightarrow> s | None \<Rightarrow> zero_stats)"

definition record_pipeline :: "string list \<Rightarrow> rat \<Rightarrow> bool \<Rightarrow> evolver \<Rightarrow> evolver" where
  "record_pipeline p latency success ev =
     (let s = stats_of ev p
      in ev\<lparr>ev_performance := AList.update (pipeline_key p)
             \<lparr>ps_executions = ps_executions s + 1, ps_latency = ps_latency s + latency,
              ps_failures = (if success then ps_failures s else ps_failures s + 1)\<rparr>
             (ev_performance ev)\<rparr>)"

definition register_intent_pipeline :: "org_intent \<Rightarrow> string list \<Rightarrow> evolver \<Rightarrow> evolver" where
  "register_intent_pipeline i p ev =
     (let k = intent_str i; ps = items_at k (ev_intents ev)
      in ev\<lparr>ev_intents := AList.update k (if p \<in> set ps then ps else ps @ [p]) (ev_intents ev)\<rparr>)"

definition get_optimal_pipeline :: "org_intent \<Rightarrow> evolver \<Rightarrow> string list option" where
  "get_optimal_pipeline i ev = map_of (ev_optimal ev) (intent_str i)"

definition success_rate :: "pipe_stats \<Rightarrow> rat" where
  "success_rate s = 1 - of_nat (ps_failures s) / of_nat (ps_executions s)"

definition score :: "evolver \<Rightarrow> string list \<Rightarrow> rat" where
  "score ev p =
     (let s = stats_of ev p
      in if ps_executions s = 0 then 1/2
         else success_rate s * 1000 / (ps_latency s / of_nat (ps_executions s) + 100))"

text \<open>Reading the default dictionary creates the entry of a pipeline that was never recorded.\<close>

definition touch :: "string list \<Rightarrow> evolver \<Rightarrow> evolver" where
  "touch p ev = ev\<lparr>ev_performance := AList.update (pipeline_key p) (stats_of ev p) (ev_performance ev)\<rparr>"

definition evolve :: "org_intent \<Rightarrow> string list list option \<Rightarrow> evolver \<Rightarrow> string list \<times> evolver" where
  "evolve i available ev =
     (let k = intent_str i;
          ps = (case available of Some (p # ps) \<Rightarrow> p # ps | _ \<Rightarrow> items_at k (ev_intents ev))
      in if ps = [] then ([], ev)
         else let best = hd (sort_desc (score ev) ps)
              in (best, (fold touch ps ev)\<lparr>ev_optimal := AList.update k best (ev_optimal ev)\<rparr>))"

definition performance_report :: "evolver \<Rightarrow> (nat \<times> rat \<times> rat) pdict" where
  "performance_report ev =
     map (\<lambda>(k, s). (k, ps_executions s, ps_latency s / of_nat (ps_executions s), success_rate s))
       (filter (\<lambda>(k, s). ps_executions s > 0) (ev_performance ev))"

text \<open>Touching a pipeline changes no statistics.\<close>

lemma stats_touch [simp]: "stats_of (touch p ev) q = stats_of ev q"
  by (auto simp: touch_def stats_of_def dict_simps)

lemma stats_touches [simp]: "stats_of (fold touch ps ev) q = stats_of ev q"
  by (induction ps arbitrary: ev) auto

lemma stats_record:
  "pipeline_key p = pipeline_key q \<Longrightarrow>
     ps_executions (stats_of (record_pipeline p l s ev) q) = Suc (ps_executions (stats_of ev q))"
  by (simp add: record_pipeline_def stats_of_def Let_def dict_simps)

lemma score_cong: "(\<And>q. stats_of ev q = stats_of ev' q) \<Longrightarrow> score ev p = score ev' p"
  by (simp add: score_def)

text \<open>
  Note: Evolution picks, of the candidate pipelines, one with the highest score, the earliest of several;
  remembers it as the optimum of the intent, and evolving again without new recordings repeats the choice.
\<close>

theorem evolve_picks_best:
  assumes "evolve i (Some ps) ev = (best, ev')" "ps \<noteq> []"
  shows "(\<exists>as bs. ps = as @ best # bs \<and> (\<forall>p \<in> set as. score ev p < score ev best)) \<and>
    (\<forall>p \<in> set ps. score ev p \<le> score ev best) \<and> get_optimal_pipeline i ev' = Some best \<and>
    fst (evolve i (Some ps) ev') = best"
proof -
  from assms have best: "best = hd (sort_desc (score ev) ps)"
    and ev': "ev' = (fold touch ps ev)\<lparr>ev_optimal := AList.update (intent_str i) best (ev_optimal ev)\<rparr>"
    by (auto simp: evolve_def Let_def split: list.splits)
  have m: "first_min (\<lambda>x. - score ev x) ps = Some best"
    using hd_sort_desc [OF assms(2), of "score ev"] by (simp add: best first_max_def)
  have "score ev' = score ev"
    by (rule ext, rule score_cong) (simp add: ev' stats_of_def, simp add: stats_of_def [symmetric])
  then have "fst (evolve i (Some ps) ev') = best"
    using assms(2) by (cases ps) (simp_all add: evolve_def Let_def best)
  moreover have "get_optimal_pipeline i ev' = Some best"
    by (simp add: get_optimal_pipeline_def ev' dict_simps)
  moreover have "\<exists>as bs. ps = as @ best # bs \<and> (\<forall>p \<in> set as. score ev p < score ev best)"
    using first_min_first [OF m] by simp
  moreover have "\<forall>p \<in> set ps. score ev p \<le> score ev best" using first_min_le [OF m] by simp
  ultimately show ?thesis by blast
qed

theorem evolve_picks_best_witness:
  "fst (evolve (Inr ''q'') (Some [[''a''], [''b'']]) (record_pipeline [''b''] 100 True new_evolver)) = [''b'']"
proof -
  let ?ev = "record_pipeline [''b''] 100 True new_evolver"
  obtain best ev' where e: "evolve (Inr ''q'') (Some [[''a''], [''b'']]) ?ev = (best, ev')" by (metis surj_pair)
  have s: "score ?ev [''a''] = 1/2" "score ?ev [''b''] = 5"
    by (simp_all add: score_def stats_of_def record_pipeline_def new_evolver_def zero_stats_def
        pipeline_key_def success_rate_def Let_def)
  note c = evolve_picks_best [OF e]
  from c have "best \<in> set [[''a''], [''b'']]" by (metis in_set_conv_decomp list.discI)
  moreover from c have "score ?ev [''b''] \<le> score ?ev best" by simp
  ultimately show ?thesis using s e by auto
qed

section \<open>IntentPlanner\<close>

record intent_planner =
  ip_mappings :: "string list pdict"
  ip_descriptions :: "string pdict"
  ip_keywords :: "string list pdict"

definition new_intent_planner :: intent_planner where
  "new_intent_planner = \<lparr>ip_mappings = [], ip_descriptions = [], ip_keywords = []\<rparr>"

definition add_keyword :: "string \<Rightarrow> string \<Rightarrow> intent_planner \<Rightarrow> intent_planner" where
  "add_keyword c kw ip =
     (let ms = items_at kw (ip_mappings ip)
      in ip\<lparr>ip_keywords := add_item (lower kw) c (ip_keywords ip),
            ip_mappings := AList.update kw (if c \<in> set ms then ms else ms @ [c]) (ip_mappings ip)\<rparr>)"

definition register_planner_capability ::
    "string \<Rightarrow> string \<Rightarrow> string list \<Rightarrow> intent_planner \<Rightarrow> intent_planner" where
  "register_planner_capability c description keywords ip =
     fold (add_keyword c) keywords
       (ip\<lparr>ip_descriptions := AList.update c description (ip_descriptions ip)\<rparr>)"

text \<open>The matches: every capability of a keyword that is a substring, with the keyword's length.\<close>

definition matched :: "intent_planner \<Rightarrow> string \<Rightarrow> (string \<times> nat) list" where
  "matched ip text =
     concat (map (\<lambda>(kw, cs). if contains kw text then map (\<lambda>c. (c, length kw)) cs else [])
       (ip_keywords ip))"

definition plan_intent :: "intent_planner \<Rightarrow> string \<Rightarrow> string list" where
  "plan_intent ip intent =
     unique [] (map fst (sort_desc (\<lambda>(c, n). of_nat n) (matched ip (lower intent))))"

definition plan_with_fallback :: "intent_planner \<Rightarrow> string \<Rightarrow> string list \<Rightarrow> string list" where
  "plan_with_fallback ip intent fallback =
     (if plan_intent ip intent \<noteq> [] then plan_intent ip intent else fallback)"

text \<open>The length of the longest keyword of a capability that the text contains.\<close>

definition best_match :: "(string \<times> nat) list \<Rightarrow> string \<Rightarrow> nat" where
  "best_match ms c = Max {n. (c, n) \<in> set ms}"

lemma finite_matches [simp]: "finite {n. (c, n) \<in> set ms}"
  by (rule finite_subset [of _ "snd ` set ms"]) force+

text \<open>In a list sorted by descending length, a capability first occurs with its best match.\<close>

lemma unique_by_best:
  assumes "sorted_wrt (\<lambda>a b. snd b \<le> snd a) ms"
  shows "sorted_wrt (\<lambda>a b. Max {n. (b, n) \<in> set ms} \<le> Max {n. (a, n) \<in> set ms}) (unique seen (map fst ms))"
proof -
  have head: "Max {n. (b, n) \<in> set (pre @ (a, k) # ms)} \<le> Max {n. (a, n) \<in> set (pre @ (a, k) # ms)}"
    if sorted: "sorted_wrt (\<lambda>a b. snd b \<le> snd a) (pre @ (a, k) # ms)"
      and b: "b \<notin> fst ` set pre" "b \<in> fst ` set ms"
    for pre a k ms b
  proof -
    have "n \<le> k" if n: "(b, n) \<in> set (pre @ (a, k) # ms)" for n
      using sorted b n by (force simp: sorted_wrt_append)
    moreover have "{n. (b, n) \<in> set (pre @ (a, k) # ms)} \<noteq> {}" using b(2) by force
    ultimately have "Max {n. (b, n) \<in> set (pre @ (a, k) # ms)} \<le> k" by (subst Max_le_iff) auto
    also have "k \<le> Max {n. (a, n) \<in> set (pre @ (a, k) # ms)}" by (rule Max_ge) auto
    finally show ?thesis .
  qed
  have "sorted_wrt (\<lambda>a b. Max {n. (b, n) \<in> set (pre @ ms)} \<le> Max {n. (a, n) \<in> set (pre @ ms)})
      (unique seen (map fst ms))"
    if "sorted_wrt (\<lambda>a b. snd b \<le> snd a) (pre @ ms)" "fst ` set pre \<subseteq> set seen" for pre ms
    using that
  proof (induction ms arbitrary: pre seen)
    case Nil
    then show ?case by simp
  next
    case (Cons p ms)
    obtain a k where p: "p = (a, k)" by (cases p)
    have rest: "sorted_wrt (\<lambda>a b. Max {n. (b, n) \<in> set (pre @ p # ms)} \<le> Max {n. (a, n) \<in> set (pre @ p # ms)})
        (unique seen' (map fst ms))" if "insert a (set seen) \<subseteq> set seen'" for seen'
      using Cons.IH [of "pre @ [p]" seen'] Cons.prems that by (auto simp: p)
    show ?case
    proof (cases "a \<in> set seen")
      case True
      then show ?thesis using rest [of seen] by (auto simp: p)
    next
      case False
      have "Max {n. (b, n) \<in> set (pre @ p # ms)} \<le> Max {n. (a, n) \<in> set (pre @ p # ms)}"
        if "b \<in> set (unique (a # seen) (map fst ms))" for b
        using that head [of pre a k ms b] Cons.prems by (auto simp: p set_unique)
      with False show ?thesis using rest [of "a # seen"] by (simp add: p)
    qed
  qed
  from this [of "[]" ms] assms show ?thesis by simp
qed

text \<open>
  Note: A plan lists, without repetition, exactly the capabilities that have a keyword occurring in the
  intent's text (in lower case), ordered by the length of their longest such keyword.
\<close>

theorem plan_is_ranked_match:
  "distinct (plan_intent ip text) \<and>
   set (plan_intent ip text) =
     {c. \<exists>(kw, cs) \<in> set (ip_keywords ip). contains kw (lower text) \<and> c \<in> set cs} \<and>
   sorted_wrt (\<lambda>a b. best_match (matched ip (lower text)) b \<le> best_match (matched ip (lower text)) a)
     (plan_intent ip text)"
proof (intro conjI)
  let ?ms = "matched ip (lower text)"
  let ?s = "sort_desc (\<lambda>(c, n). of_nat n) ?ms"
  show "distinct (plan_intent ip text)" by (simp add: plan_intent_def distinct_unique)
  have "set (plan_intent ip text) = fst ` set ?ms" by (simp add: plan_intent_def set_unique)
  also have "\<dots> = {c. \<exists>(kw, cs) \<in> set (ip_keywords ip). contains kw (lower text) \<and> c \<in> set cs}"
    by (force simp: matched_def split: if_splits)
  finally show "set (plan_intent ip text) = \<dots>" .
  have "sorted (map (\<lambda>x. - (of_nat (snd x) :: rat)) ?s)" 
    using sort_desc_sorted [of "\<lambda>(c, n). of_nat n" ?ms] by (simp add: case_prod_beta)
  then have "sorted_wrt (\<lambda>a b. snd b \<le> snd a) ?s"
    by (simp add: sorted_map)
  from unique_by_best [OF this, of "[]"]
  show "sorted_wrt (\<lambda>a b. best_match ?ms b \<le> best_match ?ms a) (plan_intent ip text)"
    by (simp add: plan_intent_def best_match_def)
qed

section \<open>GravityEngine\<close>

record gravity =
  gv_locations :: "string pdict"
  gv_capabilities :: "string list pdict"

definition new_gravity :: gravity where
  "new_gravity = \<lparr>gv_locations = [], gv_capabilities = []\<rparr>"

definition register_data_location :: "string \<Rightarrow> string \<Rightarrow> gravity \<Rightarrow> gravity" where
  "register_data_location i cluster g = g\<lparr>gv_locations := AList.update i cluster (gv_locations g)\<rparr>"

definition register_cluster_capabilities :: "string \<Rightarrow> string list \<Rightarrow> gravity \<Rightarrow> gravity" where
  "register_cluster_capabilities cluster caps g =
     g\<lparr>gv_capabilities := AList.update cluster caps (gv_capabilities g)\<rparr>"

definition points_of :: "string \<Rightarrow> rat pdict \<Rightarrow> rat" where
  "points_of c scores = (case map_of scores c of Some x \<Rightarrow> x | None \<Rightarrow> 0)"

definition add_points :: "string \<Rightarrow> rat \<Rightarrow> rat pdict \<Rightarrow> rat pdict" where
  "add_points c x scores = AList.update c (points_of c scores + x) scores"

definition data_points :: "gravity \<Rightarrow> string list \<Rightarrow> rat pdict \<Rightarrow> rat pdict" where
  "data_points g required scores =
     fold (\<lambda>i sc. if truthy_opt (map_of (gv_locations g) i)
                  then add_points (the (map_of (gv_locations g) i)) 1 sc else sc) required scores"

definition cluster_points :: "string list \<Rightarrow> string \<times> string list \<Rightarrow> rat pdict \<Rightarrow> rat pdict" where
  "cluster_points preferred entry scores =
     fold (\<lambda>p. if p \<in> set (snd entry) then add_points (fst entry) (1/2) else (\<lambda>x. x)) preferred scores"

definition capability_points :: "gravity \<Rightarrow> string list \<Rightarrow> rat pdict \<Rightarrow> rat pdict" where
  "capability_points g preferred scores = fold (cluster_points preferred) (gv_capabilities g) scores"

definition get_optimal_cluster :: "gravity \<Rightarrow> string list \<Rightarrow> string list \<Rightarrow> string option" where
  "get_optimal_cluster g required preferred =
     map_option fst (first_max snd (capability_points g preferred (data_points g required [])))"

text \<open>What a cluster is worth: its required data, and half for every preferred capability it has.\<close>

definition data_worth :: "gravity \<Rightarrow> string list \<Rightarrow> string \<Rightarrow> nat" where
  "data_worth g required c = length (filter (\<lambda>i. c \<noteq> [] \<and> map_of (gv_locations g) i = Some c) required)"

definition capability_worth :: "gravity \<Rightarrow> string list \<Rightarrow> string \<Rightarrow> nat" where
  "capability_worth g preferred c =
     (case map_of (gv_capabilities g) c of
        Some caps \<Rightarrow> length (filter (\<lambda>p. p \<in> set caps) preferred) | None \<Rightarrow> 0)"

lemma points_add: "points_of c (add_points d x sc) = points_of c sc + (if c = d then x else 0)"
  by (simp add: points_of_def add_points_def dict_simps)

definition scored :: "string \<Rightarrow> rat pdict \<Rightarrow> bool" where
  "scored c sc = (map_of sc c \<noteq> None)"

lemma scored_add: "scored c (add_points d x sc) = (c = d \<or> scored c sc)"
  by (simp add: scored_def add_points_def dict_simps)

lemma wf_add: "wf_dict sc \<Longrightarrow> wf_dict (add_points d x sc)"
  by (simp add: add_points_def dict_simps)

lemma data_points_spec:
  "wf_dict sc \<Longrightarrow> wf_dict (data_points g req sc) \<and>
     points_of c (data_points g req sc) = points_of c sc + of_nat (data_worth g req c) \<and>
     (scored c (data_points g req sc) \<longleftrightarrow> scored c sc \<or> data_worth g req c > 0)"
proof (induction req arbitrary: sc)
  case Nil
  then show ?case by (simp add: data_points_def data_worth_def)
next
  case (Cons i req)
  let ?sc = "if truthy_opt (map_of (gv_locations g) i)
    then add_points (the (map_of (gv_locations g) i)) 1 sc else sc"
  have step: "data_points g (i # req) sc = data_points g req ?sc" by (simp add: data_points_def)
  have "wf_dict ?sc" using Cons.prems by (simp add: wf_add)
  from Cons.IH [OF this] show ?case
    unfolding step
    by (cases "map_of (gv_locations g) i") (auto simp: points_add scored_add data_worth_def truthy_opt_iff)
qed

lemma cluster_points_spec:
  "wf_dict sc \<Longrightarrow> wf_dict (cluster_points pref (d, caps) sc) \<and>
     points_of c (cluster_points pref (d, caps) sc) =
       points_of c sc + (if c = d then of_nat (length (filter (\<lambda>p. p \<in> set caps) pref)) / 2 else 0) \<and>
     (scored c (cluster_points pref (d, caps) sc) \<longleftrightarrow>
       scored c sc \<or> (c = d \<and> filter (\<lambda>p. p \<in> set caps) pref \<noteq> []))"
proof (induction pref arbitrary: sc)
  case Nil
  then show ?case by (simp add: cluster_points_def)
next
  case (Cons p ps)
  let ?sc = "if p \<in> set caps then add_points d (1/2) sc else sc"
  have step: "cluster_points (p # ps) (d, caps) sc = cluster_points ps (d, caps) ?sc"
    by (simp add: cluster_points_def)
  have "wf_dict ?sc" using Cons.prems by (simp add: wf_add)
  from Cons.IH [OF this] show ?case
    unfolding step by (cases "p \<in> set caps"; cases "c = d") (simp_all add: points_add scored_add add_divide_distrib)
qed

definition entry_worth :: "string list \<Rightarrow> string list pdict \<Rightarrow> string \<Rightarrow> nat" where
  "entry_worth pref d c =
     (case map_of d c of Some caps \<Rightarrow> length (filter (\<lambda>p. p \<in> set caps) pref) | None \<Rightarrow> 0)"

lemma entries_spec:
  "wf_dict sc \<Longrightarrow> wf_dict d \<Longrightarrow>
     wf_dict (fold (cluster_points pref) d sc) \<and>
     points_of c (fold (cluster_points pref) d sc) = points_of c sc + of_nat (entry_worth pref d c) / 2 \<and>
     (scored c (fold (cluster_points pref) d sc) \<longleftrightarrow> scored c sc \<or> entry_worth pref d c > 0)"
proof (induction d arbitrary: sc)
  case Nil
  then show ?case by (simp add: entry_worth_def)
next
  case (Cons q d)
  obtain k caps where q: "q = (k, caps)" by (cases q)
  have "map_of d k = None" using Cons.prems(2) q by (simp add: map_of_eq_None_iff)
  then have fresh: "entry_worth pref d k = 0" by (simp add: entry_worth_def)
  have wq: "entry_worth pref (q # d) c =
      (if c = k then length (filter (\<lambda>p. p \<in> set caps) pref) else entry_worth pref d c)"
    by (simp add: entry_worth_def q)
  note s = cluster_points_spec [OF Cons.prems(1), of pref k caps c]
  have wf: "wf_dict (cluster_points pref (k, caps) sc)" "wf_dict d" using s Cons.prems(2) by auto
  from Cons.IH [OF wf] s fresh show ?case unfolding wq by (cases "c = k") (simp_all add: q)
qed

lemma capability_points_spec:
  assumes "wf_dict sc" "wf_dict (gv_capabilities g)"
  shows "wf_dict (capability_points g pref sc) \<and>
     points_of c (capability_points g pref sc) = points_of c sc + of_nat (capability_worth g pref c) / 2 \<and>
     (scored c (capability_points g pref sc) \<longleftrightarrow> scored c sc \<or> capability_worth g pref c > 0)"
  using entries_spec [OF assms]
  by (simp add: capability_points_def capability_worth_def entry_worth_def)

text \<open>The engine names the cluster worth most, and none only when every cluster is worth nothing.\<close>

lemma optimal_cluster_worth:
  fixes req pref
  assumes "wf_dict (gv_capabilities g)"
  defines "worth \<equiv> \<lambda>c. of_nat (data_worth g req c) + of_nat (capability_worth g pref c) / (2 :: rat)"
  shows "case get_optimal_cluster g req pref of
      Some c \<Rightarrow> 0 < worth c \<and> (\<forall>d. worth d \<le> worth c)
    | None \<Rightarrow> \<forall>d. worth d = 0"
proof -
  let ?sc = "capability_points g pref (data_points g req [])"
  have dp: "wf_dict (data_points g req [])"
    "points_of c (data_points g req []) = of_nat (data_worth g req c)"
    "scored c (data_points g req []) \<longleftrightarrow> data_worth g req c > 0" for c
    using data_points_spec [of "[]" g req c] by (simp_all add: points_of_def scored_def)
  have sc: "wf_dict ?sc" "points_of c ?sc = worth c"
    "scored c ?sc \<longleftrightarrow> data_worth g req c > 0 \<or> capability_worth g pref c > 0" for c
    using capability_points_spec [OF dp(1) assms(1), of pref c] dp(2,3) [of c] by (simp_all add: worth_def)
  have entry: "worth c = x" if "(c, x) \<in> set ?sc" for c x
    using that sc(2) [of c] map_of_is_SomeI [OF sc(1) that] by (simp add: points_of_def)
  have zero: "worth d = 0" if "\<not> scored d ?sc" for d
    using that sc(3) [of d] by (simp add: worth_def)
  show ?thesis
  proof (cases "first_max snd ?sc")
    case None
    then have "?sc = []" by (simp add: first_max_def)
    then have "\<not> scored d ?sc" for d by (simp add: scored_def)
    with zero None show ?thesis by (simp add: get_optimal_cluster_def)
  next
    case (Some p)
    obtain c x where p: "p = (c, x)" by (cases p)
    from Some have "p \<in> set ?sc" by (auto simp: first_max_def dest: first_min_in)
    with p have c: "worth c = x" "data_worth g req c > 0 \<or> capability_worth g pref c > 0"
      using entry sc(3) [of c] by (auto simp: scored_def map_of_eq_None_iff rev_image_eqI)
    then have pos: "0 < worth c" by (auto simp: worth_def add_pos_nonneg add_nonneg_pos)
    have "worth d \<le> worth c" for d
    proof (cases "scored d ?sc")
      case True
      then obtain y where y: "(d, y) \<in> set ?sc" by (auto simp: scored_def dest: map_of_SomeD)
      with first_min_le [of "\<lambda>x. - snd x" ?sc p "(d, y)"] Some p have "y \<le> x" by (simp add: first_max_def)
      with entry [OF y] c show ?thesis by simp
    qed (use pos zero in \<open>simp add: less_imp_le\<close>)
    with Some p pos show ?thesis by (simp add: get_optimal_cluster_def)
  qed
qed

section \<open>CostOptimizer\<close>

record node_cost =
  nc_capability :: string
  nc_cost_per_call :: rat
  nc_latency_ms :: rat
  nc_reliability :: rat

definition register_cost :: "node_cost \<Rightarrow> node_cost list pdict \<Rightarrow> node_cost list pdict" where
  "register_cost c costs = add_item (nc_capability c) c costs"

definition balanced_cost :: "node_cost \<Rightarrow> rat" where
  "balanced_cost c =
     nc_latency_ms c * (4/10) + nc_cost_per_call c * 100 * (3/10) + (1 - nc_reliability c) * 100 * (3/10)"

definition select_node :: "string \<Rightarrow> string \<Rightarrow> node_cost list pdict \<Rightarrow> node_cost option" where
  "select_node c mode costs =
     (case items_at c costs of
        [] \<Rightarrow> None
      | x # xs \<Rightarrow>
          if mode = ''fastest'' then first_min nc_latency_ms (x # xs)
          else if mode = ''cheapest'' then first_min nc_cost_per_call (x # xs)
          else if mode = ''balanced'' then first_min balanced_cost (x # xs)
          else Some x)"

lemma select_cheapest:
  "select_node c ''cheapest'' costs = Some best \<Longrightarrow> x \<in> set (items_at c costs) \<Longrightarrow>
     nc_cost_per_call best \<le> nc_cost_per_call x"
  by (auto simp: select_node_def dest: first_min_le split: list.splits simp del: first_min.simps)

lemma select_total: "select_node c mode costs = None \<longleftrightarrow> items_at c costs = []"
proof (cases "items_at c costs")
  case (Cons x xs)
  have "first_min f (x # xs) \<noteq> None" for f using first_min_None [of f "x # xs"] by blast
  with Cons show ?thesis
    by (simp add: select_node_def del: first_min.simps first_min_None not_None_eq)
qed (simp add: select_node_def)

end
