(* ===== verification/Replay.thy ===== *)
theory Replay
  imports Discovery Node Router Organism
begin

text \<open>
  The engine's tools over single requests (\<open>src/prismpipe/engine/__init__.py\<close>): snapshots, replay and
  forks (\<open>ReplayEngine\<close>), state differences (\<open>DiffEngine\<close>), remote endpoints (\<open>RemoteExecutor\<close>),
  progressive responses (\<open>StreamManager\<close>) and parallel branches (\<open>ParallelExecutor\<close>).

  A snapshot's history and plan are dumped to plain data and read back field by field, so the records
  themselves stand for both. The HTTP transport of a remote endpoint is an argument.
\<close>

section \<open>ReplayEngine\<close>

record snapshot =
  sn_id :: string
  sn_intent :: intent
  sn_input :: pval
  sn_state :: dict
  sn_history :: "history_entry list"
  sn_plan :: plan
  sn_next :: "string option"
  sn_timestamp :: rat

record replay_engine =
  re_snapshots :: "snapshot pdict"
  re_forks :: "string list pdict"

definition new_replay_engine :: replay_engine where
  "new_replay_engine = \<lparr>re_snapshots = [], re_forks = []\<rparr>"

definition take_snapshot ::
    "string \<Rightarrow> rat \<Rightarrow> envelope \<Rightarrow> string option \<Rightarrow> replay_engine \<Rightarrow> string \<times> replay_engine" where
  "take_snapshot uid now e label r =
     (let sid = or_str label (''snap_'' @ uid)
      in (sid, r\<lparr>re_snapshots := AList.update sid
             \<lparr>sn_id = env_id e, sn_intent = env_intent e, sn_input = env_input e,
              sn_state = env_state e, sn_history = env_history e, sn_plan = env_plan e,
              sn_next = env_next e, sn_timestamp = now\<rparr> (re_snapshots r),
           re_forks := add_item (env_id e) sid (re_forks r)\<rparr>))"

definition restore_snapshot :: "string \<Rightarrow> replay_engine \<Rightarrow> envelope option" where
  "restore_snapshot sid r =
     map_option (\<lambda>sn. \<lparr>env_id = sn_id sn, env_intent = sn_intent sn, env_input = sn_input sn,
        env_state = sn_state sn, env_history = sn_history sn, env_metadata = empty_metadata,
        env_plan = sn_plan sn, env_next = sn_next sn, env_error = None, env_terminated = False,
        env_parent_id = None\<rparr>) (map_of (re_snapshots r) sid)"

text \<open>One more than the position of the first entry of the capability, or 0.\<close>

fun replay_index :: "string \<Rightarrow> history_entry list \<Rightarrow> nat" where
  "replay_index c [] = 0"
| "replay_index c (h # hs) =
     (if he_capability h = c then 1
      else case replay_index c hs of 0 \<Rightarrow> 0 | Suc n \<Rightarrow> Suc (Suc n))"

text \<open>\<open>xs[i - 1]\<close>: the index -1 is the last element.\<close>

definition entry_before :: "nat \<Rightarrow> history_entry list \<Rightarrow> history_entry" where
  "entry_before i hs = (if i = 0 then last hs else hs ! (i - 1))"

definition replay_from :: "envelope \<Rightarrow> string \<Rightarrow> envelope" where
  "replay_from e c =
     (let i = replay_index c (env_history e);
          st = (if i < length (env_history e)
                then (case he_input_snapshot (entry_before i (env_history e)) of
                        Some d \<Rightarrow> if d \<noteq> [] then d else env_state e
                      | None \<Rightarrow> env_state e)
                else env_state e)
      in e\<lparr>env_state := st, env_history := take i (env_history e), env_terminated := False,
           env_error := None, env_next := Some c\<rparr>)"

definition fork_envelope ::
    "string \<Rightarrow> rat \<Rightarrow> envelope \<Rightarrow> dict \<Rightarrow> replay_engine \<Rightarrow> envelope \<times> replay_engine" where
  "fork_envelope uid now e patch r =
     (let fid = ''fork_'' @ uid;
          e' = \<lparr>env_id = fid, env_intent = env_intent e, env_input = env_input e,
                env_state = dict_update (env_state e) patch, env_history = env_history e,
                env_metadata = empty_metadata\<lparr>md_correlation_id := Some (env_id e),
                                               md_trace_id := md_trace_id (env_metadata e)\<rparr>,
                env_plan = \<lparr>plan_capabilities = plan_capabilities (env_plan e),
                            plan_index = plan_index (env_plan e)\<rparr>,
                env_next = env_next e, env_error = None, env_terminated = False,
                env_parent_id = Some (env_id e)\<rparr>
      in (e', snd (take_snapshot uid now e' (Some fid) r)))"

text \<open>What a snapshot keeps: everything but the metadata, the outcome and the parent.\<close>

lemma restore_taken:
  "take_snapshot uid now e label r = (sid, r') \<Longrightarrow>
     restore_snapshot sid r' = Some (e\<lparr>env_metadata := empty_metadata, env_error := None,
       env_terminated := False, env_parent_id := None\<rparr>)"
  by (auto simp: take_snapshot_def restore_snapshot_def Let_def dict_simps)

lemma replay_index_first:
  "c \<notin> he_capability ` set as \<Longrightarrow> he_capability h = c \<Longrightarrow> replay_index c (as @ h # bs) = Suc (length as)"
  by (induction as) auto

lemma replay_index_absent: "c \<notin> he_capability ` set hs \<Longrightarrow> replay_index c hs = 0"
  by (induction hs) auto

lemma replay_from_entry:
  assumes "env_history e = as @ h # bs" "bs \<noteq> []" "c \<notin> he_capability ` set as" "he_capability h = c"
    and "he_input_snapshot h = Some d" "d \<noteq> []"
  shows "env_state (replay_from e c) = d"
  using replay_index_first [OF assms(3,4), of bs] assms(1,2,5,6)
  by (simp add: replay_from_def entry_before_def nth_append Let_def)

lemma replay_from_absent:
  assumes "c \<notin> he_capability ` set (env_history e)" "env_history e \<noteq> []"
    and "he_input_snapshot (last (env_history e)) = Some d" "d \<noteq> []"
  shows "env_state (replay_from e c) = d \<and> env_history (replay_from e c) = []"
  using replay_index_absent [OF assms(1)] assms(2-4)
  by (simp add: replay_from_def entry_before_def Let_def)

text \<open>
  Note: Replaying from a capability does not undo it. The snapshot of a history entry is taken after the
  node has run, so the replayed request starts from what the node produced and runs it a second time on
  its own output; a replay from a capability that never ran starts from the last entry's state with an
  empty history.
\<close>

theorem replay_runs_on_own_output:
  assumes "nd_process nd e = Returned r" "env_history (res_envelope r) = env_history e"
    and "env_state (res_envelope r) \<noteq> []" "nd_capability nd \<notin> he_capability ` set (env_history e)"
    and "env_history later = env_history (res_envelope (execute_sync rt t nd e)) @ h # hs"
    and "c \<notin> he_capability ` set (env_history later)" "he_input_snapshot (last (h # hs)) = Some (k # d)"
  shows "env_state (replay_from later (nd_capability nd)) = env_state (res_envelope r) \<and>
    env_next (replay_from later (nd_capability nd)) = Some (nd_capability nd) \<and>
    env_state (replay_from later c) = k # d \<and> env_history (replay_from later c) = []"
proof -
  let ?h = "last (env_history (res_envelope (execute_sync rt t nd e)))"
  have hist: "env_history (res_envelope (execute_sync rt t nd e)) = env_history e @ [?h]"
    and h: "he_capability ?h = nd_capability nd" "he_input_snapshot ?h = Some (env_state (res_envelope r))"
    using assms(1,2) by (simp_all add: execute_sync_def finalize_result_def env_record_def Let_def)
  have later: "env_history later = env_history e @ ?h # h # hs"
    using assms(5) hist by simp
  have "env_state (replay_from later (nd_capability nd)) = env_state (res_envelope r)"
    by (rule replay_from_entry [OF later _ assms(4) h assms(3)]) simp
  moreover have "env_state (replay_from later c) = k # d \<and> env_history (replay_from later c) = []"
    by (rule replay_from_absent [OF assms(6)]) (use assms(7) later in auto)
  ultimately show ?thesis by (simp add: replay_from_def Let_def)
qed

text \<open>A node that increments a counter: replaying it increments the counter again.\<close>

definition counting_node :: "string \<Rightarrow> node" where
  "counting_node c = (demo_node ''n'' c None)\<lparr>nd_process := (\<lambda>e. Returned (ok_result (set_next None
     (e\<lparr>env_state := (case map_of (env_state e) ''k'' of
         Some (PInt i) \<Rightarrow> [(''k'', PInt (i + 1))] | _ \<Rightarrow> [(''k'', PInt 1)])\<rparr>))))\<rparr>"

theorem replay_runs_on_own_output_witness:
  "\<exists>later. map_of (env_state (replay_from later ''a'')) ''k'' = Some (PInt 1)"
proof -
  let ?r = "ok_result (set_next None ((demo_env None)\<lparr>env_state := [(''k'', PInt 1)]\<rparr>))"
  let ?h = "\<lparr>he_node_id = ''n'', he_node_type = [], he_capability = ''b'', he_action = [],
    he_timestamp = 0, he_duration_ms = None, he_input_snapshot = Some [(''k'', PInt 2)],
    he_output_snapshot = None\<rparr>"
  have p: "nd_process (counting_node ''a'') (demo_env None) = Returned ?r"
    by (simp add: counting_node_def demo_env_def)
  let ?e1 = "res_envelope (execute_sync demo_runtime 0 (counting_node ''a'') (demo_env None))"
  let ?later = "?e1\<lparr>env_history := env_history ?e1 @ [?h]\<rparr>"
  have caps: "he_capability ` set (env_history ?later) = {''a'', ''b''}"
    by (simp add: execute_sync_def p finalize_result_def env_record_def ok_result_def set_next_def
        demo_env_def counting_node_def demo_node_def Let_def)
  have cap: "nd_capability (counting_node ''a'') = ''a''"
    by (simp add: counting_node_def demo_node_def)
  have h: "env_history ?later = env_history ?e1 @ ?h # []" by simp
  have c: "''c'' \<notin> he_capability ` set (env_history ?later)" using caps by simp
  have st: "env_state (res_envelope ?r) \<noteq> []" by (simp add: ok_result_def set_next_def)
  have hist: "env_history (res_envelope ?r) = env_history (demo_env None)"
    by (simp add: ok_result_def set_next_def)
  have new: "nd_capability (counting_node ''a'') \<notin> he_capability ` set (env_history (demo_env None))"
    by (simp add: demo_env_def)
  have last: "he_input_snapshot (last (?h # [])) = Some ((''k'', PInt 2) # [])" by simp
  have "env_state (replay_from ?later ''a'') = env_state (res_envelope ?r)"
    using replay_runs_on_own_output [OF p hist st new h c last] by (simp add: cap)
  then have "map_of (env_state (replay_from ?later ''a'')) ''k'' = Some (PInt 1)"
    by (simp add: ok_result_def set_next_def)
  then show ?thesis by blast
qed

section \<open>DiffEngine\<close>

record state_diff =
  sd_node_id :: string
  sd_capability :: string
  sd_added :: dict
  sd_modified :: "(pval \<times> pval) pdict"
  sd_removed :: "string list"
  sd_latency_ms :: rat

text \<open>The keys of both states are visited in some order; the model takes the earlier state's first.\<close>

definition compute_diff :: "envelope \<Rightarrow> dict \<Rightarrow> state_diff" where
  "compute_diff e before =
     (let after = env_state e; hist = env_history e
      in \<lparr>sd_node_id = (if hist = [] then ''unknown'' else he_node_id (last hist)),
          sd_capability = (if hist = [] then ''unknown'' else he_capability (last hist)),
          sd_added = filter (\<lambda>(k, v). map_of before k = None) after,
          sd_modified = map (\<lambda>(k, v). (k, v, the (map_of after k)))
            (filter (\<lambda>(k, v). case map_of after k of Some w \<Rightarrow> \<not> py_eq v w | None \<Rightarrow> False) before),
          sd_removed = map fst (filter (\<lambda>(k, v). map_of after k = None) before),
          sd_latency_ms = 0\<rparr>)"

definition record_diff :: "envelope \<Rightarrow> state_diff \<Rightarrow> state_diff list pdict \<Rightarrow> state_diff list pdict" where
  "record_diff e d ds = add_item (env_id e) d ds"

definition diff_timeline :: "string \<Rightarrow> state_diff list pdict \<Rightarrow> state_diff list" where
  "diff_timeline i ds = items_at i ds"

text \<open>Applying a difference to the earlier state.\<close>

definition apply_diff :: "state_diff \<Rightarrow> dict \<Rightarrow> dict" where
  "apply_diff d before =
     dict_update (dict_update (filter (\<lambda>(k, v). k \<notin> set (sd_removed d)) before)
       (map (\<lambda>(k, v, w). (k, w)) (sd_modified d))) (sd_added d)"

lemma map_of_filter_wf:
  "wf_dict d \<Longrightarrow> map_of (filter P d) k =
     (case map_of d k of Some v \<Rightarrow> if P (k, v) then Some v else None | None \<Rightarrow> None)"
proof (induction d)
  case Nil
  then show ?case by simp
next
  case (Cons p d)
  obtain j v where p: "p = (j, v)" by (cases p)
  with Cons.prems have "map_of d j = None" by (auto simp: map_of_eq_None_iff)
  with Cons p show ?case by (auto split: option.splits)
qed

lemma wf_filter: "wf_dict d \<Longrightarrow> wf_dict (filter P d)"
  by (induction d) auto

lemma removed_spec:
  "k \<in> set (sd_removed (compute_diff e before)) \<longleftrightarrow> map_of before k \<noteq> None \<and> map_of (env_state e) k = None"
  by (force simp: compute_diff_def Let_def map_of_eq_None_iff)

lemma added_spec:
  "wf_dict (env_state e) \<Longrightarrow> map_of (sd_added (compute_diff e before)) k =
     (if map_of before k = None then map_of (env_state e) k else None)"
  by (auto simp: compute_diff_def Let_def map_of_filter_wf split: option.splits)

lemma modified_spec:
  assumes "wf_dict before"
  shows "wf_dict (map (\<lambda>(k, v, w). (k, w)) (sd_modified (compute_diff e before))) \<and>
    map_of (map (\<lambda>(k, v, w). (k, w)) (sd_modified (compute_diff e before))) k =
      (case (map_of before k, map_of (env_state e) k) of
         (Some v, Some w) \<Rightarrow> if py_eq v w then None else Some w | _ \<Rightarrow> None)"
proof -
  let ?P = "\<lambda>(k, v). case map_of (env_state e) k of Some w \<Rightarrow> \<not> py_eq v w | None \<Rightarrow> False"
  have eq: "map (\<lambda>(k, v, w). (k, w)) (sd_modified (compute_diff e before)) =
      map (\<lambda>(k, v). (k, the (map_of (env_state e) k))) (filter ?P before)"
    by (auto simp: compute_diff_def Let_def)
  have keyed: "map_of (map (\<lambda>(k, v). (k, f k)) d) k = map_option (\<lambda>v. f k) (map_of d k)"
    for f :: "string \<Rightarrow> pval" and d :: dict by (induction d) auto
  have keys: "map fst (map (\<lambda>(k, v). (k, f k)) d) = map fst d"
    for f :: "string \<Rightarrow> pval" and d :: dict by (induction d) auto
  have "wf_dict (map (\<lambda>(k, v). (k, the (map_of (env_state e) k))) (filter ?P before))"
    unfolding keys by (rule wf_filter [OF assms])
  then show ?thesis
    unfolding eq keyed by (auto simp: map_of_filter_wf [OF assms] split: option.splits)
qed

text \<open>
  Note: A difference loses nothing: applying it to the earlier state gives, key by key, the later state, up to
  replacing a value by an equal one; and the lists of added, modified and removed keys do not overlap.
\<close>

theorem diff_applies:
  assumes "wf_dict before" "wf_dict (env_state e)"
  defines "d \<equiv> compute_diff e before"
  shows "(case (map_of (apply_diff d before) k, map_of (env_state e) k) of
      (Some v, Some w) \<Rightarrow> v = w \<or> py_eq v w | (None, None) \<Rightarrow> True | _ \<Rightarrow> False) \<and>
    set (sd_removed d) \<inter> set (map fst (sd_added d)) = {} \<and>
    set (sd_removed d) \<inter> set (map fst (sd_modified d)) = {} \<and>
    set (map fst (sd_added d)) \<inter> set (map fst (sd_modified d)) = {}"
proof (intro conjI)
  have wf: "wf_dict (sd_added d)"
    using assms(2) by (simp add: d_def compute_diff_def Let_def wf_filter)
  note m = modified_spec [OF assms(1), of e k, folded d_def]
  show "case (map_of (apply_diff d before) k, map_of (env_state e) k) of
      (Some v, Some w) \<Rightarrow> v = w \<or> py_eq v w | (None, None) \<Rightarrow> True | _ \<Rightarrow> False"
    using m added_spec [OF assms(2), of before k, folded d_def] removed_spec [of k e before, folded d_def] assms(1)
    by (auto simp: apply_diff_def map_of_dict_update_wf [OF wf] map_of_dict_update_wf
        map_of_filter_wf map_add_def split: option.splits if_splits)
  show "set (sd_removed d) \<inter> set (map fst (sd_added d)) = {}"
    by (force simp: d_def compute_diff_def Let_def map_of_eq_None_iff)
  show "set (sd_removed d) \<inter> set (map fst (sd_modified d)) = {}"
    by (force simp: d_def compute_diff_def Let_def split: option.splits)
  show "set (map fst (sd_added d)) \<inter> set (map fst (sd_modified d)) = {}"
    by (force simp: d_def compute_diff_def Let_def map_of_eq_None_iff)
qed

theorem diff_applies_witness:
  "map_of (apply_diff (compute_diff (demo_env None) [(''a'', PInt 1)]) [(''a'', PInt 1)]) ''a'' = None"
  using diff_applies [of "[(''a'', PInt 1)]" "demo_env None" "''a''"]
  by (simp add: demo_env_def split: option.splits)

section \<open>RemoteExecutor\<close>

datatype node_location = LOCAL | REMOTE | CLUSTER | GPU_WORKER

record remote_config =
  rn_location :: node_location
  rn_endpoint :: "string option"

record remote_executor =
  rx_endpoints :: "string pdict"
  rx_configs :: "remote_config pdict"

definition new_remote_executor :: remote_executor where
  "new_remote_executor = \<lparr>rx_endpoints = [], rx_configs = []\<rparr>"

definition register_remote :: "string \<Rightarrow> string \<Rightarrow> node_location \<Rightarrow> remote_executor \<Rightarrow> remote_executor" where
  "register_remote c endpoint loc x =
     \<lparr>rx_endpoints = AList.update c endpoint (rx_endpoints x),
      rx_configs = AList.update c \<lparr>rn_location = loc, rn_endpoint = Some endpoint\<rparr> (rx_configs x)\<rparr>"

definition is_remote :: "string \<Rightarrow> remote_executor \<Rightarrow> bool" where
  "is_remote c x = (map_of (rx_endpoints x) c \<noteq> None)"

definition execute_remote ::
    "(string \<Rightarrow> envelope \<Rightarrow> py_error + envelope) \<Rightarrow> string \<Rightarrow> envelope \<Rightarrow> remote_executor \<Rightarrow> py_error + envelope" where
  "execute_remote post c e x =
     (case map_of (rx_endpoints x) c of
        None \<Rightarrow> Inl (ValueError (''No remote endpoint for '' @ c))
      | Some endpoint \<Rightarrow> post endpoint e)"

section \<open>StreamManager\<close>

record chunk =
  ck_capability :: string
  ck_data :: pval
  ck_timestamp :: rat
  ck_is_final :: bool
  ck_progress :: rat

text \<open>The open streams with what their queues hold; \<open>None\<close> marks the end.\<close>

type_synonym streams = "chunk option list pdict"

definition open_stream :: "envelope \<Rightarrow> streams \<Rightarrow> streams" where
  "open_stream e s = AList.update (env_id e) [] s"

definition close_stream :: "envelope \<Rightarrow> streams \<Rightarrow> streams" where
  "close_stream e s = AList.delete (env_id e) s"

definition emit_chunk :: "rat \<Rightarrow> string \<Rightarrow> string \<Rightarrow> pval \<Rightarrow> rat \<Rightarrow> bool \<Rightarrow> streams \<Rightarrow> streams" where
  "emit_chunk now i c v progress final s =
     (case map_of s i of
        None \<Rightarrow> s
      | Some q \<Rightarrow> AList.update i (q @ [Some \<lparr>ck_capability = c, ck_data = v, ck_timestamp = now,
                     ck_is_final = final, ck_progress = progress\<rparr>] @ (if final then [None] else [])) s)"

lemma emit_delivers:
  "map_of s i = Some q \<Longrightarrow> \<exists>c'. map_of (emit_chunk now i c v pr fin s) i =
     Some (q @ c' # (if fin then [None] else [])) \<and> c' \<noteq> None"
  by (auto simp: emit_chunk_def dict_simps)

lemma emit_closed: "map_of s i = None \<Longrightarrow> emit_chunk now i c v pr fin s = s"
  by (simp add: emit_chunk_def)

section \<open>ParallelExecutor\<close>

record branch =
  br_name :: string
  br_capability :: string

record branch_result =
  bs_name :: string
  bs_envelope :: envelope
  bs_success :: bool

text \<open>
  The loop of \<open>run_branch\<close> on a copy of the envelope. The router raises \<open>NodeNotFoundError\<close>, which ends
  the branch; any other error leaves the branch. \<open>None\<close> is a branch that never ends.
\<close>

partial_function (option) branch_loop ::
    "runtime \<Rightarrow> node router \<Rightarrow> nat \<Rightarrow> envelope \<Rightarrow> (py_error + envelope) option" where
  "branch_loop rt nr t e =
     (if \<not> truthy_opt (env_next e) \<or> env_terminated e then Some (Inr e)
      else case get_capability e of
        None \<Rightarrow> Some (Inr e)
      | Some c \<Rightarrow>
          if c = [] then Some (Inr e)
          else (case resolve nr c of
            Inl err \<Rightarrow>
              (case err of
                 NodeNotFoundError _ \<Rightarrow> Some (Inr (env_terminate (Some (''Node not found: '' @ c)) e))
               | _ \<Rightarrow> Some (Inl err))
          | Inr nd \<Rightarrow>
              (case node_execute rt t nd e of
                 Inl err \<Rightarrow> Some (Inl err)
               | Inr res \<Rightarrow> branch_loop rt nr (t + 1) (res_envelope res))))"

definition run_branch ::
    "runtime \<Rightarrow> node router \<Rightarrow> nat \<Rightarrow> envelope \<Rightarrow> branch \<Rightarrow> (py_error + branch_result) option" where
  "run_branch rt nr t e b =
     map_option (map_sum (\<lambda>err. err)
         (\<lambda>e'. \<lparr>bs_name = br_name b, bs_envelope = e', bs_success = \<not> env_terminated e'\<rparr>))
       (branch_loop rt nr t (set_next (Some (br_capability b)) e))"

text \<open>\<open>gather(return_exceptions=True)\<close>: errors and failures are left out of the merged state.\<close>

fun gather :: "(py_error + branch_result) option list \<Rightarrow> branch_result list option" where
  "gather [] = Some []"
| "gather (None # rs) = None"
| "gather (Some (Inl _) # rs) = gather rs"
| "gather (Some (Inr r) # rs) = map_option (\<lambda>xs. if bs_success r then r # xs else xs) (gather rs)"

definition merge_states :: "branch_result list \<Rightarrow> dict" where
  "merge_states rs =
     fold (\<lambda>r d. AList.update (bs_name r) (PDict (env_state (bs_envelope r))) d) rs []"

definition execute_parallel ::
    "runtime \<Rightarrow> node router \<Rightarrow> (nat \<Rightarrow> nat) \<Rightarrow> envelope \<Rightarrow> branch list \<Rightarrow> envelope option" where
  "execute_parallel rt nr start e branches =
     map_option (\<lambda>rs. e\<lparr>env_state :=
         AList.update ''_merged_branches'' (PDict (merge_states rs)) (env_state e)\<rparr>)
       (gather (map (\<lambda>(i, b). run_branch rt nr (start i) e b) (enumerate 0 branches)))"

text \<open>\<open>register_merge\<close>: a handler is kept under its capability, and nothing ever calls it.\<close>

definition register_merge ::
    "string \<Rightarrow> (branch_result list \<Rightarrow> envelope) \<Rightarrow> (branch_result list \<Rightarrow> envelope) pdict
       \<Rightarrow> (branch_result list \<Rightarrow> envelope) pdict" where
  "register_merge c h handlers = AList.update c h handlers"

lemma gather_successful: "gather rs = Some xs \<Longrightarrow> r \<in> set xs \<Longrightarrow> Some (Inr r) \<in> set rs \<and> bs_success r"
  by (induction rs arbitrary: xs rule: gather.induct) (auto split: if_splits)

lemma merge_keys: "fst ` set (merge_states rs) = bs_name ` set rs"
proof -
  have "fst ` set (fold (\<lambda>r d. AList.update (bs_name r) (PDict (env_state (bs_envelope r))) d) rs d) =
      fst ` set d \<union> bs_name ` set rs" for d
    by (induction rs arbitrary: d) (auto simp: keys_update simp del: set_map)
  then show ?thesis by (simp add: merge_states_def)
qed

text \<open>A branch leaves the caller's request alone but for the key of the merged states.\<close>

lemma parallel_frame:
  "execute_parallel rt nr start e bs = Some e' \<Longrightarrow>
     e'\<lparr>env_state := env_state e\<rparr> = e \<and>
     (k \<noteq> ''_merged_branches'' \<longrightarrow> map_of (env_state e') k = map_of (env_state e) k)"
  by (auto simp: execute_parallel_def dict_simps)

end
