(* ===== verification/Engine.thy ===== *)
theory Engine
  imports Executor Registry Discovery Swarm TimeSplit Planner Replay
begin

text \<open>
  \<open>PrismEngine\<close> of \<open>src/prismpipe/engine/__init__.py\<close>: the facade that owns one instance of every
  component, spawns and executes organisms, and executes plain requests capability by capability.

  An organism that is registered is one object in the registry and in the caller's hands, so an
  operation that changes it changes the registry's entry as well. The hash of the semantic cache, fresh
  identifiers, clocks and the transport of remote endpoints are arguments (\<open>eio\<close>).
\<close>

section \<open>State\<close>

record prism =
  pe_router :: "node router"
  pe_replay :: replay_engine
  pe_diffs :: "state_diff list pdict"
  pe_capabilities :: cap_graph
  pe_remote :: remote_executor
  pe_streams :: streams
  pe_costs :: "node_cost list pdict"
  pe_memory :: request_memory
  pe_tree :: "string list pdict"
  pe_semantic :: sem_cache
  pe_graph :: cgraph
  pe_registry :: registry
  pe_evolver :: evolver
  pe_planner :: intent_planner
  pe_swarm :: coordinator
  pe_gravity :: gravity
  pe_exec :: executor
  pe_execute_count :: nat

definition new_prism :: "cgraph \<Rightarrow> executor \<Rightarrow> prism" where
  "new_prism graph exec =
     \<lparr>pe_router = new_router, pe_replay = new_replay_engine, pe_diffs = [],
      pe_capabilities = new_cap_graph, pe_remote = new_remote_executor, pe_streams = [],
      pe_costs = [], pe_memory = new_request_memory, pe_tree = [], pe_semantic = new_sem_cache,
      pe_graph = graph, pe_registry = new_registry, pe_evolver = new_evolver,
      pe_planner = new_intent_planner, pe_swarm = new_coordinator, pe_gravity = new_gravity,
      pe_exec = exec, pe_execute_count = 0\<rparr>"

record eio =
  ei_rt :: runtime
  ei_hash :: "string \<Rightarrow> pval \<Rightarrow> string"
  ei_now :: "nat \<Rightarrow> rat"
  ei_uid :: "nat \<Rightarrow> string"
  ei_post :: "nat \<Rightarrow> string \<Rightarrow> envelope \<Rightarrow> py_error + envelope"

definition register_node :: "node \<Rightarrow> cap_spec option \<Rightarrow> node_cost option \<Rightarrow> prism \<Rightarrow> prism" where
  "register_node nd sp cost pe =
     (let p1 = pe\<lparr>pe_router := register (nd_capability nd) nd 0 [] (pe_router pe)\<rparr>;
          p2 = (case sp of None \<Rightarrow> p1
                | Some s \<Rightarrow> p1\<lparr>pe_capabilities := register_spec s (pe_capabilities p1),
                    pe_planner := register_planner_capability (cs_capability s) (cs_description s) []
                      (pe_planner p1)\<rparr>)
      in case cost of None \<Rightarrow> p2 | Some c \<Rightarrow> p2\<lparr>pe_costs := register_cost c (pe_costs p2)\<rparr>)"

section \<open>Organisms\<close>

text \<open>The registry's entry of an organism follows the organism.\<close>

definition sync_registry :: "organism \<Rightarrow> registry \<Rightarrow> registry" where
  "sync_registry o' r =
     (if get_organism (og_id o') r = None then r
      else r\<lparr>rg_organisms := AList.update (og_id o') o' (rg_organisms r)\<rparr>)"

definition spawn_organism ::
    "string \<Rightarrow> rat \<Rightarrow> org_intent \<Rightarrow> dict \<Rightarrow> string option \<Rightarrow> string option \<Rightarrow> prism \<Rightarrow> organism \<times> prism" where
  "spawn_organism uid now i inp cap parent pe =
     (let o0 = new_organism uid now i inp cap parent;
          o1 = (if truthy_opt cap then o0\<lparr>og_plan := plan_add (the cap) (og_plan o0)\<rparr> else o0);
          (o2, w) = notify now ''spawned'' o1 (x_watcher (pe_exec pe))
      in (o2, pe\<lparr>pe_registry := sync_registry o2 (register_organism o1 (pe_registry pe)),
                 pe_exec := (pe_exec pe)\<lparr>x_watcher := w\<rparr>\<rparr>))"

definition spawn_from_envelope :: "rat \<Rightarrow> envelope \<Rightarrow> string option \<Rightarrow> prism \<Rightarrow> (organism \<times> prism) option" where
  "spawn_from_envelope now e cap pe =
     map_option (\<lambda>o0.
         let o1 = (case cap of None \<Rightarrow> o0
                   | Some c \<Rightarrow>
                       let o' = org_set_next (Some c) o0
                       in if c \<in> set (plan_capabilities (og_plan o')) then o'
                          else o'\<lparr>og_plan := plan_add c (og_plan o')\<rparr>)
         in (o1, pe\<lparr>pe_registry := register_organism o1 (pe_registry pe)\<rparr>))
       (from_envelope now e)"

text \<open>
  \<open>execute_organism\<close>; \<open>fresh\<close> is what \<open>ComputationGraph()\<close> makes when computations are not shared. The
  count of executions is not reached when the execution raises.
\<close>

definition execute_organism ::
    "xio \<Rightarrow> cgraph \<Rightarrow> bool \<Rightarrow> organism \<Rightarrow> prism \<Rightarrow> (py_error option \<times> organism \<times> prism) option" where
  "execute_organism io fresh sharing o' pe =
     map_option (\<lambda>(err, r).
         (err, xr_org r,
          pe\<lparr>pe_graph := (if sharing then xr_graph r else pe_graph pe), pe_exec := xr_exec r,
             pe_registry := sync_registry (xr_org r) (pe_registry pe),
             pe_execute_count := (if err = None then pe_execute_count pe + 1 else pe_execute_count pe)\<rparr>))
       (org_execute io (pe_router pe) o' (if sharing then pe_graph pe else fresh) (pe_exec pe))"

definition execute_child_organism ::
    "xio \<Rightarrow> cgraph \<Rightarrow> string \<Rightarrow> rat \<Rightarrow> organism \<Rightarrow> string \<Rightarrow> dict \<Rightarrow> org_intent option \<Rightarrow> bool \<Rightarrow> prism
       \<Rightarrow> (py_error option \<times> organism \<times> prism) option" where
  "execute_child_organism io fresh uid now parent c patch i sharing pe =
     (let r0 = (if get_organism (og_id parent) (pe_registry pe) = None
                then register_organism parent (pe_registry pe) else pe_registry pe);
          (child, parent') = spawn_child uid now i patch (Some c) parent
      in execute_organism io fresh sharing child
           (pe\<lparr>pe_registry := register_organism child (sync_registry parent' r0)\<rparr>))"

definition execute_organism_time_split ::
    "xio \<Rightarrow> nat \<Rightarrow> nat \<Rightarrow> organism \<Rightarrow> string list \<Rightarrow> race_event list \<Rightarrow> prism \<Rightarrow> (organism \<times> prism) option" where
  "execute_organism_time_split io max_branches max_hops o' caps evs pe =
     map_option (\<lambda>(o1, g). (o1, pe\<lparr>pe_graph := g, pe_registry := sync_registry o1 (pe_registry pe)\<rparr>))
       (execute_time_split io (pe_router pe) max_branches max_hops o' caps evs (pe_graph pe))"

definition engine_create_swarm ::
    "rat \<Rightarrow> string \<Rightarrow> string option \<Rightarrow> organism \<Rightarrow> nat \<Rightarrow> prism \<Rightarrow> organism list \<times> organism \<times> prism" where
  "engine_create_swarm now uid sid template n pe =
     (let (ws, t, co) = create_swarm now (or_str sid (''swarm_'' @ uid)) template n (pe_swarm pe)
      in (ws, t, pe\<lparr>pe_swarm := co, pe_registry := sync_registry t (pe_registry pe)\<rparr>))"

definition engine_execute_swarm ::
    "xio \<Rightarrow> string \<Rightarrow> string \<Rightarrow> pval list \<Rightarrow> bool \<Rightarrow> prism \<Rightarrow> (py_error + pval) \<times> prism" where
  "engine_execute_swarm io sid c data ff pe =
     (let (r, co, g) = execute_swarm io (Some (pe_router pe)) sid c data ff (pe_graph pe) (pe_swarm pe)
      in (r, pe\<lparr>pe_swarm := co, pe_graph := g\<rparr>))"

definition engine_plan_intent :: "string \<Rightarrow> prism \<Rightarrow> string list" where
  "engine_plan_intent i pe = plan_intent (pe_planner pe) i"

definition engine_evolve :: "org_intent \<Rightarrow> string list list option \<Rightarrow> prism \<Rightarrow> string list \<times> prism" where
  "engine_evolve i available pe =
     (let (p, ev) = evolve i available (pe_evolver pe) in (p, pe\<lparr>pe_evolver := ev\<rparr>))"

definition engine_inherit :: "rat \<Rightarrow> organism \<Rightarrow> prism \<Rightarrow> organism \<times> prism" where
  "engine_inherit now o' pe =
     (let (o1, r) = inherit_from_similar now o' (pe_registry pe) in (o1, pe\<lparr>pe_registry := r\<rparr>))"

record metrics =
  mt_hit_ratio :: rat
  mt_deduplication_ratio :: rat
  mt_hits :: nat
  mt_misses :: nat
  mt_unique_computations :: nat
  mt_redis_hits :: nat
  mt_negative_hits :: nat
  mt_p95 :: rat
  mt_p99 :: rat
  mt_execute_count :: nat
  mt_warm_steps :: nat
  mt_cold_steps :: nat
  mt_warm_rate :: rat
  mt_waits :: nat
  mt_useful_rate :: rat
  mt_calls_saved :: int
  mt_swarm_workers :: nat
  mt_swarm_error_rate :: rat
  mt_organisms :: nat

definition get_metrics :: "prism \<Rightarrow> metrics" where
  "get_metrics pe =
     (let g = pe_graph pe; x = pe_exec pe; la = get_execute_latency_stats x
      in \<lparr>mt_hit_ratio = hit_ratio g, mt_deduplication_ratio = deduplication_ratio g,
          mt_hits = cg_hits g, mt_misses = cg_misses g, mt_unique_computations = length (cg_nodes g),
          mt_redis_hits = cg_redis_hits g, mt_negative_hits = cg_negative_hits g,
          mt_p95 = la_p95 la, mt_p99 = la_p99 la, mt_execute_count = pe_execute_count pe,
          mt_warm_steps = x_warm_steps x, mt_cold_steps = x_cold_steps x, mt_warm_rate = warm_rate x,
          mt_waits = x_waits x, mt_useful_rate = useful_rate x, mt_calls_saved = x_calls_saved x,
          mt_swarm_workers = sc_workers (pe_swarm pe),
          mt_swarm_error_rate = swarm_error_rate (pe_swarm pe),
          mt_organisms = length (rg_organisms (pe_registry pe))\<rparr>)"

section \<open>Executing a request\<close>

text \<open>After a capability: the next one of the plan when the node named none.\<close>

definition follow_plan :: "envelope \<Rightarrow> envelope" where
  "follow_plan e =
     (if plan_capabilities (env_plan e) \<noteq> [] \<and> \<not> truthy_opt (env_next e)
      then (let (c, p) = plan_next (env_plan e) in e\<lparr>env_next := c, env_plan := p\<rparr>) else e)"

datatype estep = EDone envelope prism | ENext envelope prism | EError py_error envelope prism

definition engine_step :: "eio \<Rightarrow> dict \<Rightarrow> nat \<Rightarrow> envelope \<Rightarrow> prism \<Rightarrow> estep" where
  "engine_step io start t e pe =
     (if \<not> truthy_opt (env_next e) \<or> env_terminated e then EDone e pe
      else case get_capability e of
        None \<Rightarrow> EDone e pe
      | Some c \<Rightarrow>
          if c = [] then EDone e pe
          else if is_remote c (pe_remote pe)
          then (case execute_remote (ei_post io t) c e (pe_remote pe) of
                  Inl err \<Rightarrow> EError err e pe
                | Inr e' \<Rightarrow> ENext (follow_plan e') pe)
          else (case resolve (pe_router pe) c of
                  Inl err \<Rightarrow>
                    (case err of
                       NodeNotFoundError _ \<Rightarrow> EDone (env_terminate (Some (''Node not found: '' @ c)) e) pe
                     | _ \<Rightarrow> EError err e pe)
                | Inr nd \<Rightarrow>
                    (case node_execute (ei_rt io) t nd e of
                       Inl err \<Rightarrow> EError err e pe
                     | Inr res \<Rightarrow>
                         let e' = res_envelope res
                         in ENext (follow_plan e')
                              (pe\<lparr>pe_diffs := record_diff e' (compute_diff e' start) (pe_diffs pe)\<rparr>))))"

text \<open>The loop has no bound on its passes: \<open>None\<close> is a request that never returns.\<close>

partial_function (option) engine_loop ::
    "eio \<Rightarrow> dict \<Rightarrow> nat \<Rightarrow> envelope \<Rightarrow> prism \<Rightarrow> (py_error option \<times> envelope \<times> prism \<times> nat) option" where
  "engine_loop io start t e pe =
     (case engine_step io start t e pe of
        EDone e' pe' \<Rightarrow> Some (None, e', pe', t)
      | EError err e' pe' \<Rightarrow> Some (Some err, e', pe', t)
      | ENext e' pe' \<Rightarrow> engine_loop io start (t + 1) e' pe')"

definition parent_key :: "envelope \<Rightarrow> string" where
  "parent_key e = or_str (env_parent_id e) []"

definition remember :: "eio \<Rightarrow> nat \<Rightarrow> string \<Rightarrow> envelope \<Rightarrow> prism \<Rightarrow> prism" where
  "remember io t i e pe =
     pe\<lparr>pe_memory := store_request e (pe_memory pe),
        pe_tree := tree_add_child (parent_key e) (env_id e) (pe_tree pe),
        pe_semantic := (if env_history e = [] then pe_semantic pe
                        else sem_set (ei_hash io) (ei_now io t) i (env_input e) e (pe_semantic pe)),
        pe_replay := snd (take_snapshot (ei_uid io t) (ei_now io t) e (Some (''final_'' @ env_id e))
                            (pe_replay pe))\<rparr>"

definition answer_from :: "envelope \<Rightarrow> envelope \<Rightarrow> envelope" where
  "answer_from hit e =
     e\<lparr>env_state := AList.update ''_cached_result'' (PDict (env_state hit))
        (AList.update ''_from_cache'' (PBool True) (env_state e))\<rparr>"

definition engine_execute :: "eio \<Rightarrow> envelope \<Rightarrow> prism \<Rightarrow> ((py_error + envelope) \<times> prism) option" where
  "engine_execute io e pe =
     (case sem_get (ei_hash io) (intent_value (env_intent e)) (env_input e) (pe_semantic pe) of
        Some hit \<Rightarrow> Some (Inr (answer_from hit e), pe)
      | None \<Rightarrow>
          map_option (\<lambda>(err, e', pe', t).
              case err of
                Some x \<Rightarrow> (Inl x, pe')
              | None \<Rightarrow> (Inr e', remember io t (intent_value (env_intent e)) e' pe'))
            (engine_loop io (env_state e) 0 e pe))"

section \<open>A plan is executed in order\<close>

text \<open>A node that leaves routing to the plan: it succeeds, names no next capability and keeps the rest.\<close>

definition steps_aside :: "node \<Rightarrow> bool" where
  "steps_aside nd \<longleftrightarrow> nd_timeout_ms nd = None \<and>
     (\<forall>e. \<not> env_terminated e \<longrightarrow> (\<exists>r. nd_process nd e = Returned r \<and> res_success r \<and> \<not> env_terminated (res_envelope r) \<and>
        \<not> truthy_opt (env_next (res_envelope r)) \<and> env_plan (res_envelope r) = env_plan e \<and>
        env_history (res_envelope r) = env_history e))"

text \<open>A capability that is served by such a node, on this machine.\<close>

definition served_locally :: "prism \<Rightarrow> string \<Rightarrow> bool" where
  "served_locally pe c \<longleftrightarrow> c \<noteq> [] \<and> \<not> starts_with cap_prefix c \<and> \<not> is_remote c (pe_remote pe) \<and>
     (\<exists>nd. resolve (pe_router pe) c = Inr nd \<and> nd_capability nd = c \<and> steps_aside nd)"

lemma served_step:
  assumes "served_locally pe c" "env_next e = Some c" "\<not> env_terminated e"
  shows "\<exists>e' ds. engine_step io start t e pe = ENext (follow_plan e') (pe\<lparr>pe_diffs := ds\<rparr>) \<and>
    \<not> env_terminated e' \<and> \<not> truthy_opt (env_next e') \<and> env_plan e' = env_plan e \<and>
    map he_capability (env_history e') = map he_capability (env_history e) @ [c]"
proof -
  from assms(1) obtain nd where c: "c \<noteq> []" "\<not> starts_with cap_prefix c" "\<not> is_remote c (pe_remote pe)"
    and nd: "resolve (pe_router pe) c = Inr nd" "nd_capability nd = c" "steps_aside nd"
    unfolding served_locally_def by blast
  from nd(3) obtain r where r: "nd_process nd e = Returned r" "res_success r"
    "\<not> env_terminated (res_envelope r)" "\<not> truthy_opt (env_next (res_envelope r))"
    "env_plan (res_envelope r) = env_plan e" "env_history (res_envelope r) = env_history e"
    and to: "nd_timeout_ms nd = None"
    using assms(3) unfolding steps_aside_def by blast
  let ?res = "finalize_result (ei_rt io) t nd r"
  have ex: "node_execute (ei_rt io) t nd e = Inr ?res"
    by (simp add: node_execute_def execute_with_timeout_def effective_timeout_def to execute_sync_def r(1))
  have e': "\<not> env_terminated (res_envelope ?res)" "\<not> truthy_opt (env_next (res_envelope ?res))"
    "env_plan (res_envelope ?res) = env_plan e"
    "map he_capability (env_history (res_envelope ?res)) = map he_capability (env_history e) @ [c]"
    using r nd(2) by (simp_all add: finalize_result_def Let_def env_record_def)
  have "engine_step io start t e pe = ENext (follow_plan (res_envelope ?res))
      (pe\<lparr>pe_diffs := record_diff (res_envelope ?res) (compute_diff (res_envelope ?res) start) (pe_diffs pe)\<rparr>)"
    using assms(2,3) c nd(1) ex
    by (simp add: engine_step_def get_capability_def hop_capability_plain Let_def)
  with e' show ?thesis by blast
qed

lemma served_diffs [simp]: "served_locally (pe\<lparr>pe_diffs := ds\<rparr>) c = served_locally pe c"
  by (simp add: served_locally_def)

lemma engine_loop_plan:
  assumes "served_locally pe c" "\<forall>d \<in> set (drop (plan_index (env_plan e)) (plan_capabilities (env_plan e))).
      served_locally pe d"
    and "env_next e = Some c" "\<not> env_terminated e"
  shows "\<exists>e' ds t'. engine_loop io start t e pe = Some (None, e', pe\<lparr>pe_diffs := ds\<rparr>, t') \<and>
    \<not> env_terminated e' \<and> map he_capability (env_history e') =
      map he_capability (env_history e) @ c # drop (plan_index (env_plan e)) (plan_capabilities (env_plan e))"
  using assms
proof (induction "length (plan_capabilities (env_plan e)) - plan_index (env_plan e)"
    arbitrary: c e t pe rule: less_induct)
  case less
  let ?p = "env_plan e"
  from served_step [OF less.prems(1,3,4), of io start t] obtain e1 ds where
    step: "engine_step io start t e pe = ENext (follow_plan e1) (pe\<lparr>pe_diffs := ds\<rparr>)"
    and e1: "\<not> env_terminated e1" "\<not> truthy_opt (env_next e1)" "env_plan e1 = ?p"
      "map he_capability (env_history e1) = map he_capability (env_history e) @ [c]" by blast
  show ?case
  proof (cases "plan_index ?p < length (plan_capabilities ?p)")
    case True
    let ?d = "plan_capabilities ?p ! plan_index ?p"
    let ?e2 = "e1\<lparr>env_next := Some ?d, env_plan := ?p\<lparr>plan_index := plan_index ?p + 1\<rparr>\<rparr>"
    have e2: "follow_plan e1 = ?e2"
      using True e1 by (auto simp: follow_plan_def plan_next_def)
    have drop: "drop (plan_index ?p) (plan_capabilities ?p) =
        ?d # drop (plan_index ?p + 1) (plan_capabilities ?p)"
      using True by (simp add: Cons_nth_drop_Suc)
    have "\<exists>e' ds' t'. engine_loop io start (t + 1) ?e2 (pe\<lparr>pe_diffs := ds\<rparr>) =
        Some (None, e', pe\<lparr>pe_diffs := ds\<rparr>\<lparr>pe_diffs := ds'\<rparr>, t') \<and> \<not> env_terminated e' \<and>
        map he_capability (env_history e') = map he_capability (env_history ?e2) @ ?d #
          drop (plan_index (env_plan ?e2)) (plan_capabilities (env_plan ?e2))"
      by (rule less.hyps) (use True less.prems(2) drop e1(1) in auto)
    then show ?thesis
      using e1(4) drop step by (subst engine_loop.simps) (auto simp: e2)
  next
    case False
    have e2: "follow_plan e1 = e1 \<or> follow_plan e1 = e1\<lparr>env_next := None\<rparr>"
      using False e1(3) by (cases e1) (auto simp: follow_plan_def plan_next_def)
    then have last: "engine_step io start (t + 1) (follow_plan e1) (pe\<lparr>pe_diffs := ds\<rparr>) =
        EDone (follow_plan e1) (pe\<lparr>pe_diffs := ds\<rparr>)"
      using e1(2) by (auto simp: engine_step_def)
    from e2 e1 have "\<not> env_terminated (follow_plan e1)"
      "map he_capability (env_history (follow_plan e1)) = map he_capability (env_history e) @ [c]" by auto
    moreover have "engine_loop io start (t + 1) (follow_plan e1) (pe\<lparr>pe_diffs := ds\<rparr>) =
        Some (None, follow_plan e1, pe\<lparr>pe_diffs := ds\<rparr>, t + 1)"
      by (subst engine_loop.simps) (simp only: last estep.case)
    then have "engine_loop io start t e pe = Some (None, follow_plan e1, pe\<lparr>pe_diffs := ds\<rparr>, t + 1)"
      by (subst engine_loop.simps) (simp only: step estep.case)
    ultimately show ?thesis using False by auto
  qed
qed

text \<open>
  C16: A request whose nodes leave the routing to its plan is executed in the plan's order, exactly once per
  entry, and the engine returns: the history names the first capability and then the rest of the plan, the
  request has not failed, and the result is kept in the request memory and as a snapshot.
\<close>

theorem engine_runs_plan:
  assumes "sem_get (ei_hash io) (intent_value (env_intent e)) (env_input e) (pe_semantic pe) = None"
    and "served_locally pe c"
    and "\<forall>d \<in> set (drop (plan_index (env_plan e)) (plan_capabilities (env_plan e))). served_locally pe d"
    and "env_next e = Some c" "\<not> env_terminated e"
  shows "\<exists>e' pe'. engine_execute io e pe = Some (Inr e', pe') \<and> \<not> env_terminated e' \<and>
    map he_capability (env_history e') = map he_capability (env_history e) @
      c # drop (plan_index (env_plan e)) (plan_capabilities (env_plan e)) \<and>
    retrieve_request (env_id e') (pe_memory pe') = Some e' \<and>
    map_option env_state (restore_snapshot (''final_'' @ env_id e') (pe_replay pe')) = Some (env_state e')"
proof -
  from engine_loop_plan [OF assms(2-5), of io "env_state e" 0] obtain e' ds t' where
    l: "engine_loop io (env_state e) 0 e pe = Some (None, e', pe\<lparr>pe_diffs := ds\<rparr>, t')"
    "\<not> env_terminated e'" "map he_capability (env_history e') = map he_capability (env_history e) @
      c # drop (plan_index (env_plan e)) (plan_capabilities (env_plan e))" by blast
  let ?pe = "remember io t' (intent_value (env_intent e)) e' (pe\<lparr>pe_diffs := ds\<rparr>)"
  have "engine_execute io e pe = Some (Inr e', ?pe)" using assms(1) l(1) by (simp add: engine_execute_def)
  moreover have "retrieve_request (env_id e') (pe_memory ?pe) = Some e'"
    by (simp add: remember_def retrieve_stored)
  moreover have "map_option env_state (restore_snapshot (''final_'' @ env_id e') (pe_replay ?pe)) =
      Some (env_state e')"
    by (simp add: remember_def take_snapshot_def restore_snapshot_def or_str_def Let_def dict_simps)
  ultimately show ?thesis using l(2,3) by blast
qed

lemma demo_steps_aside: "steps_aside (demo_node n c None)"
  by (simp add: steps_aside_def demo_node_def ok_result_def set_next_def)

definition demo_eio :: eio where
  "demo_eio = \<lparr>ei_rt = demo_runtime, ei_hash = \<lambda>i v. i, ei_now = \<lambda>n. of_nat n, ei_uid = \<lambda>n. show_nat n,
     ei_post = \<lambda>n u e. Inr e\<rparr>"

definition demo_prism :: prism where
  "demo_prism = register_node (demo_node ''n'' ''b'' None) None None
     (register_node (demo_node ''n'' ''a'' None) None None
       (new_prism (new_graph 10 30 3 [] [] False) (new_executor new_watcher False None)))"

lemma demo_served: "served_locally demo_prism ''a''" "served_locally demo_prism ''b''"
  by (auto simp: served_locally_def demo_prism_def register_node_def new_prism_def demo_node_def
      router_defs new_router_def is_remote_def new_remote_executor_def cap_prefix_def starts_with_def
      steps_aside_def ok_result_def set_next_def Let_def)

theorem engine_runs_plan_witness:
  "\<exists>e' pe'. engine_execute demo_eio
       ((demo_env (Some ''a''))\<lparr>env_plan := \<lparr>plan_capabilities = [''a'', ''b''], plan_index = 1\<rparr>\<rparr>) demo_prism =
     Some (Inr e', pe') \<and> map he_capability (env_history e') = [''a'', ''b'']"
proof -
  let ?e = "(demo_env (Some ''a''))\<lparr>env_plan := \<lparr>plan_capabilities = [''a'', ''b''], plan_index = 1\<rparr>\<rparr>"
  have miss: "sem_get (ei_hash demo_eio) (intent_value (env_intent ?e)) (env_input ?e)
      (pe_semantic demo_prism) = None"
    by (simp add: sem_get_def demo_prism_def register_node_def new_prism_def new_sem_cache_def Let_def)
  have "\<forall>d \<in> set (drop (plan_index (env_plan ?e)) (plan_capabilities (env_plan ?e))).
      served_locally demo_prism d" using demo_served by simp
  moreover have "env_next ?e = Some ''a''" "\<not> env_terminated ?e" by (simp_all add: demo_env_def)
  ultimately show ?thesis using engine_runs_plan [OF miss demo_served(1)] by (auto simp: demo_env_def)
qed

section \<open>Requests that never return\<close>

text \<open>
  Note: The engine's loop has no hop limit: a request that reaches a node which always succeeds and names
  its own capability as the next one never returns.
\<close>

theorem self_route_hangs_engine:
  assumes "sem_get (ei_hash io) (intent_value (env_intent e)) (env_input e) (pe_semantic pe) = None"
    and "resolve (pe_router pe) c = Inr nd" "\<not> is_remote c (pe_remote pe)"
    and "c \<noteq> []" "\<not> starts_with cap_prefix c" "nd_timeout_ms nd = None"
    and "\<And>e'. env_next e' = Some c \<Longrightarrow> \<not> env_terminated e' \<Longrightarrow> \<exists>r. nd_process nd e' = Returned r \<and>
      env_next (res_envelope r) = Some c \<and> \<not> env_terminated (res_envelope r)"
    and "env_next e = Some c" "\<not> env_terminated e"
  shows "engine_execute io e pe = None"
proof -
  have step: "\<exists>e2 ds. engine_step io start t e1 (pe\<lparr>pe_diffs := ds0\<rparr>) = ENext e2 (pe\<lparr>pe_diffs := ds\<rparr>) \<and>
      env_next e2 = Some c \<and> \<not> env_terminated e2"
    if e1: "env_next e1 = Some c" "\<not> env_terminated e1" for start t e1 ds0
  proof -
    from assms(7) [OF e1] obtain r where r: "nd_process nd e1 = Returned r"
      "env_next (res_envelope r) = Some c" "\<not> env_terminated (res_envelope r)" by blast
    let ?res = "finalize_result (ei_rt io) t nd r"
    have ex: "node_execute (ei_rt io) t nd e1 = Inr ?res"
      by (simp add: node_execute_def execute_with_timeout_def effective_timeout_def assms(6)
          execute_sync_def r(1))
    have e2: "env_next (res_envelope ?res) = Some c" "\<not> env_terminated (res_envelope ?res)"
      using r by (simp_all add: finalize_result_def Let_def env_record_def)
    then have "follow_plan (res_envelope ?res) = res_envelope ?res"
      using assms(4) by (simp add: follow_plan_def)
    with e1 e2 ex assms(2-5) show ?thesis
      by (simp add: engine_step_def get_capability_def hop_capability_plain Let_def) blast
  qed
  have loop: "\<not> (\<exists>ds. pe' = pe\<lparr>pe_diffs := ds\<rparr> \<and> env_next e1 = Some c \<and> \<not> env_terminated e1)"
    if "engine_loop io start t e1 pe' = Some res" for start t e1 pe' res
    using that
  proof (rule engine_loop.raw_induct [where P = "\<lambda>io0 start t e1 pe' res. io0 = io \<longrightarrow>
      \<not> (\<exists>ds. pe' = pe\<lparr>pe_diffs := ds\<rparr> \<and> env_next e1 = Some c \<and> \<not> env_terminated e1)", THEN mp, rotated 1])
    fix f io0 start t e1 pe' res
    assume IH: "\<And>io0 start t e1 pe' res. f io0 start t e1 pe' = Some res \<Longrightarrow> io0 = io \<longrightarrow>
        \<not> (\<exists>ds. pe' = pe\<lparr>pe_diffs := ds\<rparr> \<and> env_next e1 = Some c \<and> \<not> env_terminated e1)"
      and body: "(case engine_step io0 start t e1 pe' of
          EDone e' pe'' \<Rightarrow> Some (None, e', pe'', t)
        | ENext e' pe'' \<Rightarrow> f io0 start (t + 1) e' pe''
        | EError err e' pe'' \<Rightarrow> Some (Some err, e', pe'', t)) = Some res"
    show "io0 = io \<longrightarrow>
        \<not> (\<exists>ds. pe' = pe\<lparr>pe_diffs := ds\<rparr> \<and> env_next e1 = Some c \<and> \<not> env_terminated e1)"
    proof (intro impI notI)
      assume "io0 = io" and "\<exists>ds. pe' = pe\<lparr>pe_diffs := ds\<rparr> \<and> env_next e1 = Some c \<and> \<not> env_terminated e1"
      then obtain ds0 where e1: "pe' = pe\<lparr>pe_diffs := ds0\<rparr>" "env_next e1 = Some c" "\<not> env_terminated e1"
        and io0: "io0 = io" by blast
      from step [OF e1(2,3), of start t ds0] obtain e2 ds where
        s: "engine_step io start t e1 pe' = ENext e2 (pe\<lparr>pe_diffs := ds\<rparr>)"
        and e2: "env_next e2 = Some c" "\<not> env_terminated e2" unfolding e1(1) by blast
      from body have "f io start (t + 1) e2 (pe\<lparr>pe_diffs := ds\<rparr>) = Some res" by (simp add: io0 s)
      from IH [OF this] e2 show False by blast
    qed
  qed simp_all
  have "engine_loop io (env_state e) 0 e pe = None"
  proof (rule ccontr)
    assume "engine_loop io (env_state e) 0 e pe \<noteq> None"
    then obtain res where "engine_loop io (env_state e) 0 e pe = Some res" by blast
    from loop [OF this] assms(8,9) show False by (metis prism.surjective prism.update_convs(3))
  qed
  with assms(1) show ?thesis by (simp add: engine_execute_def)
qed

definition demo_loop :: prism where
  "demo_loop = register_node (demo_node ''n'' ''a'' (Some ''a'')) None None
     (new_prism (new_graph 10 30 3 [] [] False) (new_executor new_watcher False None))"

theorem self_route_hangs_engine_witness: "engine_execute demo_eio (demo_env (Some ''a'')) demo_loop = None"
proof (rule self_route_hangs_engine)
  show "resolve (pe_router demo_loop) ''a'' = Inr (demo_node ''n'' ''a'' (Some ''a''))"
    by (simp add: demo_loop_def register_node_def new_prism_def router_defs new_router_def demo_node_def Let_def)
  show "sem_get (ei_hash demo_eio) (intent_value (env_intent (demo_env (Some ''a''))))
      (env_input (demo_env (Some ''a''))) (pe_semantic demo_loop) = None"
    by (simp add: sem_get_def demo_loop_def register_node_def new_prism_def new_sem_cache_def Let_def)
  show "\<not> is_remote ''a'' (pe_remote demo_loop)"
    by (simp add: demo_loop_def register_node_def new_prism_def is_remote_def new_remote_executor_def Let_def)
qed (simp_all add: demo_node_def demo_env_def ok_result_def set_next_def cap_prefix_def starts_with_def)

section \<open>Repeated requests\<close>

text \<open>
  Note: A repeated request never reaches a node. Once a request has left a history, the next request with the
  same intent and input gets the first one's final state as its cached result and nothing else: also when
  the first one failed, its error and its termination are not passed on.
\<close>

theorem repeat_is_answered_from_cache:
  assumes "sem_get (ei_hash io) (intent_value (env_intent e)) (env_input e) (pe_semantic pe) = None"
    and "engine_execute io e pe = Some (Inr e1, pe1)"
    and "env_history e1 \<noteq> []" "env_input e1 = env_input e"
    and "env_intent e2 = env_intent e" "env_input e2 = env_input e"
  shows "\<exists>e3. engine_execute io e2 pe1 = Some (Inr e3, pe1) \<and>
    map_of (env_state e3) ''_cached_result'' = Some (PDict (env_state e1)) \<and>
    map_of (env_state e3) ''_from_cache'' = Some (PBool True) \<and>
    env_error e3 = env_error e2 \<and> env_terminated e3 = env_terminated e2 \<and>
    env_history e3 = env_history e2 \<and> env_next e3 = env_next e2"
proof -
  from assms(1,2) obtain pe' t where "pe1 = remember io t (intent_value (env_intent e)) e1 pe'"
    by (auto simp: engine_execute_def split: option.splits)
  then have "sem_get (ei_hash io) (intent_value (env_intent e2)) (env_input e2) (pe_semantic pe1) = Some e1"
    using assms(3-6) by (simp add: remember_def sem_set_def sem_get_def dict_simps)
  then have "engine_execute io e2 pe1 = Some (Inr (answer_from e1 e2), pe1)"
    by (simp add: engine_execute_def)
  then show ?thesis by (auto simp: answer_from_def dict_simps)
qed

definition demo_failing :: prism where
  "demo_failing = register_node failing_node None None
     (new_prism (new_graph 10 30 3 [] [] False) (new_executor new_watcher False None))"

theorem repeat_is_answered_from_cache_witness:
  "\<exists>e1 pe1 e3. engine_execute demo_eio (demo_env (Some ''a'')) demo_failing = Some (Inr e1, pe1) \<and>
     env_error e1 = Some ''bad input'' \<and>
     engine_execute demo_eio (demo_env (Some ''a'')) pe1 = Some (Inr e3, pe1) \<and> env_error e3 = None"
proof -
  let ?e = "demo_env (Some ''a'')"
  let ?res = "failure_result demo_runtime 0 failing_node ?e ''ValueError'' ''bad input''"
  have miss: "sem_get (ei_hash demo_eio) (intent_value (env_intent ?e)) (env_input ?e)
      (pe_semantic demo_failing) = None"
    by (simp add: sem_get_def demo_failing_def register_node_def new_prism_def new_sem_cache_def Let_def)
  have ex: "node_execute demo_runtime 0 failing_node ?e = Inr ?res"
    by (simp add: node_execute_def execute_with_timeout_def effective_timeout_def execute_sync_def
        failing_node_def demo_node_def)
  have res: "env_terminated (res_envelope ?res)" "env_error (res_envelope ?res) = Some ''bad input''"
    "env_input (res_envelope ?res) = env_input ?e" "env_history (res_envelope ?res) \<noteq> []"
    "plan_capabilities (env_plan (res_envelope ?res)) = []"
    by (simp_all add: failure_result_def env_terminate_def env_record_def demo_env_def empty_plan_def Let_def)
  have "resolve (pe_router demo_failing) ''a'' = Inr failing_node" "\<not> is_remote ''a'' (pe_remote demo_failing)"
    by (simp_all add: demo_failing_def register_node_def new_prism_def router_defs new_router_def
        failing_node_def demo_node_def is_remote_def new_remote_executor_def Let_def)
  moreover have "get_capability ?e = Some ''a''"
    by (simp add: get_capability_def demo_env_def hop_capability_def cap_prefix_def starts_with_def)
  moreover have "truthy_opt (env_next ?e)" "\<not> env_terminated ?e" by (simp_all add: demo_env_def)
  moreover have "ei_rt demo_eio = demo_runtime" by (simp add: demo_eio_def)
  ultimately obtain pe' where "engine_step demo_eio (env_state ?e) 0 ?e demo_failing =
      ENext (res_envelope ?res) pe'"
    using ex res(5) by (simp add: engine_step_def follow_plan_def Let_def del: One_nat_def)
  then have "engine_loop demo_eio (env_state ?e) 0 ?e demo_failing = Some (None, res_envelope ?res, pe', 1)"
    using res(1) by (subst engine_loop.simps, simp, subst engine_loop.simps) (simp add: engine_step_def)
  then obtain pe1 where run: "engine_execute demo_eio ?e demo_failing = Some (Inr (res_envelope ?res), pe1)"
    using miss by (simp add: engine_execute_def)
  from repeat_is_answered_from_cache [OF miss run res(4,3) refl refl] run res(2)
  show ?thesis by (auto simp: demo_env_def)
qed

end
