(* ===== verification/Resilience.thy ===== *)
theory Resilience
  imports Prism_Prelude
begin

text \<open>
  \<open>src/prismpipe/resilience.py\<close>: the circuit breaker, the token bucket, retries and timeouts. Clock
  readings are arguments; a protected function is the outcome of its call. An abstract circuit with two
  states is the breaker's specification.
\<close>

section \<open>Circuit breaker\<close>

record circuit_state =
  cb_failures :: nat
  cb_last_failure :: rat
  cb_is_open :: bool

record breaker =
  cb_threshold :: nat
  cb_timeout :: rat
  cb_half_open_attempts :: nat
  cb_states :: "circuit_state pdict"
  cb_half_open :: "nat pdict"

definition new_breaker :: "nat \<Rightarrow> rat \<Rightarrow> nat \<Rightarrow> breaker" where
  "new_breaker threshold timeout attempts =
     \<lparr>cb_threshold = threshold, cb_timeout = timeout, cb_half_open_attempts = attempts,
      cb_states = [], cb_half_open = []\<rparr>"

definition circuit :: "breaker \<Rightarrow> string \<Rightarrow> circuit_state" where
  "circuit b k = (case map_of (cb_states b) k of
     Some s \<Rightarrow> s | None \<Rightarrow> \<lparr>cb_failures = 0, cb_last_failure = 0, cb_is_open = False\<rparr>)"

definition set_circuit :: "string \<Rightarrow> circuit_state \<Rightarrow> breaker \<Rightarrow> breaker" where
  "set_circuit k s b = b\<lparr>cb_states := AList.update k s (cb_states b)\<rparr>"

text \<open>\<open>_is_open\<close> closes a circuit whose timeout has passed.\<close>

definition check_open :: "string \<Rightarrow> rat \<Rightarrow> breaker \<Rightarrow> bool \<times> breaker" where
  "check_open k now b =
     (let s = circuit b k in
      if \<not> cb_is_open s then (False, set_circuit k s b)
      else if now - cb_last_failure s \<ge> cb_timeout b
      then (False, set_circuit k (s\<lparr>cb_is_open := False, cb_failures := 0\<rparr>) b)
      else (True, set_circuit k s b))"

definition record_success :: "string \<Rightarrow> breaker \<Rightarrow> breaker" where
  "record_success k b =
     (let s = circuit b k;
          h = (case map_of (cb_half_open b) k of Some n \<Rightarrow> n | None \<Rightarrow> 0)
      in if cb_is_open s \<and> h \<ge> cb_half_open_attempts b
         then (set_circuit k (s\<lparr>cb_is_open := False, cb_failures := 0\<rparr>) b)
                \<lparr>cb_half_open := AList.update k 0 (cb_half_open b)\<rparr>
         else set_circuit k (s\<lparr>cb_failures := cb_failures s - 1\<rparr>) b)"

definition record_failure :: "string \<Rightarrow> rat \<Rightarrow> breaker \<Rightarrow> breaker" where
  "record_failure k now b =
     (let s = circuit b k;
          s1 = s\<lparr>cb_failures := cb_failures s + 1, cb_last_failure := now\<rparr>
      in set_circuit k (if cb_failures s1 \<ge> cb_threshold b then s1\<lparr>cb_is_open := True\<rparr> else s1) b)"

text \<open>One call: when it was checked, when it failed, and what the protected function does.\<close>

record 'v attempt =
  at_checked :: rat
  at_failed :: rat
  at_outcome :: "py_error + 'v"

definition breaker_call :: "string \<Rightarrow> 'v attempt \<Rightarrow> breaker \<Rightarrow> (py_error + 'v) \<times> breaker" where
  "breaker_call k a b =
     (case check_open k (at_checked a) b of
        (True, b1) \<Rightarrow> (Inl (PrismError (CircuitOpenError k)), b1)
      | (False, b1) \<Rightarrow>
          (case at_outcome a of
             Inr v \<Rightarrow> (Inr v, record_success k b1)
           | Inl err \<Rightarrow> (Inl err, record_failure k (at_failed a) b1)))"

fun breaker_calls :: "string \<Rightarrow> 'v attempt list \<Rightarrow> breaker \<Rightarrow> (py_error + 'v) list \<times> breaker" where
  "breaker_calls k [] b = ([], b)"
| "breaker_calls k (a # as) b =
     (let (r, b1) = breaker_call k a b; (rs, b2) = breaker_calls k as b1 in (r # rs, b2))"

text \<open>The specification: closed with a count of failures, or open since the last one.\<close>

datatype circuit_spec = Closed nat | Open rat

definition spec_call ::
    "nat \<Rightarrow> rat \<Rightarrow> string \<Rightarrow> 'v attempt \<Rightarrow> circuit_spec \<Rightarrow> (py_error + 'v) \<times> circuit_spec" where
  "spec_call threshold timeout k a c =
     (let admitted = (\<lambda>n. case at_outcome a of
            Inr v \<Rightarrow> (Inr v, Closed (n - 1))
          | Inl err \<Rightarrow> (Inl err, if n + 1 \<ge> threshold then Open (at_failed a) else Closed (n + 1)))
      in case c of
           Closed n \<Rightarrow> admitted n
         | Open since \<Rightarrow>
             if at_checked a < since + timeout then (Inl (PrismError (CircuitOpenError k)), c)
             else admitted 0)"

fun spec_calls ::
    "nat \<Rightarrow> rat \<Rightarrow> string \<Rightarrow> 'v attempt list \<Rightarrow> circuit_spec \<Rightarrow> (py_error + 'v) list \<times> circuit_spec" where
  "spec_calls m t k [] c = ([], c)"
| "spec_calls m t k (a # as) c =
     (let (r, c1) = spec_call m t k a c; (rs, c2) = spec_calls m t k as c1 in (r # rs, c2))"

definition abs_circuit :: "breaker \<Rightarrow> string \<Rightarrow> circuit_spec" where
  "abs_circuit b k =
     (let s = circuit b k in if cb_is_open s then Open (cb_last_failure s) else Closed (cb_failures s))"

lemma circuit_set [simp]: "circuit (set_circuit k s b) j = (if j = k then s else circuit b j)"
  by (simp add: circuit_def set_circuit_def dict_simps)

lemma set_circuit_frame [simp]:
  "cb_threshold (set_circuit k s b) = cb_threshold b" "cb_timeout (set_circuit k s b) = cb_timeout b"
  "cb_half_open_attempts (set_circuit k s b) = cb_half_open_attempts b"
  "cb_half_open (set_circuit k s b) = cb_half_open b"
  by (simp_all add: set_circuit_def)

lemmas breaker_defs =
  breaker_call_def check_open_def record_success_def record_failure_def spec_call_def abs_circuit_def

lemma breaker_call_refines:
  assumes "breaker_call k a b = (r, b')"
  shows "spec_call (cb_threshold b) (cb_timeout b) k a (abs_circuit b k) = (r, abs_circuit b' k) \<and>
    cb_threshold b' = cb_threshold b \<and> cb_timeout b' = cb_timeout b \<and>
    (j \<noteq> k \<longrightarrow> abs_circuit b' j = abs_circuit b j)"
  using assms
  by (auto simp: breaker_defs Let_def algebra_simps split: if_splits sum.splits prod.splits)

text \<open>
  C35: Called one after the other for a key, the breaker is the two-state circuit: closed, it runs the
  function, counts failures up and successes down and opens at the threshold; open, it refuses without
  running until the timeout has passed since the last failure, then starts from zero. Other keys keep their
  circuits.
\<close>

theorem breaker_refines_circuit:
  "let (rs, b') = breaker_calls k as b in
     spec_calls (cb_threshold b) (cb_timeout b) k as (abs_circuit b k) = (rs, abs_circuit b' k) \<and>
     (\<forall>j. j = k \<or> abs_circuit b' j = abs_circuit b j)"
proof (induction as arbitrary: b)
  case Nil
  then show ?case by simp
next
  case (Cons a as)
  obtain r b1 where c: "breaker_call k a b = (r, b1)" by (metis surj_pair)
  from Cons.IH [of b1] breaker_call_refines [OF c] show ?case
    by (auto simp: c Let_def split: prod.splits) metis
qed

text \<open>
  The successes of a half-open circuit are never counted, so a success that arrives while the circuit is
  open, from a call that began before, cannot close it.
\<close>

lemma success_never_closes:
  "cb_half_open b = [] \<Longrightarrow> 0 < cb_half_open_attempts b \<Longrightarrow>
     cb_is_open (circuit (record_success k b) j) = cb_is_open (circuit b j) \<and>
     cb_half_open (record_success k b) = []"
  by (auto simp: record_success_def Let_def)

text \<open>As many failures in a row as the threshold open the circuit, and a call before the timeout is refused.\<close>

lemma spec_failures_open:
  assumes "0 < m" "\<forall>a \<in> set as. \<exists>err. at_outcome a = Inl err" "m - n \<le> length as" "n < m"
    and "\<forall>a \<in> set as. \<forall>b \<in> set as. at_checked a < at_failed b + t"
  shows "\<exists>since \<in> at_failed ` set as. snd (spec_calls m t k as (Closed n)) = Open since"
proof -
  have open_stays: "snd (spec_calls m t k as (Open since)) = Open since"
    if "\<forall>a \<in> set as. at_checked a < since + t" for as :: "'a attempt list" and since
    using that by (induction as) (auto simp: spec_call_def split: prod.splits)
  show ?thesis
    using assms
  proof (induction as arbitrary: n)
    case Nil
    then show ?case by simp
  next
    case (Cons a as)
    then obtain err where err: "at_outcome a = Inl err" by auto
    show ?case
    proof (cases "Suc n \<ge> m")
      case True
      with Cons.prems err open_stays [of as "at_failed a"] show ?thesis
        by (auto simp: spec_call_def split: prod.splits)
    next
      case False
      have "m - Suc n \<le> length as" using Cons.prems(3) by auto
      with False Cons.IH [of "Suc n"] Cons.prems err show ?thesis
        by (auto simp: spec_call_def split: prod.splits)
    qed
  qed
qed

section \<open>Token bucket\<close>

record limiter =
  rl_rate :: rat
  rl_burst :: int
  rl_buckets :: "(rat \<times> rat) pdict"

definition get_tokens :: "string \<Rightarrow> rat \<Rightarrow> limiter \<Rightarrow> rat \<times> rat \<times> limiter" where
  "get_tokens k now l =
     (case map_of (rl_buckets l) k of
        None \<Rightarrow> (now, of_int (rl_burst l),
                 l\<lparr>rl_buckets := AList.update k (now, of_int (rl_burst l)) (rl_buckets l)\<rparr>)
      | Some (t, n) \<Rightarrow>
          let n' = min (of_int (rl_burst l)) (n + (now - t) * rl_rate l)
          in (now, n', l\<lparr>rl_buckets := AList.update k (now, n') (rl_buckets l)\<rparr>))"

text \<open>
  \<open>acquire\<close>: the number of tokens read from the bucket is stored in the variable that holds the number
  asked for. \<open>clock\<close> has one reading per pass of the loop; \<open>None\<close> is a loop that has not ended when the
  readings are used up.
\<close>

fun acquire :: "string \<Rightarrow> rat list \<Rightarrow> rat \<Rightarrow> limiter \<Rightarrow> (nat \<times> limiter) option" where
  "acquire k [] tokens l = None"
| "acquire k (now # clock) tokens l =
     (let (now', tokens', l1) = get_tokens k now l in
      if tokens' \<ge> tokens'
      then Some (0, l1\<lparr>rl_buckets := AList.update k (now', tokens' - tokens') (rl_buckets l1)\<rparr>)
      else map_option (\<lambda>(n, l2). (n + 1, l2)) (acquire k clock tokens' l1))"

fun acquires :: "string \<Rightarrow> (rat \<times> rat) list \<Rightarrow> limiter \<Rightarrow> nat list \<times> limiter" where
  "acquires k [] l = ([], l)"
| "acquires k ((now, tokens) # rs) l =
     (case acquire k [now] tokens l of
        None \<Rightarrow> ([], l)
      | Some (waits, l1) \<Rightarrow> (let (ws, l2) = acquires k rs l1 in (waits # ws, l2)))"

text \<open>
  Note: The rate limiter never limits: whatever the rate and the burst, each of any number of requests, for
  any number of tokens and at any times, is admitted at once without waiting, and leaves the bucket empty.
\<close>

theorem limiter_never_limits:
  "fst (acquires k rs l) = replicate (length rs) 0 \<and>
   (rs \<noteq> [] \<longrightarrow> map_of (rl_buckets (snd (acquires k rs l))) k = Some (fst (last rs), 0))"
proof -
  have one: "\<exists>l1. acquire k [now] tokens l = Some (0, l1) \<and> map_of (rl_buckets l1) k = Some (now, 0)"
    for now tokens l by (auto simp: get_tokens_def Let_def dict_simps split: option.splits)
  show ?thesis
  proof (induction rs arbitrary: l)
    case Nil
    then show ?case by simp
  next
    case (Cons r rs)
    obtain now tokens where r: "r = (now, tokens)" by (cases r)
    from one obtain l1 where l1: "acquire k [now] tokens l = Some (0, l1)"
      "map_of (rl_buckets l1) k = Some (now, 0)" by blast
    with Cons.IH [of l1] show ?case
      by (cases rs) (auto simp: r split: prod.splits simp del: acquire.simps)
  qed
qed

theorem limiter_never_limits_witness:
  "map_of (rl_buckets (snd (acquires ''k'' (replicate 1000 (5, 1000))
     \<lparr>rl_rate = 1, rl_burst = 1, rl_buckets = []\<rparr>))) ''k'' = Some (5, 0)"
  using limiter_never_limits [of "''k''" "replicate 1000 (5, 1000)" "\<lparr>rl_rate = 1, rl_burst = 1, rl_buckets = []\<rparr>"]
  by simp

section \<open>Retries\<close>

text \<open>
  \<open>attempts i\<close> is the outcome of the call number \<open>i\<close>. The result comes with the delays slept; with no
  attempt allowed the code raises \<open>None\<close>, which is a \<open>TypeError\<close>.
\<close>

definition delay :: "rat \<Rightarrow> bool \<Rightarrow> nat \<Rightarrow> rat" where
  "delay backoff exponential i = backoff * (if exponential then 2 ^ i else 1)"

fun retry_from ::
    "nat \<Rightarrow> nat \<Rightarrow> (nat \<Rightarrow> py_error + 'v) \<Rightarrow> (py_error \<Rightarrow> bool) \<Rightarrow> rat \<Rightarrow> bool \<Rightarrow> py_error
       \<Rightarrow> (py_error + 'v) \<times> rat list" where
  "retry_from 0 i attempts retry_on backoff ex latest = (Inl latest, [])"
| "retry_from (Suc n) i attempts retry_on backoff ex latest =
     (case attempts i of
        Inr v \<Rightarrow> (Inr v, [])
      | Inl err \<Rightarrow>
          if \<not> retry_on err then (Inl err, [])
          else let (r, ds) = retry_from n (i + 1) attempts retry_on backoff ex err
               in (r, if n > 0 then delay backoff ex i # ds else ds))"

definition with_retry ::
    "nat \<Rightarrow> (nat \<Rightarrow> py_error + 'v) \<Rightarrow> (py_error \<Rightarrow> bool) \<Rightarrow> rat \<Rightarrow> bool \<Rightarrow> (py_error + 'v) \<times> rat list" where
  "with_retry max_attempts attempts retry_on backoff ex =
     retry_from max_attempts 0 attempts retry_on backoff ex
       (TypeError ''exceptions must derive from BaseException'')"

lemma retry_all_fail:
  "(\<And>j. i \<le> j \<Longrightarrow> j < i + n \<Longrightarrow> \<exists>err. attempts j = Inl err \<and> retry_on err) \<Longrightarrow>
     retry_from n i attempts retry_on b ex latest =
       (if n = 0 then Inl latest else map_sum id id (attempts (i + n - 1)), map (delay b ex) [i..<i + n - 1])"
proof (induction n arbitrary: i latest)
  case 0
  then show ?case by simp
next
  case (Suc n)
  obtain err where err: "attempts i = Inl err" "retry_on err" using Suc.prems [of i] by auto
  have "\<exists>err. attempts j = Inl err \<and> retry_on err" if "i + 1 \<le> j" "j < i + 1 + n" for j
    using Suc.prems [of j] that by simp
  from Suc.IH [OF this, where latest = err] err show ?case
    by (cases n) (simp_all add: upt_conv_Cons sum.map_id del: upt_Suc)
qed

lemma retry_success:
  "(\<And>j. i \<le> j \<Longrightarrow> j < i + m \<Longrightarrow> \<exists>err. attempts j = Inl err \<and> retry_on err) \<Longrightarrow> m < n \<Longrightarrow>
     attempts (i + m) = Inr v \<Longrightarrow>
     retry_from n i attempts retry_on b ex latest = (Inr v, map (delay b ex) [i..<i + m])"
proof (induction m arbitrary: n i latest)
  case 0
  then show ?case by (cases n) auto
next
  case (Suc m)
  obtain k where n: "n = Suc k" using Suc.prems(2) by (cases n) auto
  obtain err where err: "attempts i = Inl err" "retry_on err" using Suc.prems(1) [of i] by auto
  have "\<exists>err. attempts j = Inl err \<and> retry_on err" if "i + 1 \<le> j" "j < i + 1 + m" for j
    using Suc.prems(1) [of j] that by simp
  from Suc.IH [OF this, where n = k and latest = err] Suc.prems(2,3) err show ?case
    by (simp add: n upt_conv_Cons del: upt_Suc)
qed

lemma delay_sum: "sum_list (map (delay b True) [0..<m]) = b * (2 ^ m - 1)"
  by (induction m) (simp_all add: delay_def algebra_simps)

text \<open>
  Note: A retried function that fails \<open>m\<close> times with errors it is retried on and then succeeds returns that
  success if more than \<open>m\<close> attempts are allowed, after sleeping \<open>backoff * (2^m - 1)\<close>; if not, its latest
  error is raised, without a sleep after the last attempt.
\<close>

theorem retry_outcome:
  assumes "\<And>j. j < m \<Longrightarrow> \<exists>err. attempts j = Inl err \<and> retry_on err" "attempts m = Inr v"
  shows "(m < n \<longrightarrow> fst (with_retry n attempts retry_on b ex) = Inr v \<and>
        sum_list (snd (with_retry n attempts retry_on b True)) = b * (2 ^ m - 1)) \<and>
    (0 < n \<and> n \<le> m \<longrightarrow> fst (with_retry n attempts retry_on b ex) = attempts (n - 1) \<and>
        length (snd (with_retry n attempts retry_on b ex)) = n - 1)"
proof (intro conjI impI)
  assume "m < n"
  then have "with_retry n attempts retry_on b x = (Inr v, map (delay b x) [0..<m])" for x
    unfolding with_retry_def using retry_success [of 0 m attempts retry_on n v] assms by simp
  then show "fst (with_retry n attempts retry_on b ex) = Inr v"
    "sum_list (snd (with_retry n attempts retry_on b True)) = b * (2 ^ m - 1)" by (simp_all add: delay_sum)
next
  assume n: "0 < n \<and> n \<le> m"
  then have "with_retry n attempts retry_on b ex = (attempts (n - 1), map (delay b ex) [0..<n - 1])"
    unfolding with_retry_def using retry_all_fail [of 0 n attempts retry_on] assms(1)
    by (simp add: sum.map_id)
  then show "fst (with_retry n attempts retry_on b ex) = attempts (n - 1)"
    "length (snd (with_retry n attempts retry_on b ex)) = n - 1" by simp_all
qed

theorem retry_outcome_witness:
  "fst (with_retry 3 (\<lambda>i. if i < 2 then Inl (ValueError ''x'') else Inr ''ok'') (\<lambda>e. True) 1 False) = Inr ''ok'' \<and>
   sum_list (snd (with_retry 3 (\<lambda>i. if i < 2 then Inl (ValueError ''x'') else Inr ''ok'') (\<lambda>e. True) 1 True)) = 3"
  using retry_outcome [of 2 "\<lambda>i. if i < 2 then Inl (ValueError ''x'') else Inr ''ok''" "\<lambda>e. True" "''ok''" 3 1 False]
  by simp

section \<open>Timeouts\<close>

record timeout_manager =
  tm_default :: rat
  tm_timeouts :: "rat pdict"

definition set_timeout :: "string \<Rightarrow> rat \<Rightarrow> timeout_manager \<Rightarrow> timeout_manager" where
  "set_timeout k t m = m\<lparr>tm_timeouts := AList.update k t (tm_timeouts m)\<rparr>"

definition get_timeout :: "string \<Rightarrow> timeout_manager \<Rightarrow> rat" where
  "get_timeout k m = (case map_of (tm_timeouts m) k of Some t \<Rightarrow> t | None \<Rightarrow> tm_default m)"

text \<open>
  \<open>took\<close> is how long the function takes, if it ends, and \<open>outcome\<close> what it does; a timeout that the function
  itself raises is reported as the request's.
\<close>

definition run_with_timeout ::
    "string \<Rightarrow> rat option \<Rightarrow> py_error + 'v \<Rightarrow> timeout_manager \<Rightarrow> py_error + 'v" where
  "run_with_timeout k took outcome m =
     (let late = Inl (PrismError (RequestTimeoutError k (get_timeout k m))) in
      case took of
        None \<Rightarrow> late
      | Some d \<Rightarrow>
          if \<not> d < get_timeout k m then late
          else (case outcome of
                  Inl (OtherError ty msg) \<Rightarrow> if ty = ''TimeoutError'' then late else outcome
                | _ \<Rightarrow> outcome))"

end
