(* ===== verification/DocumentOps.thy ===== *)
theory DocumentOps
  imports Storage
begin

text \<open>
  The durable store of document operations (\<open>src/prismpipe/document/operations.py\<close>): claims with leases
  and fencing tokens, outcomes, and the outbox of results to publish.

  The SQLite table is a map from idempotency keys to rows. Every method runs in one transaction, which
  SQLite serialises, so the behaviours of any number of workers are the sequences of these operations.
  Values of JSON columns are kept as what \<open>json.loads\<close> gives back for their canonical text. Times are
  rationals (ISO texts of UTC times sort like the times they denote); fresh tokens are arguments.
\<close>

section \<open>Rows\<close>

datatype op_status =
  RECEIVED | PROCESSING | SUCCEEDED | RETRYABLE_FAILURE | TERMINAL_FAILURE | DEAD_LETTERED

datatype publication = NONE | PENDING | PUBLISHED

text \<open>\<open>DocumentProcessingError\<close> and its subclass, a lost claim, and errors of the library.\<close>

datatype doc_error =
    ProcessingError string string bool dict
  | StaleClaim string
  | DocOther py_error

definition conflict_error :: doc_error where
  "conflict_error = ProcessingError ''IDEMPOTENCY_CONFLICT''
     ''The idempotency key is already associated with a different request'' False []"

fun error_payload :: "doc_error \<Rightarrow> dict" where
  "error_payload (ProcessingError c m retryable ds) =
     [(''code'', PStr c), (''message'', PStr m), (''retryable'', PBool retryable), (''details'', PDict ds)]"
| "error_payload _ = []"

record doc_op =
  do_operation_id :: string
  do_key :: string
  do_fingerprint :: string
  do_document_id :: string
  do_manifest_version :: string
  do_capability :: string
  do_payload :: pval
  do_status :: op_status
  do_attempts :: nat
  do_token :: "string option"
  do_created :: rat
  do_updated :: rat
  do_result :: "pval option"
  do_error :: "pval option"
  do_metadata :: pval
  do_publication :: publication
  do_pub_attempts :: nat
  do_topic :: "string option"
  do_message_id :: "string option"
  do_outbound :: "pval option"
  do_lease :: "rat option"

type_synonym op_store = "doc_op pdict"

text \<open>\<open>canonical_json\<close> refuses numbers that are not finite.\<close>

fun json_ok :: "pval \<Rightarrow> bool" where
  "json_ok (PFloat f) = (case f of Fin _ \<Rightarrow> True | _ \<Rightarrow> False)"
| "json_ok (PList xs) = list_all json_ok xs"
| "json_ok (PDict d) = list_all (\<lambda>(k, v). json_ok v) d"
| "json_ok _ = True"

definition json_error :: py_error where
  "json_error = ValueError ''Out of range float values are not JSON compliant''"

definition opt_json_ok :: "pval option \<Rightarrow> bool" where
  "opt_json_ok v = (case v of None \<Rightarrow> True | Some x \<Rightarrow> json_ok x)"

section \<open>Claims\<close>

record claim_request =
  cr_operation_id :: string
  cr_key :: string
  cr_fingerprint :: string
  cr_document_id :: string
  cr_manifest_version :: string
  cr_capability :: string
  cr_payload :: pval
  cr_metadata :: pval

definition is_final :: "op_status \<Rightarrow> bool" where
  "is_final s = (s \<in> {SUCCEEDED, TERMINAL_FAILURE, DEAD_LETTERED})"

definition new_op :: "rat \<Rightarrow> rat \<Rightarrow> string \<Rightarrow> claim_request \<Rightarrow> doc_op" where
  "new_op now lease token c =
     \<lparr>do_operation_id = cr_operation_id c, do_key = cr_key c, do_fingerprint = cr_fingerprint c,
      do_document_id = cr_document_id c, do_manifest_version = cr_manifest_version c,
      do_capability = cr_capability c, do_payload = json_norm (cr_payload c), do_status = PROCESSING,
      do_attempts = 1, do_token = Some token, do_created = now, do_updated = now, do_result = None,
      do_error = None, do_metadata = json_norm (cr_metadata c), do_publication = NONE,
      do_pub_attempts = 0, do_topic = None, do_message_id = None, do_outbound = None,
      do_lease = Some lease\<rparr>"

definition reclaimed :: "rat \<Rightarrow> rat \<Rightarrow> string \<Rightarrow> doc_op \<Rightarrow> doc_op" where
  "reclaimed now lease token r =
     r\<lparr>do_status := PROCESSING, do_attempts := do_attempts r + 1, do_updated := now,
       do_lease := Some lease, do_token := Some token, do_error := None\<rparr>"

definition lease_active :: "rat \<Rightarrow> doc_op \<Rightarrow> bool" where
  "lease_active now r =
     (do_status r = PROCESSING \<and> (case do_lease r of Some l \<Rightarrow> now < l | None \<Rightarrow> False))"

text \<open>
  \<open>_claim_sync\<close>: \<open>now\<close> and \<open>later\<close> are its two readings of the clock. The result says whether the caller
  owns the operation.
\<close>

definition claim ::
    "rat \<Rightarrow> rat \<Rightarrow> rat \<Rightarrow> string \<Rightarrow> claim_request \<Rightarrow> op_store \<Rightarrow> (doc_error + doc_op \<times> bool) \<times> op_store" where
  "claim lease_seconds now later token c s =
     (let lease = later + max lease_seconds 0 in
      case map_of s (cr_key c) of
        None \<Rightarrow>
          if \<not> json_ok (cr_payload c) \<or> \<not> json_ok (cr_metadata c) then (Inl (DocOther json_error), s)
          else if \<exists>r \<in> snd ` set s. do_operation_id r = cr_operation_id c
          then (Inl (DocOther (OtherError ''IntegrityError''
                  ''UNIQUE constraint failed: document_operations.operation_id'')), s)
          else let r = new_op now lease token c in (Inr (r, True), AList.update (cr_key c) r s)
      | Some r \<Rightarrow>
          if do_fingerprint r \<noteq> cr_fingerprint c then (Inl conflict_error, s)
          else if is_final (do_status r) then (Inr (r, False), s)
          else if lease_active now r then (Inr (r, False), s)
          else let r' = reclaimed now lease token r in (Inr (r', True), AList.update (cr_key c) r' s))"

definition get_op :: "string \<Rightarrow> op_store \<Rightarrow> doc_op option" where
  "get_op k s = map_of s k"

section \<open>Outcomes\<close>

record outcome_msg =
  om_status :: op_status
  om_result :: "pval option"
  om_error :: "pval option"
  om_topic :: string
  om_message_id :: string
  om_payload :: pval

definition expected_status :: "op_status \<Rightarrow> op_status" where
  "expected_status s = (if s = DEAD_LETTERED then RETRYABLE_FAILURE else PROCESSING)"

definition finished :: "rat \<Rightarrow> outcome_msg \<Rightarrow> doc_op \<Rightarrow> doc_op" where
  "finished now m r =
     r\<lparr>do_status := om_status m, do_result := map_option json_norm (om_result m),
       do_error := map_option json_norm (om_error m), do_updated := now, do_lease := None,
       do_token := None, do_publication := PENDING, do_topic := Some (om_topic m),
       do_message_id := Some (om_message_id m), do_outbound := Some (json_norm (om_payload m))\<rparr>"

definition finish ::
    "rat \<Rightarrow> string \<Rightarrow> string \<Rightarrow> outcome_msg \<Rightarrow> op_store \<Rightarrow> (doc_error + doc_op) \<times> op_store" where
  "finish now k token m s =
     (case map_of s k of
        None \<Rightarrow> (Inl (DocOther (KeyError k)), s)
      | Some r \<Rightarrow>
          if do_token r \<noteq> Some token \<or> do_status r \<noteq> expected_status (om_status m)
          then (Inl (StaleClaim k), s)
          else if \<not> opt_json_ok (om_result m) \<or> \<not> opt_json_ok (om_error m) \<or> \<not> json_ok (om_payload m)
          then (Inl (DocOther json_error), s)
          else let r' = finished now m r in (Inr r', AList.update k r' s))"

definition record_retryable ::
    "rat \<Rightarrow> string \<Rightarrow> string \<Rightarrow> pval \<Rightarrow> op_store \<Rightarrow> (doc_error + doc_op) \<times> op_store" where
  "record_retryable now k token err s =
     (if \<not> json_ok err then (Inl (DocOther json_error), s)
      else case map_of s k of
        None \<Rightarrow> (Inl (StaleClaim k), s)
      | Some r \<Rightarrow>
          if do_token r \<noteq> Some token \<or> do_status r \<noteq> PROCESSING then (Inl (StaleClaim k), s)
          else let r' = r\<lparr>do_status := RETRYABLE_FAILURE, do_error := Some (json_norm err),
                         do_updated := now, do_lease := None\<rparr>
               in (Inr r', AList.update k r' s))"

section \<open>The outbox\<close>

definition publication_update ::
    "rat \<Rightarrow> string \<Rightarrow> bool \<Rightarrow> op_store \<Rightarrow> (doc_error + doc_op) \<times> op_store" where
  "publication_update now k published s =
     (case map_of s k of
        None \<Rightarrow> (Inl (DocOther (KeyError k)), s)
      | Some r \<Rightarrow>
          let r' = (if published then r\<lparr>do_publication := PUBLISHED, do_updated := now\<rparr>
                    else r\<lparr>do_pub_attempts := do_pub_attempts r + 1, do_updated := now\<rparr>)
          in (Inr r', AList.update k r' s))"

definition mark_published :: "rat \<Rightarrow> string \<Rightarrow> op_store \<Rightarrow> (doc_error + doc_op) \<times> op_store" where
  "mark_published now k s = publication_update now k True s"

definition increment_publication_attempt ::
    "rat \<Rightarrow> string \<Rightarrow> op_store \<Rightarrow> (doc_error + doc_op) \<times> op_store" where
  "increment_publication_attempt now k s = publication_update now k False s"

text \<open>\<open>ORDER BY updated_at, operation_id\<close>: a stable sort by the second, then by the first.\<close>

definition pending_rows :: "op_store \<Rightarrow> doc_op list" where
  "pending_rows s =
     sort_key do_updated (sort_key do_operation_id
       (filter (\<lambda>r. do_publication r = PENDING) (map snd s)))"

definition pending_publications :: "int \<Rightarrow> op_store \<Rightarrow> doc_op list" where
  "pending_publications limit s = take (nat (max limit 0)) (pending_rows s)"

section \<open>Any number of workers\<close>

datatype doc_event =
    EClaim rat rat string claim_request
  | EFinished rat string string outcome_msg
  | ERetryable rat string string pval
  | EPublished rat string
  | EAttempted rat string

fun doc_step :: "rat \<Rightarrow> doc_event \<Rightarrow> op_store \<Rightarrow> op_store" where
  "doc_step ls (EClaim now later token c) s = snd (claim ls now later token c s)"
| "doc_step ls (EFinished now k token m) s = snd (finish now k token m s)"
| "doc_step ls (ERetryable now k token err) s = snd (record_retryable now k token err s)"
| "doc_step ls (EPublished now k) s = snd (mark_published now k s)"
| "doc_step ls (EAttempted now k) s = snd (increment_publication_attempt now k s)"

lemmas op_defs =
  claim_def finish_def record_retryable_def mark_published_def increment_publication_attempt_def
  publication_update_def

section \<open>A settled operation stays settled\<close>

record settlement =
  st_status :: op_status
  st_fingerprint :: string
  st_result :: "pval option"
  st_error :: "pval option"
  st_topic :: "string option"
  st_message_id :: "string option"
  st_outbound :: "pval option"
  st_attempts :: nat

definition settled :: "string \<Rightarrow> op_store \<Rightarrow> settlement option" where
  "settled k s =
     (case map_of s k of
        None \<Rightarrow> None
      | Some r \<Rightarrow>
          if is_final (do_status r)
          then Some \<lparr>st_status = do_status r, st_fingerprint = do_fingerprint r, st_result = do_result r,
                     st_error = do_error r, st_topic = do_topic r, st_message_id = do_message_id r,
                     st_outbound = do_outbound r, st_attempts = do_attempts r\<rparr>
          else None)"

lemma final_statuses [simp]:
  "is_final SUCCEEDED" "is_final TERMINAL_FAILURE" "is_final DEAD_LETTERED"
  "\<not> is_final PROCESSING" "\<not> is_final RECEIVED" "\<not> is_final RETRYABLE_FAILURE"
  by (simp_all add: is_final_def)

lemma expected_not_final: "do_status r = expected_status st \<Longrightarrow> \<not> is_final (do_status r)"
  by (simp add: expected_status_def split: if_splits)

lemma settled_step: "settled k s = Some x \<Longrightarrow> settled k (doc_step ls e s) = Some x"
  by (cases e)
    (auto simp: op_defs settled_def Let_def map_of_update dest: expected_not_final
      split: option.splits if_splits)

interpretation settled: invariant_machine "doc_step ls" "\<lambda>_ _. True" "\<lambda>s. settled k s = Some x" for ls k x
  by unfold_locales (rule settled_step)

lemma run_ok_True [simp]: "run_ok step (\<lambda>_ _. True) es s"
  by (induction es arbitrary: s) simp_all

text \<open>
  C8: A settled operation is never worked on again: whatever any number of workers do afterwards, its
  outcome, its error and its outgoing message stay as they are, every claim for the same request is told so
  without becoming an owner, a claim for a different request is refused as a conflict, and neither an
  outcome nor a failure is accepted, whatever token comes with it.
\<close>

theorem settled_forever:
  assumes "settled k s = Some x"
    and "s' = run_steps (doc_step ls) es s"
  shows "settled k s' = Some x \<and>
    (cr_key c = k \<longrightarrow> (\<exists>r. claim ls now later token c s' =
       ((if st_fingerprint x = cr_fingerprint c then Inr (r, False) else Inl conflict_error), s') \<and>
       do_status r = st_status x \<and> do_result r = st_result x)) \<and>
    finish now k token m s' = (Inl (StaleClaim k), s') \<and>
    snd (record_retryable now k token err s') = s'"
proof -
  have st: "settled k s' = Some x"
    unfolding assms(2) by (rule settled.run_inv) (simp_all add: assms(1))
  then obtain r where r: "map_of s' k = Some r" "is_final (do_status r)"
    "st_fingerprint x = do_fingerprint r" "st_status x = do_status r" "st_result x = do_result r"
    by (auto simp: settled_def split: option.splits if_splits)
  have "do_status r \<noteq> expected_status (om_status m)" "do_status r \<noteq> PROCESSING"
    using r(2) expected_not_final by auto
  with st r show ?thesis
    by (auto simp: claim_def finish_def record_retryable_def Let_def)
qed

section \<open>Leases and tokens\<close>

text \<open>A worker lost its claim \<open>t\<close> when the row carries another token, or none.\<close>

definition lost :: "string \<Rightarrow> string \<Rightarrow> op_store \<Rightarrow> bool" where
  "lost k t s = (\<exists>r. map_of s k = Some r \<and> do_token r \<noteq> Some t)"

fun token_unused :: "string \<Rightarrow> doc_event \<Rightarrow> op_store \<Rightarrow> bool" where
  "token_unused t (EClaim now later t' c) s = (t' \<noteq> t)"
| "token_unused t e s = True"

lemma lost_step: "lost k t s \<Longrightarrow> token_unused t e s \<Longrightarrow> lost k t (doc_step ls e s)"
  by (cases e)
    (auto simp: op_defs lost_def Let_def map_of_update reclaimed_def finished_def
      split: option.splits if_splits)

interpretation lost: invariant_machine "doc_step ls" "token_unused t" "lost k t" for ls t k
  by unfold_locales (rule lost_step)

text \<open>The worker with token \<open>t\<close> holds the operation until \<open>l\<close>.\<close>

definition holds :: "string \<Rightarrow> string \<Rightarrow> rat \<Rightarrow> op_store \<Rightarrow> bool" where
  "holds k t l s = (\<exists>r. map_of s k = Some r \<and> do_status r = PROCESSING \<and> do_token r = Some t \<and>
     do_lease r = Some l)"

text \<open>What others may do meanwhile: anything, claims before the lease ends included.\<close>

fun others_before :: "string \<Rightarrow> rat \<Rightarrow> doc_event \<Rightarrow> op_store \<Rightarrow> bool" where
  "others_before t l (EClaim now later t' c) s = (now < l)"
| "others_before t l (EFinished now k t' m) s = (t' \<noteq> t)"
| "others_before t l (ERetryable now k t' err) s = (t' \<noteq> t)"
| "others_before t l e s = True"

lemma holds_step: "holds k t l s \<Longrightarrow> others_before t l e s \<Longrightarrow> holds k t l (doc_step ls e s)"
  by (cases e)
    (auto simp: op_defs holds_def Let_def map_of_update lease_active_def
      split: option.splits if_splits)

interpretation holds: invariant_machine "doc_step ls" "others_before t l" "holds k t l" for ls t l k
  by unfold_locales (rule holds_step)

lemma owner_holds:
  "claim ls now later t c s = (Inr (r, True), s') \<Longrightarrow>
     holds (cr_key c) t (later + max ls 0) s' \<and> do_token r = Some t \<and> \<not> (\<exists>x. settled (cr_key c) s = Some x)"
  by (auto simp: claim_def holds_def new_op_def reclaimed_def settled_def Let_def map_of_update
      split: option.splits if_splits)

text \<open>
  C9: A claim excludes and fences. Until its lease ends, every other claim for the operation is turned away
  and the owner's outcome will be accepted, whatever other workers try in between. Once somebody else has
  become the owner, neither an outcome nor a failure of the earlier owner is accepted any more, ever.
\<close>

theorem claims_exclude_and_fence:
  assumes "claim ls now later t c s = (Inr (r, True), s1)"
    and "run_ok (doc_step ls) (others_before t (later + max ls 0)) es s1"
    and "s2 = run_steps (doc_step ls) es s1"
    and "om_status m \<noteq> DEAD_LETTERED" "opt_json_ok (om_result m)" "opt_json_ok (om_error m)"
      "json_ok (om_payload m)"
    and "claim ls now' later' t' c s3 = (Inr (r', True), s4)" "t' \<noteq> t"
    and "run_ok (doc_step ls) (token_unused t) es' s4" "s5 = run_steps (doc_step ls) es' s4"
  shows "(\<exists>r2. finish n (cr_key c) t m s2 = (Inr r2, snd (finish n (cr_key c) t m s2)) \<and>
      do_status r2 = om_status m \<and> do_token r2 = None) \<and>
    (now2 < later + max ls 0 \<and> cr_key d = cr_key c \<longrightarrow>
       snd (claim ls now2 later2 t2 d s2) = s2 \<and> (\<forall>r2. fst (claim ls now2 later2 t2 d s2) \<noteq> Inr (r2, True))) \<and>
    finish n (cr_key c) t m' s5 = (Inl (StaleClaim (cr_key c)), s5) \<and>
    snd (record_retryable n (cr_key c) t err s5) = s5"
proof -
  have "holds (cr_key c) t (later + max ls 0) s2"
    unfolding assms(3) using holds.run_inv [OF _ assms(2)] owner_holds [OF assms(1)] by blast
  then obtain r1 where r1: "map_of s2 (cr_key c) = Some r1" "do_status r1 = PROCESSING"
    "do_token r1 = Some t" "do_lease r1 = Some (later + max ls 0)" by (auto simp: holds_def)
  have "lost (cr_key c) t s4"
    using owner_holds [OF assms(8)] assms(9) by (auto simp: lost_def holds_def)
  then have "lost (cr_key c) t s5"
    unfolding assms(11) using lost.run_inv [OF _ assms(10)] by blast
  then obtain r5 where r5: "map_of s5 (cr_key c) = Some r5" "do_token r5 \<noteq> Some t" by (auto simp: lost_def)
  have "finish n (cr_key c) t m s2 = (Inr (finished n m r1), AList.update (cr_key c) (finished n m r1) s2)"
    using r1 assms(4-7) by (simp add: finish_def expected_status_def Let_def)
  moreover have "now2 < later + max ls 0 \<Longrightarrow> cr_key d = cr_key c \<Longrightarrow>
      snd (claim ls now2 later2 t2 d s2) = s2 \<and> (\<forall>r2. fst (claim ls now2 later2 t2 d s2) \<noteq> Inr (r2, True))"
    using r1 by (auto simp: claim_def lease_active_def Let_def)
  moreover have "finish n (cr_key c) t m' s5 = (Inl (StaleClaim (cr_key c)), s5)"
    "snd (record_retryable n (cr_key c) t err s5) = s5"
    using r5 by (simp_all add: finish_def record_retryable_def)
  ultimately show ?thesis by (auto simp: finished_def)
qed

section \<open>The outbox loses nothing\<close>

definition waiting :: "string \<Rightarrow> pval \<Rightarrow> op_store \<Rightarrow> bool" where
  "waiting k msg s = (\<exists>r. map_of s k = Some r \<and> is_final (do_status r) \<and> do_publication r = PENDING \<and>
     do_outbound r = Some msg)"

fun not_published :: "string \<Rightarrow> doc_event \<Rightarrow> op_store \<Rightarrow> bool" where
  "not_published k (EPublished now k') s = (k' \<noteq> k)"
| "not_published k e s = True"

lemma waiting_step: "waiting k msg s \<Longrightarrow> not_published k e s \<Longrightarrow> waiting k msg (doc_step ls e s)"
  by (cases e)
    (auto simp: op_defs waiting_def Let_def map_of_update dest: expected_not_final
      split: option.splits if_splits)

interpretation waiting: invariant_machine "doc_step ls" "not_published k" "waiting k msg" for ls k msg
  by unfold_locales (rule waiting_step)

text \<open>
  C10: The outbox loses nothing: the message of an accepted final outcome is among the pending publications,
  and stays there through everything that any worker does until that operation is marked as published.
\<close>

theorem outbox_keeps_message:
  assumes "finish now k token m s = (Inr r, s1)" "is_final (om_status m)"
    and "run_ok (doc_step ls) (not_published k) es s1"
    and "s2 = run_steps (doc_step ls) es s1"
  shows "\<exists>r2 \<in> set (pending_publications (int (length s2)) s2). map_of s2 k = Some r2 \<and>
    do_outbound r2 = Some (json_norm (om_payload m)) \<and> is_final (do_status r2)"
proof -
  have "waiting k (json_norm (om_payload m)) s1"
    using assms(1,2) by (auto simp: finish_def waiting_def finished_def Let_def map_of_update
        split: option.splits if_splits)
  then have "waiting k (json_norm (om_payload m)) s2"
    unfolding assms(4) using waiting.run_inv [OF _ assms(3)] by blast
  then obtain r2 where r2: "map_of s2 k = Some r2" "is_final (do_status r2)" "do_publication r2 = PENDING"
    "do_outbound r2 = Some (json_norm (om_payload m))" by (auto simp: waiting_def)
  have "r2 \<in> set (pending_rows s2)"
    using r2(1,3) by (auto simp: pending_rows_def dest: map_of_SomeD intro: rev_image_eqI)
  moreover have "length (pending_rows s2) \<le> length s2"
    by (simp add: pending_rows_def)
  ultimately have "r2 \<in> set (pending_publications (int (length s2)) s2)"
    by (simp add: pending_publications_def)
  with r2 show ?thesis by blast
qed

section \<open>Rows are always complete\<close>

definition op_ok :: "string \<Rightarrow> doc_op \<Rightarrow> bool" where
  "op_ok k r \<longleftrightarrow> do_key r = k \<and> 1 \<le> do_attempts r \<and> do_status r \<noteq> RECEIVED \<and>
     (do_status r = PROCESSING \<longrightarrow> do_token r \<noteq> None \<and> do_lease r \<noteq> None) \<and>
     (do_status r = RETRYABLE_FAILURE \<longrightarrow> do_token r \<noteq> None \<and> do_lease r = None \<and> do_error r \<noteq> None) \<and>
     (is_final (do_status r) \<longrightarrow> do_token r = None \<and> do_lease r = None \<and> do_topic r \<noteq> None \<and>
        do_message_id r \<noteq> None \<and> do_outbound r \<noteq> None) \<and>
     (do_publication r = NONE \<longleftrightarrow> \<not> is_final (do_status r))"

definition store_ok :: "op_store \<Rightarrow> bool" where
  "store_ok s = (\<forall>k r. map_of s k = Some r \<longrightarrow> op_ok k r)"

text \<open>What the processor and the consumer do: outcomes are final, and only outgoing messages are published.\<close>

fun proper_event :: "doc_event \<Rightarrow> op_store \<Rightarrow> bool" where
  "proper_event (EFinished now k t m) s = is_final (om_status m)"
| "proper_event (EPublished now k) s =
     (case map_of s k of Some r \<Rightarrow> do_publication r \<noteq> NONE | None \<Rightarrow> True)"
| "proper_event e s = True"

lemma store_ok_update: "store_ok s \<Longrightarrow> op_ok k r \<Longrightarrow> store_ok (AList.update k r s)"
  by (simp add: store_ok_def map_of_update)

lemma store_okD: "store_ok s \<Longrightarrow> map_of s k = Some r \<Longrightarrow> op_ok k r"
  by (simp add: store_ok_def)

text \<open>A change of one row keeps the table's invariant when it keeps the row's.\<close>

lemma store_ok_row:
  assumes "store_ok s" "map_of s k = Some r" "op_ok k r \<Longrightarrow> op_ok k r'"
  shows "store_ok (AList.update k r' s)"
  using assms by (intro store_ok_update) (auto dest: store_okD)

lemma store_ok_step:
  assumes "store_ok s" "proper_event e s"
  shows "store_ok (doc_step ls e s)"
proof (cases e)
  case (EClaim now later t c)
  have new: "op_ok (cr_key c) (new_op now l t c)" for l by (simp add: op_ok_def new_op_def)
  have re: "op_ok (cr_key c) r \<Longrightarrow> \<not> is_final (do_status r) \<Longrightarrow> op_ok (cr_key c) (reclaimed now l t r)"
    for r l by (simp add: op_ok_def reclaimed_def)
  show ?thesis
  proof (cases "map_of s (cr_key c)")
    case None
    with assms(1) store_ok_update [OF assms(1) new] show ?thesis by (simp add: EClaim claim_def Let_def)
  next
    case (Some r)
    then show ?thesis
      using assms(1) store_ok_row [OF assms(1) Some re] by (simp add: EClaim claim_def Let_def)
  qed
next
  case (EFinished now k t m)
  have fin: "is_final (om_status m)" using assms(2) by (simp add: EFinished)
  have ok: "op_ok k r \<Longrightarrow> op_ok k (finished now m r)" for r
    using fin by (cases "om_status m") (simp_all add: op_ok_def finished_def)
  show ?thesis
  proof (cases "map_of s k")
    case (Some r)
    with assms(1) store_ok_row [OF assms(1) Some ok] show ?thesis by (simp add: EFinished finish_def Let_def)
  qed (simp add: EFinished finish_def assms(1))
next
  case (ERetryable now k t err)
  have ok: "do_status r = PROCESSING \<Longrightarrow> op_ok k r \<Longrightarrow> op_ok k (r\<lparr>do_status := RETRYABLE_FAILURE,
      do_error := Some (json_norm err), do_updated := now, do_lease := None\<rparr>)" for r
    by (simp add: op_ok_def)
  show ?thesis
  proof (cases "map_of s k")
    case (Some r)
    with assms(1) store_ok_row [OF assms(1) Some ok] show ?thesis
      by (simp add: ERetryable record_retryable_def Let_def)
  qed (simp add: ERetryable record_retryable_def assms(1))
next
  case (EPublished now k)
  have ok: "do_publication r \<noteq> NONE \<Longrightarrow> op_ok k r \<Longrightarrow>
      op_ok k (r\<lparr>do_publication := PUBLISHED, do_updated := now\<rparr>)" for r by (simp add: op_ok_def)
  show ?thesis
  proof (cases "map_of s k")
    case (Some r)
    with assms store_ok_row [OF assms(1) Some ok] show ?thesis
      by (simp add: EPublished mark_published_def publication_update_def Let_def)
  qed (simp add: EPublished mark_published_def publication_update_def assms(1))
next
  case (EAttempted now k)
  have ok: "op_ok k r \<Longrightarrow> op_ok k (r\<lparr>do_pub_attempts := do_pub_attempts r + 1, do_updated := now\<rparr>)" for r
    by (simp add: op_ok_def)
  show ?thesis
  proof (cases "map_of s k")
    case (Some r)
    with store_ok_row [OF assms(1) Some ok] show ?thesis
      by (simp add: EAttempted increment_publication_attempt_def publication_update_def Let_def)
  qed (simp add: EAttempted increment_publication_attempt_def publication_update_def assms(1))
qed

interpretation store: invariant_machine "doc_step ls" proper_event store_ok for ls
  by unfold_locales (rule store_ok_step)

text \<open>Every pending publication can be sent: its topic, message identifier and payload are there.\<close>

lemma pending_complete:
  assumes "run_ok (doc_step ls) proper_event es []" "r \<in> set (pending_publications n (run_steps (doc_step ls) es []))"
    "wf_dict (run_steps (doc_step ls) es [])"
  shows "do_topic r \<noteq> None \<and> do_message_id r \<noteq> None \<and> do_outbound r \<noteq> None \<and> is_final (do_status r)"
proof -
  let ?s = "run_steps (doc_step ls) es []"
  have ok: "store_ok ?s" by (rule store.run_inv [OF _ assms(1)]) (simp add: store_ok_def)
  from assms(2) have "r \<in> snd ` set ?s" "do_publication r = PENDING"
    by (auto simp: pending_publications_def pending_rows_def dest!: in_set_takeD)
  then obtain k where "(k, r) \<in> set ?s" by auto
  with assms(3) have "map_of ?s k = Some r" by (rule map_of_is_SomeI)
  with ok \<open>do_publication r = PENDING\<close> show ?thesis by (auto dest!: store_okD simp: op_ok_def)
qed

section \<open>Examples\<close>

definition demo_claim :: claim_request where
  "demo_claim = \<lparr>cr_operation_id = ''docop_1'', cr_key = ''k'', cr_fingerprint = ''f'',
     cr_document_id = ''d'', cr_manifest_version = ''1'', cr_capability = ''document.vectorize'',
     cr_payload = PDict [], cr_metadata = PDict []\<rparr>"

definition demo_outcome :: outcome_msg where
  "demo_outcome = \<lparr>om_status = SUCCEEDED, om_result = Some (PDict []), om_error = None,
     om_topic = ''artifacts'', om_message_id = ''m'', om_payload = PDict []\<rparr>"

lemma demo_row:
  "fst (claim 60 0 0 ''t1'' demo_claim []) = Inr (new_op 0 60 ''t1'' demo_claim, True)"
  "snd (claim 60 0 0 ''t1'' demo_claim []) = [(''k'', new_op 0 60 ''t1'' demo_claim)]"
  by (simp_all add: claim_def demo_claim_def Let_def)

lemma demo_finished:
  "finish 1 ''k'' ''t1'' demo_outcome [(''k'', new_op 0 60 ''t1'' demo_claim)] =
     (Inr (finished 1 demo_outcome (new_op 0 60 ''t1'' demo_claim)),
      [(''k'', finished 1 demo_outcome (new_op 0 60 ''t1'' demo_claim))])"
  by (simp add: finish_def new_op_def demo_outcome_def expected_status_def opt_json_ok_def Let_def)

theorem settled_forever_witness:
  "finish 9 ''k'' ''t1'' demo_outcome [(''k'', finished 1 demo_outcome (new_op 0 60 ''t1'' demo_claim))] =
   (Inl (StaleClaim ''k''), [(''k'', finished 1 demo_outcome (new_op 0 60 ''t1'' demo_claim))])"
proof -
  let ?s = "[(''k'', finished 1 demo_outcome (new_op 0 60 ''t1'' demo_claim))]"
  obtain x where x: "settled ''k'' ?s = Some x"
    by (simp add: demo_outcome_def finished_def settled_def)
  have "?s = run_steps (doc_step 60) [] ?s" by simp
  from settled_forever [OF x this] show ?thesis by blast
qed

theorem claims_exclude_and_fence_witness:
  "finish 9 ''k'' ''t1'' demo_outcome (snd (claim 60 100 100 ''t2'' demo_claim
     (snd (claim 60 0 0 ''t1'' demo_claim [])))) =
   (Inl (StaleClaim ''k''), snd (claim 60 100 100 ''t2'' demo_claim (snd (claim 60 0 0 ''t1'' demo_claim []))))"
proof -
  let ?s1 = "snd (claim 60 0 0 ''t1'' demo_claim [])"
  let ?s4 = "snd (claim 60 100 100 ''t2'' demo_claim ?s1)"
  have c1: "claim 60 0 0 ''t1'' demo_claim [] = (Inr (new_op 0 60 ''t1'' demo_claim, True), ?s1)"
    by (simp add: prod_eq_iff demo_row)
  have c2: "claim 60 100 100 ''t2'' demo_claim ?s1 =
      (Inr (reclaimed 100 160 ''t2'' (new_op 0 60 ''t1'' demo_claim), True), ?s4)"
    by (simp add: demo_row claim_def new_op_def demo_claim_def lease_active_def Let_def)
  have k: "cr_key demo_claim = ''k''" by (simp add: demo_claim_def)
  have m: "om_status demo_outcome \<noteq> DEAD_LETTERED" "opt_json_ok (om_result demo_outcome)"
    "opt_json_ok (om_error demo_outcome)" "json_ok (om_payload demo_outcome)"
    by (simp_all add: demo_outcome_def opt_json_ok_def)
  have t: "''t2'' \<noteq> (''t1'' :: string)" by simp
  have e1: "run_ok (doc_step 60) (others_before ''t1'' (0 + max 60 0)) [] ?s1" by simp
  have e2: "run_ok (doc_step 60) (token_unused ''t1'') [] ?s4" by simp
  show ?thesis
    using claims_exclude_and_fence [OF c1 e1 refl m c2 t e2 refl, where m' = demo_outcome and n = 9]
    by (simp add: k)
qed

theorem outbox_keeps_message_witness:
  "\<exists>r2 \<in> set (pending_publications 1 [(''k'', finished 1 demo_outcome (new_op 0 60 ''t1'' demo_claim))]).
     do_outbound r2 = Some (PDict [])"
proof -
  let ?s = "[(''k'', finished 1 demo_outcome (new_op 0 60 ''t1'' demo_claim))]"
  have final: "is_final (om_status demo_outcome)" and norm: "json_norm (om_payload demo_outcome) = PDict []"
    by (simp_all add: demo_outcome_def)
  have none: "run_ok (doc_step 60) (not_published ''k'') [] ?s" by simp
  have "?s = run_steps (doc_step 60) [] ?s" by simp
  from outbox_keeps_message [OF demo_finished final none this] show ?thesis
    unfolding norm by (auto simp del: One_nat_def)
qed

end
