(* ===== verification/Results.thy ===== *)
theory Results
  imports Prism_Prelude
begin

text \<open>
  Computations that may fail, as sums with the error on the left: sequencing, guards, and a loop over
  a list that stops at the first failure. A client reads a successful computation backwards with the
  collection \<open>ok_simps\<close>.
\<close>

named_theorems ok_simps "when a computation succeeds"

definition bindE :: "'e + 'a \<Rightarrow> ('a \<Rightarrow> 'e + 'b) \<Rightarrow> 'e + 'b" where
  "bindE r f = (case r of Inl e \<Rightarrow> Inl e | Inr x \<Rightarrow> f x)"

definition guardE :: "bool \<Rightarrow> 'e \<Rightarrow> 'e + unit" where
  "guardE b e = (if b then Inr () else Inl e)"

lemma bindE_simps [simp]:
  "bindE (Inl e) f = Inl e" "bindE (Inr x) f = f x"
  by (simp_all add: bindE_def)

lemma bindE_Inr [ok_simps]: "bindE r f = Inr y \<longleftrightarrow> (\<exists>x. r = Inr x \<and> f x = Inr y)"
  by (cases r) auto

lemma guardE_Inr [ok_simps]: "guardE b e = Inr () \<longleftrightarrow> b"
  by (simp add: guardE_def)

lemma guardE_True [simp]: "guardE True e = Inr ()"
  by (simp add: guardE_def)

lemma if_Inl [ok_simps]: "(if b then Inl e else r) = Inr y \<longleftrightarrow> \<not> b \<and> r = Inr y"
  by simp

lemma if_not_Inl [ok_simps]: "(if b then r else Inl e) = Inr y \<longleftrightarrow> b \<and> r = Inr y"
  by simp

lemma bindE_cong [fundef_cong]:
  "r = r' \<Longrightarrow> (\<And>x. r' = Inr x \<Longrightarrow> f x = f' x) \<Longrightarrow> bindE r f = bindE r' f'"
  by (cases r') auto

text \<open>\<open>for i, x in enumerate(xs)\<close>, collecting the results.\<close>

fun each :: "(nat \<Rightarrow> 'a \<Rightarrow> 'e + 'b) \<Rightarrow> nat \<Rightarrow> 'a list \<Rightarrow> 'e + 'b list" where
  "each f i [] = Inr []"
| "each f i (x # xs) = bindE (f i x) (\<lambda>y. bindE (each f (Suc i) xs) (\<lambda>ys. Inr (y # ys)))"

lemma each_Inr:
  "each f i xs = Inr ys \<longleftrightarrow>
     length ys = length xs \<and> (\<forall>j < length xs. f (i + j) (xs ! j) = Inr (ys ! j))"
proof (induction xs arbitrary: i ys)
  case (Cons x xs)
  have ix: "(\<forall>j < Suc n. P j) \<longleftrightarrow> P 0 \<and> (\<forall>j < n. P (Suc j))" for n and P :: "nat \<Rightarrow> bool"
    using less_Suc_eq_0_disj by auto
  show ?case
    by (cases ys) (auto simp: bindE_Inr Cons.IH ix)
qed auto

lemma each_mapI:
  "(\<And>j. j < length ys \<Longrightarrow> f (i + j) (g (ys ! j)) = Inr (ys ! j)) \<Longrightarrow> each f i (map g ys) = Inr ys"
  by (simp add: each_Inr)

lemma each_set: "each f i xs = Inr ys \<Longrightarrow> y \<in> set ys \<Longrightarrow> \<exists>j x. x \<in> set xs \<and> f j x = Inr y"
  by (metis each_Inr in_set_conv_nth)

text \<open>A loop that only checks.\<close>

fun check_each :: "(nat \<Rightarrow> 'a \<Rightarrow> 'e + unit) \<Rightarrow> nat \<Rightarrow> 'a list \<Rightarrow> 'e + unit" where
  "check_each f i [] = Inr ()"
| "check_each f i (x # xs) = bindE (f i x) (\<lambda>_. check_each f (Suc i) xs)"

lemma check_each_Inr [ok_simps]:
  "check_each f i xs = Inr () \<longleftrightarrow> (\<forall>j < length xs. f (i + j) (xs ! j) = Inr ())"
proof (induction xs arbitrary: i)
  case (Cons x xs)
  have ix: "(\<forall>j < Suc n. P j) \<longleftrightarrow> P 0 \<and> (\<forall>j < n. P (Suc j))" for n and P :: "nat \<Rightarrow> bool"
    using less_Suc_eq_0_disj by auto
  show ?case by (auto simp: bindE_Inr Cons.IH ix)
qed auto

end
