(* ===== verification/DocumentContract.thy ===== *)
theory DocumentContract
  imports Results Errors Node "HOL-Library.List_Lexorder" "HOL-Library.Char_ord"
begin

text \<open>
  The contract of the \<open>document.vectorize\<close> capability (\<open>src/prismpipe/document/vectorize.py\<close>): the
  readers that turn an untrusted payload into a request, every check in the order of the source and
  with its message, the writers that turn a request into its canonical payload, and the relations
  between the parts of a request. What a request must satisfy is stated apart, as \<open>valid_input\<close>.

  A payload is a Python value; its numbers are integers and floats. \<open>float(n)\<close> of an integer beyond
  the range of a double raises an \<open>OverflowError\<close>, which is not the contract's own error.
\<close>

section \<open>Readers of single fields\<close>

text \<open>\<open>DocumentVectorizeValidationError\<close>, and everything else that a check can raise.\<close>

datatype doc_fault = Invalid string | Fault py_error

definition field :: "dict \<Rightarrow> string \<Rightarrow> pval" where
  "field d k = (case map_of d k of None \<Rightarrow> PNone | Some v \<Rightarrow> v)"

definition nonblank :: "string \<Rightarrow> bool" where
  "nonblank s = list_ex (\<lambda>c. \<not> is_space c) s"

definition float_limit :: int where
  "float_limit = 2 ^ 1024 - 2 ^ 970"

definition overflow_fault :: doc_fault where
  "overflow_fault = Fault (OtherError ''OverflowError'' ''int too large to convert to float'')"

text \<open>\<open>_validate_finite_numbers\<close>, with the error it is told to raise.\<close>

definition item_label :: "string \<Rightarrow> nat \<Rightarrow> string" where
  "item_label l i = l @ ''['' @ show_nat i @ '']''"

fun finite_numbers :: "(string \<Rightarrow> doc_fault) \<Rightarrow> string \<Rightarrow> pval \<Rightarrow> doc_fault + unit"
and finite_list :: "(string \<Rightarrow> doc_fault) \<Rightarrow> string \<Rightarrow> nat \<Rightarrow> pval list \<Rightarrow> doc_fault + unit"
and finite_items :: "(string \<Rightarrow> doc_fault) \<Rightarrow> string \<Rightarrow> dict \<Rightarrow> doc_fault + unit" where
  "finite_numbers err l (PInt i) = guardE (\<bar>i\<bar> < float_limit) overflow_fault"
| "finite_numbers err l (PFloat f) =
     (case f of Fin _ \<Rightarrow> Inr () | _ \<Rightarrow> Inl (err (l @ '' must contain only finite numbers'')))"
| "finite_numbers err l (PDict d) = finite_items err l d"
| "finite_numbers err l (PList xs) = finite_list err l 0 xs"
| "finite_numbers err l _ = Inr ()"
| "finite_list err l i [] = Inr ()"
| "finite_list err l i (x # xs) =
     bindE (finite_numbers err (item_label l i) x) (\<lambda>_. finite_list err l (Suc i) xs)"
| "finite_items err l [] = Inr ()"
| "finite_items err l ((k, v) # d) =
     bindE (finite_numbers err (l @ ''.'' @ k) v) (\<lambda>_. finite_items err l d)"

definition required_string :: "dict \<Rightarrow> string \<Rightarrow> string \<Rightarrow> doc_fault + string" where
  "required_string d k l =
     (case field d k of
        PStr s \<Rightarrow> if nonblank s then Inr s else Inl (Invalid (l @ '' must be a non-empty string''))
      | _ \<Rightarrow> Inl (Invalid (l @ '' must be a non-empty string'')))"

definition optional_string :: "dict \<Rightarrow> string \<Rightarrow> string \<Rightarrow> doc_fault + string option" where
  "optional_string d k l =
     (case field d k of
        PNone \<Rightarrow> Inr None
      | PStr s \<Rightarrow>
          if nonblank s then Inr (Some s) else Inl (Invalid (l @ '' must be a non-empty string''))
      | _ \<Rightarrow> Inl (Invalid (l @ '' must be a non-empty string'')))"

definition required_int :: "dict \<Rightarrow> string \<Rightarrow> string \<Rightarrow> doc_fault + int" where
  "required_int d k l =
     (case field d k of PInt i \<Rightarrow> Inr i | _ \<Rightarrow> Inl (Invalid (l @ '' must be an integer'')))"

definition optional_int :: "dict \<Rightarrow> string \<Rightarrow> string \<Rightarrow> doc_fault + int option" where
  "optional_int d k l =
     (case field d k of
        PNone \<Rightarrow> Inr None
      | PInt i \<Rightarrow> Inr (Some i)
      | _ \<Rightarrow> Inl (Invalid (l @ '' must be an integer'')))"

text \<open>The \<open>< 0\<close> test that follows the readers of sizes and counts.\<close>

definition count_fault :: "string \<Rightarrow> doc_fault" where
  "count_fault l = Invalid (l @ '' must be a non-negative integer'')"

datatype manifest = MText string | MNumber int

definition required_manifest_version :: "dict \<Rightarrow> string \<Rightarrow> doc_fault + manifest" where
  "required_manifest_version d k =
     (let fault = Inl (Invalid (k @ '' must be a non-empty string or integer'')) in
      case field d k of
        PStr s \<Rightarrow> if nonblank s then Inr (MText s) else fault
      | PInt i \<Rightarrow> Inr (MNumber i)
      | _ \<Rightarrow> fault)"

definition required_number :: "dict \<Rightarrow> string \<Rightarrow> string \<Rightarrow> doc_fault + rat" where
  "required_number d k l =
     (case field d k of
        PInt i \<Rightarrow> if \<bar>i\<bar> < float_limit then Inr (of_int i) else Inl overflow_fault
      | PFloat (Fin r) \<Rightarrow> Inr r
      | PFloat _ \<Rightarrow> Inl (Invalid (l @ '' must be a finite number''))
      | _ \<Rightarrow> Inl (Invalid (l @ '' must be a number'')))"

definition optional_mapping :: "dict \<Rightarrow> string \<Rightarrow> string \<Rightarrow> doc_fault + dict" where
  "optional_mapping d k l =
     (case field d k of
        PNone \<Rightarrow> Inr []
      | PDict m \<Rightarrow> bindE (finite_numbers Invalid l (PDict m)) (\<lambda>_. Inr m)
      | _ \<Rightarrow> Inl (Invalid (l @ '' must be an object'')))"

text \<open>\<open>payload.get(key, False)\<close> with the boolean test: a \<open>None\<close> that is present is refused.\<close>

definition flag :: "dict \<Rightarrow> string \<Rightarrow> string \<Rightarrow> doc_fault + bool" where
  "flag d k l =
     (case map_of d k of
        None \<Rightarrow> Inr False
      | Some (PBool b) \<Rightarrow> Inr b
      | Some _ \<Rightarrow> Inl (Invalid (l @ '' must be a boolean'')))"

text \<open>\<open>payload.get(key, [])\<close> with the list test.\<close>

definition list_field :: "dict \<Rightarrow> string \<Rightarrow> doc_fault + pval list" where
  "list_field d k =
     (case map_of d k of
        None \<Rightarrow> Inr []
      | Some (PList xs) \<Rightarrow> Inr xs
      | Some _ \<Rightarrow> Inl (Invalid (k @ '' must be a list'')))"

definition opt_str :: "string option \<Rightarrow> pval" where
  "opt_str x = (case x of None \<Rightarrow> PNone | Some s \<Rightarrow> PStr s)"

definition opt_int :: "int option \<Rightarrow> pval" where
  "opt_int x = (case x of None \<Rightarrow> PNone | Some i \<Rightarrow> PInt i)"

section \<open>Storage references\<close>

record storage_ref =
  sr_provider :: "string option"
  sr_bucket :: "string option"
  sr_key :: "string option"
  sr_uri :: "string option"
  sr_version_id :: "string option"
  sr_content_type :: "string option"
  sr_checksum :: "string option"
  sr_size_bytes :: "int option"
  sr_metadata :: dict

definition storage_validate :: "string \<Rightarrow> storage_ref \<Rightarrow> doc_fault + unit" where
  "storage_validate l r =
     (if \<not> truthy_opt (sr_uri r) \<and> \<not> truthy_opt (sr_key r)
      then Inl (Invalid (l @ '' must include uri or key''))
      else if truthy_opt (sr_bucket r) \<and> \<not> truthy_opt (sr_key r)
      then Inl (Invalid (l @ ''.key is required when bucket is provided''))
      else Inr ())"

definition storage_from :: "string \<Rightarrow> pval \<Rightarrow> doc_fault + storage_ref" where
  "storage_from l p =
     (case p of
        PDict d \<Rightarrow>
          bindE (optional_int d ''sizeBytes'' (l @ ''.sizeBytes'')) (\<lambda>size.
          bindE (guardE (case size of Some n \<Rightarrow> 0 \<le> n | None \<Rightarrow> True) (count_fault (l @ ''.sizeBytes''))) (\<lambda>_.
          bindE (optional_string d ''provider'' (l @ ''.provider'')) (\<lambda>provider.
          bindE (optional_string d ''bucket'' (l @ ''.bucket'')) (\<lambda>bucket.
          bindE (optional_string d ''key'' (l @ ''.key'')) (\<lambda>key.
          bindE (optional_string d ''uri'' (l @ ''.uri'')) (\<lambda>uri.
          bindE (optional_string d ''versionId'' (l @ ''.versionId'')) (\<lambda>version.
          bindE (optional_string d ''contentType'' (l @ ''.contentType'')) (\<lambda>content_type.
          bindE (optional_string d ''checksum'' (l @ ''.checksum'')) (\<lambda>checksum.
          bindE (optional_mapping d ''metadata'' (l @ ''.metadata'')) (\<lambda>meta.
          let r = \<lparr>sr_provider = provider, sr_bucket = bucket, sr_key = key, sr_uri = uri,
                   sr_version_id = version, sr_content_type = content_type, sr_checksum = checksum,
                   sr_size_bytes = size, sr_metadata = meta\<rparr>
          in bindE (storage_validate l r) (\<lambda>_. Inr r)))))))))))
      | _ \<Rightarrow> Inl (Invalid (l @ '' must be an object'')))"

definition storage_key :: "storage_ref \<Rightarrow> doc_fault + string" where
  "storage_key r =
     (if truthy_opt (sr_uri r) then Inr (the (sr_uri r))
      else if truthy_opt (sr_bucket r)
      then Inr (or_str (sr_provider r) ''storage'' @ ''://'' @ the (sr_bucket r) @ ''/'' @ show_opt (sr_key r))
      else if truthy_opt (sr_key r) then Inr (the (sr_key r))
      else Inl (Invalid ''storage must include uri or key''))"

definition storage_payload :: "storage_ref \<Rightarrow> dict" where
  "storage_payload r =
     [(''provider'', opt_str (sr_provider r)), (''bucket'', opt_str (sr_bucket r)),
      (''key'', opt_str (sr_key r)), (''uri'', opt_str (sr_uri r)),
      (''versionId'', opt_str (sr_version_id r)), (''contentType'', opt_str (sr_content_type r)),
      (''checksum'', opt_str (sr_checksum r)), (''sizeBytes'', opt_int (sr_size_bytes r)),
      (''metadata'', PDict (sr_metadata r))]"

text \<open>The optional \<open>storage\<close> of documents and chunks, and its payload.\<close>

definition opt_storage :: "string \<Rightarrow> dict \<Rightarrow> doc_fault + storage_ref option" where
  "opt_storage l d =
     (if field d ''storage'' = PNone then Inr None
      else bindE (storage_from (l @ ''.storage'') (field d ''storage'')) (\<lambda>r. Inr (Some r)))"

definition opt_storage_payload :: "storage_ref option \<Rightarrow> pval" where
  "opt_storage_payload x = (case x of None \<Rightarrow> PNone | Some r \<Rightarrow> PDict (storage_payload r))"

section \<open>Documents and chunks\<close>

record document_ref =
  dr_document_id :: string
  dr_title :: "string option"
  dr_source_type :: "string option"
  dr_mime_type :: "string option"
  dr_fingerprint :: "string option"
  dr_storage :: "storage_ref option"
  dr_metadata :: dict

definition document_from :: "pval \<Rightarrow> doc_fault + document_ref" where
  "document_from p =
     (case p of
        PDict d \<Rightarrow>
          bindE (opt_storage ''document'' d) (\<lambda>storage.
          bindE (required_string d ''documentId'' ''document.documentId'') (\<lambda>doc_id.
          bindE (optional_string d ''title'' ''document.title'') (\<lambda>title.
          bindE (optional_string d ''sourceType'' ''document.sourceType'') (\<lambda>source_type.
          bindE (optional_string d ''mimeType'' ''document.mimeType'') (\<lambda>mime_type.
          bindE (optional_string d ''fingerprint'' ''document.fingerprint'') (\<lambda>fingerprint.
          bindE (optional_mapping d ''metadata'' ''document.metadata'') (\<lambda>meta.
          Inr \<lparr>dr_document_id = doc_id, dr_title = title, dr_source_type = source_type,
               dr_mime_type = mime_type, dr_fingerprint = fingerprint, dr_storage = storage,
               dr_metadata = meta\<rparr>)))))))
      | _ \<Rightarrow> Inl (Invalid ''document must be an object''))"

definition document_payload :: "document_ref \<Rightarrow> dict" where
  "document_payload r =
     [(''documentId'', PStr (dr_document_id r)), (''title'', opt_str (dr_title r)),
      (''sourceType'', opt_str (dr_source_type r)), (''mimeType'', opt_str (dr_mime_type r)),
      (''fingerprint'', opt_str (dr_fingerprint r)),
      (''storage'', opt_storage_payload (dr_storage r)), (''metadata'', PDict (dr_metadata r))]"

record chunk_ref =
  ch_chunk_id :: string
  ch_index :: int
  ch_text :: "string option"
  ch_document_id :: "string option"
  ch_token_count :: "int option"
  ch_storage :: "storage_ref option"
  ch_metadata :: dict

definition chunk_label :: "nat \<Rightarrow> string" where
  "chunk_label i = item_label ''chunks'' i"

definition chunk_from :: "nat \<Rightarrow> pval \<Rightarrow> doc_fault + chunk_ref" where
  "chunk_from i p =
     (let l = chunk_label i in
      case p of
        PDict d \<Rightarrow>
          bindE (required_int d ''index'' (l @ ''.index'')) (\<lambda>index.
          bindE (guardE (0 \<le> index) (count_fault (l @ ''.index''))) (\<lambda>_.
          bindE (optional_int d ''tokenCount'' (l @ ''.tokenCount'')) (\<lambda>tokens.
          bindE (guardE (case tokens of Some n \<Rightarrow> 0 \<le> n | None \<Rightarrow> True) (count_fault (l @ ''.tokenCount''))) (\<lambda>_.
          bindE (opt_storage l d) (\<lambda>storage.
          bindE (required_string d ''chunkId'' (l @ ''.chunkId'')) (\<lambda>chunk_id.
          bindE (optional_string d ''documentId'' (l @ ''.documentId'')) (\<lambda>doc_id.
          bindE (optional_string d ''text'' (l @ ''.text'')) (\<lambda>txt.
          bindE (optional_mapping d ''metadata'' (l @ ''.metadata'')) (\<lambda>meta.
          Inr \<lparr>ch_chunk_id = chunk_id, ch_index = index, ch_text = txt, ch_document_id = doc_id,
               ch_token_count = tokens, ch_storage = storage, ch_metadata = meta\<rparr>)))))))))
      | _ \<Rightarrow> Inl (Invalid (l @ '' must be an object'')))"

definition chunk_payload :: "chunk_ref \<Rightarrow> dict" where
  "chunk_payload c =
     [(''chunkId'', PStr (ch_chunk_id c)), (''documentId'', opt_str (ch_document_id c)),
      (''index'', PInt (ch_index c)), (''text'', opt_str (ch_text c)),
      (''tokenCount'', opt_int (ch_token_count c)),
      (''storage'', opt_storage_payload (ch_storage c)), (''metadata'', PDict (ch_metadata c))]"

section \<open>Options and artifact requests\<close>

record vec_options =
  vo_dimensions :: "int option"
  vo_normalize :: bool
  vo_metadata :: dict

definition default_options :: vec_options where
  "default_options = \<lparr>vo_dimensions = None, vo_normalize = False, vo_metadata = []\<rparr>"

text \<open>\<open>isinstance(v, bool) or not isinstance(v, int) or v <= 0\<close> is refused.\<close>

definition positive_int :: "pval \<Rightarrow> bool" where
  "positive_int v = (case v of PInt i \<Rightarrow> 0 < i | _ \<Rightarrow> False)"

definition options_from :: "pval \<Rightarrow> doc_fault + vec_options" where
  "options_from p =
     (case p of
        PNone \<Rightarrow> Inr default_options
      | PDict d \<Rightarrow>
          bindE (guardE (field d ''dimensions'' = PNone \<or> positive_int (field d ''dimensions''))
            (Invalid ''options.dimensions must be a positive integer'')) (\<lambda>_.
          bindE (flag d ''normalize'' ''options.normalize'') (\<lambda>normalize.
          bindE (optional_mapping d ''metadata'' ''options.metadata'') (\<lambda>meta.
          Inr \<lparr>vo_dimensions = (case field d ''dimensions'' of PInt i \<Rightarrow> Some i | _ \<Rightarrow> None),
               vo_normalize = normalize, vo_metadata = meta\<rparr>)))
      | _ \<Rightarrow> Inl (Invalid ''options must be an object''))"

definition options_payload :: "vec_options \<Rightarrow> dict" where
  "options_payload x =
     [(''dimensions'', opt_int (vo_dimensions x)), (''normalize'', PBool (vo_normalize x)),
      (''metadata'', PDict (vo_metadata x))]"

record artifact_request =
  ar_type :: string
  ar_required :: bool
  ar_parameters :: dict
  ar_raw :: dict

definition artifact_fields :: "string list" where
  "artifact_fields = [''artifactType'', ''required'', ''parameters'']"

definition unknown_fields :: "dict \<Rightarrow> string list" where
  "unknown_fields d = sort (filter (\<lambda>k. k \<notin> set artifact_fields) (remdups (map fst d)))"

definition artifact_from :: "nat \<Rightarrow> pval \<Rightarrow> doc_fault + artifact_request" where
  "artifact_from i p =
     (let l = item_label ''artifactRequests'' i in
      case p of
        PDict d \<Rightarrow>
          bindE (required_string d ''artifactType'' (l @ ''.artifactType'')) (\<lambda>type.
          bindE (flag d ''required'' (l @ ''.required'')) (\<lambda>required.
          bindE (optional_mapping d ''parameters'' (l @ ''.parameters'')) (\<lambda>params.
          bindE (guardE (unknown_fields d = [])
            (Invalid (l @ '' contains unsupported fields: '' @ join '', '' (unknown_fields d)))) (\<lambda>_.
          bindE (guardE (type = ''embedding'' \<and> map_of params ''dimensions'' \<noteq> None \<longrightarrow>
                positive_int (field params ''dimensions''))
            (Invalid (l @ ''.parameters.dimensions must be a positive integer''))) (\<lambda>_.
          bindE (guardE (required \<longrightarrow> type = ''embedding'')
            (Invalid (l @ ''.artifactType '' @ type @ '' is not supported when required''))) (\<lambda>_.
          Inr \<lparr>ar_type = type, ar_required = required, ar_parameters = params, ar_raw = d\<rparr>))))))
      | _ \<Rightarrow> Inl (Invalid (l @ '' must be an object'')))"

definition artifact_payload :: "artifact_request \<Rightarrow> dict" where
  "artifact_payload a =
     (if ar_raw a \<noteq> [] then ar_raw a
      else [(''artifactType'', PStr (ar_type a)), (''required'', PBool (ar_required a)),
            (''parameters'', PDict (ar_parameters a))])"

section \<open>Requests\<close>

record vec_input =
  vi_route_id :: string
  vi_document_id :: string
  vi_manifest_version :: manifest
  vi_destination :: string
  vi_quality_score :: rat
  vi_document :: document_ref
  vi_chunks :: "chunk_ref list"
  vi_storage_references :: "storage_ref list"
  vi_document_type :: "string option"
  vi_schema_id :: "string option"
  vi_schema_version :: "string option"
  vi_provenance :: dict
  vi_artifact_requests :: "artifact_request list"
  vi_correlation_id :: "string option"
  vi_embedding_model :: "string option"
  vi_classification :: pval
  vi_metadata :: dict
  vi_options :: vec_options

definition alias_fault :: "string \<Rightarrow> doc_fault" where
  "alias_fault k = Invalid (k @ '' must match document.'' @ k @ '' when both are provided'')"

definition schema_aliases :: "dict \<Rightarrow> dict \<Rightarrow> doc_fault + unit" where
  "schema_aliases d doc =
     check_each (\<lambda>_ k. guardE (field d k = PNone \<or> field doc k = PNone \<or> py_eq (field d k) (field doc k))
         (alias_fault k))
       0 [''documentType'', ''schemaId'', ''schemaVersion'']"

definition root_or_document_string :: "dict \<Rightarrow> dict \<Rightarrow> string \<Rightarrow> doc_fault + string option" where
  "root_or_document_string d doc k =
     (if map_of d k \<noteq> None then optional_string d k k else optional_string doc k (''document.'' @ k))"

text \<open>
  The loop over the chunks of \<open>_validate_relationships\<close>, with the sets of identifiers and indices it
  has seen.
\<close>

fun chunk_relations ::
    "string \<Rightarrow> string set \<Rightarrow> int set \<Rightarrow> nat \<Rightarrow> chunk_ref list \<Rightarrow> doc_fault + unit" where
  "chunk_relations doc_id ids idxs pos [] = Inr ()"
| "chunk_relations doc_id ids idxs pos (c # cs) =
     (let l = chunk_label pos in
      if ch_document_id c \<noteq> None \<and> ch_document_id c \<noteq> Some doc_id
      then Inl (Invalid (l @ ''.documentId must match documentId''))
      else if ch_chunk_id c \<in> ids then Inl (Invalid (l @ ''.chunkId must be unique''))
      else if ch_index c \<in> idxs then Inl (Invalid (l @ ''.index must be unique''))
      else if ch_index c \<noteq> int pos
      then Inl (Invalid (l @ ''.index must equal its zero-based position''))
      else if ch_text c = None \<and> ch_storage c = None
      then Inl (Invalid (l @ '' must include text or storage''))
      else chunk_relations doc_id (insert (ch_chunk_id c) ids) (insert (ch_index c) idxs) (Suc pos) cs)"

text \<open>Whether an embedding artifact asks for the dimensions of the options, when both are given.\<close>

definition dimensions_agree :: "vec_options \<Rightarrow> artifact_request \<Rightarrow> bool" where
  "dimensions_agree opts a =
     (ar_type a = ''embedding'' \<longrightarrow> field (ar_parameters a) ''dimensions'' \<noteq> PNone \<longrightarrow>
      (case vo_dimensions opts of
         None \<Rightarrow> True
       | Some n \<Rightarrow> py_eq (field (ar_parameters a) ''dimensions'') (PInt n)))"

definition validate_relationships :: "vec_input \<Rightarrow> doc_fault + unit" where
  "validate_relationships r =
     (if \<not> (0 \<le> vi_quality_score r \<and> vi_quality_score r \<le> 1)
      then Inl (Invalid ''qualityScore must be between 0 and 1 inclusive'')
      else if dr_document_id (vi_document r) \<noteq> vi_document_id r
      then Inl (Invalid ''document.documentId must match documentId'')
      else if (vi_schema_id r = None) \<noteq> (vi_schema_version r = None)
      then Inl (Invalid ''schemaId and schemaVersion must be provided together'')
      else bindE (chunk_relations (vi_document_id r) {} {} 0 (vi_chunks r)) (\<lambda>_.
        check_each (\<lambda>i a. guardE (dimensions_agree (vi_options r) a)
            (Invalid (item_label ''artifactRequests'' i @
               ''.parameters.dimensions must match options.dimensions'')))
          0 (vi_artifact_requests r)))"

definition input_from :: "pval \<Rightarrow> doc_fault + vec_input" where
  "input_from p =
     (case p of
        PDict d \<Rightarrow>
          bindE (required_string d ''routeId'' ''routeId'') (\<lambda>route_id.
          bindE (required_string d ''documentId'' ''documentId'') (\<lambda>doc_id.
          bindE (required_manifest_version d ''manifestVersion'') (\<lambda>version.
          bindE (required_string d ''destination'' ''destination'') (\<lambda>destination.
          bindE (guardE (destination = ''vectorize'') (Invalid (''destination must be '' @ quoted ''vectorize''))) (\<lambda>_.
          bindE (required_number d ''qualityScore'' ''qualityScore'') (\<lambda>quality.
          bindE (document_from (field d ''document'')) (\<lambda>doc.
          bindE (case field d ''chunks'' of
               PList xs \<Rightarrow> if xs = [] then Inl (Invalid ''chunks must be a non-empty list'') else Inr xs
             | _ \<Rightarrow> Inl (Invalid ''chunks must be a non-empty list'')) (\<lambda>raw_chunks.
          bindE (each chunk_from 0 raw_chunks) (\<lambda>chunks.
          bindE (list_field d ''storageReferences'') (\<lambda>raw_refs.
          bindE (each (\<lambda>i. storage_from (item_label ''storageReferences'' i)) 0 raw_refs) (\<lambda>refs.
          bindE (list_field d ''artifactRequests'') (\<lambda>raw_artifacts.
          bindE (each artifact_from 0 raw_artifacts) (\<lambda>artifacts.
          let raw_doc = (case field d ''document'' of PDict x \<Rightarrow> x | _ \<Rightarrow> []) in
          bindE (schema_aliases d raw_doc) (\<lambda>_.
          bindE (optional_mapping d ''metadata'' ''metadata'') (\<lambda>meta.
          bindE (finite_numbers Invalid ''classification'' (field d ''classification'')) (\<lambda>_.
          bindE (options_from (field d ''options'')) (\<lambda>opts.
          bindE (root_or_document_string d raw_doc ''documentType'') (\<lambda>doc_type.
          bindE (root_or_document_string d raw_doc ''schemaId'') (\<lambda>schema_id.
          bindE (root_or_document_string d raw_doc ''schemaVersion'') (\<lambda>schema_version.
          bindE (optional_mapping d ''provenance'' ''provenance'') (\<lambda>provenance.
          bindE (optional_string d ''correlationId'' ''correlationId'') (\<lambda>correlation.
          bindE (optional_string d ''embeddingModel'' ''embeddingModel'') (\<lambda>model.
          let r = \<lparr>vi_route_id = route_id, vi_document_id = doc_id, vi_manifest_version = version,
                   vi_destination = destination, vi_quality_score = quality, vi_document = doc,
                   vi_chunks = chunks, vi_storage_references = refs, vi_document_type = doc_type,
                   vi_schema_id = schema_id, vi_schema_version = schema_version,
                   vi_provenance = provenance, vi_artifact_requests = artifacts,
                   vi_correlation_id = correlation, vi_embedding_model = model,
                   vi_classification = field d ''classification'', vi_metadata = meta,
                   vi_options = opts\<rparr>
          in bindE (validate_relationships r) (\<lambda>_. Inr r))))))))))))))))))))))))
      | _ \<Rightarrow> Inl (Invalid ''document.vectorize payload must be an object''))"

definition manifest_value :: "manifest \<Rightarrow> pval" where
  "manifest_value m = (case m of MText s \<Rightarrow> PStr s | MNumber i \<Rightarrow> PInt i)"

definition input_payload :: "vec_input \<Rightarrow> dict" where
  "input_payload r =
     [(''routeId'', PStr (vi_route_id r)), (''documentId'', PStr (vi_document_id r)),
      (''manifestVersion'', manifest_value (vi_manifest_version r)),
      (''destination'', PStr (vi_destination r)),
      (''qualityScore'', PFloat (Fin (vi_quality_score r))),
      (''correlationId'', opt_str (vi_correlation_id r)),
      (''embeddingModel'', opt_str (vi_embedding_model r)),
      (''classification'', vi_classification r),
      (''documentType'', opt_str (vi_document_type r)), (''schemaId'', opt_str (vi_schema_id r)),
      (''schemaVersion'', opt_str (vi_schema_version r)), (''provenance'', PDict (vi_provenance r)),
      (''artifactRequests'', PList (map (PDict \<circ> artifact_payload) (vi_artifact_requests r))),
      (''document'', PDict (document_payload (vi_document r))),
      (''chunks'', PList (map (PDict \<circ> chunk_payload) (vi_chunks r))),
      (''storageReferences'', PList (map (PDict \<circ> storage_payload) (vi_storage_references r))),
      (''metadata'', PDict (vi_metadata r)), (''options'', PDict (options_payload (vi_options r)))]"

section \<open>What the contract accepts\<close>

fun finite_value :: "pval \<Rightarrow> bool" where
  "finite_value (PInt i) = (\<bar>i\<bar> < float_limit)"
| "finite_value (PFloat f) = (case f of Fin _ \<Rightarrow> True | _ \<Rightarrow> False)"
| "finite_value (PList xs) = list_all finite_value xs"
| "finite_value (PDict d) = list_all (\<lambda>(k, v). finite_value v) d"
| "finite_value _ = True"

definition opt_nonblank :: "string option \<Rightarrow> bool" where
  "opt_nonblank x = (case x of None \<Rightarrow> True | Some s \<Rightarrow> nonblank s)"

definition opt_count :: "int option \<Rightarrow> bool" where
  "opt_count x = (case x of None \<Rightarrow> True | Some n \<Rightarrow> 0 \<le> n)"

definition valid_storage :: "storage_ref \<Rightarrow> bool" where
  "valid_storage r \<longleftrightarrow>
     list_all opt_nonblank [sr_provider r, sr_bucket r, sr_key r, sr_uri r, sr_version_id r,
       sr_content_type r, sr_checksum r] \<and>
     opt_count (sr_size_bytes r) \<and> finite_value (PDict (sr_metadata r)) \<and>
     (sr_uri r \<noteq> None \<or> sr_key r \<noteq> None) \<and> (sr_bucket r \<noteq> None \<longrightarrow> sr_key r \<noteq> None)"

definition opt_valid_storage :: "storage_ref option \<Rightarrow> bool" where
  "opt_valid_storage x = (case x of None \<Rightarrow> True | Some r \<Rightarrow> valid_storage r)"

definition valid_document :: "document_ref \<Rightarrow> bool" where
  "valid_document r \<longleftrightarrow>
     nonblank (dr_document_id r) \<and>
     list_all opt_nonblank [dr_title r, dr_source_type r, dr_mime_type r, dr_fingerprint r] \<and>
     opt_valid_storage (dr_storage r) \<and> finite_value (PDict (dr_metadata r))"

definition valid_chunk :: "chunk_ref \<Rightarrow> bool" where
  "valid_chunk c \<longleftrightarrow>
     nonblank (ch_chunk_id c) \<and> 0 \<le> ch_index c \<and> list_all opt_nonblank [ch_text c, ch_document_id c] \<and>
     opt_count (ch_token_count c) \<and> opt_valid_storage (ch_storage c) \<and>
     finite_value (PDict (ch_metadata c))"

definition valid_options :: "vec_options \<Rightarrow> bool" where
  "valid_options x \<longleftrightarrow>
     (case vo_dimensions x of None \<Rightarrow> True | Some n \<Rightarrow> 0 < n) \<and> finite_value (PDict (vo_metadata x))"

text \<open>An accepted artifact request keeps the payload it was read from.\<close>

definition valid_artifact :: "artifact_request \<Rightarrow> bool" where
  "valid_artifact a \<longleftrightarrow>
     nonblank (ar_type a) \<and> field (ar_raw a) ''artifactType'' = PStr (ar_type a) \<and>
     flag (ar_raw a) ''required'' [] = Inr (ar_required a) \<and>
     optional_mapping (ar_raw a) ''parameters'' [] = Inr (ar_parameters a) \<and>
     unknown_fields (ar_raw a) = [] \<and>
     (ar_type a = ''embedding'' \<and> map_of (ar_parameters a) ''dimensions'' \<noteq> None \<longrightarrow>
        positive_int (field (ar_parameters a) ''dimensions'')) \<and>
     (ar_required a \<longrightarrow> ar_type a = ''embedding'')"

definition chunks_in_order :: "string \<Rightarrow> chunk_ref list \<Rightarrow> bool" where
  "chunks_in_order doc_id cs \<longleftrightarrow>
     map ch_index cs = map int [0..<length cs] \<and> distinct (map ch_chunk_id cs) \<and>
     list_all (\<lambda>c. ch_document_id c \<in> {None, Some doc_id} \<and> (ch_text c \<noteq> None \<or> ch_storage c \<noteq> None)) cs"

definition valid_input :: "vec_input \<Rightarrow> bool" where
  "valid_input r \<longleftrightarrow>
     nonblank (vi_route_id r) \<and> nonblank (vi_document_id r) \<and>
     (case vi_manifest_version r of MText s \<Rightarrow> nonblank s | MNumber i \<Rightarrow> True) \<and>
     vi_destination r = ''vectorize'' \<and> 0 \<le> vi_quality_score r \<and> vi_quality_score r \<le> 1 \<and>
     valid_document (vi_document r) \<and> dr_document_id (vi_document r) = vi_document_id r \<and>
     vi_chunks r \<noteq> [] \<and> list_all valid_chunk (vi_chunks r) \<and>
     chunks_in_order (vi_document_id r) (vi_chunks r) \<and>
     list_all valid_storage (vi_storage_references r) \<and>
     list_all opt_nonblank [vi_document_type r, vi_schema_id r, vi_schema_version r,
       vi_correlation_id r, vi_embedding_model r] \<and>
     (vi_schema_id r = None \<longleftrightarrow> vi_schema_version r = None) \<and>
     list_all (\<lambda>d. finite_value (PDict d)) [vi_provenance r, vi_metadata r] \<and>
     finite_value (vi_classification r) \<and> valid_options (vi_options r) \<and>
     list_all (\<lambda>a. valid_artifact a \<and> dimensions_agree (vi_options r) a) (vi_artifact_requests r)"

section \<open>The readers, read backwards\<close>

lemma finite_list_Inr:
  "finite_numbers err l v = Inr () \<longleftrightarrow> finite_value v"
  "finite_list err l i xs = Inr () \<longleftrightarrow> list_all finite_value xs"
  "finite_items err l d = Inr () \<longleftrightarrow> list_all (\<lambda>(k, v). finite_value v) d"
  by (induction err l v and err l i xs and err l d rule: finite_numbers_finite_list_finite_items.induct)
    (auto simp: ok_simps split: pyfloat.splits)

lemmas finite_numbers_Inr [ok_simps] = finite_list_Inr

lemma opt_eqs [simp]:
  "opt_str x = PNone \<longleftrightarrow> x = None" "opt_str x = PStr s \<longleftrightarrow> x = Some s"
  "opt_int n = PNone \<longleftrightarrow> n = None" "opt_int n = PInt i \<longleftrightarrow> n = Some i"
  "opt_str x = opt_str y \<longleftrightarrow> x = y" "opt_int n = opt_int m \<longleftrightarrow> n = m"
  by (auto simp: opt_str_def opt_int_def split: option.splits)

lemma required_string_Inr [ok_simps]:
  "required_string d k l = Inr s \<longleftrightarrow> field d k = PStr s \<and> nonblank s"
  by (auto simp: required_string_def split: pval.splits)

lemma optional_string_Inr [ok_simps]:
  "optional_string d k l = Inr x \<longleftrightarrow> field d k = opt_str x \<and> opt_nonblank x"
  by (auto simp: optional_string_def opt_str_def opt_nonblank_def split: pval.splits option.splits)

lemma required_int_Inr [ok_simps]: "required_int d k l = Inr i \<longleftrightarrow> field d k = PInt i"
  by (auto simp: required_int_def split: pval.splits)

lemma optional_int_Inr [ok_simps]: "optional_int d k l = Inr n \<longleftrightarrow> field d k = opt_int n"
  by (auto simp: optional_int_def opt_int_def split: pval.splits option.splits)

lemma manifest_Inr [ok_simps]:
  "required_manifest_version d k = Inr m \<longleftrightarrow>
     field d k = manifest_value m \<and> (case m of MText s \<Rightarrow> nonblank s | MNumber i \<Rightarrow> True)"
  by (cases m)
    (auto simp: required_manifest_version_def manifest_value_def Let_def split: pval.splits if_splits)

lemma required_number_Inr [ok_simps]:
  "required_number d k l = Inr q \<longleftrightarrow>
     field d k = PFloat (Fin q) \<or> (\<exists>i. field d k = PInt i \<and> \<bar>i\<bar> < float_limit \<and> q = of_int i)"
  by (auto simp: required_number_def split: pval.splits pyfloat.splits)

lemma optional_mapping_Inr [ok_simps]:
  "optional_mapping d k l = Inr m \<longleftrightarrow>
     (field d k = PNone \<and> m = [] \<or> field d k = PDict m) \<and> finite_value (PDict m)"
  by (auto simp: optional_mapping_def ok_simps split: pval.splits)

lemma flag_Inr [ok_simps]:
  "flag d k l = Inr b \<longleftrightarrow> map_of d k = Some (PBool b) \<or> map_of d k = None \<and> \<not> b"
  by (auto simp: flag_def split: pval.splits option.splits)

lemma list_field_Inr [ok_simps]:
  "list_field d k = Inr xs \<longleftrightarrow> map_of d k = Some (PList xs) \<or> map_of d k = None \<and> xs = []"
  by (auto simp: list_field_def split: pval.splits option.splits)

lemma case_dict_Inr [ok_simps]:
  "(case p of PDict d \<Rightarrow> f d | _ \<Rightarrow> Inl e) = Inr y \<longleftrightarrow> (\<exists>d. p = PDict d \<and> f d = Inr y)"
  by (cases p) auto

lemma truthy_nonblank: "opt_nonblank x \<Longrightarrow> truthy_opt x \<longleftrightarrow> x \<noteq> None"
  by (cases x) (auto simp: opt_nonblank_def nonblank_def)

lemma storage_validate_Inr:
  assumes "opt_nonblank (sr_uri r)" "opt_nonblank (sr_key r)" "opt_nonblank (sr_bucket r)"
  shows "storage_validate l r = Inr () \<longleftrightarrow>
    (sr_uri r \<noteq> None \<or> sr_key r \<noteq> None) \<and> (sr_bucket r \<noteq> None \<longrightarrow> sr_key r \<noteq> None)"
  using assms by (auto simp: storage_validate_def truthy_nonblank)

section \<open>Parts are accepted exactly when they are valid\<close>

lemma opt_count_guard [ok_simps]: "(case n of None \<Rightarrow> True | Some i \<Rightarrow> 0 \<le> i) = opt_count n"
  by (simp add: opt_count_def)

lemma storage_from_valid: "storage_from l p = Inr r \<Longrightarrow> valid_storage r"
  by (auto simp: storage_from_def ok_simps Let_def valid_storage_def storage_validate_Inr)

lemma field_simps_payload [simp]:
  "field ((k, v) # d) j = (if j = k then v else field d j)" "field [] j = PNone"
  by (simp_all add: field_def)

lemma storage_reads_back: "valid_storage r \<Longrightarrow> storage_from l (PDict (storage_payload r)) = Inr r"
  by (cases r)
    (simp add: storage_from_def ok_simps Let_def valid_storage_def storage_validate_Inr storage_payload_def)

lemma opt_storage_valid: "opt_storage l d = Inr x \<Longrightarrow> opt_valid_storage x"
  by (auto simp: opt_storage_def ok_simps opt_valid_storage_def dest: storage_from_valid split: if_splits)

lemma opt_storage_reads_back:
  "opt_valid_storage x \<Longrightarrow> field d ''storage'' = opt_storage_payload x \<Longrightarrow> opt_storage l d = Inr x"
  by (auto simp: opt_storage_def opt_storage_payload_def opt_valid_storage_def storage_reads_back
      split: option.splits)

lemma document_from_valid: "document_from p = Inr r \<Longrightarrow> valid_document r"
  by (auto simp: document_from_def ok_simps valid_document_def dest: opt_storage_valid)

lemma document_reads_back: "valid_document r \<Longrightarrow> document_from (PDict (document_payload r)) = Inr r"
  by (cases r)
    (simp add: document_from_def ok_simps valid_document_def document_payload_def opt_storage_reads_back)

lemma chunk_from_valid: "chunk_from i p = Inr c \<Longrightarrow> valid_chunk c"
  by (auto simp: chunk_from_def ok_simps Let_def valid_chunk_def dest: opt_storage_valid)

lemma chunk_reads_back: "valid_chunk c \<Longrightarrow> chunk_from i (PDict (chunk_payload c)) = Inr c"
  by (cases c)
    (simp add: chunk_from_def ok_simps Let_def valid_chunk_def chunk_payload_def opt_storage_reads_back)

lemma options_from_valid: "options_from p = Inr x \<Longrightarrow> valid_options x"
  by (cases p)
    (auto simp: options_from_def default_options_def ok_simps valid_options_def positive_int_def
      split: pval.splits)

lemma options_read_back: "valid_options x \<Longrightarrow> options_from (PDict (options_payload x)) = Inr x"
  by (cases x)
    (auto simp: options_from_def ok_simps valid_options_def options_payload_def positive_int_def opt_int_def
      split: option.splits)

lemma artifact_from_Inr:
  "artifact_from i p = Inr a \<longleftrightarrow> p = PDict (ar_raw a) \<and> valid_artifact a"
  by (cases a)
    (auto simp: artifact_from_def ok_simps Let_def valid_artifact_def)

lemma artifact_reads_back: "valid_artifact a \<Longrightarrow> artifact_from i (PDict (artifact_payload a)) = Inr a"
  by (auto simp: artifact_from_Inr artifact_payload_def) (simp add: valid_artifact_def)

section \<open>Requests are accepted exactly when they are valid\<close>

lemma chunk_relations_Inr:
  "\<forall>i \<in> idxs. i < int pos \<Longrightarrow>
     chunk_relations doc_id ids idxs pos cs = Inr () \<longleftrightarrow>
     map ch_index cs = map int [pos..<pos + length cs] \<and> distinct (map ch_chunk_id cs) \<and>
     ids \<inter> ch_chunk_id ` set cs = {} \<and>
     list_all (\<lambda>c. ch_document_id c \<in> {None, Some doc_id} \<and> (ch_text c \<noteq> None \<or> ch_storage c \<noteq> None)) cs"
proof (induction cs arbitrary: ids idxs pos)
  case (Cons c cs)
  have up: "map int [pos..<pos + length (c # cs)] = int pos # map int [Suc pos..<Suc pos + length cs]"
    by (simp add: upt_conv_Cons del: upt_Suc)
  show ?case
  proof (cases "ch_index c = int pos")
    case True
    with Cons.prems have "\<forall>i \<in> insert (ch_index c) idxs. i < int (Suc pos)" "int pos \<notin> idxs" by auto
    note ih = Cons.IH [OF this(1)] and new = this(2)
    show ?thesis
      unfolding chunk_relations.simps Let_def if_Inl ih up using True new by auto
  next
    case False
    then show ?thesis unfolding up by (simp add: Let_def del: upt_Suc)
  qed
qed simp

lemma relations_Inr:
  "validate_relationships r = Inr () \<longleftrightarrow>
     0 \<le> vi_quality_score r \<and> vi_quality_score r \<le> 1 \<and>
     dr_document_id (vi_document r) = vi_document_id r \<and>
     (vi_schema_id r = None \<longleftrightarrow> vi_schema_version r = None) \<and>
     chunks_in_order (vi_document_id r) (vi_chunks r) \<and>
     list_all (dimensions_agree (vi_options r)) (vi_artifact_requests r)"
  by (auto simp: validate_relationships_def chunk_relations_Inr chunks_in_order_def ok_simps list_all_length)

lemma root_string_nonblank: "root_or_document_string d doc k = Inr x \<Longrightarrow> opt_nonblank x"
  by (auto simp: root_or_document_string_def ok_simps split: if_splits)

lemma nonempty_list_Inr [ok_simps]:
  "(case v of PList xs \<Rightarrow> if xs = [] then Inl e else Inr xs | _ \<Rightarrow> Inl e) = Inr ys \<longleftrightarrow>
     v = PList ys \<and> ys \<noteq> []"
  by (auto split: pval.splits)

text \<open>What each reader guarantees of its result, whatever it read.\<close>

lemma reader_facts:
  "required_string d k l = Inr s \<Longrightarrow> nonblank s"
  "optional_string d k l = Inr x \<Longrightarrow> opt_nonblank x"
  "optional_mapping d k l = Inr m \<Longrightarrow> finite_value (PDict m)"
  "required_manifest_version d k = Inr v \<Longrightarrow> case v of MText t \<Rightarrow> nonblank t | MNumber i \<Rightarrow> True"
  by (simp_all add: ok_simps)

lemma each_facts:
  "each chunk_from i xs = Inr cs \<Longrightarrow> length cs = length xs \<and> list_all valid_chunk cs"
  "each (\<lambda>j. storage_from (l j)) i xs = Inr rs \<Longrightarrow> list_all valid_storage rs"
  "each artifact_from i xs = Inr as \<Longrightarrow> list_all valid_artifact as"
  by (auto simp: each_Inr list_all_length artifact_from_Inr dest: chunk_from_valid storage_from_valid)

lemma input_from_valid:
  assumes "input_from p = Inr r"
  shows "valid_input r"
proof -
  note facts = reader_facts document_from_valid options_from_valid root_string_nonblank each_facts
  show ?thesis
    using assms unfolding input_from_def
    by (clarsimp simp: bindE_Inr guardE_Inr case_dict_Inr finite_numbers_Inr nonempty_list_Inr Let_def
        relations_Inr simp del: finite_value.simps dest!: facts)
      (auto simp: valid_input_def list_all_iff)
qed

lemma payload_lists_read_back:
  "list_all valid_chunk cs \<Longrightarrow> each chunk_from 0 (map (PDict \<circ> chunk_payload) cs) = Inr cs"
  "list_all valid_storage rs \<Longrightarrow>
     each (\<lambda>i. storage_from (item_label l i)) 0 (map (PDict \<circ> storage_payload) rs) = Inr rs"
  "list_all valid_artifact as \<Longrightarrow> each artifact_from 0 (map (PDict \<circ> artifact_payload) as) = Inr as"
  by (auto intro!: each_mapI chunk_reads_back storage_reads_back artifact_reads_back simp: list_all_length)

lemma document_payload_aliases:
  "k \<in> {''documentType'', ''schemaId'', ''schemaVersion''} \<Longrightarrow> field (document_payload r) k = PNone"
  by (auto simp: document_payload_def)

lemma schema_aliases_payload: "schema_aliases d (document_payload r) = Inr ()"
  unfolding schema_aliases_def
  by (auto simp: check_each_Inr guardE_Inr nth_Cons' document_payload_aliases)

lemma root_string_present:
  "map_of d k = Some (opt_str x) \<Longrightarrow> opt_nonblank x \<Longrightarrow> root_or_document_string d doc k = Inr x"
  by (simp add: root_or_document_string_def ok_simps field_def)

lemma nonblank_vectorize [simp]: "nonblank ''vectorize''"
  by (simp add: nonblank_def is_space_def)

lemma input_reads_back:
  assumes "valid_input r"
  shows "input_from (PDict (input_payload r)) = Inr r"
proof -
  let ?d = "input_payload r"
  note v = assms [unfolded valid_input_def]
  have strings: "required_string ?d ''routeId'' l = Inr (vi_route_id r)"
    "required_string ?d ''documentId'' l = Inr (vi_document_id r)"
    "required_string ?d ''destination'' l = Inr (vi_destination r)"
    "optional_string ?d ''correlationId'' l = Inr (vi_correlation_id r)"
    "optional_string ?d ''embeddingModel'' l = Inr (vi_embedding_model r)"
    "root_or_document_string ?d doc ''documentType'' = Inr (vi_document_type r)"
    "root_or_document_string ?d doc ''schemaId'' = Inr (vi_schema_id r)"
    "root_or_document_string ?d doc ''schemaVersion'' = Inr (vi_schema_version r)" for l doc
    using v by (simp_all add: ok_simps input_payload_def root_string_present)
  have vals: "required_manifest_version ?d ''manifestVersion'' = Inr (vi_manifest_version r)"
    "required_number ?d ''qualityScore'' l = Inr (vi_quality_score r)"
    "optional_mapping ?d ''metadata'' l = Inr (vi_metadata r)"
    "optional_mapping ?d ''provenance'' l = Inr (vi_provenance r)"
    "field ?d ''classification'' = vi_classification r"
    "field ?d ''document'' = PDict (document_payload (vi_document r))"
    "field ?d ''options'' = PDict (options_payload (vi_options r))"
    "field ?d ''chunks'' = PList (map (PDict \<circ> chunk_payload) (vi_chunks r))"
    "list_field ?d ''storageReferences'' = Inr (map (PDict \<circ> storage_payload) (vi_storage_references r))"
    "list_field ?d ''artifactRequests'' = Inr (map (PDict \<circ> artifact_payload) (vi_artifact_requests r))" for l
    using v by (simp_all add: ok_simps input_payload_def)
  have parts: "document_from (PDict (document_payload (vi_document r))) = Inr (vi_document r)"
    "options_from (PDict (options_payload (vi_options r))) = Inr (vi_options r)"
    "each chunk_from 0 (map (PDict \<circ> chunk_payload) (vi_chunks r)) = Inr (vi_chunks r)"
    "each (\<lambda>i. storage_from (item_label l i)) 0 (map (PDict \<circ> storage_payload) (vi_storage_references r)) =
       Inr (vi_storage_references r)"
    "each artifact_from 0 (map (PDict \<circ> artifact_payload) (vi_artifact_requests r)) =
       Inr (vi_artifact_requests r)"
    "finite_numbers e l (vi_classification r) = Inr ()" for l e
    using v by (simp_all add: document_reads_back options_read_back payload_lists_read_back list_all_iff
        finite_numbers_Inr)
  have relations: "validate_relationships r = Inr ()"
    using v by (simp add: relations_Inr list_all_iff)
  have rest: "guardE (vi_destination r = ''vectorize'') e = Inr ()" "vi_chunks r \<noteq> []" for e
    using v by simp_all
  have whole: "\<lparr>vi_route_id = vi_route_id r, vi_document_id = vi_document_id r,
      vi_manifest_version = vi_manifest_version r, vi_destination = vi_destination r,
      vi_quality_score = vi_quality_score r, vi_document = vi_document r, vi_chunks = vi_chunks r,
      vi_storage_references = vi_storage_references r, vi_document_type = vi_document_type r,
      vi_schema_id = vi_schema_id r, vi_schema_version = vi_schema_version r,
      vi_provenance = vi_provenance r, vi_artifact_requests = vi_artifact_requests r,
      vi_correlation_id = vi_correlation_id r, vi_embedding_model = vi_embedding_model r,
      vi_classification = vi_classification r, vi_metadata = vi_metadata r, vi_options = vi_options r\<rparr> = r"
    by (cases r) simp
  show ?thesis
    by (simp add: input_from_def strings vals parts schema_aliases_payload Let_def rest whole relations)
qed

text \<open>
  C13: Whatever payload is accepted, the request read from it satisfies the whole contract: its texts are
  not blank, its chunks are numbered from zero in order with distinct identifiers and carry text or
  storage, all document identifiers agree, the quality score lies between 0 and 1, schema identifier and
  version come together, every number in its free-form parts is finite, and every requested dimension is
  positive and agrees with the options.
\<close>

theorem accepted_payload_is_valid:
  assumes "input_from p = Inr r"
  shows "valid_input r"
  by (rule input_from_valid [OF assms])

text \<open>
  C14: The canonical payload of a request reads back as the request itself exactly when the request is
  valid; reading any accepted payload, writing it and reading it again gives the same request, so the
  normalised payload stored with an operation stands for the request and is its own normal form.
\<close>

theorem canonical_payload_roundtrip:
  "(input_from (PDict (input_payload r)) = Inr r \<longleftrightarrow> valid_input r) \<and>
   bindE (input_from p) (\<lambda>x. input_from (PDict (input_payload x))) = input_from p"
proof -
  have "input_from p = Inr x \<Longrightarrow> input_from (PDict (input_payload x)) = Inr x" for x
    by (intro input_reads_back input_from_valid)
  then show ?thesis
    using input_reads_back input_from_valid [of "PDict (input_payload r)" r]
    by (cases "input_from p") auto
qed

section \<open>A concrete request\<close>

definition demo_payload :: dict where
  "demo_payload =
     [(''routeId'', PStr ''r1''), (''documentId'', PStr ''d1''), (''manifestVersion'', PInt 3),
      (''destination'', PStr ''vectorize''), (''qualityScore'', PInt 1),
      (''document'', PDict [(''documentId'', PStr ''d1'')]),
      (''chunks'', PList [PDict [(''chunkId'', PStr ''c0''), (''index'', PInt 0), (''text'', PStr ''hello'')]]),
      (''artifactRequests'', PList [PDict [(''artifactType'', PStr ''embedding''), (''required'', PBool True),
         (''parameters'', PDict [(''dimensions'', PInt 2)])]])]"

definition demo_artifact :: artifact_request where
  "demo_artifact = \<lparr>ar_type = ''embedding'', ar_required = True,
     ar_parameters = [(''dimensions'', PInt 2)],
     ar_raw = [(''artifactType'', PStr ''embedding''), (''required'', PBool True),
       (''parameters'', PDict [(''dimensions'', PInt 2)])]\<rparr>"

definition demo_request :: vec_input where
  "demo_request = \<lparr>vi_route_id = ''r1'', vi_document_id = ''d1'', vi_manifest_version = MNumber 3,
     vi_destination = ''vectorize'', vi_quality_score = 1,
     vi_document = \<lparr>dr_document_id = ''d1'', dr_title = None, dr_source_type = None, dr_mime_type = None,
       dr_fingerprint = None, dr_storage = None, dr_metadata = []\<rparr>,
     vi_chunks = [\<lparr>ch_chunk_id = ''c0'', ch_index = 0, ch_text = Some ''hello'', ch_document_id = None,
       ch_token_count = None, ch_storage = None, ch_metadata = []\<rparr>],
     vi_storage_references = [], vi_document_type = None, vi_schema_id = None, vi_schema_version = None,
     vi_provenance = [], vi_artifact_requests = [demo_artifact], vi_correlation_id = None,
     vi_embedding_model = None, vi_classification = PNone, vi_metadata = [],
     vi_options = default_options\<rparr>"

lemma demo_nonblank:
  "nonblank ''r1''" "nonblank ''d1''" "nonblank ''c0''" "nonblank ''hello''" "nonblank ''embedding''"
  by (simp_all add: nonblank_def is_space_def)

lemmas demo_readers =
  required_string_def optional_string_def required_int_def optional_int_def required_manifest_version_def
  required_number_def optional_mapping_def flag_def list_field_def opt_storage_def

lemma demo_limit: "2 < float_limit" "1 < float_limit"
  by (simp_all add: float_limit_def)

lemma demo_document: "document_from (PDict [(''documentId'', PStr ''d1'')]) = Inr (vi_document demo_request)"
  by (simp add: document_from_def demo_readers field_def demo_nonblank demo_request_def)

lemma demo_chunk:
  "chunk_from 0 (PDict [(''chunkId'', PStr ''c0''), (''index'', PInt 0), (''text'', PStr ''hello'')]) =
   Inr (hd (vi_chunks demo_request))"
  by (simp add: chunk_from_def demo_readers field_def demo_nonblank demo_request_def Let_def)

lemma demo_valid_artifact: "valid_artifact demo_artifact"
  by (simp add: valid_artifact_def demo_artifact_def demo_readers field_def demo_nonblank unknown_fields_def
      artifact_fields_def positive_int_def demo_limit)

lemma demo_relations: "validate_relationships demo_request = Inr ()"
  by (simp add: relations_Inr demo_request_def chunks_in_order_def dimensions_agree_def default_options_def)

lemma demo_accepted: "input_from (PDict demo_payload) = Inr demo_request"
proof -
  have a: "artifact_from 0 (PDict (ar_raw demo_artifact)) = Inr demo_artifact"
    by (simp add: artifact_from_Inr demo_valid_artifact)
  have r: "ar_raw demo_artifact = [(''artifactType'', PStr ''embedding''), (''required'', PBool True),
      (''parameters'', PDict [(''dimensions'', PInt 2)])]" by (simp add: demo_artifact_def)
  show ?thesis
    using demo_relations a unfolding r
    by (simp add: input_from_def demo_payload_def demo_readers field_def demo_nonblank demo_document [simplified]
        demo_chunk [simplified] demo_limit options_from_def schema_aliases_def root_or_document_string_def
        Let_def demo_request_def)
qed

theorem accepted_payload_is_valid_witness: "valid_input demo_request"
  by (rule accepted_payload_is_valid [OF demo_accepted])

end
