(* ===== verification/VectorizeNode.thy ===== *)
theory VectorizeNode
  imports DocumentContract
begin

text \<open>
  The other side of the contract (\<open>src/prismpipe/document/vectorize.py\<close>): what a vectorizer backend
  returns, the checks it must pass, the output built from it, and the node that reads the payload, calls
  the backend and writes its result or a structured error into the envelope. Then the backend that calls
  Cyrex (\<open>src/prismpipe/document/cyrex_vectorizer.py\<close>), with the HTTP reply as an argument.
\<close>

section \<open>Backend results\<close>

record vec_chunk =
  vc_chunk_id :: pval
  vc_text :: pval
  vc_vector :: pval
  vc_metadata :: dict

definition vec_chunk_payload :: "vec_chunk \<Rightarrow> dict" where
  "vec_chunk_payload c =
     [(''chunkId'', vc_chunk_id c), (''text'', vc_text c), (''vector'', vc_vector c),
      (''metadata'', PDict (vc_metadata c))]"

record backend_result =
  br_chunks :: "vec_chunk list"
  br_dimensions :: pval
  br_metadata :: dict

text \<open>A backend may return anything; only \<open>VectorizeBackendResult\<close> objects are looked at.\<close>

datatype backend_value = BackendResult backend_result | AlienValue

definition value_fault :: "string \<Rightarrow> doc_fault" where
  "value_fault m = Fault (ValueError m)"

definition component_ok :: "nat \<Rightarrow> nat \<Rightarrow> pval \<Rightarrow> doc_fault + unit" where
  "component_ok i j v =
     (let l = item_label (chunk_label i @ ''.vector'') j in
      case v of
        PInt n \<Rightarrow> guardE (\<bar>n\<bar> < float_limit) overflow_fault
      | PFloat (Fin r) \<Rightarrow> Inr ()
      | PFloat _ \<Rightarrow> Inl (value_fault (''Vectorizer returned a non-finite value for '' @ l))
      | _ \<Rightarrow> Inl (value_fault (''Vectorizer returned a non-numeric value for '' @ l)))"

definition bad_dimensions :: doc_fault where
  "bad_dimensions = value_fault ''Vectorizer returned invalid vector dimensions''"

text \<open>The loop over the chunks, with the dimensions found so far.\<close>

fun check_chunks ::
    "nat \<Rightarrow> int option \<Rightarrow> chunk_ref list \<Rightarrow> vec_chunk list \<Rightarrow> doc_fault + int option" where
  "check_chunks i dims (q # qs) (c # cs) =
     (if vc_chunk_id c \<noteq> PStr (ch_chunk_id q)
      then Inl (value_fault (''Vectorizer returned mismatched chunk id for '' @ chunk_label i))
      else case vc_vector c of
        PList v \<Rightarrow>
          if v = [] then Inl (value_fault (''Vectorizer returned an empty vector for '' @ chunk_label i))
          else bindE (check_each (component_ok i) 0 v) (\<lambda>_.
            bindE (finite_numbers value_fault (chunk_label i @ ''.metadata'') (PDict (vc_metadata c))) (\<lambda>_.
            let n = int (length v) in
            if dims = None then check_chunks (Suc i) (Some n) qs cs
            else if dims \<noteq> Some n
            then Inl (value_fault ''Vectorizer returned inconsistent vector dimensions'')
            else check_chunks (Suc i) dims qs cs))
      | _ \<Rightarrow> Inl (value_fault (''Vectorizer returned an empty vector for '' @ chunk_label i)))"
| "check_chunks i dims qs cs = Inr dims"

definition artifact_dimensions_ok :: "int \<Rightarrow> artifact_request \<Rightarrow> bool" where
  "artifact_dimensions_ok n a =
     (ar_required a \<and> ar_type a = ''embedding'' \<longrightarrow>
        field (ar_parameters a) ''dimensions'' = PNone \<or>
        py_eq (field (ar_parameters a) ''dimensions'') (PInt n))"

definition validate_backend :: "vec_input \<Rightarrow> backend_value \<Rightarrow> doc_fault + int" where
  "validate_backend req b =
     (case b of
        AlienValue \<Rightarrow> Inl (value_fault ''Vectorizer returned an invalid result object'')
      | BackendResult br \<Rightarrow>
          if length (br_chunks br) \<noteq> length (vi_chunks req)
          then Inl (value_fault ''Vectorizer returned a different number of chunks'')
          else bindE (guardE (br_dimensions br = PNone \<or> positive_int (br_dimensions br)) bad_dimensions) (\<lambda>_.
            bindE (check_chunks 0 (case br_dimensions br of PInt n \<Rightarrow> Some n | _ \<Rightarrow> None)
                (vi_chunks req) (br_chunks br)) (\<lambda>dims.
            bindE (case dims of Some n \<Rightarrow> if 0 < n then Inr n else Inl bad_dimensions
                   | None \<Rightarrow> Inl bad_dimensions) (\<lambda>n.
            bindE (guardE (vo_dimensions (vi_options req) \<in> {None, Some n})
              (value_fault ''Vectorizer dimensions do not match requested options.dimensions'')) (\<lambda>_.
            bindE (check_each (\<lambda>i a. guardE (artifact_dimensions_ok n a)
                (value_fault (item_label ''artifactRequests'' i @
                   ''.parameters.dimensions does not match the returned embedding dimensions'')))
              0 (vi_artifact_requests req)) (\<lambda>_.
            bindE (finite_numbers value_fault ''backend.metadata'' (PDict (br_metadata br))) (\<lambda>_.
            Inr n)))))))"

section \<open>The output\<close>

record artifact_result =
  at_type :: string
  at_status :: string
  at_required :: bool
  at_details :: dict

definition artifact_result_payload :: "artifact_result \<Rightarrow> dict" where
  "artifact_result_payload a =
     [(''artifactType'', PStr (at_type a)), (''status'', PStr (at_status a)),
      (''required'', PBool (at_required a)), (''details'', PDict (at_details a))]"

record vec_output =
  vx_document_id :: string
  vx_chunks :: "vec_chunk list"
  vx_dimensions :: int
  vx_provider :: string
  vx_model :: string
  vx_metadata :: dict
  vx_artifacts :: "artifact_result list"

definition output_metadata :: "vec_input \<Rightarrow> dict \<Rightarrow> dict" where
  "output_metadata req backend =
     [(''routeId'', PStr (vi_route_id req)),
      (''manifestVersion'', manifest_value (vi_manifest_version req)),
      (''correlationId'', opt_str (vi_correlation_id req)),
      (''embeddingModel'', opt_str (vi_embedding_model req)),
      (''documentType'', opt_str (vi_document_type req)), (''schemaId'', opt_str (vi_schema_id req)),
      (''schemaVersion'', opt_str (vi_schema_version req)),
      (''provenance'', PDict (vi_provenance req)), (''backend'', PDict backend),
      (''options'', PDict (options_payload (vi_options req)))]"

definition artifact_result_of :: "int \<Rightarrow> string \<Rightarrow> string \<Rightarrow> artifact_request \<Rightarrow> artifact_result" where
  "artifact_result_of n provider model a =
     (if ar_type a = ''embedding''
      then \<lparr>at_type = ''embedding'', at_status = ''fulfilled'', at_required = ar_required a,
            at_details = [(''dimensions'', PInt n), (''provider'', PStr provider), (''model'', PStr model)]\<rparr>
      else \<lparr>at_type = ar_type a, at_status = ''unsupported'', at_required = False,
            at_details = [(''reason'', PStr ''No artifact producer is configured'')]\<rparr>)"

definition from_backend ::
    "vec_input \<Rightarrow> backend_value \<Rightarrow> string \<Rightarrow> string \<Rightarrow> doc_fault + vec_output" where
  "from_backend req b provider model =
     bindE (validate_backend req b) (\<lambda>n.
       case b of
         AlienValue \<Rightarrow> Inl (value_fault ''Vectorizer returned an invalid result object'')
       | BackendResult br \<Rightarrow>
           Inr \<lparr>vx_document_id = vi_document_id req, vx_chunks = br_chunks br, vx_dimensions = n,
                vx_provider = provider, vx_model = model,
                vx_metadata = output_metadata req (br_metadata br),
                vx_artifacts = map (artifact_result_of n provider model) (vi_artifact_requests req)\<rparr>)"

definition output_payload :: "vec_output \<Rightarrow> dict" where
  "output_payload x =
     [(''documentId'', PStr (vx_document_id x)),
      (''chunks'', PList (map (PDict \<circ> vec_chunk_payload) (vx_chunks x))),
      (''dimensions'', PInt (vx_dimensions x)), (''provider'', PStr (vx_provider x)),
      (''model'', PStr (vx_model x)), (''metadata'', PDict (vx_metadata x)),
      (''artifacts'', PList (map (PDict \<circ> artifact_result_payload) (vx_artifacts x)))]"

section \<open>The node\<close>

record vec_error =
  ve_code :: string
  ve_message :: string
  ve_document_id :: "string option"
  ve_provider :: "string option"
  ve_model :: "string option"
  ve_details :: dict
  ve_retryable :: bool

definition vec_error_payload :: "vec_error \<Rightarrow> dict" where
  "vec_error_payload e =
     [(''code'', PStr (ve_code e)), (''message'', PStr (ve_message e)),
      (''documentId'', opt_str (ve_document_id e)), (''provider'', opt_str (ve_provider e)),
      (''model'', opt_str (ve_model e)), (''details'', PDict (ve_details e)),
      (''retryable'', PBool (ve_retryable e))]"

definition fail_envelope :: "vec_error \<Rightarrow> envelope \<Rightarrow> node_result" where
  "fail_envelope err e =
     (let e1 = e\<lparr>env_state := AList.update ''document_vectorize_error'' (PDict (vec_error_payload err))
                   (AList.delete ''document_vectorize'' (env_state e))\<rparr>
      in \<lparr>res_envelope = env_terminate (Some (ve_message err)) (set_next None e1), res_success = False,
          res_error = Some (ve_message err),
          res_metadata = [(''action'', ''document.vectorize failed: '' @ ve_code err)]\<rparr>)"

text \<open>What the backend does: it returns a value, or raises an exception of some type with some text.\<close>

datatype backend_outcome = BackendReturns backend_value | BackendRaises string string

record vectorizer =
  vz_provider :: string
  vz_model :: string
  vz_vectorize :: "vec_input \<Rightarrow> backend_outcome"

fun fault_type :: "doc_fault \<Rightarrow> string" where
  "fault_type (Fault (ValueError m)) = ''ValueError''"
| "fault_type (Fault (OtherError ty m)) = ty"
| "fault_type (Fault _) = ''Exception''"
| "fault_type (Invalid m) = ''DocumentVectorizeValidationError''"

fun fault_text :: "doc_fault \<Rightarrow> string" where
  "fault_text (Fault (ValueError m)) = m"
| "fault_text (Fault (OtherError ty m)) = m"
| "fault_text (Fault _) = []"
| "fault_text (Invalid m) = m"

definition vectorize_key :: string where
  "vectorize_key = ''document_vectorize''"

fun python_type :: "pval \<Rightarrow> string" where
  "python_type PNone = ''NoneType''"
| "python_type (PBool _) = ''bool''"
| "python_type (PInt _) = ''int''"
| "python_type (PFloat _) = ''float''"
| "python_type (PStr _) = ''str''"
| "python_type (PList _) = ''list''"
| "python_type (PDict _) = ''dict''"

definition no_attribute :: "pval \<Rightarrow> string \<Rightarrow> string" where
  "no_attribute v a = quoted (python_type v) @ '' object has no attribute '' @ quoted a"

definition run_backend :: "vectorizer \<Rightarrow> vec_input \<Rightarrow> envelope \<Rightarrow> node_result" where
  "run_backend vz req e =
     (let failed = (\<lambda>code msg text type retry.
          fail_envelope \<lparr>ve_code = code, ve_message = msg, ve_document_id = Some (vi_document_id req),
            ve_provider = Some (vz_provider vz), ve_model = Some (vz_model vz),
            ve_details = [(''error'', PStr text), (''errorType'', PStr type)], ve_retryable = retry\<rparr> e)
      in case vz_vectorize vz req of
        BackendRaises type text \<Rightarrow>
          failed ''VECTORIZER_ERROR'' ''Vectorizer backend failed'' text type True
      | BackendReturns b \<Rightarrow>
          (case from_backend req b (vz_provider vz) (vz_model vz) of
             Inl f \<Rightarrow> failed ''VECTORIZER_RESULT_INVALID'' ''Vectorizer returned an invalid result''
                        (fault_text f) (fault_type f) False
           | Inr out \<Rightarrow>
               \<lparr>res_envelope = set_next None (e\<lparr>env_state := AList.delete ''document_vectorize_error''
                    (AList.update vectorize_key (PDict (output_payload out)) (env_state e))\<rparr>),
                res_success = True, res_error = None,
                res_metadata = [(''action'', ''document.vectorize completed'')]\<rparr>))"

definition vectorize_process :: "vectorizer \<Rightarrow> envelope \<Rightarrow> outcome" where
  "vectorize_process vz e =
     (case env_input e of
        PDict d \<Rightarrow>
          (case input_from (field d vectorize_key) of
             Inl (Invalid m) \<Rightarrow>
               Returned (fail_envelope \<lparr>ve_code = ''VALIDATION_ERROR'', ve_message = m,
                 ve_document_id = None, ve_provider = Some (vz_provider vz),
                 ve_model = Some (vz_model vz), ve_details = [], ve_retryable = False\<rparr> e)
           | Inl f \<Rightarrow> Raised e (fault_type f) (fault_text f)
           | Inr req \<Rightarrow> Returned (run_backend vz req e))
      | v \<Rightarrow> Raised e ''AttributeError'' (no_attribute v ''get''))"

text \<open>\<open>int(x)\<close> drops the fraction.\<close>

definition truncate_int :: "rat \<Rightarrow> int" where
  "truncate_int x = (if 0 \<le> x then \<lfloor>x\<rfloor> else \<lceil>x\<rceil>)"

definition document_capability :: string where
  "document_capability = ''document.vectorize''"

definition vectorize_node :: "string \<Rightarrow> vectorizer \<Rightarrow> rat \<Rightarrow> node" where
  "vectorize_node uid vz timeout =
     \<lparr>nd_id = uid, nd_type = ''DocumentVectorizeNode'', nd_capability = document_capability,
      nd_timeout_ms = Some (of_int (max (truncate_int (timeout * 1000)) 1)), nd_offload = True,
      nd_process = vectorize_process vz\<rparr>"

section \<open>What the checks of a backend result amount to\<close>

definition finite_number :: "pval \<Rightarrow> bool" where
  "finite_number v = (case v of PInt n \<Rightarrow> \<bar>n\<bar> < float_limit | PFloat (Fin r) \<Rightarrow> True | _ \<Rightarrow> False)"

definition sound_chunk :: "int \<Rightarrow> vec_chunk \<Rightarrow> bool" where
  "sound_chunk n c \<longleftrightarrow>
     (case vc_vector c of PList v \<Rightarrow> v \<noteq> [] \<and> int (length v) = n \<and> list_all finite_number v | _ \<Rightarrow> False) \<and>
     finite_value (PDict (vc_metadata c))"

definition sound_result :: "vec_input \<Rightarrow> int \<Rightarrow> backend_result \<Rightarrow> bool" where
  "sound_result req n br \<longleftrightarrow>
     map vc_chunk_id (br_chunks br) = map (PStr \<circ> ch_chunk_id) (vi_chunks req) \<and>
     list_all (sound_chunk n) (br_chunks br) \<and> br_dimensions br \<in> {PNone, PInt n} \<and>
     vo_dimensions (vi_options req) \<in> {None, Some n} \<and>
     list_all (\<lambda>a. ar_required a \<longrightarrow> field (ar_parameters a) ''dimensions'' \<in> {PNone, PInt n})
       (vi_artifact_requests req) \<and>
     finite_value (PDict (br_metadata br))"

lemma component_ok_Inr: "component_ok i j v = Inr () \<longleftrightarrow> finite_number v"
  by (auto simp: component_ok_def finite_number_def Let_def ok_simps split: pval.splits pyfloat.splits)

lemma check_chunks_Some:
  "length qs = length cs \<Longrightarrow>
     check_chunks i dims qs cs = Inr (Some n) \<longleftrightarrow>
     map vc_chunk_id cs = map (PStr \<circ> ch_chunk_id) qs \<and> list_all (sound_chunk n) cs \<and>
     (if cs = [] then dims = Some n else dims \<in> {None, Some n})"
proof (induction qs cs arbitrary: i dims rule: list_induct2)
  case (Cons q qs c cs)
  show ?case
  proof (cases "vc_vector c")
    case (PList v)
    then show ?thesis
      using Cons by (auto simp: ok_simps component_ok_Inr list_all_length [of finite_number] sound_chunk_def Let_def)
  qed (auto simp: sound_chunk_def)
qed auto

lemma valid_embedding_dimensions:
  assumes "valid_artifact a" "ar_required a"
  shows "artifact_dimensions_ok n a \<longleftrightarrow> field (ar_parameters a) ''dimensions'' \<in> {PNone, PInt n}"
proof (cases "map_of (ar_parameters a) ''dimensions''")
  case None
  then show ?thesis by (simp add: artifact_dimensions_ok_def field_def)
next
  case (Some v)
  then obtain i where "v = PInt i"
    using assms by (auto simp: valid_artifact_def positive_int_def field_def split: pval.splits)
  with Some assms show ?thesis
    by (auto simp: artifact_dimensions_ok_def valid_artifact_def field_def py_eq.simps [of "PInt i"])
qed

lemma backend_exact:
  assumes "input_from p = Inr req"
  shows "validate_backend req b = Inr n \<longleftrightarrow> (\<exists>br. b = BackendResult br \<and> sound_result req n br)"
proof (cases b)
  case AlienValue
  then show ?thesis by (simp add: validate_backend_def)
next
  case (BackendResult br)
  have v: "vi_chunks req \<noteq> []" "list_all valid_artifact (vi_artifact_requests req)"
    using input_from_valid [OF assms] by (simp_all add: valid_input_def list_all_iff)
  have arts: "list_all (artifact_dimensions_ok n) (vi_artifact_requests req) \<longleftrightarrow>
      list_all (\<lambda>a. ar_required a \<longrightarrow> field (ar_parameters a) ''dimensions'' \<in> {PNone, PInt n})
        (vi_artifact_requests req)"
    using v(2) valid_embedding_dimensions [of _ n]
    by (auto simp: list_all_iff artifact_dimensions_ok_def)
  have pos: "sound_chunk n c \<Longrightarrow> 0 < n" for c by (auto simp: sound_chunk_def split: pval.splits)
  have same: "map vc_chunk_id (br_chunks br) = map (PStr \<circ> ch_chunk_id) (vi_chunks req) \<Longrightarrow>
      length (br_chunks br) = length (vi_chunks req)" by (metis length_map)
  let ?given = "case br_dimensions br of PInt m \<Rightarrow> Some m | _ \<Rightarrow> None"
  have claimed: "(br_dimensions br = PNone \<or> positive_int (br_dimensions br)) \<and> ?given \<in> {None, Some n} \<longleftrightarrow>
      br_dimensions br \<in> {PNone, PInt n}" if "0 < n"
    using that by (auto simp: positive_int_def split: pval.splits)
  have "validate_backend req b = Inr n \<longleftrightarrow>
      length (br_chunks br) = length (vi_chunks req) \<and>
      (br_dimensions br = PNone \<or> positive_int (br_dimensions br)) \<and>
      check_chunks 0 ?given (vi_chunks req) (br_chunks br) = Inr (Some n) \<and> 0 < n \<and>
      vo_dimensions (vi_options req) \<in> {None, Some n} \<and>
      list_all (artifact_dimensions_ok n) (vi_artifact_requests req) \<and>
      finite_value (PDict (br_metadata br))"
    by (auto simp: BackendResult validate_backend_def ok_simps list_all_length [of "artifact_dimensions_ok n"] split: option.splits if_splits)
  also have "\<dots> \<longleftrightarrow> sound_result req n br"
  proof (cases "length (br_chunks br) = length (vi_chunks req) \<and> list_all (sound_chunk n) (br_chunks br)")
    case True
    with v(1) have "br_chunks br \<noteq> []" by auto
    with True pos have "0 < n" by (cases "br_chunks br") auto
    with True claimed \<open>br_chunks br \<noteq> []\<close> show ?thesis
      unfolding sound_result_def arts by (auto simp: check_chunks_Some)
  next
    case False
    then show ?thesis using same by (auto simp: sound_result_def check_chunks_Some)
  qed
  finally show ?thesis by (simp add: BackendResult)
qed

text \<open>
  C24: The checks on what a backend returns accept exactly the sound results: one chunk for each chunk of the
  request, in its order and under its identifier, each with a non-empty vector of finite numbers, all of the
  same length, which is the dimension reported and agrees with the dimensions that the backend claims, that
  the options ask for and that every required artifact asks for.
\<close>

theorem backend_checks_are_exact:
  assumes "input_from p = Inr req"
  shows "validate_backend req b = Inr n \<longleftrightarrow> (\<exists>br. b = BackendResult br \<and> sound_result req n br)"
  by (rule backend_exact [OF assms])

definition demo_backend :: backend_result where
  "demo_backend = \<lparr>br_chunks = [\<lparr>vc_chunk_id = PStr ''c0'', vc_text = PStr ''hello'',
       vc_vector = PList [PFloat (Fin (1/2)), PInt 1], vc_metadata = []\<rparr>],
     br_dimensions = PNone, br_metadata = []\<rparr>"

lemma demo_sound: "sound_result demo_request 2 demo_backend"
  by (simp add: sound_result_def demo_request_def demo_backend_def sound_chunk_def finite_number_def
      demo_limit default_options_def demo_artifact_def)

theorem backend_checks_are_exact_witness: "validate_backend demo_request (BackendResult demo_backend) = Inr 2"
  using backend_checks_are_exact [OF demo_accepted] demo_sound by blast

section \<open>Every call of the node leaves a result or an error\<close>

text \<open>The faults that reading a payload can raise.\<close>

definition contractual :: "doc_fault + 'a \<Rightarrow> bool" where
  "contractual r = (\<forall>f. r = Inl f \<longrightarrow> f = overflow_fault \<or> (\<exists>m. f = Invalid m))"

lemma contractual_simps [simp]:
  "contractual (Inr x)" "contractual (Inl (Invalid m))" "contractual (Inl overflow_fault)"
  "contractual (guardE b overflow_fault)" "contractual (guardE b (Invalid m))"
  by (simp_all add: contractual_def guardE_def)

lemma contractual_bind_ok:
  "contractual r \<Longrightarrow> (\<And>x. r = Inr x \<Longrightarrow> contractual (f x)) \<Longrightarrow> contractual (bindE r f)"
  by (cases r) (auto simp: contractual_def)

lemma contractual_bind [intro!]:
  "contractual r \<Longrightarrow> (\<And>x. contractual (f x)) \<Longrightarrow> contractual (bindE r f)"
  by (cases r) (auto simp: contractual_def)

lemma contractual_each [intro!]: "(\<And>i x. contractual (f i x)) \<Longrightarrow> contractual (each f i xs)"
  by (induction xs arbitrary: i) auto

lemma contractual_check_each [intro!]: "(\<And>i x. contractual (f i x)) \<Longrightarrow> contractual (check_each f i xs)"
  by (induction xs arbitrary: i) auto

lemma contractual_finite:
  "(\<And>m. err m = Invalid (g m)) \<Longrightarrow> contractual (finite_numbers err l v)"
  "(\<And>m. err m = Invalid (g m)) \<Longrightarrow> contractual (finite_list err l i xs)"
  "(\<And>m. err m = Invalid (g m)) \<Longrightarrow> contractual (finite_items err l d)"
  by (induction err l v and err l i xs and err l d rule: finite_numbers_finite_list_finite_items.induct)
    (auto intro!: contractual_bind_ok split: pyfloat.splits)

lemma contractual_finite_Invalid [simp]:
  "contractual (finite_numbers Invalid l v)" "contractual (finite_items Invalid l d)"
  by (rule contractual_finite [where g = "\<lambda>m. m"], rule refl)+

lemma contractual_readers [simp]:
  "contractual (required_string d k l)" "contractual (optional_string d k l)"
  "contractual (required_int d k l)" "contractual (optional_int d k l)"
  "contractual (required_manifest_version d k)" "contractual (required_number d k l)"
  "contractual (optional_mapping d k l)" "contractual (flag d k l)" "contractual (list_field d k)"
  "contractual (root_or_document_string d doc k)"
  by (auto simp: demo_readers Let_def root_or_document_string_def split: pval.splits pyfloat.splits option.splits)

lemma contractual_storage [simp]:
  "contractual (storage_validate l r)" "contractual (storage_from l p)" "contractual (opt_storage l d)"
  by (auto simp: storage_validate_def storage_from_def opt_storage_def Let_def count_fault_def split: pval.splits)

lemma contractual_parts [simp]:
  "contractual (document_from p)" "contractual (chunk_from i p)" "contractual (options_from p)"
  "contractual (artifact_from i p)" "contractual (schema_aliases d doc)"
  by (auto simp: document_from_def chunk_from_def options_from_def artifact_from_def schema_aliases_def
      alias_fault_def Let_def count_fault_def split: pval.splits)

lemma contractual_chunk_relations [simp]: "contractual (chunk_relations doc ids idxs pos cs)"
  by (induction doc ids idxs pos cs rule: chunk_relations.induct) (auto simp: Let_def)

lemma contractual_relations [simp]: "contractual (validate_relationships r)"
  by (auto simp: validate_relationships_def)

lemma contractual_chunk_list [simp]:
  "contractual (case v of PList xs \<Rightarrow> if xs = [] then Inl (Invalid m) else Inr xs | _ \<Rightarrow> Inl (Invalid m))"
  by (simp split: pval.splits)

lemma contractual_input: "contractual (input_from p)"
proof (cases p)
  case (PDict d)
  show ?thesis
    unfolding PDict input_from_def pval.case Let_def
    by (intro contractual_bind contractual_each contractual_simps contractual_readers contractual_storage
        contractual_parts contractual_relations contractual_finite_Invalid contractual_chunk_list)
qed (simp_all add: input_from_def)

lemma vec_error_payload_inj [simp]: "vec_error_payload x = vec_error_payload y \<longleftrightarrow> x = y"
  by (cases x; cases y) (auto simp: vec_error_payload_def)

lemma fail_envelope_facts:
  "\<not> res_success (fail_envelope err e)" "res_error (fail_envelope err e) = Some (ve_message err)"
  "env_terminated (res_envelope (fail_envelope err e))" "env_next (res_envelope (fail_envelope err e)) = None"
  "map_of (env_state (res_envelope (fail_envelope err e))) vectorize_key = None"
  "map_of (env_state (res_envelope (fail_envelope err e))) ''document_vectorize_error'' =
     Some (PDict (vec_error_payload err))"
  by (simp_all add: fail_envelope_def set_next_def vectorize_key_def dict_simps Let_def)

text \<open>The payload is valid and the backend answers its request with a sound result.\<close>

definition soundly_served :: "pval \<Rightarrow> vectorizer \<Rightarrow> bool" where
  "soundly_served payload vz \<longleftrightarrow>
     (\<exists>req br n. input_from payload = Inr req \<and> vz_vectorize vz req = BackendReturns (BackendResult br) \<and>
        sound_result req n br)"

text \<open>
  Note: Whatever the payload and the backend do, a call of the node ends in one of two ways. It succeeds, with
  an output in the envelope that carries the chunks of a sound backend result, and without an error entry.
  Or it fails and terminates the envelope, without an output but with a structured error, which is marked
  retryable exactly when the backend itself raised. The only exception that escapes is the overflow of an
  integer too large for a float.
\<close>

theorem node_leaves_result_or_error:
  assumes "env_input e = PDict d"
  shows "case vectorize_process vz e of
      Raised e' ty m \<Rightarrow>
        e' = e \<and> ty = ''OverflowError'' \<and> input_from (field d vectorize_key) = Inl overflow_fault
    | Returned r \<Rightarrow>
        (let s = env_state (res_envelope r) in env_next (res_envelope r) = None \<and>
         (if res_success r
          then env_terminated (res_envelope r) = env_terminated e \<and> (\<exists>req br n out.
            input_from (field d vectorize_key) = Inr req \<and>
            vz_vectorize vz req = BackendReturns (BackendResult br) \<and> sound_result req n br \<and>
            map_of s vectorize_key = Some (PDict (output_payload out)) \<and> vx_chunks out = br_chunks br \<and>
            vx_dimensions out = n \<and> map_of s ''document_vectorize_error'' = None)
          else \<not> soundly_served (field d vectorize_key) vz \<and>
            env_terminated (res_envelope r) \<and> map_of s vectorize_key = None \<and>
            (\<exists>err. map_of s ''document_vectorize_error'' = Some (PDict (vec_error_payload err)) \<and>
              res_error r = Some (ve_message err) \<and>
              (ve_retryable err \<longleftrightarrow> (\<exists>req ty m. input_from (field d vectorize_key) = Inr req \<and>
                 vz_vectorize vz req = BackendRaises ty m)))))"
proof (cases "input_from (field d vectorize_key)")
  case (Inl f)
  then consider m where "f = Invalid m" | "f = overflow_fault"
    using contractual_input [of "field d vectorize_key"] by (auto simp: contractual_def)
  then show ?thesis
    by cases (simp_all add: vectorize_process_def assms Inl overflow_fault_def fail_envelope_facts Let_def
        soundly_served_def)
next
  case (Inr req)
  have run: "vectorize_process vz e = Returned (run_backend vz req e)"
    by (simp add: vectorize_process_def assms Inr)
  show ?thesis
  proof (cases "vz_vectorize vz req")
    case (BackendRaises ty m)
    then show ?thesis by (auto simp: run Inr run_backend_def fail_envelope_facts Let_def soundly_served_def)
  next
    case (BackendReturns b)
    show ?thesis
    proof (cases "from_backend req b (vz_provider vz) (vz_model vz)")
      case (Inl f)
      moreover from this have "\<not> sound_result req n br" if "b = BackendResult br" for br n
        using backend_exact [OF \<open>input_from (field d vectorize_key) = Inr req\<close>, of b n] that
        by (auto simp: from_backend_def ok_simps)
      ultimately show ?thesis using BackendReturns \<open>input_from (field d vectorize_key) = Inr req\<close>
        by (auto simp: run run_backend_def fail_envelope_facts Let_def soundly_served_def)
    next
      case out: (Inr out)
      then obtain br where "b = BackendResult br" "validate_backend req b = Inr (vx_dimensions out)"
        "vx_chunks out = br_chunks br"
        by (cases b) (auto simp: from_backend_def ok_simps)
      moreover from this have "sound_result req (vx_dimensions out) br"
        using backend_exact [OF Inr] by simp
      ultimately show ?thesis
        using BackendReturns out
        by (auto simp: run Inr [unfolded vectorize_key_def] run_backend_def set_next_def vectorize_key_def dict_simps)
    qed
  qed
qed

definition demo_vectorizer :: vectorizer where
  "demo_vectorizer = \<lparr>vz_provider = ''demo'', vz_model = ''m'',
     vz_vectorize = (\<lambda>_. BackendReturns (BackendResult demo_backend))\<rparr>"

theorem node_leaves_result_or_error_witness:
  "\<exists>r out. vectorize_process demo_vectorizer ((demo_env None)\<lparr>env_input := PDict [(vectorize_key, PDict demo_payload)]\<rparr>) =
     Returned r \<and> map_of (env_state (res_envelope r)) vectorize_key = Some (PDict (output_payload out)) \<and>
     vx_dimensions out = 2"
proof -
  let ?e = "(demo_env None)\<lparr>env_input := PDict [(vectorize_key, PDict demo_payload)]\<rparr>"
  have ok: "validate_backend demo_request (BackendResult demo_backend) = Inr 2"
    using backend_exact [OF demo_accepted] demo_sound by blast
  have "env_input ?e = PDict [(vectorize_key, PDict demo_payload)]" by simp
  note t = node_leaves_result_or_error [OF this, of demo_vectorizer]
  obtain r where r: "vectorize_process demo_vectorizer ?e = Returned r" "res_success r"
    using ok by (simp add: vectorize_process_def demo_accepted run_backend_def demo_vectorizer_def from_backend_def)
  with t obtain req br n out where "input_from (PDict demo_payload) = Inr req"
    "vz_vectorize demo_vectorizer req = BackendReturns (BackendResult br)" "sound_result req n br"
    "map_of (env_state (res_envelope r)) vectorize_key = Some (PDict (output_payload out))" "vx_dimensions out = n"
    by (auto simp: Let_def)
  moreover from this have "n = 2"
    using ok backend_exact [OF demo_accepted, of "BackendResult br" n]
    by (simp add: demo_accepted demo_vectorizer_def)
  ultimately show ?thesis using r(1) by blast
qed

end
