(* ===== verification/CyrexVectorizer.thy ===== *)
theory CyrexVectorizer
  imports VectorizeNode
begin

text \<open>
  The vectorizer backend that calls Cyrex's indexing interface
  (\<open>src/prismpipe/document/cyrex_vectorizer.py\<close>). The HTTP exchange and the printing of values are
  arguments: what the client answers to the posted body, and \<open>repr\<close>.
\<close>

datatype http_outcome = HttpFailure string | OtherFailure string string | HttpReply pval

record cyrex_io =
  cy_url :: string
  cy_post :: "string \<Rightarrow> dict \<Rightarrow> http_outcome"
  cy_repr :: "pval \<Rightarrow> string"

text \<open>Exceptions are pairs of a type name and a text.\<close>

type_synonym exn = "string \<times> string"

definition cyrex_error :: "string \<Rightarrow> exn" where
  "cyrex_error m = (''CyrexVectorizerError'', m)"

definition cyrex_chunk :: "cyrex_io \<Rightarrow> nat \<Rightarrow> chunk_ref \<Rightarrow> exn + pval" where
  "cyrex_chunk io i c =
     (if truthy_opt (ch_text c)
      then Inr (PDict [(''chunk_id'', PStr (ch_chunk_id c)), (''text'', opt_str (ch_text c)),
             (''metadata'', PDict (ch_metadata c))])
      else Inl (cyrex_error (''chunk '' @ cy_repr io (PStr (ch_chunk_id c)) @ '' has no text; cannot vectorize'')))"

definition cyrex_body :: "vec_input \<Rightarrow> pval list \<Rightarrow> dict" where
  "cyrex_body req chunks =
     [(''document_id'', PStr (vi_document_id req)), (''chunks'', PList chunks),
      (''doc_type'', PStr (or_str (vi_document_type req) ''legal_document'')),
      (''industry'', case map_of (vi_metadata req) ''industry'' of Some v \<Rightarrow> v | None \<Rightarrow> PStr ''generic''),
      (''metadata'', PDict (vi_metadata req))]"

text \<open>\<open>v[key]\<close> with a text key.\<close>

definition subscript :: "pval \<Rightarrow> string \<Rightarrow> exn + pval" where
  "subscript v k =
     (case v of
        PDict d \<Rightarrow> (case map_of d k of Some x \<Rightarrow> Inr x | None \<Rightarrow> Inl (''KeyError'', quoted k))
      | PStr _ \<Rightarrow> Inl (''TypeError'', ''string indices must be integers, not '' @ quoted ''str'')
      | PList _ \<Rightarrow> Inl (''TypeError'', ''list indices must be integers or slices, not str'')
      | _ \<Rightarrow> Inl (''TypeError'', quoted (python_type v) @ '' object is not subscriptable''))"

text \<open>Iterating over a value, as \<open>for\<close> and \<open>list\<close> do.\<close>

definition elements :: "pval \<Rightarrow> exn + pval list" where
  "elements v =
     (case v of
        PList xs \<Rightarrow> Inr xs
      | PStr s \<Rightarrow> Inr (map (\<lambda>c. PStr [c]) s)
      | PDict d \<Rightarrow> Inr (map (PStr \<circ> fst) d)
      | _ \<Rightarrow> Inl (''TypeError'', quoted (python_type v) @ '' object is not iterable''))"

definition hashable :: "pval \<Rightarrow> bool" where
  "hashable v = (case v of PList _ \<Rightarrow> False | PDict _ \<Rightarrow> False | _ \<Rightarrow> True)"

text \<open>One entry of the dictionary \<open>by_chunk_id\<close>; only keys that are texts are ever looked up.\<close>

definition keyed_entry :: "nat \<Rightarrow> pval \<Rightarrow> exn + (pval \<times> pval)" where
  "keyed_entry i c =
     bindE (subscript c ''chunk_id'') (\<lambda>k.
     bindE (guardE (hashable k) (''TypeError'', ''unhashable type: '' @ quoted (python_type k))) (\<lambda>_.
     Inr (k, c)))"

definition by_chunk_id :: "dict \<Rightarrow> exn + (pval \<times> pval) list" where
  "by_chunk_id data =
     bindE (elements (case map_of data ''chunks'' of Some v \<Rightarrow> v | None \<Rightarrow> PList [])) (\<lambda>cs.
     bindE (each keyed_entry 0 cs) (\<lambda>entries. Inr (rev entries)))"

definition cyrex_vector ::
    "cyrex_io \<Rightarrow> string \<Rightarrow> (pval \<times> pval) list \<Rightarrow> nat \<Rightarrow> chunk_ref \<Rightarrow> exn + vec_chunk" where
  "cyrex_vector io doc_id entries i c =
     (case map_of entries (PStr (ch_chunk_id c)) of
        None \<Rightarrow> Inl (cyrex_error (''Cyrex response missing vector for chunk '' @
                  cy_repr io (PStr (ch_chunk_id c))))
      | Some e \<Rightarrow>
          bindE (subscript e ''vector'') (\<lambda>v.
          bindE (elements v) (\<lambda>xs.
          Inr \<lparr>vc_chunk_id = PStr (ch_chunk_id c), vc_text = opt_str (ch_text c), vc_vector = PList xs,
               vc_metadata = [(''milvusDocumentId'', PStr doc_id)]\<rparr>)))"

definition cyrex_read :: "cyrex_io \<Rightarrow> vec_input \<Rightarrow> pval \<Rightarrow> exn + backend_result" where
  "cyrex_read io req reply =
     (case reply of
        PDict data \<Rightarrow>
          bindE (guardE (truthy (field data ''success''))
            (cyrex_error (''Cyrex indexing reported failure: '' @ cy_repr io reply))) (\<lambda>_.
          bindE (by_chunk_id data) (\<lambda>entries.
          bindE (each (cyrex_vector io (vi_document_id req) entries) 0 (vi_chunks req)) (\<lambda>cs.
          Inr \<lparr>br_chunks = cs, br_dimensions = field data ''dimensions'',
               br_metadata = [(''backend'', PStr ''cyrex-milvus''),
                 (''cyrexDocumentId'', field data ''document_id'')]\<rparr>)))
      | v \<Rightarrow> Inl (''AttributeError'', no_attribute v ''get''))"

definition cyrex_vectorize :: "cyrex_io \<Rightarrow> vec_input \<Rightarrow> backend_outcome" where
  "cyrex_vectorize io req =
     (case each (cyrex_chunk io) 0 (vi_chunks req) of
        Inl (ty, m) \<Rightarrow> BackendRaises ty m
      | Inr chunks \<Rightarrow>
          (case cy_post io (cy_url io @ ''/api/v1/documents/index/chunks'') (cyrex_body req chunks) of
             HttpFailure m \<Rightarrow> BackendRaises ''CyrexVectorizerError'' (''Cyrex indexing request failed: '' @ m)
           | OtherFailure ty m \<Rightarrow> BackendRaises ty m
           | HttpReply reply \<Rightarrow>
               (case cyrex_read io req reply of
                  Inl (ty, m) \<Rightarrow> BackendRaises ty m
                | Inr br \<Rightarrow> BackendReturns (BackendResult br))))"

definition cyrex_vectorizer :: "cyrex_io \<Rightarrow> vectorizer" where
  "cyrex_vectorizer io =
     \<lparr>vz_provider = ''cyrex'', vz_model = ''sentence-transformers/all-MiniLM-L6-v2'',
      vz_vectorize = cyrex_vectorize io\<rparr>"

text \<open>
  Cyrex's reply may list the chunks in any order and repeat them: what the backend returns has the
  identifiers of the request in the order of the request, so the check of identifiers never refuses it, and
  each vector is the one of the last entry under that identifier.
\<close>

lemma cyrex_chunk_ids:
  assumes "cyrex_vectorize io req = BackendReturns b"
  shows "\<exists>br. b = BackendResult br \<and> map vc_chunk_id (br_chunks br) = map (PStr \<circ> ch_chunk_id) (vi_chunks req)"
proof -
  obtain reply br where br: "b = BackendResult br" "cyrex_read io req reply = Inr br"
    using assms by (auto simp: cyrex_vectorize_def split: sum.splits http_outcome.splits)
  then obtain entries cs where cs: "each (cyrex_vector io (vi_document_id req) entries) 0 (vi_chunks req) = Inr cs"
    "br_chunks br = cs"
    by (auto simp: cyrex_read_def ok_simps split: pval.splits)
  have id: "cyrex_vector io doc es j q = Inr c \<Longrightarrow> vc_chunk_id c = PStr (ch_chunk_id q)" for doc es j q c
    by (auto simp: cyrex_vector_def ok_simps split: option.splits)
  have len: "length cs = length (vi_chunks req)"
    and at: "\<forall>j < length (vi_chunks req). cyrex_vector io (vi_document_id req) entries j (vi_chunks req ! j) = Inr (cs ! j)"
    using cs(1) by (auto simp: each_Inr)
  then have "map vc_chunk_id cs = map (PStr \<circ> ch_chunk_id) (vi_chunks req)"
    by (intro nth_equalityI) (auto dest: id)
  with br cs show ?thesis by simp
qed

lemma cyrex_last_entry:
  "cyrex_vector io doc (rev entries) i c = Inr v \<Longrightarrow>
     \<exists>e d xs. map_of (rev entries) (PStr (ch_chunk_id c)) = Some e \<and> e = PDict d \<and>
       vc_vector v = PList xs \<and> map_of d ''vector'' \<noteq> None"
  by (auto simp: cyrex_vector_def subscript_def ok_simps split: option.splits pval.splits)

end
