(* ===== verification/DocumentProcessing.thy ===== *)
theory DocumentProcessing
  imports DocumentOps VectorizeNode
begin

text \<open>
  Durable processing of \<open>document.vectorize\<close> requests (\<open>src/prismpipe/document/processing.py\<close>): the
  identity of a request, the processor that claims, loads, vectorizes and records an outcome, and the
  consumer that publishes outcomes and settles messages with the broker.

  A call is a sequence of store transactions. Between any two of them other workers may do any sequence of
  operations on the store: the events before the call's \<open>n\<close>-th transaction are an argument, and so are the
  clock, the fresh tokens, the loaded chunk contents, the digest function and the printing of floats.
\<close>

section \<open>Canonical text\<close>

definition hex_digit :: "nat \<Rightarrow> char" where
  "hex_digit n = (if n < 10 then char_of (48 + n) else char_of (87 + n))"

definition json_char :: "char \<Rightarrow> string" where
  "json_char c =
     (let n = of_char c :: nat in
      if n = 34 then [CHR 92, CHR 34] else if n = 92 then [CHR 92, CHR 92]
      else if n = 10 then CHR 92 # ''n'' else if n = 13 then CHR 92 # ''r''
      else if n = 9 then CHR 92 # ''t'' else if n = 12 then CHR 92 # ''f'' else if n = 8 then CHR 92 # ''b''
      else if n < 32 then CHR 92 # ''u00'' @ [hex_digit (n div 16), hex_digit (n mod 16)]
      else [c])"

definition json_string :: "string \<Rightarrow> string" where
  "json_string s = [CHR 34] @ concat (map json_char s) @ [CHR 34]"

fun json_text :: "(rat \<Rightarrow> string) \<Rightarrow> pval \<Rightarrow> string" where
  "json_text fmt PNone = ''null''"
| "json_text fmt (PBool b) = (if b then ''true'' else ''false'')"
| "json_text fmt (PInt i) = show_int i"
| "json_text fmt (PFloat (Fin r)) = fmt r"
| "json_text fmt (PFloat _) = []"
| "json_text fmt (PStr s) = json_string s"
| "json_text fmt (PList xs) = ''['' @ join '','' (map (json_text fmt) xs) @ '']''"
| "json_text fmt (PDict d) =
     ''{'' @ join '','' (map (\<lambda>(k, v). json_string k @ '':'' @ json_text fmt v) d) @ ''}''"

text \<open>\<open>canonical_json\<close>: keys in order, no blanks; numbers that are not finite are refused.\<close>

definition canonical_text :: "(rat \<Rightarrow> string) \<Rightarrow> pval \<Rightarrow> doc_error + string" where
  "canonical_text fmt v =
     (if json_ok v then Inr (json_text fmt (json_norm v)) else Inl (DocOther json_error))"

section \<open>The processor's environment\<close>

datatype content = Value pval | Bytes "string option"

datatype load_outcome = Loaded content | Absent | StorageFails string | LoadRaises string

record proc_io =
  pi_digest :: "string \<Rightarrow> string"
  pi_fmt :: "rat \<Rightarrow> string"
  pi_str :: "pval \<Rightarrow> string"
  pi_lease :: rat
  pi_now :: "nat \<Rightarrow> rat"
  pi_later :: "nat \<Rightarrow> rat"
  pi_token :: "nat \<Rightarrow> string"
  pi_others :: "nat \<Rightarrow> doc_event list"
  pi_polls :: nat
  pi_load :: "string \<Rightarrow> load_outcome"
  pi_vectorizer :: vectorizer
  pi_timeout :: rat
  pi_runtime :: runtime
  pi_uid :: string
  pi_node :: string
  pi_cancelled :: bool

text \<open>The number of transactions so far, and the store.\<close>

type_synonym proc_state = "nat \<times> op_store"

definition transact ::
    "proc_io \<Rightarrow> (nat \<Rightarrow> op_store \<Rightarrow> 'a \<times> op_store) \<Rightarrow> proc_state \<Rightarrow> 'a \<times> proc_state" where
  "transact io f st =
     (case st of (n, s) \<Rightarrow>
        (case f n (run_steps (doc_step (pi_lease io)) (pi_others io n) s) of (x, s') \<Rightarrow> (x, (Suc n, s'))))"

definition do_claim :: "proc_io \<Rightarrow> claim_request \<Rightarrow> proc_state \<Rightarrow> (doc_error + doc_op \<times> bool) \<times> proc_state" where
  "do_claim io c = transact io (\<lambda>n. claim (pi_lease io) (pi_now io n) (pi_later io n) (pi_token io n) c)"

definition do_get :: "proc_io \<Rightarrow> string \<Rightarrow> proc_state \<Rightarrow> doc_op option \<times> proc_state" where
  "do_get io k = transact io (\<lambda>n s. (get_op k s, s))"

definition do_finish ::
    "proc_io \<Rightarrow> string \<Rightarrow> string \<Rightarrow> outcome_msg \<Rightarrow> proc_state \<Rightarrow> (doc_error + doc_op) \<times> proc_state" where
  "do_finish io k t m = transact io (\<lambda>n. finish (pi_now io n) k t m)"

definition do_retryable ::
    "proc_io \<Rightarrow> string \<Rightarrow> string \<Rightarrow> pval \<Rightarrow> proc_state \<Rightarrow> (doc_error + doc_op) \<times> proc_state" where
  "do_retryable io k t err = transact io (\<lambda>n. record_retryable (pi_now io n) k t err)"

section \<open>The identity of a request\<close>

definition or_value :: "pval \<Rightarrow> pval \<Rightarrow> pval" where
  "or_value a b = (if truthy a then a else b)"

definition identity_fields :: "dict \<Rightarrow> string \<Rightarrow> dict \<Rightarrow> dict" where
  "identity_fields payload msg_id headers =
     (let correlation = or_value (field payload ''correlationId'')
            (or_value (field headers ''correlationId'') (field headers ''correlation_id''));
          operation = or_value (field payload ''operationId'')
            (or_value (field headers ''operationId'') (field headers ''operation_id''));
          base = [(''capability'', PStr document_capability), (''documentId'', field payload ''documentId''),
            (''manifestVersion'', field payload ''manifestVersion''), (''routeId'', field payload ''routeId''),
            (''correlationId'', correlation), (''operationId'', operation)]
      in if truthy (field payload ''routeId'') \<or> truthy correlation \<or> truthy operation then base
         else base @ [(''messageId'', PStr msg_id)])"

definition idempotency_key :: "proc_io \<Rightarrow> dict \<Rightarrow> string \<Rightarrow> dict \<Rightarrow> doc_error + string" where
  "idempotency_key io payload msg_id headers =
     bindE (canonical_text (pi_fmt io) (PDict (identity_fields payload msg_id headers))) (\<lambda>t.
     Inr (''document-vectorize:'' @ pi_digest io t))"

definition request_fingerprint :: "proc_io \<Rightarrow> dict \<Rightarrow> doc_error + string" where
  "request_fingerprint io payload =
     bindE (canonical_text (pi_fmt io) (PDict payload)) (\<lambda>t. Inr (pi_digest io t))"

definition operation_id_of :: "proc_io \<Rightarrow> string \<Rightarrow> string" where
  "operation_id_of io k = ''docop_'' @ take 24 (pi_digest io k)"

definition preserved_keys :: "string list" where
  "preserved_keys = [''correlationId'', ''correlation_id'', ''requestId'', ''request_id'', ''traceId'',
     ''trace_id'', ''causationId'', ''causation_id'', ''operationId'', ''operation_id'']"

definition preserved_metadata :: "dict \<Rightarrow> string \<Rightarrow> dict" where
  "preserved_metadata headers msg_id =
     AList.update ''messageId'' (PStr msg_id) (filter (\<lambda>(k, v). k \<in> set preserved_keys) headers)"

definition safe_identity_value :: "pval \<Rightarrow> string \<Rightarrow> string" where
  "safe_identity_value v d =
     (case v of PStr s \<Rightarrow> if nonblank s then s else d | PInt i \<Rightarrow> show_int i | _ \<Rightarrow> d)"

section \<open>Outcomes\<close>

definition artifacts_topic :: string where "artifacts_topic = ''document.artifacts''"

definition dead_letter_topic :: string where "dead_letter_topic = ''pipeline.dead-letter''"

definition opt_dict :: "dict option \<Rightarrow> pval" where
  "opt_dict x = (case x of None \<Rightarrow> PNone | Some d \<Rightarrow> PDict d)"

definition result_message :: "doc_op \<Rightarrow> bool \<Rightarrow> dict option \<Rightarrow> dict option \<Rightarrow> dict" where
  "result_message r success res err =
     [(''success'', PBool success), (''operationId'', PStr (do_operation_id r)),
      (''idempotencyKey'', PStr (do_key r)), (''documentId'', PStr (do_document_id r)),
      (''manifestVersion'', PStr (do_manifest_version r)), (''capability'', PStr (do_capability r)),
      (''result'', opt_dict res), (''error'', opt_dict err), (''metadata'', do_metadata r)]"

definition claim_token :: "doc_op \<Rightarrow> doc_error + string" where
  "claim_token r =
     (case do_token r of
        None \<Rightarrow> Inl (DocOther (RuntimeError (''Owned document operation has no claim token: '' @ do_key r)))
      | Some t \<Rightarrow> Inr t)"

definition failure_msg :: "doc_op \<Rightarrow> dict \<Rightarrow> bool \<Rightarrow> outcome_msg" where
  "failure_msg r err dead =
     \<lparr>om_status = (if dead then DEAD_LETTERED else TERMINAL_FAILURE), om_result = None,
      om_error = Some (PDict err), om_topic = dead_letter_topic,
      om_message_id = ''document-failure-'' @ do_operation_id r,
      om_payload = PDict (result_message r False None (Some err))\<rparr>"

definition success_msg :: "doc_op \<Rightarrow> string \<Rightarrow> dict \<Rightarrow> outcome_msg" where
  "success_msg r op_id out =
     \<lparr>om_status = SUCCEEDED, om_result = Some (PDict out), om_error = None, om_topic = artifacts_topic,
      om_message_id = ''document-result-'' @ op_id,
      om_payload = PDict (result_message r True (Some out) None)\<rparr>"

definition finish_failure ::
    "proc_io \<Rightarrow> doc_op \<Rightarrow> dict \<Rightarrow> bool \<Rightarrow> proc_state \<Rightarrow> (doc_error + doc_op) \<times> proc_state" where
  "finish_failure io r err dead st =
     (case claim_token r of
        Inl e \<Rightarrow> (Inl e, st)
      | Inr t \<Rightarrow> do_finish io (do_key r) t (failure_msg r err dead) st)"

text \<open>
  \<open>_settled_duplicate\<close> polls the row until it is no longer processing or the deadline has passed, after
  \<open>pi_polls\<close> rounds.
\<close>

fun poll_settled :: "proc_io \<Rightarrow> nat \<Rightarrow> doc_op \<Rightarrow> proc_state \<Rightarrow> doc_op \<times> proc_state" where
  "poll_settled io 0 r st = (r, st)"
| "poll_settled io (Suc n) r st =
     (case do_get io (do_key r) st of
        (None, st') \<Rightarrow> (r, st')
      | (Some cur, st') \<Rightarrow> if do_status cur \<noteq> PROCESSING then (cur, st') else poll_settled io n r st')"

definition settled_duplicate :: "proc_io \<Rightarrow> doc_op \<Rightarrow> proc_state \<Rightarrow> doc_op \<times> proc_state" where
  "settled_duplicate io r st =
     (if do_status r \<noteq> PROCESSING then (r, st) else poll_settled io (pi_polls io) r st)"

section \<open>Loading and vectorizing\<close>

definition content_fault :: "nat \<Rightarrow> string \<Rightarrow> doc_error" where
  "content_fault i m =
     ProcessingError ''INVALID_STORAGE_CONTENT'' (''Storage content for '' @ chunk_label i @ m) False []"

definition decode_content :: "nat \<Rightarrow> content \<Rightarrow> doc_error + string" where
  "decode_content i c =
     (let empty = Inl (content_fault i '' must contain non-empty text'');
          text_of = (\<lambda>v. case v of PStr s \<Rightarrow> if s \<noteq> [] then Inr s else empty | _ \<Rightarrow> empty)
      in case c of
        Bytes None \<Rightarrow> Inl (content_fault i '' is not UTF-8'')
      | Bytes (Some s) \<Rightarrow> if s \<noteq> [] then Inr s else empty
      | Value (PDict d) \<Rightarrow> text_of (case map_of d ''text'' of Some v \<Rightarrow> v | None \<Rightarrow> field d ''content'')
      | Value v \<Rightarrow> text_of v)"

definition load_fault :: "nat \<Rightarrow> dict \<Rightarrow> doc_error" where
  "load_fault i ds =
     ProcessingError ''STORAGE_UNAVAILABLE'' (''Unable to load '' @ chunk_label i @ '' content'') True ds"

definition resolve_chunk :: "proc_io \<Rightarrow> nat \<Rightarrow> chunk_ref \<Rightarrow> doc_error + chunk_ref" where
  "resolve_chunk io i c =
     (if ch_text c \<noteq> None then Inr c
      else case ch_storage c of
        None \<Rightarrow> Inl (ProcessingError ''INVALID_STORAGE_REFERENCE''
                  (chunk_label i @ '' must include text or storage'') False [])
      | Some r \<Rightarrow>
          (case storage_key r of
             Inl f \<Rightarrow> Inl (load_fault i [(''errorType'', PStr (fault_type f))])
           | Inr k \<Rightarrow>
               (case pi_load io k of
                  StorageFails op \<Rightarrow> Inl (load_fault i [(''operation'', PStr op)])
                | LoadRaises ty \<Rightarrow> Inl (load_fault i [(''errorType'', PStr ty)])
                | Absent \<Rightarrow> Inl (ProcessingError ''STORAGE_CONTENT_NOT_FOUND''
                    (''Storage content for '' @ chunk_label i @ '' was not found'') False [])
                | Loaded x \<Rightarrow> bindE (decode_content i x) (\<lambda>t. Inr (c\<lparr>ch_text := Some t\<rparr>)))))"

definition resolve_chunks :: "proc_io \<Rightarrow> vec_input \<Rightarrow> doc_error + vec_input" where
  "resolve_chunks io req =
     bindE (each (resolve_chunk io) 0 (vi_chunks req)) (\<lambda>cs. Inr (req\<lparr>vi_chunks := cs\<rparr>))"

definition work_envelope :: "proc_io \<Rightarrow> vec_input \<Rightarrow> envelope" where
  "work_envelope io req =
     \<lparr>env_id = ''req_'' @ pi_uid io, env_intent = CUSTOM,
      env_input = PDict [(vectorize_key, PDict (input_payload req))], env_state = [], env_history = [],
      env_metadata = empty_metadata, env_plan = empty_plan, env_next = Some document_capability,
      env_error = None, env_terminated = False, env_parent_id = None\<rparr>"

definition str_value :: "proc_io \<Rightarrow> pval \<Rightarrow> string" where
  "str_value io v = (case v of PStr s \<Rightarrow> s | _ \<Rightarrow> pi_str io v)"

text \<open>\<open>structured.get(key, default)\<close>.\<close>

definition get_default :: "dict \<Rightarrow> string \<Rightarrow> pval \<Rightarrow> pval" where
  "get_default d k v = (case map_of d k of Some x \<Rightarrow> x | None \<Rightarrow> v)"

definition read_work :: "proc_io \<Rightarrow> node_result \<Rightarrow> doc_error + dict" where
  "read_work io r =
     (let e = res_envelope r;
          failed = (case field (env_state e) ''document_vectorize_error'' of
              PDict d \<Rightarrow> ProcessingError (str_value io (get_default d ''code'' (PStr ''VECTORIZER_ERROR'')))
                (str_value io (get_default d ''message'' (PStr ''Vectorizer backend failed'')))
                (truthy (get_default d ''retryable'' (PBool True)))
                (case field d ''details'' of PDict ds \<Rightarrow> ds | _ \<Rightarrow> [])
            | _ \<Rightarrow>
                (let msg = or_str (or_opt (res_error r) (env_error e)) ''Vectorizer backend failed''
                 in ProcessingError (if contains ''timed out'' msg then ''VECTORIZER_TIMEOUT''
                      else ''VECTORIZER_ERROR'') msg True []))
      in if res_success r \<and> \<not> env_terminated e
         then (case field (env_state e) vectorize_key of PDict out \<Rightarrow> Inr out | _ \<Rightarrow> Inl failed)
         else Inl failed)"

definition execute_vectorizer :: "proc_io \<Rightarrow> vec_input \<Rightarrow> doc_error + dict" where
  "execute_vectorizer io req =
     (case execute_with_timeout (pi_runtime io) 0 (vectorize_node (pi_node io) (pi_vectorizer io) (pi_timeout io))
         (work_envelope io req) (Some (pi_timeout io)) of
        Inl e \<Rightarrow> Inl (DocOther e)
      | Inr r \<Rightarrow> read_work io r)"

section \<open>The processor\<close>

type_synonym proc_result = "(doc_error + doc_op \<times> bool) \<times> proc_state"

text \<open>A result with the duplicate flag set or not.\<close>

definition flagged :: "bool \<Rightarrow> (doc_error + doc_op) \<times> proc_state \<Rightarrow> proc_result" where
  "flagged dup x = (case x of (Inl e, st) \<Rightarrow> (Inl e, st) | (Inr r, st) \<Rightarrow> (Inr (r, dup), st))"

definition duplicate_of :: "proc_io \<Rightarrow> doc_op \<Rightarrow> proc_state \<Rightarrow> proc_result" where
  "duplicate_of io r st = (case settled_duplicate io r st of (r', st') \<Rightarrow> (Inr (r', True), st'))"

definition conflict_details :: "doc_op \<Rightarrow> dict" where
  "conflict_details r =
     AList.update ''details''
       (PDict [(''conflictingOperationId'', PStr (do_operation_id r)),
               (''conflictingIdempotencyKey'', PStr (do_key r))])
       (error_payload conflict_error)"

definition request_of :: "proc_io \<Rightarrow> string \<Rightarrow> string \<Rightarrow> string \<Rightarrow> string \<Rightarrow> dict \<Rightarrow> dict \<Rightarrow> claim_request" where
  "request_of io k fp doc_id version payload meta =
     \<lparr>cr_operation_id = operation_id_of io k, cr_key = k, cr_fingerprint = fp, cr_document_id = doc_id,
      cr_manifest_version = version, cr_capability = document_capability, cr_payload = PDict payload,
      cr_metadata = PDict meta\<rparr>"

definition conflict_key :: "string \<Rightarrow> string \<Rightarrow> string" where
  "conflict_key k fp = k @ '':conflict:'' @ take 24 fp"

definition record_conflict :: "proc_io \<Rightarrow> doc_op \<Rightarrow> dict \<Rightarrow> string \<Rightarrow> dict \<Rightarrow> proc_state \<Rightarrow> proc_result" where
  "record_conflict io existing payload fp meta st =
     (case do_claim io
         (request_of io (conflict_key (do_key existing) fp) fp
           (safe_identity_value (field payload ''documentId'') (do_document_id existing))
           (safe_identity_value (field payload ''manifestVersion'') (do_manifest_version existing))
           payload meta) st of
        (Inl e, st1) \<Rightarrow> (Inl e, st1)
      | (Inr (r, False), st1) \<Rightarrow> duplicate_of io r st1
      | (Inr (r, True), st1) \<Rightarrow> flagged True (finish_failure io r (conflict_details existing) False st1))"

text \<open>
  The claim that \<open>process\<close> and \<open>_record_validation_failure\<close> share: a conflict is recorded under a key of
  its own, a request that somebody else owns or has settled is a duplicate, and the owner goes on.
\<close>

definition claimed ::
    "proc_io \<Rightarrow> claim_request \<Rightarrow> dict \<Rightarrow> dict \<Rightarrow> (doc_op \<Rightarrow> proc_state \<Rightarrow> proc_result) \<Rightarrow> proc_state \<Rightarrow> proc_result" where
  "claimed io c payload meta go st =
     (case do_claim io c st of
        (Inl e, st1) \<Rightarrow>
          if e = conflict_error
          then (case do_get io (cr_key c) st1 of
                  (None, st2) \<Rightarrow> (Inl e, st2)
                | (Some existing, st2) \<Rightarrow> record_conflict io existing payload (cr_fingerprint c) meta st2)
          else (Inl e, st1)
      | (Inr (r, False), st1) \<Rightarrow> duplicate_of io r st1
      | (Inr (r, True), st1) \<Rightarrow> go r st1)"

definition cancelled_error :: dict where
  "cancelled_error =
     error_payload (ProcessingError ''CANCELLED'' ''Document vectorization was cancelled'' True [])"

definition cancelled :: doc_error where
  "cancelled = DocOther (OtherError ''CancelledError'' [])"

text \<open>The owner's part of \<open>process\<close>. A cancellation can arrive while content is loaded or vectorized.\<close>

definition owner_work :: "proc_io \<Rightarrow> vec_input \<Rightarrow> string \<Rightarrow> doc_op \<Rightarrow> proc_state \<Rightarrow> proc_result" where
  "owner_work io req k r st =
     (case claim_token r of
        Inl e \<Rightarrow> (Inl e, st)
      | Inr t \<Rightarrow>
          if pi_cancelled io
          then (case do_retryable io k t (PDict cancelled_error) st of
                  (Inl (StaleClaim x), st') \<Rightarrow> (Inl cancelled, st')
                | (Inl e, st') \<Rightarrow> (Inl e, st')
                | (Inr _, st') \<Rightarrow> (Inl cancelled, st'))
          else case bindE (resolve_chunks io req) (execute_vectorizer io) of
            Inr out \<Rightarrow> flagged False (do_finish io k t (success_msg r (operation_id_of io k) out) st)
          | Inl (ProcessingError c m retry ds) \<Rightarrow>
              if retry
              then flagged False (do_retryable io k t (PDict (error_payload (ProcessingError c m retry ds))) st)
              else flagged False (finish_failure io r (error_payload (ProcessingError c m retry ds)) False st)
          | Inl e \<Rightarrow> (Inl e, st))"

definition invalid_payload :: doc_error where
  "invalid_payload =
     ProcessingError ''INVALID_PAYLOAD'' ''Document payload cannot be canonically serialized'' False []"

definition validation_error :: "string \<Rightarrow> string \<Rightarrow> dict" where
  "validation_error m doc_id =
     vec_error_payload \<lparr>ve_code = ''VALIDATION_ERROR'', ve_message = m,
       ve_document_id = (if doc_id = ''unknown'' then None else Some doc_id), ve_provider = None,
       ve_model = None, ve_details = [], ve_retryable = False\<rparr>"

definition record_validation_failure ::
    "proc_io \<Rightarrow> pval \<Rightarrow> string \<Rightarrow> dict \<Rightarrow> string \<Rightarrow> proc_state \<Rightarrow> proc_result" where
  "record_validation_failure io payload msg_id meta m st =
     (if \<not> json_ok payload then (Inl invalid_payload, st)
      else case json_norm payload of
        PDict d \<Rightarrow>
          (case bindE (idempotency_key io d msg_id meta) (\<lambda>k.
              bindE (request_fingerprint io d) (\<lambda>fp. Inr (k, fp))) of
             Inl e \<Rightarrow> (Inl e, st)
           | Inr (k, fp) \<Rightarrow>
               let doc_id = safe_identity_value (field d ''documentId'') ''unknown'';
                   version = safe_identity_value (field d ''manifestVersion'') ''unknown''
               in claimed io (request_of io k fp doc_id version d meta) d meta
                    (\<lambda>r. flagged False \<circ> finish_failure io r (validation_error m doc_id) False) st)
      | v \<Rightarrow> (Inl (DocOther (OtherError ''AttributeError'' (no_attribute v ''get''))), st))"

definition manifest_text :: "manifest \<Rightarrow> string" where
  "manifest_text v = (case v of MText s \<Rightarrow> s | MNumber i \<Rightarrow> show_int i)"

definition fault_error :: "doc_fault \<Rightarrow> doc_error" where
  "fault_error f = (case f of Invalid m \<Rightarrow> DocOther (ValueError m) | Fault e \<Rightarrow> DocOther e)"

definition process :: "proc_io \<Rightarrow> pval \<Rightarrow> string \<Rightarrow> dict \<Rightarrow> proc_state \<Rightarrow> proc_result" where
  "process io payload msg_id headers st =
     (let meta = preserved_metadata headers msg_id in
      case input_from payload of
        Inl (Invalid m) \<Rightarrow> record_validation_failure io payload msg_id meta m st
      | Inl f \<Rightarrow> (Inl (fault_error f), st)
      | Inr req \<Rightarrow>
          let d = input_payload req in
          case bindE (idempotency_key io d msg_id meta) (\<lambda>k.
              bindE (request_fingerprint io d) (\<lambda>fp. Inr (k, fp))) of
            Inl e \<Rightarrow> (Inl e, st)
          | Inr (k, fp) \<Rightarrow>
              claimed io (request_of io k fp (vi_document_id req) (manifest_text (vi_manifest_version req)) d meta)
                d meta (owner_work io req k) st)"

section \<open>The consumer\<close>

record message =
  ms_id :: string
  ms_payload :: pval
  ms_headers :: dict
  ms_attempt :: nat
  ms_topic :: "string option"

text \<open>What a transport call does: it succeeds, fails as a broker failure, or raises something else.\<close>

datatype transport_outcome = TransportOk | TransportDown | TransportRaises doc_error

datatype action = Published string string pval pval | PublishFailed | Acknowledged | Retried

record consumer =
  cn_max_concurrency :: nat
  cn_max_attempts :: nat
  cn_drain_limit :: int
  cn_retry_delay :: rat
  cn_recovery_interval :: rat
  cn_publication_timeout :: rat

definition positive_args :: "(string \<times> rat) list \<Rightarrow> py_error + unit" where
  "positive_args xs =
     check_each (\<lambda>_ (k, x). guardE (0 < x) (ValueError (k @ '' must be positive''))) 0 xs"

definition new_consumer :: "int \<Rightarrow> int \<Rightarrow> int \<Rightarrow> rat \<Rightarrow> rat \<Rightarrow> rat \<Rightarrow> py_error + consumer" where
  "new_consumer conc attempts limit delay interval timeout =
     bindE (positive_args [(''max_concurrency'', of_int conc), (''max_attempts'', of_int attempts),
       (''pending_drain_limit'', of_int limit), (''pending_recovery_interval_seconds'', interval),
       (''publication_timeout_seconds'', timeout)]) (\<lambda>_.
     Inr \<lparr>cn_max_concurrency = nat conc, cn_max_attempts = nat attempts, cn_drain_limit = limit,
          cn_retry_delay = max delay 0, cn_recovery_interval = interval, cn_publication_timeout = timeout\<rparr>)"

text \<open>
  The transport of one call: what publishing, acknowledging and retrying do. A publication that takes
  longer than the timeout is a broker failure.
\<close>

record transport =
  tr_publish :: "doc_op \<Rightarrow> transport_outcome"
  tr_ack :: transport_outcome
  tr_retry :: transport_outcome

definition transport_error :: doc_error where
  "transport_error = DocOther (OtherError ''DeepiriTransportError'' [])"

type_synonym msg_result = "(doc_error + doc_op \<times> bool) \<times> action list \<times> proc_state"

text \<open>An action that must succeed for the call to return \<open>x\<close>.\<close>

definition act :: "transport_outcome \<Rightarrow> action \<Rightarrow> doc_op \<times> bool \<Rightarrow> action list \<Rightarrow> proc_state \<Rightarrow> msg_result" where
  "act o' a x acts st =
     (case o' of
        TransportOk \<Rightarrow> (Inr x, acts @ [a], st)
      | TransportDown \<Rightarrow> (Inl transport_error, acts, st)
      | TransportRaises e \<Rightarrow> (Inl e, acts, st))"

definition run_publication_update ::
    "proc_io \<Rightarrow> bool \<Rightarrow> string \<Rightarrow> proc_state \<Rightarrow> (doc_error + doc_op) \<times> proc_state" where
  "run_publication_update io published k =
     transact io (\<lambda>n. publication_update (pi_now io n) k published)"

text \<open>\<open>_publish_record\<close>; \<open>None\<close> is a broker failure.\<close>

definition publish_record ::
    "proc_io \<Rightarrow> transport \<Rightarrow> doc_op \<Rightarrow> proc_state \<Rightarrow> (doc_error + doc_op) option \<times> action list \<times> proc_state" where
  "publish_record io tr r st =
     (case (do_topic r, do_message_id r, do_outbound r) of
        (Some topic, Some mid, Some body) \<Rightarrow>
          (case tr_publish tr r of
             TransportDown \<Rightarrow> (None, [PublishFailed], st)
           | TransportRaises e \<Rightarrow> (Some (Inl e), [], st)
           | TransportOk \<Rightarrow>
               (case run_publication_update io True (do_key r) st of
                  (x, st') \<Rightarrow> (Some x, [Published topic mid body (do_metadata r)], st')))
      | _ \<Rightarrow> (Some (Inl (DocOther (RuntimeError ''Pending publication record is incomplete''))), [], st))"

text \<open>The part of \<open>process_message\<close> after an outcome that is final.\<close>

definition settle_message ::
    "consumer \<Rightarrow> proc_io \<Rightarrow> transport \<Rightarrow> doc_op \<times> bool \<Rightarrow> proc_state \<Rightarrow> msg_result" where
  "settle_message cn io tr x st =
     (if do_publication (fst x) = PENDING
      then (case publish_record io tr (fst x) st of
          (Some (Inl e), acts, st1) \<Rightarrow> (Inl e, acts, st1)
        | (Some (Inr r), acts, st1) \<Rightarrow> act (tr_ack tr) Acknowledged (r, snd x) acts st1
        | (None, acts, st1) \<Rightarrow>
            (case run_publication_update io False (do_key (fst x)) st1 of
               (Inl e, st2) \<Rightarrow> (Inl e, acts, st2)
             | (Inr r, st2) \<Rightarrow>
                 if do_pub_attempts r < cn_max_attempts cn
                 then act (tr_retry tr) Retried (r, snd x) acts st2
                 else act (tr_ack tr) Acknowledged (r, snd x) acts st2))
      else act (tr_ack tr) Acknowledged x [] st)"

definition exhausted_error :: "doc_op \<Rightarrow> dict" where
  "exhausted_error r =
     AList.update ''exhausted'' (PBool True) (AList.update ''retryable'' (PBool False)
       (case do_error r of Some (PDict d) \<Rightarrow> d | _ \<Rightarrow> []))"

definition process_message ::
    "consumer \<Rightarrow> proc_io \<Rightarrow> transport \<Rightarrow> message \<Rightarrow> proc_state \<Rightarrow> msg_result" where
  "process_message cn io tr m st =
     (case process io (ms_payload m) (ms_id m) (ms_headers m) st of
        (Inl e, st1) \<Rightarrow> (Inl e, [], st1)
      | (Inr x, st1) \<Rightarrow>
          if do_status (fst x) = PROCESSING
          then (if ms_attempt m < cn_max_attempts cn then act (tr_retry tr) Retried x [] st1
                else (Inr x, [], st1))
          else if do_status (fst x) = RETRYABLE_FAILURE
          then (if max (do_attempts (fst x)) (ms_attempt m) < cn_max_attempts cn
                then act (tr_retry tr) Retried x [] st1
                else case finish_failure io (fst x) (exhausted_error (fst x)) True st1 of
                    (Inl e, st2) \<Rightarrow> (Inl e, [], st2)
                  | (Inr r, st2) \<Rightarrow> settle_message cn io tr (r, snd x) st2)
          else settle_message cn io tr x st1)"

text \<open>\<open>drain_pending_publications\<close>: the records that were published, one transaction each.\<close>

fun drain :: "proc_io \<Rightarrow> transport \<Rightarrow> doc_op list \<Rightarrow> proc_state \<Rightarrow> (doc_error + nat) \<times> action list \<times> proc_state" where
  "drain io tr [] st = (Inr 0, [], st)"
| "drain io tr (r # rs) st =
     (case publish_record io tr r st of
        (Some (Inl e), acts, st1) \<Rightarrow> (Inl e, acts, st1)
      | (Some (Inr _), acts, st1) \<Rightarrow>
          (case drain io tr rs st1 of (x, acts', st2) \<Rightarrow> (map_sum id Suc x, acts @ acts', st2))
      | (None, acts, st1) \<Rightarrow>
          (case run_publication_update io False (do_key r) st1 of
             (Inl e, st2) \<Rightarrow> (Inl e, acts, st2)
           | (Inr _, st2) \<Rightarrow> (case drain io tr rs st2 of (x, acts', st3) \<Rightarrow> (x, acts @ acts', st3))))"

definition drain_pending_publications ::
    "consumer \<Rightarrow> proc_io \<Rightarrow> transport \<Rightarrow> int option \<Rightarrow> proc_state \<Rightarrow> (doc_error + nat) \<times> action list \<times> proc_state" where
  "drain_pending_publications cn io tr limit st =
     (case transact io (\<lambda>n s. (pending_publications (case limit of None \<Rightarrow> cn_drain_limit cn | Some l \<Rightarrow> l) s, s)) st of
        (rs, st1) \<Rightarrow> drain io tr rs st1)"

section \<open>What every transaction keeps\<close>

text \<open>Outcomes that workers record are final; this does not depend on the store.\<close>

fun final_outcome :: "doc_event \<Rightarrow> bool" where
  "final_outcome (EFinished now k t m) = is_final (om_status m)"
| "final_outcome _ = True"

definition others_final :: "proc_io \<Rightarrow> bool" where
  "others_final io = (\<forall>n. \<forall>e \<in> set (pi_others io n). final_outcome e)"

definition rows_ok :: "op_store \<Rightarrow> bool" where
  "rows_ok s \<longleftrightarrow> (\<forall>k r. map_of s k = Some r \<longrightarrow>
     do_key r = k \<and> do_status r \<noteq> RECEIVED \<and> (is_final (do_status r) \<longrightarrow> do_publication r \<noteq> NONE))"

text \<open>What a worker knows of a row that it was given: a final one is settled in the store for good.\<close>

definition trusted :: "op_store \<Rightarrow> doc_op \<Rightarrow> bool" where
  "trusted s r \<longleftrightarrow> do_status r \<noteq> RECEIVED \<and>
     (is_final (do_status r) \<longrightarrow> do_publication r \<noteq> NONE \<and>
        (\<exists>y. settled (do_key r) s = Some y \<and> st_status y = do_status r \<and> st_outbound y = do_outbound r))"

lemma rows_okD:
  "rows_ok s \<Longrightarrow> map_of s k = Some r \<Longrightarrow> do_key r = k"
  "rows_ok s \<Longrightarrow> map_of s k = Some r \<Longrightarrow> do_status r \<noteq> RECEIVED"
  "rows_ok s \<Longrightarrow> map_of s k = Some r \<Longrightarrow> is_final (do_status r) \<Longrightarrow> do_publication r \<noteq> NONE"
  by (auto simp: rows_ok_def)

lemma rows_ok_update:
  "rows_ok s \<Longrightarrow> do_key r = k \<Longrightarrow> do_status r \<noteq> RECEIVED \<Longrightarrow>
     (is_final (do_status r) \<Longrightarrow> do_publication r \<noteq> NONE) \<Longrightarrow> rows_ok (AList.update k r s)"
  by (simp add: rows_ok_def map_of_update)

lemma trusted_row: "rows_ok s \<Longrightarrow> map_of s k = Some r \<Longrightarrow> trusted s r"
  using rows_okD [of s k r] by (auto simp: trusted_def settled_def)

lemma claim_keeps:
  assumes "rows_ok s" "claim ls now later t c s = (x, s')"
  shows "rows_ok s' \<and> (\<forall>r own. x = Inr (r, own) \<longrightarrow> map_of s' (cr_key c) = Some r \<and>
    (own \<longrightarrow> do_status r = PROCESSING \<and> do_token r = Some t))"
proof -
  have new: "rows_ok (AList.update (cr_key c) (new_op now l t c) s)" for l
    using assms(1) by (intro rows_ok_update) (simp_all add: new_op_def)
  have re: "rows_ok (AList.update (cr_key c) (reclaimed now l t r) s)" if "map_of s (cr_key c) = Some r" for l r
    using assms(1) rows_okD(1) [OF assms(1) that] by (intro rows_ok_update) (simp_all add: reclaimed_def)
  show ?thesis
    using assms new re
    by (auto simp: claim_def Let_def map_of_update new_op_def reclaimed_def split: option.splits if_splits)
qed

lemma finish_keeps:
  assumes "rows_ok s" "is_final (om_status m)" "finish now k t m s = (x, s')"
  shows "rows_ok s' \<and> (\<forall>r. x = Inr r \<longrightarrow> map_of s' k = Some r \<and> do_status r = om_status m \<and>
    do_publication r = PENDING)"
proof -
  have "rows_ok (AList.update k (finished now m r) s)" if "map_of s k = Some r" for r
    using assms(1,2) rows_okD(1) [OF assms(1) that]
    by (intro rows_ok_update) (auto simp: finished_def)
  with assms show ?thesis
    by (auto simp: finish_def Let_def map_of_update finished_def split: option.splits if_splits)
qed

lemma retryable_keeps:
  assumes "rows_ok s" "record_retryable now k t err s = (x, s')"
  shows "rows_ok s' \<and> (\<forall>r. x = Inr r \<longrightarrow> map_of s' k = Some r)"
proof -
  have "rows_ok (AList.update k (r\<lparr>do_status := RETRYABLE_FAILURE, do_error := e, do_updated := now,
      do_lease := None\<rparr>) s)" if "map_of s k = Some r" for r e
    using assms(1) rows_okD(1) [OF assms(1) that] by (intro rows_ok_update) auto
  with assms show ?thesis
    by (auto simp: record_retryable_def Let_def map_of_update split: option.splits if_splits)
qed

lemma publication_keeps:
  assumes "rows_ok s" "publication_update now k published s = (x, s')"
  shows "rows_ok s' \<and> (\<forall>r. x = Inr r \<longrightarrow> map_of s' k = Some r \<and> (published \<longrightarrow> do_publication r = PUBLISHED))"
proof -
  have "rows_ok (AList.update k (r\<lparr>do_publication := PUBLISHED, do_updated := now\<rparr>) s) \<and>
      rows_ok (AList.update k (r\<lparr>do_pub_attempts := do_pub_attempts r + 1, do_updated := now\<rparr>) s)"
    if "map_of s k = Some r" for r
    using assms(1) rows_okD [OF assms(1) that] by (intro conjI rows_ok_update) auto
  with assms show ?thesis
    by (auto simp: publication_update_def Let_def map_of_update split: option.splits)
qed

lemma rows_ok_step: "rows_ok s \<Longrightarrow> final_outcome e \<Longrightarrow> rows_ok (doc_step ls e s)"
  by (cases e)
    (simp_all add: mark_published_def increment_publication_attempt_def claim_keeps [OF _ surjective_pairing]
      finish_keeps [OF _ _ surjective_pairing] retryable_keeps [OF _ surjective_pairing]
      publication_keeps [OF _ surjective_pairing])

lemma trusted_step: "trusted s r \<Longrightarrow> trusted (doc_step ls e s) r"
  unfolding trusted_def using settled_step by blast

interpretation rows: invariant_machine "doc_step ls" "\<lambda>e _. final_outcome e" rows_ok for ls
  by unfold_locales (rule rows_ok_step)

interpretation trust: invariant_machine "doc_step ls" "\<lambda>_ _. True" "\<lambda>s. trusted s r" for ls r
  by unfold_locales (rule trusted_step)

lemma run_ok_stateless: "run_ok step (\<lambda>e _. P e) es s \<longleftrightarrow> (\<forall>e \<in> set es. P e)"
  by (induction es arbitrary: s) auto

lemma others_keep:
  assumes "others_final io" "rows_ok s"
  shows "rows_ok (run_steps (doc_step ls) (pi_others io n) s)"
  using assms by (intro rows.run_inv) (auto simp: run_ok_stateless others_final_def)

section \<open>What the processor returns\<close>

lemma transact_keeps:
  assumes "others_final io" "rows_ok (snd st)" "transact io f st = (x, st')"
    and "\<And>n s s'. rows_ok s \<Longrightarrow> f n s = (x, s') \<Longrightarrow> P s'"
  shows "P (snd st')"
proof -
  obtain n s where st: "st = (n, s)" by (cases st)
  let ?s = "run_steps (doc_step (pi_lease io)) (pi_others io n) s"
  have "rows_ok ?s" using others_keep [OF assms(1)] assms(2) by (simp add: st)
  moreover obtain s' where "f n ?s = (x, s')" "st' = (Suc n, s')"
    using assms(3) by (auto simp: transact_def st split: prod.splits)
  ultimately show ?thesis using assms(4) by simp
qed

lemma do_claim_keeps:
  assumes "others_final io" "rows_ok (snd st)" "do_claim io c st = (x, st')"
  shows "rows_ok (snd st') \<and> (\<forall>r own. x = Inr (r, own) \<longrightarrow> map_of (snd st') (cr_key c) = Some r \<and>
    (own \<longrightarrow> do_status r = PROCESSING \<and> do_token r \<noteq> None))"
  by (rule transact_keeps [OF assms(1,2) assms(3) [unfolded do_claim_def]]) (drule (1) claim_keeps, simp)

lemma do_get_keeps:
  assumes "others_final io" "rows_ok (snd st)" "do_get io k st = (x, st')"
  shows "rows_ok (snd st') \<and> (\<forall>r. x = Some r \<longrightarrow> map_of (snd st') k = Some r)"
  by (rule transact_keeps [OF assms(1,2) assms(3) [unfolded do_get_def]]) (auto simp: get_op_def)

lemma do_finish_keeps:
  assumes "others_final io" "is_final (om_status m)" "rows_ok (snd st)" "do_finish io k t m st = (x, st')"
  shows "rows_ok (snd st') \<and> (\<forall>r. x = Inr r \<longrightarrow> map_of (snd st') k = Some r \<and> do_status r = om_status m \<and>
    do_publication r = PENDING)"
  by (rule transact_keeps [OF assms(1,3) assms(4) [unfolded do_finish_def]])
    (rule finish_keeps [OF _ assms(2)])

lemma do_retryable_keeps:
  assumes "others_final io" "rows_ok (snd st)" "do_retryable io k t err st = (x, st')"
  shows "rows_ok (snd st') \<and> (\<forall>r. x = Inr r \<longrightarrow> map_of (snd st') k = Some r)"
  by (rule transact_keeps [OF assms(1,2) assms(3) [unfolded do_retryable_def]]) (rule retryable_keeps)

lemma run_publication_keeps:
  assumes "others_final io" "rows_ok (snd st)" "run_publication_update io published k st = (x, st')"
  shows "rows_ok (snd st') \<and> (\<forall>r. x = Inr r \<longrightarrow> map_of (snd st') k = Some r \<and>
    (published \<longrightarrow> do_publication r = PUBLISHED))"
  by (rule transact_keeps [OF assms(1,2) assms(3) [unfolded run_publication_update_def]]) (rule publication_keeps)

text \<open>A result is good when the store's rows are and the row that it returns can be trusted.\<close>

definition good :: "proc_result \<Rightarrow> bool" where
  "good x \<longleftrightarrow> rows_ok (snd (snd x)) \<and> (\<forall>r b. fst x = Inr (r, b) \<longrightarrow> trusted (snd (snd x)) r)"

lemma good_error [simp]: "good (Inl e, st) \<longleftrightarrow> rows_ok (snd st)"
  by (simp add: good_def)

lemma good_row: "rows_ok (snd st) \<Longrightarrow> map_of (snd st) k = Some r \<Longrightarrow> good (Inr (r, b), st)"
  by (simp add: good_def trusted_row)

lemma good_flagged:
  "rows_ok (snd (snd x)) \<Longrightarrow> (\<And>r. fst x = Inr r \<Longrightarrow> \<exists>k. map_of (snd (snd x)) k = Some r) \<Longrightarrow> good (flagged b x)"
  by (cases x; cases "fst x") (auto simp: flagged_def good_def trusted_row)

lemma good_finish_failure:
  assumes "others_final io" "rows_ok (snd st)"
  shows "good (flagged b (finish_failure io r err dead st))"
proof (cases "claim_token r")
  case (Inl e)
  with assms show ?thesis by (simp add: finish_failure_def flagged_def)
next
  case (Inr t)
  have "is_final (om_status (failure_msg r err dead))" by (simp add: failure_msg_def)
  from do_finish_keeps [OF assms(1) this assms(2) surjective_pairing] show ?thesis
    by (intro good_flagged) (auto simp: finish_failure_def Inr)
qed

lemma good_poll:
  assumes "others_final io"
  shows "rows_ok (snd st) \<Longrightarrow> do_status r = PROCESSING \<Longrightarrow> poll_settled io n r st = (r', st') \<Longrightarrow>
    good (Inr (r', b), st')"
proof (induction n arbitrary: st)
  case 0
  then show ?case by (simp add: good_def trusted_def)
next
  case (Suc n)
  obtain x st1 where g: "do_get io (do_key r) st = (x, st1)" by (cases "do_get io (do_key r) st")
  note k = do_get_keeps [OF assms Suc.prems(1) g]
  show ?case
  proof (cases x)
    case None
    with Suc.prems g k show ?thesis by (auto simp: good_def trusted_def)
  next
    case (Some cur)
    show ?thesis
    proof (cases "do_status cur = PROCESSING")
      case True
      with Suc.prems g Some have "poll_settled io n r st1 = (r', st')" by simp
      with k Suc.prems(2) show ?thesis by (intro Suc.IH [of st1]) simp_all
    next
      case False
      with Suc.prems g Some k show ?thesis by (auto intro: good_row)
    qed
  qed
qed

lemma good_duplicate:
  assumes "others_final io" "rows_ok (snd st)" "map_of (snd st) k = Some r"
  shows "good (duplicate_of io r st)"
proof (cases "do_status r = PROCESSING")
  case True
  obtain r' st' where "poll_settled io (pi_polls io) r st = (r', st')"
    by (cases "poll_settled io (pi_polls io) r st")
  with good_poll [OF assms(1,2) True] True show ?thesis
    by (simp add: duplicate_of_def settled_duplicate_def)
next
  case False
  with assms show ?thesis by (simp add: duplicate_of_def settled_duplicate_def good_row)
qed

lemma good_conflict:
  assumes "others_final io" "rows_ok (snd st)"
  shows "good (record_conflict io existing payload fp meta st)"
proof -
  obtain x st1 where c: "do_claim io
      (request_of io (conflict_key (do_key existing) fp) fp
        (safe_identity_value (field payload ''documentId'') (do_document_id existing))
        (safe_identity_value (field payload ''manifestVersion'') (do_manifest_version existing))
        payload meta) st = (x, st1)" by (metis surj_pair)
  note k = do_claim_keeps [OF assms c]
  show ?thesis
    using c k good_duplicate [OF assms(1), of st1] good_finish_failure [OF assms(1), of st1]
    by (auto simp: record_conflict_def split: sum.splits bool.splits)
qed

lemma good_claimed:
  assumes "others_final io" "rows_ok (snd st)"
    and "\<And>r st1. rows_ok (snd st1) \<Longrightarrow> good (go r st1)"
  shows "good (claimed io c payload meta go st)"
proof -
  obtain x st1 where c: "do_claim io c st = (x, st1)" by (metis surj_pair)
  note k = do_claim_keeps [OF assms(1,2) c]
  obtain y st2 where g: "do_get io (cr_key c) st1 = (y, st2)" by (metis surj_pair)
  have "rows_ok (snd st2)" using do_get_keeps [OF assms(1) _ g] k by simp
  with c k g good_duplicate [OF assms(1), of st1] good_conflict [OF assms(1), of st2] assms(3) show ?thesis
    by (auto simp: claimed_def split: sum.splits bool.splits option.splits)
qed

lemma good_owner:
  assumes "others_final io" "rows_ok (snd st)"
  shows "good (owner_work io req k r st)"
proof (cases "claim_token r")
  case (Inl e)
  with assms show ?thesis by (simp add: owner_work_def)
next
  case (Inr t)
  have re: "good (flagged False (do_retryable io k t err st))" "rows_ok (snd (snd (do_retryable io k t err st)))" for err
    using do_retryable_keeps [OF assms surjective_pairing, of k t err] by (auto intro: good_flagged)
  have "is_final (om_status (success_msg r i out))" for i out by (simp add: success_msg_def)
  from do_finish_keeps [OF assms(1) this assms(2) surjective_pairing, of k t]
  have fin: "good (flagged False (do_finish io k t (success_msg r i out) st))" for i out
    by (intro good_flagged) blast+
  show ?thesis
    using re fin good_finish_failure [OF assms] assms(2)
    by (auto simp: owner_work_def Inr split: sum.splits prod.splits doc_error.splits)
      (metis snd_conv)+
qed

lemma good_process:
  assumes "others_final io" "rows_ok (snd st)"
  shows "good (process io payload msg_id headers st)"
proof -
  have "good (record_validation_failure io payload msg_id meta m st)" for meta m
    using assms good_claimed [OF assms] good_finish_failure [OF assms(1)]
    by (auto simp: record_validation_failure_def Let_def split: sum.splits pval.splits)
  moreover have "good (claimed io c d meta (owner_work io req k) st)" for c d meta req k
    by (rule good_claimed [OF assms]) (rule good_owner [OF assms(1)])
  ultimately show ?thesis
    using assms(2) by (auto simp: process_def Let_def split: sum.splits doc_fault.splits)
qed

section \<open>Messages are settled after their operation\<close>

lemma run_publication_trusted:
  assumes "trusted (snd st) r" "run_publication_update io published k st = (x, st')"
  shows "trusted (snd st') r"
proof -
  obtain n s where st: "st = (n, s)" by (cases st)
  let ?s = "run_steps (doc_step (pi_lease io)) (pi_others io n) s"
  have t: "trusted ?s r" using assms(1) by (intro trust.run_inv) (simp_all add: st)
  have "snd st' = doc_step (pi_lease io) (if published then EPublished (pi_now io n) k else EAttempted (pi_now io n) k) ?s"
    using assms(2) by (auto simp: run_publication_update_def transact_def st mark_published_def
        increment_publication_attempt_def split: prod.splits)
  with t show ?thesis by (simp add: trusted_step)
qed

text \<open>The outcome of an operation is settled, and its message went out or its attempts are used up.\<close>

definition acknowledgeable :: "consumer \<Rightarrow> op_store \<Rightarrow> doc_op \<Rightarrow> bool" where
  "acknowledgeable cn s r \<longleftrightarrow>
     is_final (do_status r) \<and> (\<exists>y. settled (do_key r) s = Some y \<and> st_status y = do_status r) \<and>
     (do_publication r = PUBLISHED \<or> cn_max_attempts cn \<le> do_pub_attempts r)"

lemma updated_row:
  assumes "others_final io" "rows_ok (snd st)" "trusted (snd st) r" "is_final (do_status r)"
    and "run_publication_update io published (do_key r) st = (Inr r', st')"
  shows "rows_ok (snd st') \<and> is_final (do_status r') \<and> (published \<longrightarrow> do_publication r' = PUBLISHED) \<and>
    (\<exists>y. settled (do_key r') (snd st') = Some y \<and> st_status y = do_status r')"
proof -
  have k: "rows_ok (snd st')" "map_of (snd st') (do_key r) = Some r'" "published \<longrightarrow> do_publication r' = PUBLISHED"
    using run_publication_keeps [OF assms(1,2,5)] by auto
  have "trusted (snd st') r" by (rule run_publication_trusted [OF assms(3,5)])
  then obtain y where "settled (do_key r) (snd st') = Some y" using assms(4) by (auto simp: trusted_def)
  with k show ?thesis
    using rows_okD(1) [OF k(1,2)] by (auto simp: settled_def split: if_splits)
qed

lemma act_simps:
  "act o' a x acts st = (res, acts', st') \<Longrightarrow> b \<in> set acts' \<Longrightarrow> b \<notin> set acts \<Longrightarrow>
     res = Inr x \<and> st' = st \<and> b = a"
  by (auto simp: act_def split: transport_outcome.splits)

lemma publish_record_acts:
  "publish_record io tr r st = (x, acts, st') \<Longrightarrow> Acknowledged \<notin> set acts \<and> Retried \<notin> set acts"
  by (auto simp: publish_record_def split: option.splits transport_outcome.splits prod.splits)

lemma publish_record_cases:
  "publish_record io tr r st = (Some (Inr r'), acts, st') \<Longrightarrow>
     run_publication_update io True (do_key r) st = (Inr r', st')"
  "publish_record io tr r st = (None, acts, st') \<Longrightarrow> st' = st \<and> acts = [PublishFailed]"
  by (auto simp: publish_record_def split: option.splits transport_outcome.splits prod.splits)

lemma settle_message_acks:
  assumes "others_final io" "rows_ok (snd st)" "trusted (snd st) r" "is_final (do_status r)"
    and "settle_message cn io tr (r, b) st = (res, acts, st')" "Acknowledged \<in> set acts"
  shows "\<exists>r'. res = Inr (r', b) \<and> acknowledgeable cn (snd st') r'"
proof (cases "do_publication r = PENDING")
  case False
  then have "do_publication r = PUBLISHED"
    using assms(3,4) by (cases "do_publication r") (auto simp: trusted_def)
  with False assms(3-6) show ?thesis
    by (auto simp: settle_message_def acknowledgeable_def trusted_def dest!: act_simps)
next
  case True
  obtain x acts1 st1 where p: "publish_record io tr r st = (x, acts1, st1)" by (metis surj_pair)
  note no = publish_record_acts [OF p]
  consider e where "x = Some (Inl e)" | r' where "x = Some (Inr r')" | "x = None"
    by (metis option.exhaust sum.exhaust_sel)
  then show ?thesis
  proof cases
    case 1
    with True p no assms(5,6) show ?thesis by (simp add: settle_message_def)
  next
    case 2
    with True p assms(5) have "act (tr_ack tr) Acknowledged (r', b) acts1 st1 = (res, acts, st')"
      by (simp add: settle_message_def)
    with act_simps [OF this assms(6)] no updated_row [OF assms(1-4), of True r' st1]
      publish_record_cases(1) [of io tr r st r' acts1 st1] p 2 show ?thesis
      by (auto simp: acknowledgeable_def)
  next
    case 3
    then have st1: "st1 = st" "acts1 = [PublishFailed]" using publish_record_cases(2) p by blast+
    obtain y st2 where u: "run_publication_update io False (do_key r) st = (y, st2)" by (metis surj_pair)
    show ?thesis
    proof (cases y)
      case (Inl e)
      with True p 3 st1 u no assms(5,6) show ?thesis by (auto simp: settle_message_def)
    next
      case (Inr r')
      note row = updated_row [OF assms(1-4) u [unfolded Inr]]
      show ?thesis
      proof (cases "do_pub_attempts r' < cn_max_attempts cn")
        case True
        with \<open>do_publication r = PENDING\<close> p 3 st1 u Inr assms(5)
        have "act (tr_retry tr) Retried (r', b) [PublishFailed] st2 = (res, acts, st')" by (simp add: settle_message_def)
        from act_simps [OF this assms(6)] show ?thesis by simp
      next
        case False
        with True p 3 st1 u Inr assms(5)
        have "act (tr_ack tr) Acknowledged (r', b) [PublishFailed] st2 = (res, acts, st')" by (simp add: settle_message_def)
        from act_simps [OF this assms(6)] row False show ?thesis by (auto simp: acknowledgeable_def)
      qed
    qed
  qed
qed

text \<open>
  C3: The consumer never acknowledges an unfinished operation. If handling a message ends in an
  acknowledgement, whatever other workers, the broker and the backend did, then the operation has a final
  outcome that is settled in the store for good, and its result message has been published, or is kept as
  pending there after the last allowed attempt to publish it.
\<close>

theorem acknowledged_only_when_settled:
  assumes "others_final io" "rows_ok s"
    and "process_message cn io tr m (n, s) = (res, acts, (n', s'))" "Acknowledged \<in> set acts"
  shows "\<exists>r dup y. res = Inr (r, dup) \<and> is_final (do_status r) \<and>
    settled (do_key r) s' = Some y \<and> st_status y = do_status r \<and>
    (do_publication r = PUBLISHED \<or> cn_max_attempts cn \<le> do_pub_attempts r)"
proof -
  obtain x st1 where p: "process io (ms_payload m) (ms_id m) (ms_headers m) (n, s) = (x, st1)" by (metis surj_pair)
  note run = assms(3) [unfolded process_message_def p, simplified]
  obtain r b where x: "x = Inr (r, b)" using run assms(4) by (cases x) auto
  have g: "rows_ok (snd st1)" "trusted (snd st1) r"
    using good_process [OF assms(1), of "(n, s)" "ms_payload m" "ms_id m" "ms_headers m"] assms(2)
    by (simp_all add: p x good_def)
  have settled: "\<exists>r'. res = Inr (r', b) \<and> acknowledgeable cn s' r'"
  proof (cases "do_status r = RETRYABLE_FAILURE")
    case False
    moreover have "do_status r \<noteq> PROCESSING"
    proof
      assume "do_status r = PROCESSING"
      with run x have "act (tr_retry tr) Retried (r, b) [] st1 = (res, acts, (n', s')) \<or> acts = []"
        by (auto split: if_splits)
      with act_simps [of "tr_retry tr" Retried "(r, b)" "[]" st1 res acts "(n', s')" Acknowledged] assms(4)
      show False by auto
    qed
    moreover have "is_final (do_status r)"
      using calculation g(2) by (cases "do_status r") (simp_all add: trusted_def)
    ultimately show ?thesis
      using run x settle_message_acks [OF assms(1) g, of cn tr b res acts "(n', s')"] assms(4) by simp
  next
    case True
    have "\<not> max (do_attempts r) (ms_attempt m) < cn_max_attempts cn"
    proof
      assume "max (do_attempts r) (ms_attempt m) < cn_max_attempts cn"
      with run x True have "act (tr_retry tr) Retried (r, b) [] st1 = (res, acts, (n', s'))" by simp
      from act_simps [OF this assms(4)] show False by simp
    qed
    with run x True obtain r1 st2 where f: "finish_failure io r (exhausted_error r) True st1 = (Inr r1, st2)"
      and run2: "settle_message cn io tr (r1, b) st2 = (res, acts, (n', s'))"
      using assms(4) by (auto split: prod.splits sum.splits)
    have "good (flagged b (finish_failure io r (exhausted_error r) True st1))"
      by (rule good_finish_failure [OF assms(1) g(1)])
    then have g2: "rows_ok (snd st2)" "trusted (snd st2) r1" by (simp_all add: f flagged_def good_def)
    have "is_final (om_status (failure_msg r (exhausted_error r) True))" by (simp add: failure_msg_def)
    then have "is_final (do_status r1)"
      using do_finish_keeps [OF assms(1) _ g(1), of "failure_msg r (exhausted_error r) True" "do_key r" _ "Inr r1" st2] f
      by (auto simp: finish_failure_def split: sum.splits)
    from settle_message_acks [OF assms(1) g2 this run2 assms(4)] show ?thesis by simp
  qed
  then show ?thesis by (auto simp: acknowledgeable_def)
qed

section \<open>Messages that no delivery can settle\<close>

text \<open>
  C37: A message whose payload holds an integer too large for a float where a number is read, or that is
  invalid and cannot be serialised (a not-a-number somewhere is enough), is never settled: every delivery
  raises, records nothing, and neither retries nor acknowledges, whatever attempt it is.
\<close>

theorem unreadable_message_is_never_settled:
  assumes "input_from (ms_payload m) = Inl f" "f = overflow_fault \<or> \<not> json_ok (ms_payload m)"
  shows "\<exists>e. process_message cn io tr m st = (Inl e, [], st)"
proof -
  consider t where "f = Invalid t" | "f = overflow_fault"
    using contractual_input [of "ms_payload m"] assms(1) by (auto simp: contractual_def)
  then have "\<exists>e. process io (ms_payload m) (ms_id m) (ms_headers m) st = (Inl e, st)"
    using assms
    by cases (auto simp: process_def record_validation_failure_def overflow_fault_def Let_def)
  then show ?thesis by (auto simp: process_message_def)
qed

section \<open>A settled request is answered from the store\<close>

definition identified :: "proc_io \<Rightarrow> vec_input \<Rightarrow> string \<Rightarrow> dict \<Rightarrow> string \<Rightarrow> string \<Rightarrow> bool" where
  "identified io req msg_id headers k fp \<longleftrightarrow>
     idempotency_key io (input_payload req) msg_id (preserved_metadata headers msg_id) = Inr k \<and>
     request_fingerprint io (input_payload req) = Inr fp"

lemma process_identified:
  assumes "input_from payload = Inr req" "identified io req msg_id headers k fp"
  shows "process io payload msg_id headers st =
    claimed io (request_of io k fp (vi_document_id req) (manifest_text (vi_manifest_version req))
        (input_payload req) (preserved_metadata headers msg_id))
      (input_payload req) (preserved_metadata headers msg_id) (owner_work io req k) st"
  using assms by (simp add: process_def identified_def Let_def)

text \<open>
  C30: A request whose operation is settled is answered from the store: whatever the backend or the chunk
  storage would do now, it is reported as a duplicate with the recorded outcome and outgoing message, after
  a single transaction that changes nothing.
\<close>

theorem settled_request_is_not_reworked:
  assumes "input_from payload = Inr req" "identified io req msg_id headers k fp"
    and "settled k s = Some y" "st_fingerprint y = fp"
  shows "\<exists>r. process io payload msg_id headers (n, s) =
      (Inr (r, True), (Suc n, run_steps (doc_step (pi_lease io)) (pi_others io n) s)) \<and>
    do_status r = st_status y \<and> do_result r = st_result y \<and> do_error r = st_error y \<and>
    do_outbound r = st_outbound y"
proof -
  let ?s = "run_steps (doc_step (pi_lease io)) (pi_others io n) s"
  have "settled k ?s = Some y" by (rule settled.run_inv [OF assms(3)]) simp
  then obtain r where r: "map_of ?s k = Some r" "is_final (do_status r)" "do_fingerprint r = st_fingerprint y"
    "do_status r = st_status y" "do_result r = st_result y" "do_error r = st_error y" "do_outbound r = st_outbound y"
    by (auto simp: settled_def split: option.splits if_splits)
  moreover have "do_status r \<noteq> PROCESSING" using r(2) by auto
  ultimately show ?thesis
    using assms(4) process_identified [OF assms(1,2)]
    by (simp add: claimed_def do_claim_def transact_def claim_def request_of_def duplicate_of_def
        settled_duplicate_def)
qed

section \<open>A fresh request succeeds\<close>

lemma resolve_chunks_inline:
  assumes "list_all (\<lambda>c. ch_text c \<noteq> None) (vi_chunks req)"
  shows "resolve_chunks io req = Inr req"
proof -
  have "each (resolve_chunk io) 0 (vi_chunks req) = Inr (vi_chunks req)"
    using assms by (simp add: each_Inr resolve_chunk_def list_all_length)
  then show ?thesis by (simp add: resolve_chunks_def)
qed

lemma positive_timeout:
  "0 < t \<Longrightarrow> \<exists>eff > 0. effective_timeout (vectorize_node uid vz t) (Some t) = Some eff"
  by (simp add: effective_timeout_def vectorize_node_def)

lemma execute_vectorizer_ok:
  assumes "input_from (PDict (input_payload req)) = Inr req"
    and "vz_vectorize (pi_vectorizer io) req = BackendReturns b"
    and "from_backend req b (vz_provider (pi_vectorizer io)) (vz_model (pi_vectorizer io)) = Inr out"
    and "0 < pi_timeout io" "rt_worker (pi_runtime io) 0 = WDone"
  shows "execute_vectorizer io req = Inr (output_payload out)"
proof -
  obtain eff where "0 < eff"
    "effective_timeout (vectorize_node (pi_node io) (pi_vectorizer io) (pi_timeout io)) (Some (pi_timeout io)) = Some eff"
    using positive_timeout [OF assms(4)] by blast
  moreover have "vectorize_process (pi_vectorizer io) (work_envelope io req) =
      Returned (run_backend (pi_vectorizer io) req (work_envelope io req))"
    using assms(1) by (simp add: vectorize_process_def work_envelope_def)
  ultimately show ?thesis
    using assms(2,3,5)
    by (simp add: execute_vectorizer_def execute_with_timeout_def execute_sync_def vectorize_node_def
        finalize_result_def run_backend_def read_work_def work_envelope_def set_next_def vectorize_key_def
        field_def dict_simps Let_def)
qed

lemma json_ok_norm: "json_ok v \<Longrightarrow> json_ok (json_norm v)"
  by (induction v rule: json_norm.induct) (force simp: list_all_iff split: prod.splits)+

lemma update_update: "AList.update k v (AList.update k w d) = AList.update k v d"
  by (induction d) auto

definition healthy :: "proc_io \<Rightarrow> transport \<Rightarrow> bool" where
  "healthy io tr \<longleftrightarrow>
     (\<forall>n. pi_others io n = []) \<and> \<not> pi_cancelled io \<and> 0 < pi_timeout io \<and>
     rt_worker (pi_runtime io) 0 = WDone \<and> (\<forall>r. tr_publish tr r = TransportOk) \<and> tr_ack tr = TransportOk"

lemma transact_alone: "(\<forall>n. pi_others io n = []) \<Longrightarrow> f n s = (x, s') \<Longrightarrow> transact io f (n, s) = (x, (Suc n, s'))"
  by (simp add: transact_def)

text \<open>
  C17: A fresh request whose chunks carry text succeeds in one delivery: when nothing else interferes and the
  backend returns a result that passes the checks, the message is claimed, vectorized, recorded, published
  to the artifacts topic and only then acknowledged, and the row left in the store holds the output.
\<close>

theorem fresh_request_succeeds:
  assumes "input_from (ms_payload m) = Inr req" "identified io req (ms_id m) (ms_headers m) k fp"
    and "list_all (\<lambda>c. ch_text c \<noteq> None) (vi_chunks req)" "healthy io tr"
    and "vz_vectorize (pi_vectorizer io) req = BackendReturns b"
    and "from_backend req b (vz_provider (pi_vectorizer io)) (vz_model (pi_vectorizer io)) = Inr out"
    and "map_of s k = None" "\<forall>r \<in> snd ` set s. do_operation_id r \<noteq> operation_id_of io k"
    and "json_ok (PDict (preserved_metadata (ms_headers m) (ms_id m)))" "json_ok (PDict (output_payload out))"
  shows "\<exists>r body meta. process_message cn io tr m (n, s) =
      (Inr (r, False), [Published artifacts_topic (''document-result-'' @ operation_id_of io k) body meta, Acknowledged],
       (n + 3, AList.update k r s)) \<and>
    do_status r = SUCCEEDED \<and> do_publication r = PUBLISHED \<and> do_outbound r = Some body \<and>
    do_result r = Some (json_norm (PDict (output_payload out))) \<and> do_attempts r = 1"
proof -
  let ?meta = "preserved_metadata (ms_headers m) (ms_id m)"
  let ?c = "request_of io k fp (vi_document_id req) (manifest_text (vi_manifest_version req)) (input_payload req) ?meta"
  define r1 where "r1 = new_op (pi_now io n) (pi_later io n + max (pi_lease io) 0) (pi_token io n) ?c"
  define msg where "msg = success_msg r1 (operation_id_of io k) (output_payload out)"
  define r2 where "r2 = finished (pi_now io (Suc n)) msg r1"
  define r3 where "r3 = r2\<lparr>do_publication := PUBLISHED, do_updated := pi_now io (Suc (Suc n))\<rparr>"
  have alone: "\<forall>n. pi_others io n = []" using assms(4) by (simp add: healthy_def)
  have ok: "json_ok (PDict (input_payload req))" "json_ok (PDict ?meta)"
    using assms(2,9) by (auto simp: identified_def request_fingerprint_def canonical_text_def split: if_splits)
  have c: "do_claim io ?c (n, s) = (Inr (r1, True), (Suc n, AList.update k r1 s))"
    unfolding do_claim_def
    by (rule transact_alone [OF alone])
      (use assms(7,8) ok in \<open>auto simp: claim_def request_of_def r1_def Let_def\<close>)
  have r1: "do_token r1 = Some (pi_token io n)" "do_status r1 = PROCESSING" "do_key r1 = k" "do_attempts r1 = 1"
    "do_metadata r1 = json_norm (PDict ?meta)" "do_operation_id r1 = operation_id_of io k"
    by (simp_all add: r1_def new_op_def request_of_def)
  have "json_ok (json_norm (PDict ?meta))" using ok(2) by (rule json_ok_norm)
  then have msg: "opt_json_ok (om_result msg)" "opt_json_ok (om_error msg)" "json_ok (om_payload msg)"
    using assms(10) r1(5) by (simp_all add: msg_def success_msg_def opt_json_ok_def result_message_def opt_dict_def)
  have f: "do_finish io k (pi_token io n) msg (Suc n, AList.update k r1 s) = (Inr r2, (Suc (Suc n), AList.update k r2 s))"
    unfolding do_finish_def
    by (rule transact_alone [OF alone])
      (use msg r1 in \<open>simp add: finish_def map_of_update expected_status_def msg_def success_msg_def r2_def update_update Let_def\<close>)
  have r2: "do_topic r2 = Some artifacts_topic" "do_message_id r2 = Some (''document-result-'' @ operation_id_of io k)"
    "do_status r2 = SUCCEEDED" "do_publication r2 = PENDING" "do_key r2 = k"
    "do_outbound r2 = Some (json_norm (om_payload msg))" "do_attempts r2 = 1"
    "do_result r2 = Some (json_norm (PDict (output_payload out)))"
    using r1 by (simp_all add: r2_def finished_def msg_def success_msg_def)
  have w: "bindE (resolve_chunks io req) (execute_vectorizer io) = Inr (output_payload out)"
    using execute_vectorizer_ok [OF input_reads_back [OF input_from_valid [OF assms(1)]] assms(5,6)] assms(4)
    by (simp add: resolve_chunks_inline [OF assms(3)] healthy_def)
  have "process io (ms_payload m) (ms_id m) (ms_headers m) (n, s) = (Inr (r2, False), (Suc (Suc n), AList.update k r2 s))"
    using assms(4) f w r1(1)
    by (simp add: process_identified [OF assms(1,2)] claimed_def c owner_work_def claim_token_def healthy_def
        flagged_def msg_def)
  moreover have "run_publication_update io True k (Suc (Suc n), AList.update k r2 s) =
      (Inr r3, (n + 3, AList.update k r3 s))"
    unfolding run_publication_update_def
    by (subst transact_alone [OF alone])
      (simp_all add: publication_update_def map_of_update r3_def update_update Let_def numeral_3_eq_3)
  ultimately have "process_message cn io tr m (n, s) = (Inr (r3, False),
      [Published artifacts_topic (''document-result-'' @ operation_id_of io k) (json_norm (om_payload msg))
        (do_metadata r2), Acknowledged], (n + 3, AList.update k r3 s))"
    using assms(4) r2 by (simp add: process_message_def settle_message_def publish_record_def act_def healthy_def)
  then show ?thesis using r2 by (auto simp: r3_def)
qed

section \<open>Examples\<close>

definition demo_proc :: proc_io where
  "demo_proc = \<lparr>pi_digest = (\<lambda>_. ''h''), pi_fmt = (\<lambda>_. ''1.0''), pi_str = (\<lambda>_. []), pi_lease = 60,
     pi_now = of_nat, pi_later = of_nat, pi_token = (\<lambda>_. ''t''), pi_others = (\<lambda>_. []), pi_polls = 0,
     pi_load = (\<lambda>_. Absent), pi_vectorizer = demo_vectorizer, pi_timeout = 30, pi_runtime = demo_runtime,
     pi_uid = ''u'', pi_node = ''n'', pi_cancelled = False\<rparr>"

definition demo_transport :: transport where
  "demo_transport = \<lparr>tr_publish = (\<lambda>_. TransportOk), tr_ack = TransportOk, tr_retry = TransportOk\<rparr>"

definition demo_consumer :: consumer where
  "demo_consumer = \<lparr>cn_max_concurrency = 4, cn_max_attempts = 3, cn_drain_limit = 100, cn_retry_delay = 0,
     cn_recovery_interval = 1, cn_publication_timeout = 30\<rparr>"

definition demo_message :: message where
  "demo_message = \<lparr>ms_id = ''m1'', ms_payload = PDict demo_payload, ms_headers = [], ms_attempt = 1,
     ms_topic = Some ''document.vectorize''\<rparr>"

definition demo_key :: string where "demo_key = ''document-vectorize:h''"

lemma demo_metadata: "preserved_metadata [] ''m1'' = [(''messageId'', PStr ''m1'')]"
  by (simp add: preserved_metadata_def)

lemma demo_payload_ok: "json_ok (PDict (input_payload demo_request))"
  by (simp add: input_payload_def demo_request_def document_payload_def chunk_payload_def options_payload_def
      artifact_payload_def demo_artifact_def default_options_def opt_str_def opt_int_def manifest_value_def
      opt_storage_payload_def)

lemma demo_identified: "identified demo_proc demo_request ''m1'' [] demo_key ''h''"
proof -
  have "json_ok (PDict (identity_fields (input_payload demo_request) ''m1'' [(''messageId'', PStr ''m1'')]))"
    by (simp add: identity_fields_def input_payload_def demo_request_def opt_str_def manifest_value_def
        or_value_def)
  then show ?thesis
    using demo_payload_ok
    by (simp add: identified_def idempotency_key_def request_fingerprint_def canonical_text_def demo_metadata
        demo_proc_def demo_key_def del: json_ok.simps)
qed

definition demo_settled_row :: doc_op where
  "demo_settled_row =
     (finished 1 demo_outcome (new_op 0 60 ''t'' (demo_claim\<lparr>cr_key := demo_key, cr_fingerprint := ''h''\<rparr>)))
       \<lparr>do_publication := PUBLISHED\<rparr>"

lemma demo_settled_row_facts:
  "do_key demo_settled_row = demo_key" "do_status demo_settled_row = SUCCEEDED"
  "do_fingerprint demo_settled_row = ''h''" "do_publication demo_settled_row = PUBLISHED"
  "rows_ok [(demo_key, demo_settled_row)]"
  by (simp_all add: demo_settled_row_def finished_def demo_outcome_def new_op_def rows_ok_def)

lemma demo_others: "pi_others demo_proc n = []" "others_final demo_proc"
  by (simp_all add: demo_proc_def others_final_def)

lemma demo_settled_process:
  "process demo_proc (PDict demo_payload) ''m1'' [] (0, [(demo_key, demo_settled_row)]) =
   (Inr (demo_settled_row, True), (1, [(demo_key, demo_settled_row)]))"
  using demo_settled_row_facts
  by (simp add: process_identified [OF demo_accepted demo_identified] claimed_def do_claim_def transact_def
      claim_def request_of_def duplicate_of_def settled_duplicate_def demo_others)

theorem acknowledged_only_when_settled_witness:
  "\<exists>y. settled demo_key [(demo_key, demo_settled_row)] = Some y \<and> st_status y = SUCCEEDED"
proof -
  have "process_message demo_consumer demo_proc demo_transport demo_message (0, [(demo_key, demo_settled_row)]) =
      (Inr (demo_settled_row, True), [Acknowledged], (1, [(demo_key, demo_settled_row)]))"
    by (simp add: process_message_def demo_message_def demo_settled_process demo_settled_row_facts
        settle_message_def act_def demo_transport_def)
  from acknowledged_only_when_settled [OF demo_others(2) demo_settled_row_facts(5) this] show ?thesis
    by (auto simp: demo_settled_row_facts)
qed

theorem settled_request_is_not_reworked_witness:
  "\<exists>r. process demo_proc (PDict demo_payload) ''m1'' [] (0, [(demo_key, demo_settled_row)]) =
    (Inr (r, True), (1, [(demo_key, demo_settled_row)])) \<and> do_status r = SUCCEEDED"
proof -
  obtain y where y: "settled demo_key [(demo_key, demo_settled_row)] = Some y" "st_fingerprint y = ''h''"
    "st_status y = SUCCEEDED" by (simp add: settled_def demo_settled_row_facts)
  from settled_request_is_not_reworked [OF demo_accepted demo_identified y(1,2), where n = 0] y(3) show ?thesis
    by (auto simp: demo_others)
qed

definition huge_payload :: dict where
  "huge_payload = AList.update ''qualityScore'' (PInt float_limit) demo_payload"

theorem unreadable_message_is_never_settled_witness:
  "\<exists>e. process_message demo_consumer demo_proc demo_transport
     (demo_message\<lparr>ms_payload := PDict huge_payload, ms_attempt := 99\<rparr>) (0, []) = (Inl e, [], (0, []))"
proof -
  have "input_from (PDict huge_payload) = Inl overflow_fault"
    using demo_limit by (simp add: input_from_def huge_payload_def demo_payload_def demo_readers field_def demo_nonblank)
  from unreadable_message_is_never_settled [of "demo_message\<lparr>ms_payload := PDict huge_payload, ms_attempt := 99\<rparr>"] this
  show ?thesis by simp
qed

theorem fresh_request_succeeds_witness:
  "\<exists>r body meta. process_message demo_consumer demo_proc demo_transport demo_message (0, []) =
     (Inr (r, False), [Published ''document.artifacts'' ''document-result-docop_h'' body meta, Acknowledged],
      (3, [(demo_key, r)])) \<and> do_status r = SUCCEEDED"
proof -
  let ?b = "BackendResult demo_backend"
  obtain out where out: "from_backend demo_request ?b (vz_provider demo_vectorizer) (vz_model demo_vectorizer) = Inr out"
    "vx_chunks out = br_chunks demo_backend" "vx_artifacts out = map (artifact_result_of 2 ''demo'' ''m'') [demo_artifact]"
    "vx_metadata out = output_metadata demo_request []"
  proof -
    have "validate_backend demo_request ?b = Inr 2" using backend_exact [OF demo_accepted] demo_sound by blast
    moreover have "vi_artifact_requests demo_request = [demo_artifact]" "br_metadata demo_backend = []"
      by (simp_all add: demo_request_def demo_backend_def)
    ultimately show thesis
      using that by (simp add: from_backend_def demo_vectorizer_def)
  qed
  have "json_ok (PDict (output_payload out))"
    by (simp add: output_payload_def out(2-4) demo_backend_def vec_chunk_payload_def artifact_result_payload_def
        artifact_result_of_def demo_artifact_def output_metadata_def demo_request_def opt_str_def opt_int_def
        manifest_value_def options_payload_def default_options_def)
  moreover have "healthy demo_proc demo_transport"
    by (simp add: healthy_def demo_proc_def demo_transport_def demo_runtime_def)
  moreover have "input_from (ms_payload demo_message) = Inr demo_request"
    by (simp add: demo_message_def demo_accepted)
  moreover have "identified demo_proc demo_request (ms_id demo_message) (ms_headers demo_message) demo_key ''h''"
    by (simp add: demo_message_def demo_identified)
  moreover have "list_all (\<lambda>c. ch_text c \<noteq> None) (vi_chunks demo_request)" by (simp add: demo_request_def)
  moreover have "pi_vectorizer demo_proc = demo_vectorizer" "vz_vectorize demo_vectorizer demo_request = BackendReturns ?b"
    "operation_id_of demo_proc demo_key = ''docop_h''"
    by (simp_all add: demo_proc_def demo_vectorizer_def operation_id_of_def)
  moreover have "json_ok (PDict (preserved_metadata (ms_headers demo_message) (ms_id demo_message)))"
    by (simp add: demo_message_def demo_metadata)
  ultimately show ?thesis
    using out(1) fresh_request_succeeds [of demo_message demo_request demo_proc demo_key "''h''" demo_transport ?b out "[]" demo_consumer 0]
    by (auto simp: artifacts_topic_def)
qed

end
