(* ===== verification/Text_Util.thy ===== *)
theory Text_Util
  imports Prism_Prelude
begin

text \<open>Text helpers shared by the readers of names: \<open>str.strip\<close>, word characters, and prefixes that match a test.\<close>

definition strip :: "string \<Rightarrow> string" where
  "strip s = rev (dropWhile is_space (rev (dropWhile is_space s)))"

text \<open>\<open>\w\<close> on ASCII.\<close>

definition is_word :: "char \<Rightarrow> bool" where
  "is_word c = (let n = of_char c :: nat in 48 \<le> n \<and> n \<le> 57 \<or> 65 \<le> n \<and> n \<le> 90 \<or> 97 \<le> n \<and> n \<le> 122 \<or> n = 95)"

lemma strip_no_lead: "strip s \<noteq> [] \<Longrightarrow> \<not> is_space (hd (strip s))"
proof -
  let ?a = "dropWhile is_space s"
  assume ne: "strip s \<noteq> []"
  obtain pre where "rev ?a = pre @ dropWhile is_space (rev ?a)"
    by (metis takeWhile_dropWhile_id)
  then have a: "?a = strip s @ rev pre" by (metis rev_append rev_rev_ident strip_def)
  with ne have "hd ?a = hd (strip s)" "?a \<noteq> []" by auto
  then show ?thesis using hd_dropWhile [of is_space s] by (metis dropWhile_eq_Nil_conv)
qed

lemma strip_no_trail: "strip s \<noteq> [] \<Longrightarrow> \<not> is_space (last (strip s))"
  using hd_dropWhile [of is_space "rev (dropWhile is_space s)"] by (simp add: strip_def last_rev)

end
