(* ===== verification/Transport.thy ===== *)
theory Transport
  imports DocumentProcessing Text_Util
begin

text \<open>
  Message transports (\<open>src/prismpipe/deepiri_bus.py\<close> and \<open>src/prismpipe/redis_streams_transport.py\<close>):
  the topics, the in-memory transport with the consumer of document requests on top of it, and what the
  Redis adapter remembers between the commands that it sends.
\<close>

section \<open>Topics\<close>

definition stream_topics :: "(string \<times> string) list" where
  "stream_topics =
     [(''MODEL_EVENTS'', ''model-events''), (''INFERENCE_EVENTS'', ''inference-events''),
      (''PLATFORM_EVENTS'', ''platform-events''), (''AGI_DECISIONS'', ''agi-decisions''),
      (''TRAINING_EVENTS'', ''training-events''), (''TRAINING_JOBS'', ''training-jobs''),
      (''DOCUMENT_VECTORIZE'', ''document.vectorize''), (''DOCUMENT_TRAINING'', ''document.training''),
      (''DOCUMENT_STRUCTURED'', ''document.structured''), (''DOCUMENT_ARTIFACTS'', ''document.artifacts''),
      (''HELOX_TRAINING_RAW'', ''pipeline.helox-training.raw''),
      (''HELOX_TRAINING_STRUCTURED'', ''pipeline.helox-training.structured''),
      (''PIPELINE_PRESSURE_EVENTS'', ''pipeline.pressure.events''),
      (''PIPELINE_ARTIFACT_INVALIDATION'', ''pipeline.artifact.invalidation''),
      (''PIPELINE_SPLICE_EVENTS'', ''pipeline.splice.events''),
      (''PIPELINE_DEAD_LETTER'', ''pipeline.dead-letter''), (''PIPELINE_METRICS'', ''pipeline.metrics'')]"

definition topic_value :: "string \<Rightarrow> string" where
  "topic_value n = (case map_of stream_topics n of Some v \<Rightarrow> v | None \<Rightarrow> [])"

definition all_topics :: "string list" where
  "all_topics = map snd stream_topics"

definition envelope_to_stream :: "(string \<times> string) list" where
  "envelope_to_stream =
     map (\<lambda>(k, n). (k, topic_value n))
       [(''train'', ''TRAINING_JOBS''), (''training_progress'', ''TRAINING_EVENTS''),
        (''model_ready'', ''MODEL_EVENTS''), (''inference'', ''INFERENCE_EVENTS''),
        (''pressure'', ''PIPELINE_PRESSURE_EVENTS''), (''invalidation'', ''PIPELINE_ARTIFACT_INVALIDATION''),
        (''splice'', ''PIPELINE_SPLICE_EVENTS''), (''platform'', ''PLATFORM_EVENTS''),
        (''agi'', ''AGI_DECISIONS''), (''helox_raw'', ''HELOX_TRAINING_RAW''),
        (''helox_structured'', ''HELOX_TRAINING_STRUCTURED''), (''document_vectorize'', ''DOCUMENT_VECTORIZE''),
        (''document_artifacts'', ''DOCUMENT_ARTIFACTS''), (''dead_letter'', ''PIPELINE_DEAD_LETTER'')]"

definition resolve_stream_for_kind :: "string option \<Rightarrow> string" where
  "resolve_stream_for_kind kind =
     (case map_of envelope_to_stream (lower (strip (or_str kind []))) of
        Some t \<Rightarrow> t
      | None \<Rightarrow> topic_value ''PLATFORM_EVENTS'')"

text \<open>Every kind of envelope, known or not, is routed to one of the canonical topics.\<close>

lemma resolved_stream_is_canonical: "resolve_stream_for_kind kind \<in> set all_topics"
proof -
  have "\<forall>(k, t) \<in> set envelope_to_stream. t \<in> set all_topics"
    by (simp add: envelope_to_stream_def topic_value_def stream_topics_def all_topics_def)
  moreover have "topic_value ''PLATFORM_EVENTS'' \<in> set all_topics"
    by (simp add: topic_value_def stream_topics_def all_topics_def)
  ultimately show ?thesis
    by (auto simp: resolve_stream_for_kind_def dest: map_of_SomeD split: option.splits)
qed

section \<open>The in-memory transport\<close>

record broker =
  bk_queues :: "message list pdict"
  bk_started :: bool
  bk_connected :: bool
  bk_published :: "(string \<times> message) list"
  bk_acknowledged :: "string list"
  bk_retried :: "string list"
  bk_fail_publications :: nat

definition new_broker :: broker where
  "new_broker = \<lparr>bk_queues = [], bk_started = False, bk_connected = False, bk_published = [],
     bk_acknowledged = [], bk_retried = [], bk_fail_publications = 0\<rparr>"

definition broker_start :: "broker \<Rightarrow> broker" where
  "broker_start b = b\<lparr>bk_started := True, bk_connected := True\<rparr>"

definition broker_stop :: "broker \<Rightarrow> broker" where
  "broker_stop b = b\<lparr>bk_started := False, bk_connected := False\<rparr>"

definition queue_of :: "string \<Rightarrow> broker \<Rightarrow> message list" where
  "queue_of t b = (case map_of (bk_queues b) t of Some q \<Rightarrow> q | None \<Rightarrow> [])"

definition put_queue :: "string \<Rightarrow> message \<Rightarrow> broker \<Rightarrow> broker" where
  "put_queue t m b = b\<lparr>bk_queues := AList.update t (queue_of t b @ [m]) (bk_queues b)\<rparr>"

definition broker_send :: "string \<Rightarrow> message \<Rightarrow> broker \<Rightarrow> broker" where
  "broker_send t m b = put_queue t (m\<lparr>ms_topic := Some t\<rparr>) b"

text \<open>One step of \<open>consume\<close>: the next message, when the transport runs and the queue is not empty.\<close>

definition broker_take :: "string \<Rightarrow> broker \<Rightarrow> (message \<times> broker) option" where
  "broker_take t b =
     (if \<not> bk_started b then None
      else case queue_of t b of
        [] \<Rightarrow> None
      | m # q \<Rightarrow> Some (m, b\<lparr>bk_queues := AList.update t q (bk_queues b)\<rparr>))"

definition disconnected :: py_error where
  "disconnected = OtherError ''DeepiriTransportError'' ''Deepiri transport is disconnected''"

definition broker_publish :: "string \<Rightarrow> pval \<Rightarrow> string \<Rightarrow> dict \<Rightarrow> broker \<Rightarrow> (py_error + unit) \<times> broker" where
  "broker_publish t body mid headers b =
     (if \<not> bk_connected b then (Inl disconnected, b)
      else if 0 < bk_fail_publications b
      then (Inl (OtherError ''DeepiriTransportError'' ''Injected publication failure''),
            b\<lparr>bk_fail_publications := bk_fail_publications b - 1\<rparr>)
      else (Inr (), b\<lparr>bk_published := bk_published b @
             [(t, \<lparr>ms_id = mid, ms_payload = body, ms_headers = headers, ms_attempt = 1, ms_topic = Some t\<rparr>)]\<rparr>))"

definition broker_acknowledge :: "message \<Rightarrow> broker \<Rightarrow> (py_error + unit) \<times> broker" where
  "broker_acknowledge m b =
     (if \<not> bk_connected b then (Inl disconnected, b)
      else (Inr (), if ms_id m \<in> set (bk_acknowledged b) then b
            else b\<lparr>bk_acknowledged := bk_acknowledged b @ [ms_id m]\<rparr>))"

definition vectorize_topic :: string where
  "vectorize_topic = ''document.vectorize''"

definition broker_retry :: "message \<Rightarrow> broker \<Rightarrow> (py_error + unit) \<times> broker" where
  "broker_retry m b =
     (if \<not> bk_connected b then (Inl disconnected, b)
      else let t = or_str (ms_topic m) vectorize_topic
           in (Inr (), put_queue t (m\<lparr>ms_attempt := ms_attempt m + 1, ms_topic := Some t\<rparr>)
                 (b\<lparr>bk_retried := bk_retried b @ [ms_id m]\<rparr>)))"

section \<open>The consumer on the in-memory transport\<close>

text \<open>What the calls of the transport will do, read off the broker before a message is handled.\<close>

definition outcome_of :: "bool \<Rightarrow> transport_outcome" where
  "outcome_of up = (if up then TransportOk else TransportDown)"

definition transport_of :: "broker \<Rightarrow> transport" where
  "transport_of b =
     \<lparr>tr_publish = (\<lambda>_. if bk_connected b \<and> bk_fail_publications b = 0 then TransportOk else TransportDown),
      tr_ack = outcome_of (bk_connected b), tr_retry = outcome_of (bk_connected b)\<rparr>"

text \<open>The calls that were made, on the broker.\<close>

definition headers_of :: "pval \<Rightarrow> dict" where
  "headers_of v = (case v of PDict d \<Rightarrow> d | _ \<Rightarrow> [])"

fun perform :: "message \<Rightarrow> action \<Rightarrow> broker \<Rightarrow> broker" where
  "perform m (Published t mid body headers) b = snd (broker_publish t body mid (headers_of headers) b)"
| "perform m PublishFailed b = snd (broker_publish [] PNone [] [] b)"
| "perform m Acknowledged b = snd (broker_acknowledge m b)"
| "perform m Retried b = snd (broker_retry m b)"

text \<open>One turn of a consumer with one slot: take a message, handle it to the end.\<close>

definition handle_next ::
    "consumer \<Rightarrow> proc_io \<Rightarrow> broker \<times> proc_state \<Rightarrow> ((doc_error + doc_op \<times> bool) \<times> broker \<times> proc_state) option" where
  "handle_next cn io w =
     (case broker_take vectorize_topic (fst w) of
        None \<Rightarrow> None
      | Some (m, b) \<Rightarrow>
          (case process_message cn io (transport_of b) m (snd w) of
             (res, acts, st) \<Rightarrow> Some (res, fold (perform m) acts b, st)))"

fun consume_messages :: "nat \<Rightarrow> consumer \<Rightarrow> proc_io \<Rightarrow> broker \<times> proc_state \<Rightarrow> broker \<times> proc_state" where
  "consume_messages 0 cn io w = w"
| "consume_messages (Suc n) cn io w =
     (case handle_next cn io w of None \<Rightarrow> w | Some (res, w') \<Rightarrow> consume_messages n cn io w')"

section \<open>A failing backend ends in the dead-letter topic\<close>

text \<open>Nothing interferes, and the backend raises for this request.\<close>

definition backend_fails :: "proc_io \<Rightarrow> vec_input \<Rightarrow> string \<Rightarrow> string \<Rightarrow> bool" where
  "backend_fails io req ty txt \<longleftrightarrow>
     (\<forall>n. pi_others io n = []) \<and> \<not> pi_cancelled io \<and> 0 < pi_timeout io \<and>
     rt_worker (pi_runtime io) 0 = WDone \<and> vz_vectorize (pi_vectorizer io) req = BackendRaises ty txt"

definition backend_error :: "string \<Rightarrow> string \<Rightarrow> doc_error" where
  "backend_error ty txt = ProcessingError ''VECTORIZER_ERROR'' ''Vectorizer backend failed'' True
     [(''error'', PStr txt), (''errorType'', PStr ty)]"

lemma execute_vectorizer_fails:
  assumes "input_from (PDict (input_payload req)) = Inr req" "backend_fails io req ty txt"
  shows "execute_vectorizer io req = Inl (backend_error ty txt)"
proof -
  obtain eff where "0 < eff"
    "effective_timeout (vectorize_node (pi_node io) (pi_vectorizer io) (pi_timeout io)) (Some (pi_timeout io)) = Some eff"
    using positive_timeout assms(2) unfolding backend_fails_def by blast
  moreover have "vectorize_process (pi_vectorizer io) (work_envelope io req) =
      Returned (run_backend (pi_vectorizer io) req (work_envelope io req))"
    using assms(1) by (simp add: vectorize_process_def work_envelope_def)
  ultimately show ?thesis
    using assms(2)
    by (simp add: backend_fails_def execute_vectorizer_def execute_with_timeout_def execute_sync_def
        vectorize_node_def finalize_result_def run_backend_def read_work_def work_envelope_def set_next_def
        vectorize_key_def field_def dict_simps fail_envelope_def vec_error_payload_def get_default_def
        str_value_def backend_error_def Let_def)
qed

text \<open>The row of an operation that has failed \<open>i\<close> times, and the store before the next delivery.\<close>

definition failed_row :: "proc_io \<Rightarrow> string \<Rightarrow> string \<Rightarrow> nat \<Rightarrow> doc_op \<Rightarrow> bool" where
  "failed_row io k fp i r \<longleftrightarrow>
     do_key r = k \<and> do_operation_id r = operation_id_of io k \<and> do_fingerprint r = fp \<and>
     do_status r = RETRYABLE_FAILURE \<and> do_attempts r = i \<and> do_token r \<noteq> None \<and>
     do_publication r = NONE \<and> json_ok (do_metadata r) \<and>
     (\<exists>d. do_error r = Some (PDict d) \<and> json_ok (PDict d))"

definition failed_store :: "proc_io \<Rightarrow> string \<Rightarrow> string \<Rightarrow> nat \<Rightarrow> op_store \<Rightarrow> bool" where
  "failed_store io k fp i s =
     (if i = 0 then map_of s k = None \<and> (\<forall>r \<in> snd ` set s. do_operation_id r \<noteq> operation_id_of io k)
      else \<exists>r. map_of s k = Some r \<and> failed_row io k fp i r)"

lemma failed_claim:
  assumes "failed_store io k fp i s" "\<forall>n. pi_others io n = []"
    and "cr_key c = k" "cr_fingerprint c = fp" "cr_operation_id c = operation_id_of io k"
    and "json_ok (cr_payload c)" "json_ok (cr_metadata c)"
  shows "\<exists>r. do_claim io c (n, s) = (Inr (r, True), (Suc n, AList.update k r s)) \<and>
    do_key r = k \<and> do_operation_id r = operation_id_of io k \<and> do_fingerprint r = fp \<and>
    do_status r = PROCESSING \<and> do_attempts r = Suc i \<and> do_token r = Some (pi_token io n) \<and>
    do_publication r = NONE \<and> json_ok (do_metadata r)"
proof (cases "i = 0")
  case True
  with assms have "claim (pi_lease io) (pi_now io n) (pi_later io n) (pi_token io n) c s =
      (let r = new_op (pi_now io n) (pi_later io n + max (pi_lease io) 0) (pi_token io n) c
       in (Inr (r, True), AList.update k r s))"
    by (auto simp: claim_def failed_store_def Let_def)
  with True assms(2-7) json_ok_norm [of "cr_metadata c"] show ?thesis
    by (simp add: do_claim_def transact_def Let_def new_op_def)
next
  case False
  with assms(1) obtain r where r: "map_of s k = Some r" "failed_row io k fp i r"
    by (auto simp: failed_store_def)
  with assms(3,4) have "claim (pi_lease io) (pi_now io n) (pi_later io n) (pi_token io n) c s =
      (let r' = reclaimed (pi_now io n) (pi_later io n + max (pi_lease io) 0) (pi_token io n) r
       in (Inr (r', True), AList.update k r' s))"
    by (simp add: claim_def failed_row_def lease_active_def Let_def)
  with assms(2) r(2) show ?thesis
    by (simp add: do_claim_def transact_def Let_def reclaimed_def failed_row_def)
qed

lemma failed_delivery:
  assumes "failed_store io k fp i s" "input_from payload = Inr req" "identified io req mid headers k fp"
    and "backend_fails io req ty txt" "list_all (\<lambda>c. ch_text c \<noteq> None) (vi_chunks req)"
    and "json_ok (PDict (preserved_metadata headers mid))"
  shows "\<exists>r. process io payload mid headers (n, s) = (Inr (r, False), (n + 2, AList.update k r s)) \<and>
    failed_row io k fp (Suc i) r"
proof -
  let ?c = "request_of io k fp (vi_document_id req) (manifest_text (vi_manifest_version req)) (input_payload req)
      (preserved_metadata headers mid)"
  let ?err = "PDict (error_payload (backend_error ty txt))"
  have alone: "\<forall>n. pi_others io n = []" using assms(4) by (simp add: backend_fails_def)
  have "json_ok (PDict (input_payload req))"
    using assms(3) by (auto simp: identified_def request_fingerprint_def canonical_text_def split: if_splits)
  then obtain r where c: "do_claim io ?c (n, s) = (Inr (r, True), (Suc n, AList.update k r s))"
    and r: "do_key r = k" "do_operation_id r = operation_id_of io k" "do_fingerprint r = fp"
      "do_status r = PROCESSING" "do_attempts r = Suc i" "do_token r = Some (pi_token io n)"
      "do_publication r = NONE" "json_ok (do_metadata r)"
    using failed_claim [OF assms(1) alone, of ?c n] assms(6) by (auto simp: request_of_def)
  define r' where "r' = r\<lparr>do_status := RETRYABLE_FAILURE, do_error := Some (json_norm ?err),
      do_updated := pi_now io (Suc n), do_lease := None\<rparr>"
  have err: "json_ok ?err" by (simp add: backend_error_def)
  have t: "do_retryable io k (pi_token io n) ?err (Suc n, AList.update k r s) =
      (Inr r', (n + 2, AList.update k r' s))"
    unfolding do_retryable_def
    by (subst transact_alone [OF alone])
      (use err r in \<open>simp_all add: record_retryable_def map_of_update update_update r'_def Let_def\<close>)
  have "process io payload mid headers (n, s) = (Inr (r', False), (n + 2, AList.update k r' s))"
    using assms(4) r(6) t
      execute_vectorizer_fails [OF input_reads_back [OF input_from_valid [OF assms(2)]] assms(4)]
    by (simp add: process_identified [OF assms(2,3)] claimed_def c owner_work_def claim_token_def flagged_def
        resolve_chunks_inline [OF assms(5)] backend_fails_def backend_error_def)
  moreover have "failed_row io k fp (Suc i) r'"
    using r json_ok_norm [OF err] by (simp add: failed_row_def r'_def)
  ultimately show ?thesis by blast
qed

lemma queue_put [simp]:
  "queue_of t (put_queue t m b) = queue_of t b @ [m]"
  "queue_of t (b\<lparr>bk_queues := AList.update t q qs\<rparr>) = q"
  "queue_of t (b\<lparr>bk_retried := x\<rparr>) = queue_of t b"
  by (simp_all add: queue_of_def put_queue_def map_of_update)

lemma put_queue_simps [simp]:
  "bk_started (put_queue t m b) = bk_started b" "bk_connected (put_queue t m b) = bk_connected b"
  "bk_fail_publications (put_queue t m b) = bk_fail_publications b"
  "bk_retried (put_queue t m b) = bk_retried b"
  by (simp_all add: put_queue_def)

text \<open>A transport that is up, with one message in the queue.\<close>

definition ready :: "message \<Rightarrow> broker \<Rightarrow> bool" where
  "ready m b \<longleftrightarrow>
     bk_started b \<and> bk_connected b \<and> bk_fail_publications b = 0 \<and> queue_of vectorize_topic b = [m] \<and>
     ms_topic m = Some vectorize_topic"

lemma vectorize_topic_nonempty [simp]: "vectorize_topic \<noteq> []"
  by (simp add: vectorize_topic_def)

lemma failed_turn:
  assumes "ready m b" "failed_store io k fp i s" "ms_attempt m = Suc i"
    and "input_from (ms_payload m) = Inr req" "identified io req (ms_id m) (ms_headers m) k fp"
    and "backend_fails io req ty txt" "list_all (\<lambda>c. ch_text c \<noteq> None) (vi_chunks req)"
    and "json_ok (PDict (preserved_metadata (ms_headers m) (ms_id m)))"
    and "Suc i < cn_max_attempts cn"
  shows "\<exists>res b' s'. handle_next cn io (b, (n, s)) = Some (res, b', (n + 2, s')) \<and>
    ready (m\<lparr>ms_attempt := Suc (Suc i)\<rparr>) b' \<and> failed_store io k fp (Suc i) s' \<and>
    length (bk_retried b') = Suc (length (bk_retried b))"
proof -
  let ?b = "b\<lparr>bk_queues := AList.update vectorize_topic [] (bk_queues b)\<rparr>"
  obtain r where p: "process io (ms_payload m) (ms_id m) (ms_headers m) (n, s) =
      (Inr (r, False), (n + 2, AList.update k r s))" "failed_row io k fp (Suc i) r"
    using failed_delivery [OF assms(2,4-8)] by blast
  have "handle_next cn io (b, (n, s)) =
      Some (Inr (r, False), snd (broker_retry m ?b), (n + 2, AList.update k r s))"
    using assms(1,3,9) p
    by (simp add: handle_next_def broker_take_def ready_def process_message_def failed_row_def act_def
        transport_of_def outcome_of_def)
  moreover have "ready (m\<lparr>ms_attempt := Suc (Suc i)\<rparr>) (snd (broker_retry m ?b))"
    "length (bk_retried (snd (broker_retry m ?b))) = Suc (length (bk_retried b))"
    using assms(1,3) by (simp_all add: ready_def broker_retry_def or_str_def Let_def)
  moreover have "failed_store io k fp (Suc i) (AList.update k r s)"
    using p(2) by (auto simp: failed_store_def map_of_update)
  ultimately show ?thesis by blast
qed

lemma last_turn:
  assumes "ready m b" "failed_store io k fp i s" "ms_attempt m = Suc i"
    and "input_from (ms_payload m) = Inr req" "identified io req (ms_id m) (ms_headers m) k fp"
    and "backend_fails io req ty txt" "list_all (\<lambda>c. ch_text c \<noteq> None) (vi_chunks req)"
    and "json_ok (PDict (preserved_metadata (ms_headers m) (ms_id m)))"
    and "cn_max_attempts cn = Suc i"
  shows "\<exists>res b' n' s' r out. handle_next cn io (b, (n, s)) = Some (res, b', (n', s')) \<and>
    queue_of vectorize_topic b' = [] \<and> ms_id m \<in> set (bk_acknowledged b') \<and> bk_retried b' = bk_retried b \<and>
    bk_published b' = bk_published b @ [(dead_letter_topic, out)] \<and> Some (ms_payload out) = do_outbound r \<and>
    map_of s' k = Some r \<and> do_status r = DEAD_LETTERED \<and> do_publication r = PUBLISHED \<and> do_attempts r = Suc i"
proof -
  let ?b = "b\<lparr>bk_queues := AList.update vectorize_topic [] (bk_queues b)\<rparr>"
  have alone: "\<forall>n. pi_others io n = []" using assms(6) by (simp add: backend_fails_def)
  obtain r where p: "process io (ms_payload m) (ms_id m) (ms_headers m) (n, s) =
      (Inr (r, False), (n + 2, AList.update k r s))" "failed_row io k fp (Suc i) r"
    using failed_delivery [OF assms(2,4-8)] by blast
  obtain t d where r: "do_token r = Some t" "do_error r = Some (PDict d)" "json_ok (PDict d)"
    "do_status r = RETRYABLE_FAILURE" "do_key r = k" "json_ok (do_metadata r)" "do_attempts r = Suc i"
    using p(2) by (auto simp: failed_row_def)
  define msg where "msg = failure_msg r (exhausted_error r) True"
  define r2 where "r2 = finished (pi_now io (n + 2)) msg r"
  define r3 where "r3 = r2\<lparr>do_publication := PUBLISHED, do_updated := pi_now io (n + 3)\<rparr>"
  have "list_all (\<lambda>(k, v). json_ok v) (AList.update j (PBool b) e)" if "list_all (\<lambda>(k, v). json_ok v) e" for j b and e :: dict
    using that by (induction e) auto
  then have ex: "json_ok (PDict (exhausted_error r))" using r(2,3) by (simp add: exhausted_error_def)
  then have msg: "opt_json_ok (om_result msg)" "opt_json_ok (om_error msg)" "json_ok (om_payload msg)"
    using r(6) by (simp_all add: msg_def failure_msg_def opt_json_ok_def result_message_def opt_dict_def)
  have f: "finish_failure io r (exhausted_error r) True (n + 2, AList.update k r s) =
      (Inr r2, (n + 3, AList.update k r2 s))"
    unfolding finish_failure_def claim_token_def r do_finish_def option.case sum.case msg_def [symmetric]
    by (subst transact_alone [OF alone])
      (use msg r in \<open>simp_all add: finish_def map_of_update expected_status_def msg_def failure_msg_def r2_def
        update_update numeral_3_eq_3 Let_def\<close>)
  have r2: "do_topic r2 = Some dead_letter_topic" "do_message_id r2 = Some (om_message_id msg)"
    "do_outbound r2 = Some (json_norm (om_payload msg))" "do_publication r2 = PENDING" "do_key r2 = k"
    "do_status r2 = DEAD_LETTERED" "do_attempts r2 = Suc i"
    using r by (simp_all add: r2_def finished_def msg_def failure_msg_def)
  have u: "run_publication_update io True k (n + 3, AList.update k r2 s) = (Inr r3, (n + 4, AList.update k r3 s))"
    unfolding run_publication_update_def
    by (subst transact_alone [OF alone])
      (simp_all add: publication_update_def map_of_update r3_def update_update Let_def)
  have "process_message cn io (transport_of ?b) m (n, s) = (Inr (r3, False),
      [Published dead_letter_topic (om_message_id msg) (json_norm (om_payload msg)) (do_metadata r2), Acknowledged],
      (n + 4, AList.update k r3 s))"
    using assms(1,3,9) r f r2 u
    by (simp add: process_message_def p settle_message_def publish_record_def act_def transport_of_def
        outcome_of_def ready_def)
  moreover have "do_outbound r3 = Some (json_norm (om_payload msg))" "do_publication r3 = PUBLISHED"
    "do_status r3 = DEAD_LETTERED" "do_attempts r3 = Suc i" using r2 by (simp_all add: r3_def)
  ultimately show ?thesis
    using assms(1)
    by (simp add: handle_next_def broker_take_def ready_def broker_publish_def broker_acknowledge_def
        map_of_update queue_of_def)
qed

lemma dead_letter_run:
  assumes "input_from (ms_payload m) = Inr req" "identified io req (ms_id m) (ms_headers m) k fp"
    and "backend_fails io req ty txt" "list_all (\<lambda>c. ch_text c \<noteq> None) (vi_chunks req)"
    and "json_ok (PDict (preserved_metadata (ms_headers m) (ms_id m)))"
  shows "ready (m\<lparr>ms_attempt := Suc i\<rparr>) b \<Longrightarrow> failed_store io k fp i s \<Longrightarrow> cn_max_attempts cn = i + Suc j \<Longrightarrow>
    \<exists>b' n' s' r out. consume_messages (Suc j) cn io (b, (n, s)) = (b', (n', s')) \<and>
      queue_of vectorize_topic b' = [] \<and> ms_id m \<in> set (bk_acknowledged b') \<and>
      length (bk_retried b') = length (bk_retried b) + j \<and>
      last (bk_published b') = (dead_letter_topic, out) \<and> Some (ms_payload out) = do_outbound r \<and>
      map_of s' k = Some r \<and> do_status r = DEAD_LETTERED \<and> do_publication r = PUBLISHED \<and>
      do_attempts r = cn_max_attempts cn"
proof (induction j arbitrary: i b n s)
  case 0
  then have max: "cn_max_attempts cn = Suc i" by simp
  from 0 assms max last_turn [of "m\<lparr>ms_attempt := Suc i\<rparr>" b io k fp i s req ty "txt" cn n]
  show ?case by fastforce
next
  case (Suc j)
  have "Suc i < cn_max_attempts cn" using Suc.prems(3) by simp
  with failed_turn [of "m\<lparr>ms_attempt := Suc i\<rparr>" b io k fp i s req ty "txt" cn n] assms Suc.prems
  obtain res b' s' where step: "handle_next cn io (b, (n, s)) = Some (res, b', (n + 2, s'))"
    "ready (m\<lparr>ms_attempt := Suc (Suc i)\<rparr>) b'" "failed_store io k fp (Suc i) s'"
    "length (bk_retried b') = Suc (length (bk_retried b))" by auto
  have "cn_max_attempts cn = Suc i + Suc j" using Suc.prems(3) by simp
  from Suc.IH [OF step(2,3) this, of "n + 2"] show ?case
    unfolding consume_messages.simps(2) [of "Suc j"] step(1) option.case prod.case step(4) by simp
qed

text \<open>
  C18: Retries are bounded and nothing is lost: when the backend fails on every attempt, a message that is
  delivered on a healthy in-memory transport is handled exactly as often as the consumer allows, put back
  after every failure but the last, and then its operation is dead-lettered, the failure is published to the
  dead-letter topic and the message is acknowledged, so that the queue is empty.
\<close>

theorem failing_request_is_dead_lettered:
  assumes "input_from (ms_payload m) = Inr req" "identified io req (ms_id m) (ms_headers m) k fp"
    and "backend_fails io req ty txt" "list_all (\<lambda>c. ch_text c \<noteq> None) (vi_chunks req)"
    and "json_ok (PDict (preserved_metadata (ms_headers m) (ms_id m)))"
    and "ready m b" "ms_attempt m = 1" "failed_store io k fp 0 s" "0 < cn_max_attempts cn"
  shows "\<exists>b' n' s' r out. consume_messages (cn_max_attempts cn) cn io (b, (n, s)) = (b', (n', s')) \<and>
    queue_of vectorize_topic b' = [] \<and> ms_id m \<in> set (bk_acknowledged b') \<and>
    length (bk_retried b') = length (bk_retried b) + cn_max_attempts cn - 1 \<and>
    last (bk_published b') = (dead_letter_topic, out) \<and> Some (ms_payload out) = do_outbound r \<and>
    map_of s' k = Some r \<and> do_status r = DEAD_LETTERED \<and> do_publication r = PUBLISHED \<and>
    do_attempts r = cn_max_attempts cn"
proof -
  obtain j where j: "cn_max_attempts cn = Suc j" using assms(9) by (cases "cn_max_attempts cn") auto
  have "m\<lparr>ms_attempt := Suc 0\<rparr> = m" using assms(7) by (cases m) simp
  with assms(6) have "ready (m\<lparr>ms_attempt := Suc 0\<rparr>) b" by simp
  from dead_letter_run [OF assms(1-5) this assms(8), of cn j n] j show ?thesis by simp
qed

definition broken_proc :: proc_io where
  "broken_proc = demo_proc\<lparr>pi_vectorizer := demo_vectorizer\<lparr>vz_vectorize :=
     (\<lambda>_. BackendRaises ''OSError'' ''down'')\<rparr>\<rparr>"

theorem failing_request_is_dead_lettered_witness:
  "\<exists>b' n' s' r. consume_messages 3 demo_consumer broken_proc
      (broker_send vectorize_topic demo_message (broker_start new_broker), (0, [])) = (b', (n', s')) \<and>
    bk_retried b' \<noteq> [] \<and> ''m1'' \<in> set (bk_acknowledged b') \<and>
    map_of s' demo_key = Some r \<and> do_status r = DEAD_LETTERED \<and> do_attempts r = 3"
proof -
  let ?b = "broker_send vectorize_topic demo_message (broker_start new_broker)"
  have i: "input_from (ms_payload demo_message) = Inr demo_request" by (simp add: demo_message_def demo_accepted)
  have "identified broken_proc demo_request = identified demo_proc demo_request"
    by (simp add: fun_eq_iff identified_def idempotency_key_def request_fingerprint_def broken_proc_def)
  then have k: "identified broken_proc demo_request (ms_id demo_message) (ms_headers demo_message) demo_key ''h''"
    by (simp add: demo_message_def demo_identified)
  have f: "backend_fails broken_proc demo_request ''OSError'' ''down''"
    by (simp add: backend_fails_def broken_proc_def demo_proc_def demo_runtime_def)
  have c: "list_all (\<lambda>c. ch_text c \<noteq> None) (vi_chunks demo_request)" by (simp add: demo_request_def)
  have j: "json_ok (PDict (preserved_metadata (ms_headers demo_message) (ms_id demo_message)))"
    by (simp add: demo_message_def demo_metadata)
  have r: "ready demo_message ?b"
    by (simp add: ready_def broker_send_def broker_start_def new_broker_def demo_message_def vectorize_topic_def
        queue_of_def put_queue_def)
  have m: "ms_attempt demo_message = 1" "ms_id demo_message = ''m1''" by (simp_all add: demo_message_def)
  have n: "failed_store broken_proc demo_key ''h'' 0 []" by (simp add: failed_store_def)
  have a: "cn_max_attempts demo_consumer = 3" "0 < cn_max_attempts demo_consumer" by (simp_all add: demo_consumer_def)
  show ?thesis
    using failing_request_is_dead_lettered [OF i k f c j r m(1) n a(2), of 0] unfolding a(1) m(2) by fastforce
qed

section \<open>The Redis adapter\<close>

text \<open>
  The adapter's memory: the groups it has created, and the stream entry under which each message was last
  delivered. The generator behind \<open>consume\<close> notes the entry of a message only when it is asked for the next
  one. Commands go to the Redis client, whose failures are arguments.
\<close>

datatype redis_cmd = XGroupCreate string string | XAdd string "(string \<times> string) list" | XAck string string string

record redis_bus =
  rb_connected :: bool
  rb_group :: string
  rb_known :: "string list"
  rb_entries :: "(string \<times> string) pdict"

definition new_redis_bus :: "string \<Rightarrow> redis_bus" where
  "new_redis_bus g = \<lparr>rb_connected = False, rb_group = g, rb_known = [], rb_entries = []\<rparr>"

definition bus_error :: "string \<Rightarrow> py_error" where
  "bus_error m = OtherError ''DeepiriTransportError'' m"

definition bus_down :: py_error where
  "bus_down = bus_error ''Deepiri transport is disconnected''"

text \<open>\<open>_ensure_group\<close>; the reply is \<open>None\<close>, or the text of the exception that creating the group raised.\<close>

definition ensure_group :: "string option \<Rightarrow> string \<Rightarrow> redis_bus \<Rightarrow> (py_error + redis_cmd list) \<times> redis_bus" where
  "ensure_group reply t b =
     (if t \<in> set (rb_known b) then (Inr [], b)
      else case reply of
        Some m \<Rightarrow>
          if contains ''BUSYGROUP'' m
          then (Inr [XGroupCreate t (rb_group b)], b\<lparr>rb_known := t # rb_known b\<rparr>)
          else (Inl (bus_error (''Failed to create consumer group for '' @ quoted t @ '': '' @ m)), b)
      | None \<Rightarrow> (Inr [XGroupCreate t (rb_group b)], b\<lparr>rb_known := t # rb_known b\<rparr>))"

definition redis_publish ::
    "(pval \<Rightarrow> string) \<Rightarrow> string option \<Rightarrow> string \<Rightarrow> message \<Rightarrow> nat \<Rightarrow> redis_bus \<Rightarrow> py_error + redis_cmd list" where
  "redis_publish dumps reply t m attempt b =
     (if \<not> rb_connected b then Inl bus_down
      else case reply of
        Some e \<Rightarrow> Inl (bus_error (''Publish to '' @ quoted t @ '' failed: '' @ e))
      | None \<Rightarrow> Inr [XAdd t [(''message_id'', ms_id m), (''payload'', dumps (ms_payload m)),
                  (''headers'', dumps (PDict (ms_headers m))), (''delivery_attempt'', show_nat attempt)]])"

text \<open>The message made of an entry; \<open>parse\<close> is \<open>json.loads\<close> and \<open>number\<close> is \<open>int\<close>, which can raise.\<close>

definition redis_message ::
    "(string \<Rightarrow> py_error + pval) \<Rightarrow> (string \<Rightarrow> py_error + nat) \<Rightarrow> string \<Rightarrow> string \<Rightarrow> (string \<times> string) list
      \<Rightarrow> py_error + message" where
  "redis_message parse number t entry fs =
     (let get = (\<lambda>k d. case map_of fs k of Some v \<Rightarrow> v | None \<Rightarrow> d) in
      bindE (parse (get ''payload'' ''{}'')) (\<lambda>payload.
      bindE (parse (get ''headers'' ''{}'')) (\<lambda>headers.
      bindE (number (get ''delivery_attempt'' ''1'')) (\<lambda>attempt.
      Inr \<lparr>ms_id = get ''message_id'' entry, ms_payload = payload, ms_headers = headers_of headers,
           ms_attempt = attempt, ms_topic = Some t\<rparr>))))"

definition note_entry :: "string \<times> string \<times> string \<Rightarrow> redis_bus \<Rightarrow> redis_bus" where
  "note_entry x b = (case x of (mid, t, entry) \<Rightarrow> b\<lparr>rb_entries := AList.update mid (t, entry) (rb_entries b)\<rparr>)"

definition redis_acknowledge :: "message \<Rightarrow> redis_bus \<Rightarrow> py_error + redis_cmd list" where
  "redis_acknowledge m b =
     (if \<not> rb_connected b then Inl bus_down
      else case map_of (rb_entries b) (ms_id m) of
        None \<Rightarrow> Inr []
      | Some (t, entry) \<Rightarrow> Inr [XAck t (rb_group b) entry])"

text \<open>\<open>retry\<close>; the generator may note entries while the publication is awaited.\<close>

definition redis_retry ::
    "(pval \<Rightarrow> string) \<Rightarrow> string option \<Rightarrow> (string \<times> string \<times> string) list \<Rightarrow> message \<Rightarrow> redis_bus
      \<Rightarrow> (py_error + redis_cmd list) \<times> redis_bus" where
  "redis_retry dumps reply noted m b =
     (if \<not> rb_connected b then (Inl bus_down, b)
      else case ms_topic m of
        None \<Rightarrow> (Inl (bus_error ''Cannot retry a message with no topic''), b)
      | Some t \<Rightarrow>
          (case redis_publish dumps reply t m (ms_attempt m + 1) b of
             Inl e \<Rightarrow> (Inl e, b)
           | Inr cmds \<Rightarrow>
               let b' = fold note_entry noted b in
               (Inr (cmds @ (case map_of (rb_entries b') (ms_id m) of
                      None \<Rightarrow> []
                    | Some (_, entry) \<Rightarrow> [XAck t (rb_group b) entry])), b')))"

text \<open>
  A message that is acknowledged before its entry is noted is acknowledged silently without any command. And
  a retry that overlaps the delivery of the copy that it has just published acknowledges the copy, which
  carries the same message identifier, in place of its own entry.
\<close>

lemma redis_retry_acknowledges_the_copy:
  assumes "rb_connected b" "ms_topic m = Some t" "map_of (rb_entries b) (ms_id m) = Some (t, own)"
    and "copy \<noteq> own" "redis_retry dumps None [(ms_id m, t, copy)] m b = (res, b')"
  shows "\<exists>added. res = Inr [added, XAck t (rb_group b) copy] \<and> added \<noteq> XAck t (rb_group b) own \<and>
    (\<forall>b0. rb_connected b0 \<longrightarrow> map_of (rb_entries b0) (ms_id m) = None \<longrightarrow> redis_acknowledge m b0 = Inr [])"
  using assms
  by (auto simp: redis_retry_def redis_publish_def redis_acknowledge_def note_entry_def map_of_update Let_def)

end
