(* ===== verification/IntentPaths.thy ===== *)
theory IntentPaths
  imports Router Text_Util
begin

text \<open>
  Intents in natural language and the capability paths planned for them (\<open>src/prismpipe/intent.py\<close>): the
  patterns as matchers on ASCII text, the path planner with its custom paths, and the planner that learns
  from executions.
\<close>

section \<open>Parsing\<close>

datatype intent_type =
  FETCH | CREATE | UPDATE | DELETE | ANALYZE | TRANSFORM | AGGREGATE | FORMAT | VALIDATE | COMPUTE | UNKNOWN

fun intent_type_value :: "intent_type \<Rightarrow> string" where
  "intent_type_value FETCH = ''fetch''"
| "intent_type_value CREATE = ''create''"
| "intent_type_value UPDATE = ''update''"
| "intent_type_value DELETE = ''delete''"
| "intent_type_value ANALYZE = ''analyze''"
| "intent_type_value TRANSFORM = ''transform''"
| "intent_type_value AGGREGATE = ''aggregate''"
| "intent_type_value FORMAT = ''format''"
| "intent_type_value VALIDATE = ''validate''"
| "intent_type_value COMPUTE = ''compute''"
| "intent_type_value UNKNOWN = ''unknown''"

definition all_intent_types :: "intent_type list" where
  "all_intent_types =
     [FETCH, CREATE, UPDATE, DELETE, ANALYZE, TRANSFORM, AGGREGATE, FORMAT, VALIDATE, COMPUTE, UNKNOWN]"

definition intent_type_of :: "string \<Rightarrow> intent_type option" where
  "intent_type_of s = find (\<lambda>t. intent_type_value t = s) all_intent_types"

record nl_intent =
  ni_raw :: string
  ni_type :: intent_type
  ni_entities :: dict
  ni_confidence :: rat
  ni_constraints :: dict

text \<open>
  A pattern \<open>^(w1|w2|...)\s+(?P<group>\w+)\<close> without regard to case: the words, the name of the group and the
  type. The word must be followed by blanks, so at most one alternative matches.
\<close>

definition patterns :: "(string list \<times> string \<times> intent_type) list" where
  "patterns =
     [([''get'', ''fetch'', ''retrieve'', ''list'', ''show''], ''res'', FETCH),
      ([''create'', ''add'', ''insert'', ''new''], ''res'', CREATE),
      ([''update'', ''modify'', ''edit'', ''change''], ''res'', UPDATE),
      ([''delete'', ''remove'', ''drop''], ''res'', DELETE),
      ([''analyze'', ''analyse'', ''examine'', ''inspect''], ''data'', ANALYZE),
      ([''transform'', ''convert'', ''map''], ''data'', TRANSFORM),
      ([''aggregate'', ''sum'', ''count'', ''average'', ''total''], ''data'', AGGREGATE),
      ([''format'', ''render'', ''output''], ''data'', FORMAT),
      ([''validate'', ''check'', ''verify''], ''data'', VALIDATE),
      ([''compute'', ''calculate'', ''run''], ''code'', COMPUTE)]"

definition match_word :: "string \<Rightarrow> string \<Rightarrow> string option" where
  "match_word w s =
     (if starts_with w (lower s)
      then let rest = drop (length w) s; arg = takeWhile is_word (dropWhile is_space rest)
           in if rest \<noteq> [] \<and> is_space (hd rest) \<and> arg \<noteq> [] then Some arg else None
      else None)"

fun first_match :: "string list \<Rightarrow> string \<Rightarrow> string option" where
  "first_match [] s = None"
| "first_match (w # ws) s = (case match_word w s of Some a \<Rightarrow> Some a | None \<Rightarrow> first_match ws s)"

fun match_patterns :: "(string list \<times> string \<times> intent_type) list \<Rightarrow> string \<Rightarrow> (string \<times> string \<times> intent_type) option" where
  "match_patterns [] s = None"
| "match_patterns ((ws, g, t) # ps) s =
     (case first_match ws s of Some a \<Rightarrow> Some (g, a, t) | None \<Rightarrow> match_patterns ps s)"

definition parse :: "string \<Rightarrow> nl_intent" where
  "parse input =
     (let s = strip input in
      case match_patterns patterns s of
        Some (g, a, t) \<Rightarrow>
          \<lparr>ni_raw = s, ni_type = t, ni_entities = [(g, PStr a)], ni_confidence = 9 / 10, ni_constraints = []\<rparr>
      | None \<Rightarrow>
          \<lparr>ni_raw = s, ni_type = UNKNOWN, ni_entities = [], ni_confidence = 1 / 10, ni_constraints = []\<rparr>)"

text \<open>\<open>parse_structured\<close> on a dictionary whose fields, where present, have the types that it expects.\<close>

record structured_intent =
  si_raw :: "string option"
  si_type :: "string option"
  si_entities :: "dict option"
  si_confidence :: "rat option"
  si_constraints :: "dict option"

definition default :: "'a \<Rightarrow> 'a option \<Rightarrow> 'a" where
  "default d x = (case x of None \<Rightarrow> d | Some v \<Rightarrow> v)"

definition parse_structured :: "structured_intent \<Rightarrow> py_error + nl_intent" where
  "parse_structured x =
     (case intent_type_of (default ''unknown'' (si_type x)) of
        None \<Rightarrow> Inl (ValueError ''not a valid IntentType'')
      | Some t \<Rightarrow> Inr \<lparr>ni_raw = default [] (si_raw x), ni_type = t, ni_entities = default [] (si_entities x),
          ni_confidence = default 1 (si_confidence x), ni_constraints = default [] (si_constraints x)\<rparr>)"

section \<open>Planning\<close>

record cap_path =
  cp_capabilities :: "string list"
  cp_confidence :: rat
  cp_latency_ms :: rat
  cp_fallbacks :: "string list list"

fun default_path :: "intent_type \<Rightarrow> string list" where
  "default_path FETCH = [''auth.validate'', ''data.fetch'', ''format.json'']"
| "default_path CREATE = [''auth.validate'', ''validate.input'', ''data.create'', ''format.json'']"
| "default_path UPDATE = [''auth.validate'', ''validate.input'', ''data.update'', ''format.json'']"
| "default_path DELETE = [''auth.validate'', ''data.delete'', ''format.json'']"
| "default_path ANALYZE = [''auth.validate'', ''data.fetch'', ''analytics.compute'', ''format.json'']"
| "default_path TRANSFORM = [''auth.validate'', ''transform.apply'', ''format.json'']"
| "default_path AGGREGATE = [''auth.validate'', ''data.fetch'', ''analytics.aggregate'', ''format.json'']"
| "default_path FORMAT = [''format.apply'']"
| "default_path VALIDATE = [''validate.input'']"
| "default_path COMPUTE = [''auth.validate'', ''compute.execute'', ''format.json'']"
| "default_path UNKNOWN = []"

text \<open>
  The branches that replace \<open>{resource}\<close> and \<open>{data}\<close> in a capability are never taken, because paths to
  customise come only from the table, and no entry has a placeholder.
\<close>

lemma no_placeholders: "\<forall>c \<in> set (default_path t). CHR ''{'' \<notin> set c"
  by (cases t) simp_all

text \<open>The planner: its router, if it has one, and the custom paths by raw text.\<close>

record 'n path_planner =
  pp_router :: "'n router option"
  pp_custom :: "string list pdict"

definition resolvable :: "'n router \<Rightarrow> string \<Rightarrow> bool" where
  "resolvable r c = (case resolve r c of Inl _ \<Rightarrow> False | Inr _ \<Rightarrow> True)"

definition entity_text :: "(pval \<Rightarrow> string) \<Rightarrow> dict \<Rightarrow> string \<Rightarrow> string" where
  "entity_text show_value es k =
     (case map_of es k of None \<Rightarrow> ''default'' | Some (PStr s) \<Rightarrow> s | Some v \<Rightarrow> show_value v)"

definition variations :: "(pval \<Rightarrow> string) \<Rightarrow> dict \<Rightarrow> string \<Rightarrow> string list" where
  "variations show_value es c =
     [c, c @ ''.'' @ entity_text show_value es ''res'', c @ ''.'' @ entity_text show_value es ''data'']"

definition customize_path :: "(pval \<Rightarrow> string) \<Rightarrow> 'n router option \<Rightarrow> dict \<Rightarrow> string list \<Rightarrow> string list" where
  "customize_path show_value router es path =
     (case router of
        None \<Rightarrow> path
      | Some r \<Rightarrow> List.map_filter (\<lambda>c. find (resolvable r) (variations show_value es c)) path)"

definition unexpected_error_argument :: py_error where
  "unexpected_error_argument =
     TypeError (''CapabilityPath.__init__() got an unexpected keyword argument '' @ [CHR 39] @ ''error'' @ [CHR 39])"

definition plan_path :: "(pval \<Rightarrow> string) \<Rightarrow> nl_intent \<Rightarrow> 'n path_planner \<Rightarrow> py_error + cap_path" where
  "plan_path show_value i p =
     (case map_of (pp_custom p) (ni_raw i) of
        Some cs \<Rightarrow> Inr \<lparr>cp_capabilities = cs, cp_confidence = 1, cp_latency_ms = 0, cp_fallbacks = []\<rparr>
      | None \<Rightarrow>
          if default_path (ni_type i) = [] then Inl unexpected_error_argument
          else Inr \<lparr>cp_capabilities = customize_path show_value (pp_router p) (ni_entities i) (default_path (ni_type i)),
                    cp_confidence = ni_confidence i, cp_latency_ms = 0, cp_fallbacks = []\<rparr>)"

definition register_path :: "string \<Rightarrow> string list \<Rightarrow> 'n path_planner \<Rightarrow> 'n path_planner" where
  "register_path pat cs p = p\<lparr>pp_custom := AList.update pat cs (pp_custom p)\<rparr>"

definition learn_path :: "nl_intent \<Rightarrow> string list \<Rightarrow> bool \<Rightarrow> 'n path_planner \<Rightarrow> 'n path_planner" where
  "learn_path i cs success p =
     (if success \<and> ni_confidence i < 1 then p\<lparr>pp_custom := AList.update (ni_raw i) cs (pp_custom p)\<rparr> else p)"

section \<open>The adaptive planner\<close>

record path_stats =
  ps_total :: nat
  ps_successes :: nat
  ps_latencies :: "rat list"
  ps_success_rate :: rat
  ps_avg_latency :: rat

type_synonym path_history = "path_stats pdict"

definition path_key :: "string list \<Rightarrow> string" where
  "path_key cs = join '' -> '' cs"

definition last_n :: "nat \<Rightarrow> 'a list \<Rightarrow> 'a list" where
  "last_n n xs = drop (length xs - n) xs"

definition record_execution :: "string list \<Rightarrow> bool \<Rightarrow> rat \<Rightarrow> path_history \<Rightarrow> path_history" where
  "record_execution cs success latency h =
     (let old = (case map_of h (path_key cs) of
            Some x \<Rightarrow> x
          | None \<Rightarrow> \<lparr>ps_total = 0, ps_successes = 0, ps_latencies = [], ps_success_rate = 0, ps_avg_latency = 0\<rparr>);
          total = ps_total old + 1;
          wins = (if success then ps_successes old + 1 else ps_successes old);
          lats = last_n 100 (ps_latencies old @ [latency])
      in AList.update (path_key cs)
           \<lparr>ps_total = total, ps_successes = wins, ps_latencies = lats,
            ps_success_rate = of_nat wins / of_nat total,
            ps_avg_latency = sum_list lats / of_nat (length lats)\<rparr> h)"

definition optimize_path :: "cap_path \<Rightarrow> path_history \<Rightarrow> cap_path" where
  "optimize_path p h =
     (case map_of h (path_key (cp_capabilities p)) of
        None \<Rightarrow> p\<lparr>cp_confidence := cp_confidence p * 1, cp_latency_ms := 0\<rparr>
      | Some x \<Rightarrow> p\<lparr>cp_confidence := cp_confidence p * ps_success_rate x, cp_latency_ms := ps_avg_latency x\<rparr>)"

definition adaptive_plan_path ::
    "(pval \<Rightarrow> string) \<Rightarrow> nl_intent \<Rightarrow> 'n path_planner \<Rightarrow> path_history \<Rightarrow> py_error + cap_path" where
  "adaptive_plan_path show_value i p h =
     (case plan_path show_value i p of
        Inl e \<Rightarrow> Inl e
      | Inr path \<Rightarrow> Inr (if cp_capabilities path \<noteq> [] then optimize_path path h else path))"

section \<open>What is planned\<close>

lemma match_word_arg: "match_word w s = Some a \<Longrightarrow> a \<noteq> [] \<and> list_all is_word a"
  by (auto simp: match_word_def Let_def list_all_iff dest: set_takeWhileD split: if_splits)

lemma first_match_arg: "first_match ws s = Some a \<Longrightarrow> a \<noteq> [] \<and> list_all is_word a"
  by (induction ws) (auto dest: match_word_arg split: option.splits)

lemma match_patterns_type:
  "match_patterns ps s = Some (g, a, t) \<Longrightarrow> (\<exists>ws. (ws, g, t) \<in> set ps) \<and> a \<noteq> [] \<and> list_all is_word a"
  by (induction ps s rule: match_patterns.induct) (auto dest: first_match_arg split: option.splits)

lemma parse_known:
  "ni_type (parse s) \<noteq> UNKNOWN \<longleftrightarrow> match_patterns patterns (strip s) \<noteq> None"
proof (cases "match_patterns patterns (strip s)")
  case (Some x)
  obtain g a t where x: "x = (g, a, t)" by (cases x)
  with match_patterns_type Some have "\<exists>ws. (ws, g, t) \<in> set patterns" by blast
  then have "t \<noteq> UNKNOWN" by (auto simp: patterns_def)
  with Some x show ?thesis by (simp add: parse_def Let_def)
qed (simp add: parse_def Let_def)

lemma default_path_empty [simp]: "default_path t = [] \<longleftrightarrow> t = UNKNOWN"
  by (cases t) simp_all

lemma find_holds: "find P xs = Some x \<Longrightarrow> P x"
  by (auto simp: find_Some_iff)

lemma customized_resolves:
  "router = Some r \<Longrightarrow> c \<in> set (customize_path show_value router es path) \<Longrightarrow> resolvable r c"
  by (auto simp: customize_path_def List.map_filter_def dest: find_holds)

text \<open>
  Note: For every text, the planner either answers with a path of capabilities that its router can resolve, under
  the confidence of a matched pattern, or, when no pattern matches and no custom path is registered, it
  does not report that there is no path but fails with a \<open>TypeError\<close>.
\<close>

theorem planned_path_resolves_or_crashes:
  assumes "pp_router p = Some r" "map_of (pp_custom p) (strip s) = None"
  shows "case plan_path show_value (parse s) p of
      Inl e \<Rightarrow> e = unexpected_error_argument \<and> match_patterns patterns (strip s) = None
    | Inr path \<Rightarrow> match_patterns patterns (strip s) \<noteq> None \<and> cp_confidence path = 9 / 10 \<and>
        (\<forall>c \<in> set (cp_capabilities path). resolvable r c)"
proof -
  have raw: "ni_raw (parse s) = strip s" by (simp add: parse_def Let_def split: option.splits prod.splits)
  show ?thesis
  proof (cases "match_patterns patterns (strip s)")
    case None
    with assms raw parse_known [of s] show ?thesis by (simp add: plan_path_def)
  next
    case (Some x)
    then have "ni_confidence (parse s) = 9 / 10" by (simp add: parse_def Let_def split: prod.splits)
    with Some assms raw parse_known [of s] customized_resolves [OF assms(1)] show ?thesis
      by (auto simp: plan_path_def)
  qed
qed

definition demo_path_planner :: "unit path_planner" where
  "demo_path_planner = \<lparr>pp_router = Some (register ''data.fetch'' () 0 [] new_router), pp_custom = []\<rparr>"

theorem planned_path_resolves_or_crashes_witness:
  "plan_path (\<lambda>_. []) (parse ''summarize sales data'') demo_path_planner = Inl unexpected_error_argument"
proof -
  have s: "strip ''summarize sales data'' = ''summarize sales data''" by (simp add: strip_def is_space_def)
  have none: "match_patterns patterns ''summarize sales data'' = None"
    by (simp add: patterns_def match_word_def starts_with_def lower_def lower_char_def is_space_def Let_def)
  have "pp_router demo_path_planner = Some (register ''data.fetch'' () 0 [] new_router)"
    "map_of (pp_custom demo_path_planner) (strip ''summarize sales data'') = None"
    by (simp_all add: demo_path_planner_def)
  from planned_path_resolves_or_crashes [OF this, of "\<lambda>_. []"] show ?thesis
    unfolding s none by (auto split: sum.splits)
qed

section \<open>What is learned\<close>

definition stats_ok :: "path_stats \<Rightarrow> bool" where
  "stats_ok x \<longleftrightarrow>
     0 < ps_total x \<and> ps_successes x \<le> ps_total x \<and> ps_latencies x \<noteq> [] \<and> length (ps_latencies x) \<le> 100 \<and>
     0 \<le> ps_success_rate x \<and> ps_success_rate x \<le> 1 \<and>
     ps_avg_latency x = sum_list (ps_latencies x) / of_nat (length (ps_latencies x))"

definition history_ok :: "path_history \<Rightarrow> bool" where
  "history_ok h = (\<forall>k x. map_of h k = Some x \<longrightarrow> stats_ok x)"

definition execution_step :: "string list \<times> bool \<times> rat \<Rightarrow> path_history \<Rightarrow> path_history" where
  "execution_step e h = (case e of (cs, success, latency) \<Rightarrow> record_execution cs success latency h)"

lemma history_step: "history_ok h \<Longrightarrow> history_ok (execution_step e h)"
proof -
  assume h: "history_ok h"
  obtain cs success latency where e: "e = (cs, success, latency)" by (cases e)
  have ok: "stats_ok (the (map_of (execution_step e h) (path_key cs)))"
  proof (cases "map_of h (path_key cs)")
    case None
    then show ?thesis
      by (simp add: stats_ok_def e execution_step_def record_execution_def map_of_update last_n_def Let_def)
  next
    case (Some x)
    with h have "ps_successes x \<le> ps_total x" by (auto simp: history_ok_def stats_ok_def)
    then have "(of_nat (ps_successes x) :: rat) \<le> of_nat (ps_total x)"
      "(of_nat (ps_successes x) :: rat) \<le> 1 + of_nat (ps_total x)" by simp_all
    with Some \<open>ps_successes x \<le> ps_total x\<close> show ?thesis
      by (simp add: stats_ok_def e execution_step_def record_execution_def map_of_update last_n_def Let_def
          add_nonneg_pos)
  qed
  then show ?thesis
    using h by (auto simp: history_ok_def e execution_step_def record_execution_def map_of_update Let_def)
qed

interpretation history: invariant_machine execution_step "\<lambda>_ _. True" history_ok
  by unfold_locales (rule history_step)

text \<open>Learning only lowers the confidence of a path, and keeps it between nothing and what it was.\<close>

lemma adaptive_confidence:
  assumes "history_ok h" "plan_path show_value i p = Inr path" "adaptive_plan_path show_value i p h = Inr path'"
    and "0 \<le> cp_confidence path"
  shows "cp_capabilities path' = cp_capabilities path \<and> 0 \<le> cp_confidence path' \<and>
    cp_confidence path' \<le> cp_confidence path"
  using assms
  by (auto simp: adaptive_plan_path_def optimize_path_def history_ok_def stats_ok_def mult_left_le
      split: option.splits if_splits)

end
