(* ===== verification/HttpServer.thy ===== *)
theory HttpServer
  imports Engine Errors
begin

text \<open>
  The HTTP server (\<open>src/server.py\<close>) and the nodes that it shares with the benches
  (\<open>src/src/prismpipe/bench_nodes.py\<close>): the demonstration nodes, and the catch-all route that turns an HTTP
  request into an envelope and the state of the result into a response.
\<close>

section \<open>Nodes\<close>

definition got :: "dict \<Rightarrow> string \<Rightarrow> pval \<Rightarrow> pval" where
  "got d k v = (case map_of d k of Some x \<Rightarrow> x | None \<Rightarrow> v)"

definition no_method :: "envelope \<Rightarrow> string \<Rightarrow> outcome" where
  "no_method e m = Raised e ''AttributeError'' (''object has no attribute '' @ quoted m)"

text \<open>\<open>value.get(k, default)\<close>, then the rest of the node; anything but a dictionary has no \<open>get\<close>.\<close>

definition with_get :: "envelope \<Rightarrow> pval \<Rightarrow> string \<Rightarrow> pval \<Rightarrow> (pval \<Rightarrow> outcome) \<Rightarrow> outcome" where
  "with_get e v k d rest = (case v of PDict x \<Rightarrow> rest (got x k d) | _ \<Rightarrow> no_method e ''get'')"

definition goes_to :: "string option \<Rightarrow> envelope \<Rightarrow> outcome" where
  "goes_to c e = Returned (ok_result (set_next c e))"

definition auth_process :: "envelope \<Rightarrow> outcome" where
  "auth_process e =
     with_get e (env_input e) ''headers'' (PDict []) (\<lambda>headers.
     with_get e headers ''Authorization'' (PStr []) (\<lambda>token.
       if truthy token
       then goes_to (Some ''route.request'')
              (set_state ''authenticated'' (PBool True)
                (set_state ''user'' (PDict [(''id'', PStr ''user_123''),
                   (''permissions'', PList [PStr ''read'', PStr ''write'']), (''tier'', PStr ''premium'')]) e))
       else goes_to (Some ''response.unauthorized'') (set_state ''authenticated'' (PBool False) e)))"

definition route_process :: "envelope \<Rightarrow> outcome" where
  "route_process e =
     with_get e (env_input e) ''path'' (PStr ''/'') (\<lambda>path.
       case path of
         PStr p \<Rightarrow>
           goes_to (Some (if starts_with ''/users'' p then ''users.list''
                          else if starts_with ''/models'' p then ''models.list''
                          else if starts_with ''/analytics'' p then ''analytics.compute''
                          else ''response.not_found'')) e
       | _ \<Rightarrow> no_method e ''startswith'')"

definition users_process :: "envelope \<Rightarrow> outcome" where
  "users_process e =
     goes_to (Some ''response.success'') (set_state ''users''
       (PList [PDict [(''id'', PStr ''1''), (''name'', PStr ''Alice''), (''email'', PStr ''alice@deepiri.ai'')],
               PDict [(''id'', PStr ''2''), (''name'', PStr ''Bob''), (''email'', PStr ''bob@deepiri.ai'')]]) e)"

definition models_process :: "envelope \<Rightarrow> outcome" where
  "models_process e =
     goes_to (Some ''response.success'') (set_state ''models''
       (PList [PDict [(''id'', PStr ''llama-3-70b''), (''name'', PStr ''Llama 3 70B''), (''provider'', PStr ''meta'')]]) e)"

text \<open>\<open>int(v)\<close>; how texts are read is an argument.\<close>

definition int_of :: "(string \<Rightarrow> int option) \<Rightarrow> pval \<Rightarrow> string \<times> string + int" where
  "int_of read v =
     (case v of
        PInt i \<Rightarrow> Inr i
      | PBool b \<Rightarrow> Inr (if b then 1 else 0)
      | PFloat (Fin x) \<Rightarrow> Inr (if 0 \<le> x then \<lfloor>x\<rfloor> else \<lceil>x\<rceil>)
      | PFloat NaN \<Rightarrow> Inl (''ValueError'', ''cannot convert float NaN to integer'')
      | PFloat _ \<Rightarrow> Inl (''OverflowError'', ''cannot convert float infinity to integer'')
      | PStr s \<Rightarrow> (case read s of Some i \<Rightarrow> Inr i | None \<Rightarrow> Inl (''ValueError'', ''invalid literal for int() with base 10''))
      | _ \<Rightarrow> Inl (''TypeError'', ''int() argument must be a string, a bytes-like object or a real number''))"

definition with_int :: "(string \<Rightarrow> int option) \<Rightarrow> envelope \<Rightarrow> pval \<Rightarrow> (int \<Rightarrow> outcome) \<Rightarrow> outcome" where
  "with_int read e v rest = (case int_of read v of Inl (ty, m) \<Rightarrow> Raised e ty m | Inr i \<Rightarrow> rest i)"

definition analytics_process :: "(string \<Rightarrow> int option) \<Rightarrow> envelope \<Rightarrow> outcome" where
  "analytics_process read e =
     with_get e (env_input e) ''body'' (PDict []) (\<lambda>body.
     with_get e (env_input e) ''n'' (PInt 1) (\<lambda>outer.
     with_get e body ''n'' outer (\<lambda>v.
     with_int read e v (\<lambda>n.
       goes_to (Some ''response.success'')
         (set_state ''analytics'' (PDict [(''n'', PInt n), (''score'', PInt (n * 2))]) e)))))"

definition http_answer :: "int \<Rightarrow> dict \<Rightarrow> dict \<Rightarrow> pval" where
  "http_answer code body headers =
     PDict [(''status_code'', PInt code), (''body'', PDict body), (''headers'', PDict headers)]"

definition data_keys :: "string list" where
  "data_keys = [''users'', ''models'', ''analytics'', ''result'']"

definition success_process :: "envelope \<Rightarrow> outcome" where
  "success_process e =
     (let data = List.map_filter (\<lambda>k. map_option (\<lambda>v. (k, v)) (map_of (env_state e) k)) data_keys
      in goes_to None (set_state ''http_response''
           (http_answer 200 [(''success'', PBool True), (''data'', PDict data)]
              [(''X-Content-Type-Options'', PStr ''nosniff'')]) e))"

definition unauthorized_answer :: pval where
  "unauthorized_answer = http_answer 401 [(''error'', PStr ''Unauthorized''), (''code'', PStr ''AUTH_REQUIRED'')] []"

definition unauthorized_process :: "envelope \<Rightarrow> outcome" where
  "unauthorized_process e = goes_to None (set_state ''http_response'' unauthorized_answer e)"

definition not_found_process :: "envelope \<Rightarrow> outcome" where
  "not_found_process e =
     goes_to None (set_state ''http_response''
       (http_answer 404 [(''error'', PStr ''Not Found''), (''code'', PStr ''ROUTE_NOT_FOUND'')] []) e)"

definition bench_compute_process :: "(string \<Rightarrow> int option) \<Rightarrow> envelope \<Rightarrow> outcome" where
  "bench_compute_process read e =
     with_get e (env_input e) ''n'' (PInt 1) (\<lambda>v.
     with_int read e v (\<lambda>n. goes_to None (set_state ''result'' (PInt (n * 2)) e)))"

text \<open>\<open>sum\<close> of a list of numbers; sums with an infinite or undefined float follow IEEE.\<close>

fun float_add :: "pyfloat \<Rightarrow> pyfloat \<Rightarrow> pyfloat" where
  "float_add (Fin x) (Fin y) = Fin (x + y)"
| "float_add NaN y = NaN"
| "float_add x NaN = NaN"
| "float_add PosInf NegInf = NaN"
| "float_add NegInf PosInf = NaN"
| "float_add PosInf y = PosInf"
| "float_add x PosInf = PosInf"
| "float_add NegInf y = NegInf"
| "float_add x NegInf = NegInf"

fun py_add :: "pval \<Rightarrow> pval \<Rightarrow> pval option" where
  "py_add (PFloat x) (PFloat y) = Some (PFloat (float_add x y))"
| "py_add (PFloat x) v = map_option (\<lambda>q. PFloat (float_add x (Fin q))) (num_of v)"
| "py_add v (PFloat y) = map_option (\<lambda>q. PFloat (float_add (Fin q) y)) (num_of v)"
| "py_add v w = (case (num_of v, num_of w) of (Some x, Some y) \<Rightarrow> Some (PInt \<lfloor>x + y\<rfloor>) | _ \<Rightarrow> None)"

fun sum_values :: "pval \<Rightarrow> pval list \<Rightarrow> pval option" where
  "sum_values acc [] = Some acc"
| "sum_values acc (v # vs) = (case py_add acc v of None \<Rightarrow> None | Some acc' \<Rightarrow> sum_values acc' vs)"

definition partition_sum_process :: "envelope \<Rightarrow> outcome" where
  "partition_sum_process e =
     with_get e (env_input e) ''partition_data'' (PList []) (\<lambda>data.
       case data of
         PList xs \<Rightarrow>
           (case sum_values (PInt 0) xs of
              None \<Rightarrow> Raised e ''TypeError'' ''unsupported operand type(s) for +''
            | Some v \<Rightarrow> goes_to None (set_state ''partition_result'' v e))
       | _ \<Rightarrow> goes_to None (set_state ''partition_result'' (PInt 0) e))"

definition branch_process :: "string \<Rightarrow> envelope \<Rightarrow> outcome" where
  "branch_process p e = goes_to None (set_state ''path'' (PStr p) e)"

definition plain_node :: "string \<Rightarrow> bool \<Rightarrow> string \<Rightarrow> (envelope \<Rightarrow> outcome) \<Rightarrow> node" where
  "plain_node type offload c f =
     \<lparr>nd_id = c, nd_type = type, nd_capability = c, nd_timeout_ms = None, nd_offload = offload, nd_process = f\<rparr>"

definition http_nodes :: "(string \<Rightarrow> int option) \<Rightarrow> node list" where
  "http_nodes read =
     [plain_node ''AuthNode'' True ''auth.validate'' auth_process,
      plain_node ''RouteNode'' True ''route.request'' route_process,
      plain_node ''UsersListNode'' True ''users.list'' users_process,
      plain_node ''ModelsListNode'' True ''models.list'' models_process,
      plain_node ''AnalyticsNode'' True ''analytics.compute'' (analytics_process read),
      plain_node ''ResponseSuccessNode'' True ''response.success'' success_process,
      plain_node ''ResponseUnauthorizedNode'' True ''response.unauthorized'' unauthorized_process,
      plain_node ''ResponseNotFoundNode'' True ''response.not_found'' not_found_process,
      plain_node ''BenchComputeNode'' False ''bench.compute'' (bench_compute_process read),
      plain_node ''PartitionSumNode'' False ''bench.partition_sum'' partition_sum_process]"

definition register_all :: "node list \<Rightarrow> prism \<Rightarrow> prism" where
  "register_all nds pe = fold (\<lambda>nd. register_node nd None None) nds pe"

section \<open>The catch-all route\<close>

record http_request =
  hr_method :: string
  hr_path :: string
  hr_query :: dict
  hr_headers :: dict
  hr_body :: pval

definition request_envelope :: "string \<Rightarrow> http_request \<Rightarrow> envelope" where
  "request_envelope uid r =
     \<lparr>env_id = ''req_'' @ uid, env_intent = HTTP_REQUEST,
      env_input = PDict [(''method'', PStr (hr_method r)), (''path'', PStr (CHR ''/'' # hr_path r)),
        (''query_params'', PDict (hr_query r)), (''headers'', PDict (hr_headers r)), (''body'', hr_body r)],
      env_state = [], env_history = [], env_metadata = empty_metadata, env_plan = empty_plan,
      env_next = Some ''auth.validate'', env_error = None, env_terminated = False, env_parent_id = None\<rparr>"

record http_response =
  rs_status :: pval
  rs_body :: pval
  rs_headers :: pval

definition response_of :: "dict \<Rightarrow> http_response" where
  "response_of st =
     (let d = (case map_of st ''http_response'' of Some (PDict x) \<Rightarrow> x | _ \<Rightarrow> [])
      in \<lparr>rs_status = got d ''status_code'' (PInt 200), rs_body = got d ''body'' (PDict [(''ok'', PBool True)]),
          rs_headers = got d ''headers'' (PDict [])\<rparr>)"

definition server_error :: "string \<Rightarrow> http_response" where
  "server_error request_id =
     \<lparr>rs_status = PInt 500,
      rs_body = PDict [(''detail'', PStr ''Internal Server Error''), (''request_id'', PStr request_id)],
      rs_headers = PDict [(''X-Request-ID'', PStr request_id)]\<rparr>"

text \<open>\<open>add_request_id\<close>: a header of fewer than a hundred characters, or a fresh identifier.\<close>

definition request_id_of :: "string option \<Rightarrow> string \<Rightarrow> string" where
  "request_id_of header fresh =
     (case header of Some h \<Rightarrow> if h \<noteq> [] \<and> length h < 100 then h else fresh | None \<Rightarrow> fresh)"

text \<open>\<open>None\<close> is a request that never returns.\<close>

definition handle_request :: "eio \<Rightarrow> string \<Rightarrow> string \<Rightarrow> http_request \<Rightarrow> prism \<Rightarrow> (http_response \<times> prism) option" where
  "handle_request io uid request_id r pe =
     map_option (\<lambda>(res, pe').
         (case res of Inl err \<Rightarrow> server_error request_id | Inr e \<Rightarrow> response_of (env_state e), pe'))
       (engine_execute io (request_envelope uid r) pe)"

section \<open>What clients see\<close>

definition serves :: "prism \<Rightarrow> node \<Rightarrow> bool" where
  "serves pe nd \<longleftrightarrow>
     resolve (pe_router pe) (nd_capability nd) = Inr nd \<and> \<not> is_remote (nd_capability nd) (pe_remote pe)"

lemma serves_diffs [simp]: "serves (pe\<lparr>pe_diffs := ds\<rparr>) nd = serves pe nd"
  by (simp add: serves_def)

text \<open>One pass of the engine over a node that hands on, in an envelope without a plan.\<close>

lemma plain_step:
  assumes "serves pe (plain_node ty off c f)" "c \<noteq> []" "\<not> starts_with cap_prefix c"
    and "env_next e = Some c" "\<not> env_terminated e" "env_plan e = empty_plan"
    and "f e = goes_to nxt e1" "\<not> env_terminated e1" "env_plan e1 = empty_plan"
  shows "\<exists>e2 ds. engine_step io start t e pe = ENext e2 (pe\<lparr>pe_diffs := ds\<rparr>) \<and>
    env_state e2 = env_state e1 \<and> env_input e2 = env_input e1 \<and> env_next e2 = nxt \<and>
    \<not> env_terminated e2 \<and> env_plan e2 = empty_plan \<and> env_history e2 \<noteq> []"
proof -
  let ?nd = "plain_node ty off c f"
  let ?res = "finalize_result (ei_rt io) t ?nd (ok_result (set_next nxt e1))"
  have ex: "node_execute (ei_rt io) t ?nd e = Inr ?res"
    using assms(7)
    by (simp add: node_execute_def execute_with_timeout_def effective_timeout_def execute_sync_def plain_node_def
        goes_to_def)
  have r: "env_state (res_envelope ?res) = env_state e1" "env_input (res_envelope ?res) = env_input e1"
    "env_next (res_envelope ?res) = nxt" "\<not> env_terminated (res_envelope ?res)"
    "env_plan (res_envelope ?res) = empty_plan" "env_history (res_envelope ?res) \<noteq> []"
    using assms(8,9) by (simp_all add: finalize_result_def ok_result_def set_next_def env_record_def Let_def)
  have "follow_plan (res_envelope ?res) = res_envelope ?res"
    using r(5) by (simp add: follow_plan_def empty_plan_def)
  then have "engine_step io start t e pe = ENext (res_envelope ?res)
      (pe\<lparr>pe_diffs := record_diff (res_envelope ?res) (compute_diff (res_envelope ?res) start) (pe_diffs pe)\<rparr>)"
    using assms(1-6) ex
    by (simp add: engine_step_def get_capability_def hop_capability_plain serves_def plain_node_def Let_def)
  with r show ?thesis by blast
qed

lemma not_prefixed [simp]:
  "\<not> starts_with cap_prefix ''auth.validate''" "\<not> starts_with cap_prefix ''response.unauthorized''"
  by (simp_all add: starts_with_def cap_prefix_def)

lemma unauthenticated_run:
  assumes "serves pe (plain_node t1 o1 ''auth.validate'' auth_process)"
    and "serves pe (plain_node t2 o2 ''response.unauthorized'' unauthorized_process)"
    and "got (hr_headers r) ''Authorization'' (PStr []) = PStr []"
  shows "\<exists>e ds t. engine_loop io start 0 (request_envelope uid r) pe = Some (None, e, pe\<lparr>pe_diffs := ds\<rparr>, t) \<and>
    map_of (env_state e) ''http_response'' = Some unauthorized_answer \<and> env_history e \<noteq> [] \<and>
    env_input e = env_input (request_envelope uid r)"
proof -
  let ?e = "request_envelope uid r"
  have "auth_process ?e = goes_to (Some ''response.unauthorized'') (set_state ''authenticated'' (PBool False) ?e)"
    using assms(3) by (simp add: auth_process_def with_get_def request_envelope_def got_def)
  from plain_step [OF assms(1) _ _ _ _ _ this, of io start 0] obtain e1 ds1 where
    s1: "engine_step io start 0 ?e pe = ENext e1 (pe\<lparr>pe_diffs := ds1\<rparr>)"
    "env_input e1 = env_input ?e" "env_next e1 = Some ''response.unauthorized''" "\<not> env_terminated e1"
    "env_plan e1 = empty_plan"
    by (auto simp: request_envelope_def set_state_def)
  have "unauthorized_process e1 = goes_to None (set_state ''http_response'' unauthorized_answer e1)"
    by (simp add: unauthorized_process_def)
  from plain_step [where pe = "pe\<lparr>pe_diffs := ds1\<rparr>" and ty = t2 and off = o2 and c = "''response.unauthorized''"
      and f = unauthorized_process and e = e1 and nxt = None and io = io and start = start and t = 1
      and ?e1.0 = "set_state ''http_response'' unauthorized_answer e1"] this assms(2) s1(2-5)
  obtain e2 ds2 where
    s2: "engine_step io start 1 e1 (pe\<lparr>pe_diffs := ds1\<rparr>) = ENext e2 (pe\<lparr>pe_diffs := ds2\<rparr>)"
    "map_of (env_state e2) ''http_response'' = Some unauthorized_answer" "env_history e2 \<noteq> []"
    "env_input e2 = env_input ?e" "env_next e2 = None"
    by (auto simp: set_state_def dict_simps)
  have "engine_step io start 2 e2 (pe\<lparr>pe_diffs := ds2\<rparr>) = EDone e2 (pe\<lparr>pe_diffs := ds2\<rparr>)"
    using s2(5) by (simp add: engine_step_def)
  then have "engine_loop io start 0 ?e pe = Some (None, e2, pe\<lparr>pe_diffs := ds2\<rparr>, 2)"
    using s1(1) s2(1) by (subst engine_loop.simps, simp, subst engine_loop.simps, simp, subst engine_loop.simps)
      (simp add: numeral_2_eq_2)
  with s2 show ?thesis by blast
qed

definition has_lower_keys :: "dict \<Rightarrow> bool" where
  "has_lower_keys d = list_all (\<lambda>(k, v). lower k = k) d"

lemma lower_authorization: "lower ''Authorization'' \<noteq> ''Authorization''"
  by code_simp

lemma lower_keys_hide_token: "has_lower_keys d \<Longrightarrow> got d ''Authorization'' v = v"
  using lower_authorization
  by (auto simp: has_lower_keys_def got_def list_all_iff split: option.splits dest!: map_of_SomeD)

text \<open>
  C11: On a fresh engine the catch-all route never lets anybody in, and then lets everybody in. The web framework
  gives header names in lower case, but the token is looked up under a capitalised name, so the first
  request gets status 401 whatever token it carries. Its envelope is then cached for its intent, so that
  every later request, authorised or not, for any path and with any method, is answered with status 200 and
  no data, without reaching a node.
\<close>

theorem first_request_refused_then_all_accepted:
  assumes "\<forall>nd \<in> set (http_nodes read). serves pe nd" "pe_semantic pe = new_sem_cache"
    and "has_lower_keys (hr_headers r)"
  shows "\<exists>pe1. handle_request io uid rid r pe = Some (response_of [(''http_response'', unauthorized_answer)], pe1) \<and>
    (\<forall>uid' rid' r'. handle_request io uid' rid' r' pe1 =
      Some (\<lparr>rs_status = PInt 200, rs_body = PDict [(''ok'', PBool True)], rs_headers = PDict []\<rparr>, pe1))"
proof -
  let ?e = "request_envelope uid r"
  have nds: "serves pe (plain_node ''AuthNode'' True ''auth.validate'' auth_process)"
    "serves pe (plain_node ''ResponseUnauthorizedNode'' True ''response.unauthorized'' unauthorized_process)"
    using assms(1) by (simp_all add: http_nodes_def)
  obtain e ds t where run: "engine_loop io [] 0 ?e pe = Some (None, e, pe\<lparr>pe_diffs := ds\<rparr>, t)"
    "map_of (env_state e) ''http_response'' = Some unauthorized_answer" "env_history e \<noteq> []"
    using unauthenticated_run [OF nds lower_keys_hide_token [OF assms(3)]] by blast
  define pe1 where "pe1 = remember io t ''http_request'' e (pe\<lparr>pe_diffs := ds\<rparr>)"
  have none: "sem_get (ei_hash io) ''http_request'' (env_input ?e) (pe_semantic pe) = None"
    by (simp add: assms(2) sem_get_def new_sem_cache_def)
  have "engine_execute io ?e pe = Some (Inr e, pe1)"
    using none run(1) by (simp add: engine_execute_def request_envelope_def pe1_def)
  then have first: "handle_request io uid rid r pe = Some (response_of [(''http_response'', unauthorized_answer)], pe1)"
    using run(2) by (simp add: handle_request_def response_of_def)
  have "words (lower ''http_request'') \<noteq> []"
    by (simp add: words_def lower_def lower_char_def is_space_def Let_def)
  from semantic_cache_ignores_input [OF this] have
    hit: "sem_get (ei_hash io) ''http_request'' v (pe_semantic pe1) \<noteq> None" for v
    using run(3) by (simp add: pe1_def remember_def)
  have "handle_request io uid' rid' r' pe1 =
      Some (\<lparr>rs_status = PInt 200, rs_body = PDict [(''ok'', PBool True)], rs_headers = PDict []\<rparr>, pe1)"
    for uid' rid' r'
  proof -
    obtain x where "sem_get (ei_hash io) ''http_request'' (env_input (request_envelope uid' r')) (pe_semantic pe1) = Some x"
      using hit by blast
    then have "engine_execute io (request_envelope uid' r') pe1 = Some (Inr (answer_from x (request_envelope uid' r')), pe1)"
      by (simp add: engine_execute_def) (simp add: request_envelope_def)
    then show ?thesis
      by (simp add: handle_request_def response_of_def answer_from_def request_envelope_def got_def)
  qed
  with first show ?thesis by blast
qed

definition demo_server :: prism where
  "demo_server = register_all (http_nodes (\<lambda>s. None))
     (new_prism (new_graph 10 30 3 [] [] False) (new_executor new_watcher False None))"

definition demo_request :: http_request where
  "demo_request = \<lparr>hr_method = ''GET'', hr_path = ''users'', hr_query = [],
     hr_headers = [(''authorization'', PStr ''Bearer x'')], hr_body = PDict []\<rparr>"

lemma first_request_refused_then_all_accepted_witness:
  "\<exists>pe1. handle_request demo_eio ''1'' ''a'' demo_request demo_server =
      Some (response_of [(''http_response'', unauthorized_answer)], pe1) \<and>
    (\<forall>uid' rid' r'. handle_request demo_eio uid' rid' r' pe1 =
      Some (\<lparr>rs_status = PInt 200, rs_body = PDict [(''ok'', PBool True)], rs_headers = PDict []\<rparr>, pe1))"
proof (rule first_request_refused_then_all_accepted)
  show "\<forall>nd \<in> set (http_nodes (\<lambda>s. None)). serves demo_server nd"
    by (auto simp: serves_def demo_server_def register_all_def http_nodes_def plain_node_def register_node_def
        new_prism_def router_defs new_router_def is_remote_def new_remote_executor_def Let_def)
  show "pe_semantic demo_server = new_sem_cache"
    by (simp add: demo_server_def register_all_def http_nodes_def register_node_def new_prism_def Let_def)
  show "has_lower_keys (hr_headers demo_request)"
    by code_simp
qed

end
