(* ===== verification/PlatformNodes.thy ===== *)
theory PlatformNodes
  imports HttpServer Text_Util Results
begin

text \<open>
  The nodes that probe the platform's services (\<open>src/src/prismpipe/deepiri_nodes.py\<close>): the health chains over
  the authentication, language and Cyrex services, their report, and the bootstrap of a session. The
  environment, the HTTP exchange and how numbers are read and values printed are arguments. The two
  requests that the code sends in parallel are independent, so that only their results appear here.
\<close>

section \<open>Requests\<close>

datatype http_reply = HttpReply int "pval option" string | HttpRaised string

record platform =
  pl_env :: "string \<Rightarrow> string option"
  pl_float :: "string \<Rightarrow> rat option"
  pl_str :: "pval \<Rightarrow> string"
  pl_http :: "string \<Rightarrow> string \<Rightarrow> dict \<Rightarrow> rat \<Rightarrow> http_reply"

definition rstrip_char :: "char \<Rightarrow> string \<Rightarrow> string" where
  "rstrip_char c s = rev (dropWhile (\<lambda>x. x = c) (rev s))"

definition getenv :: "platform \<Rightarrow> string \<Rightarrow> string \<Rightarrow> string" where
  "getenv pl n d = (case pl_env pl n of Some v \<Rightarrow> v | None \<Rightarrow> d)"

definition env_url :: "platform \<Rightarrow> string \<Rightarrow> string \<Rightarrow> string" where
  "env_url pl n d = rstrip_char CHR ''/'' (getenv pl n d)"

definition env_float :: "platform \<Rightarrow> string \<Rightarrow> string \<Rightarrow> py_error + rat" where
  "env_float pl n d =
     (case pl_float pl (getenv pl n d) of
        Some x \<Rightarrow> Inr x
      | None \<Rightarrow> Inl (ValueError (''could not convert string to float: '' @ quoted (getenv pl n d))))"

definition probe_result :: "bool \<Rightarrow> int \<Rightarrow> pval \<Rightarrow> string \<Rightarrow> pval" where
  "probe_result ok code body url =
     PDict [(''ok'', PBool ok), (''status_code'', PInt code), (''body'', body), (''url'', PStr url)]"

definition read_reply :: "string \<Rightarrow> http_reply \<Rightarrow> pval" where
  "read_reply url x =
     (case x of
        HttpReply code json raw \<Rightarrow>
          probe_result (200 \<le> code \<and> code < 300) code
            (case json of Some v \<Rightarrow> v | None \<Rightarrow> PDict [(''raw'', PStr (take 500 raw))]) url
      | HttpRaised m \<Rightarrow> probe_result False 0 (PDict [(''error'', PStr m)]) url)"

text \<open>A missing timeout is read from the environment, before the \<open>try\<close>.\<close>

definition http_request_json ::
    "platform \<Rightarrow> string \<Rightarrow> string \<Rightarrow> dict \<Rightarrow> rat option \<Rightarrow> py_error + pval" where
  "http_request_json pl method url headers timeout =
     bindE (case timeout of Some t \<Rightarrow> Inr t | None \<Rightarrow> env_float pl ''DEEPIRI_PROBE_TIMEOUT_S'' ''0.8'')
       (\<lambda>t. Inr (read_reply url (pl_http pl method url headers t)))"

definition http_get_json :: "platform \<Rightarrow> string \<Rightarrow> rat option \<Rightarrow> py_error + pval" where
  "http_get_json pl url timeout = http_request_json pl ''GET'' url [] timeout"

definition auth_base :: "platform \<Rightarrow> string" where
  "auth_base pl = env_url pl ''AUTH_SERVICE_URL'' ''http://auth-service:5001''"

definition lis_base :: "platform \<Rightarrow> string" where
  "lis_base pl = env_url pl ''LANGUAGE_INTELLIGENCE_SERVICE_URL'' ''http://language-intelligence-service:5003''"

section \<open>Health\<close>

text \<open>The result of a computation that may raise, as the outcome of a node.\<close>

definition exn_type :: "py_error \<Rightarrow> string" where
  "exn_type x = (case x of ValueError _ \<Rightarrow> ''ValueError'' | TypeError _ \<Rightarrow> ''TypeError'' | _ \<Rightarrow> ''Exception'')"

definition raising :: "envelope \<Rightarrow> py_error + 'a \<Rightarrow> ('a \<Rightarrow> outcome) \<Rightarrow> outcome" where
  "raising e r rest = (case r of Inl x \<Rightarrow> Raised e (exn_type x) (exn_str (\<lambda>_. []) x) | Inr v \<Rightarrow> rest v)"

definition auth_health_process :: "platform \<Rightarrow> envelope \<Rightarrow> outcome" where
  "auth_health_process pl e =
     raising e (http_get_json pl (auth_base pl @ ''/health'') None) (\<lambda>v.
       goes_to (Some ''deepiri.lis.health'') (set_state ''auth_health'' v e))"

definition lis_health_process :: "platform \<Rightarrow> envelope \<Rightarrow> outcome" where
  "lis_health_process pl e =
     raising e (http_get_json pl (lis_base pl @ ''/health'') None) (\<lambda>v.
       goes_to (Some ''deepiri.cyrex.health'') (set_state ''lis_health'' v e))"

definition parallel_health_process :: "platform \<Rightarrow> envelope \<Rightarrow> outcome" where
  "parallel_health_process pl e =
     raising e (http_get_json pl (auth_base pl @ ''/health'') None) (\<lambda>a.
       let e1 = set_state ''auth_health'' a e in
       raising e1 (http_get_json pl (lis_base pl @ ''/health'') None) (\<lambda>l.
         goes_to (Some ''deepiri.cyrex.health'') (set_state ''lis_health'' l e1)))"

definition cyrex_off :: "string \<Rightarrow> bool" where
  "cyrex_off raw \<longleftrightarrow> raw = [] \<or> lower raw \<in> {''-'', ''none'', ''off'', ''disabled''}"

definition cyrex_health :: "platform \<Rightarrow> py_error + pval" where
  "cyrex_health pl =
     (let raw = strip (getenv pl ''CYREX_URL'' ''http://cyrex:8000'')
      in if cyrex_off raw
         then Inr (probe_result False 0 (PDict [(''skipped'', PBool True), (''reason'', PStr ''CYREX_URL unset'')]) [])
         else bindE (env_float pl ''DEEPIRI_CYREX_PROBE_TIMEOUT_S'' ''0.5'') (\<lambda>t.
           http_get_json pl (rstrip_char CHR ''/'' raw @ ''/health'') (Some t)))"

definition cyrex_health_process :: "platform \<Rightarrow> envelope \<Rightarrow> outcome" where
  "cyrex_health_process pl e =
     raising e (cyrex_health pl) (\<lambda>v. goes_to (Some ''deepiri.aggregate'') (set_state ''cyrex_health'' v e))"

text \<open>\<open>p.get("ok")\<close> of every probe; \<open>None\<close> when a probe is not a dictionary.\<close>

definition probe_ok :: "pval \<Rightarrow> bool option" where
  "probe_ok v = (case v of PDict d \<Rightarrow> Some (truthy (got d ''ok'' PNone)) | _ \<Rightarrow> None)"

definition health_report :: "pval \<Rightarrow> pval \<Rightarrow> pval \<Rightarrow> pval option" where
  "health_report a l c =
     (case (probe_ok a, probe_ok l, probe_ok c) of
        (Some oa, Some ol, Some oc) \<Rightarrow>
          Some (PDict [(''probes'', PDict [(''auth'', a), (''lis'', l), (''cyrex'', c)]),
            (''reachable'', PList (map (PStr \<circ> fst) (filter snd [(''auth'', oa), (''lis'', ol), (''cyrex'', oc)]))),
            (''useful'', PBool (oa \<and> ol)), (''required_ok'', PBool (oa \<and> ol))])
      | _ \<Rightarrow> None)"

definition aggregate_process :: "envelope \<Rightarrow> outcome" where
  "aggregate_process e =
     (let s = env_state e
      in case health_report (got s ''auth_health'' (PDict [])) (got s ''lis_health'' (PDict []))
             (got s ''cyrex_health'' (PDict [])) of
           None \<Rightarrow> no_method e ''get''
         | Some v \<Rightarrow> goes_to None (set_state ''result'' v (set_state ''deepiri_report'' v e)))"

section \<open>Sessions\<close>

text \<open>\<open>str(x or "").strip()\<close>, with a scheme put in front when it is missing.\<close>

definition normalize_authorization :: "string option \<Rightarrow> string" where
  "normalize_authorization a =
     (let v = strip (or_str a [])
      in if v \<noteq> [] \<and> \<not> starts_with ''bearer '' (lower v) then ''Bearer '' @ v else v)"

definition entry_of :: "pval \<Rightarrow> string \<Rightarrow> pval" where
  "entry_of v k = (case v of PDict d \<Rightarrow> got d k PNone | _ \<Rightarrow> PNone)"

definition session_user :: "pval \<Rightarrow> pval" where
  "session_user auth =
     (if truthy (entry_of auth ''ok'')
      then case entry_of auth ''body'' of
             PDict b \<Rightarrow> (if truthy (got b ''user'' PNone) then got b ''user'' PNone else PDict b)
           | _ \<Rightarrow> PNone
      else PNone)"

definition build_session_result :: "pval \<Rightarrow> pval \<Rightarrow> dict" where
  "build_session_result auth lis =
     (let oa = truthy (entry_of auth ''ok''); ol = truthy (entry_of lis ''ok'')
      in [(''authenticated'', PBool oa), (''user'', session_user auth), (''lis_ready'', PBool ol),
          (''auth_verify'', auth), (''lis_health'', lis), (''useful'', PBool (oa \<and> ol)),
          (''productivity'', PDict [(''client_round_trips_saved'', PInt 1),
             (''parallel_hops'', PList [PStr ''auth.verify'', PStr ''lis.health'']),
             (''downstream_http_calls'', PInt 2)])])"

definition session_fingerprint :: "string \<Rightarrow> pval" where
  "session_fingerprint a = PDict [(''input'', PDict [(''authorization'', PStr a)]), (''state'', PDict [])]"

definition verify_token :: "platform \<Rightarrow> string \<Rightarrow> py_error + pval" where
  "verify_token pl a =
     (let url = auth_base pl @ ''/auth/verify''
      in if a = []
         then Inr (probe_result False 401 (PDict [(''error'', PStr ''authorization required'')]) url)
         else bindE (env_float pl ''DEEPIRI_AUTH_VERIFY_TIMEOUT_S'' ''1.5'') (\<lambda>t.
           http_request_json pl ''GET'' url [(''Authorization'', PStr a)] (Some t)))"

definition bootstrap_session :: "platform \<Rightarrow> string option \<Rightarrow> py_error + dict" where
  "bootstrap_session pl a =
     bindE (verify_token pl (normalize_authorization a)) (\<lambda>auth.
     bindE (http_get_json pl (lis_base pl @ ''/health'') None) (\<lambda>lis.
     Inr (build_session_result auth lis)))"

definition text_of :: "platform \<Rightarrow> pval \<Rightarrow> string" where
  "text_of pl v = (case v of PStr s \<Rightarrow> s | _ \<Rightarrow> pl_str pl v)"

definition session_report :: "dict \<Rightarrow> pval" where
  "session_report s =
     (let useful = got s ''useful'' PNone
      in PDict [(''useful'', useful), (''required_ok'', useful),
        (''probes'', PDict [(''auth_verify'', got s ''auth_verify'' PNone), (''lis'', got s ''lis_health'' PNone)])])"

definition session_process :: "platform \<Rightarrow> envelope \<Rightarrow> outcome" where
  "session_process pl e =
     with_get e (env_input e) ''authorization'' PNone (\<lambda>x.
     with_get e (env_input e) ''Authorization'' PNone (\<lambda>y.
       let a = (if truthy x then x else y)
       in raising e (bootstrap_session pl (if truthy a then Some (text_of pl a) else None)) (\<lambda>s.
            goes_to None
              (set_state ''deepiri_report'' (session_report s)
                (set_state ''result'' (PDict s) (set_state ''session'' (PDict s) e))))))"

section \<open>Registration\<close>

definition platform_nodes :: "platform \<Rightarrow> node list" where
  "platform_nodes pl =
     [plain_node ''DeepiriAuthHealthNode'' True ''deepiri.auth.health'' (auth_health_process pl),
      plain_node ''DeepiriLisHealthNode'' True ''deepiri.lis.health'' (lis_health_process pl),
      plain_node ''DeepiriParallelHealthNode'' True ''deepiri.health.parallel'' (parallel_health_process pl),
      plain_node ''DeepiriCyrexHealthNode'' True ''deepiri.cyrex.health'' (cyrex_health_process pl),
      plain_node ''DeepiriAggregateNode'' False ''deepiri.aggregate'' aggregate_process,
      plain_node ''DeepiriSessionBootstrapNode'' True ''deepiri.session.bootstrap'' (session_process pl)]"

definition platform_keywords :: "string list" where
  "platform_keywords = [''deepiri'', ''health'', ''auth'', ''lis'', ''cyrex'', ''session'']"

definition register_platform_node :: "node \<Rightarrow> prism \<Rightarrow> prism" where
  "register_platform_node nd pe =
     (let p1 = register_node nd None None pe
      in p1\<lparr>pe_planner := register_planner_capability (nd_capability nd) (nd_capability nd) platform_keywords
             (pe_planner p1)\<rparr>)"

definition register_deepiri_nodes :: "platform \<Rightarrow> prism \<Rightarrow> prism" where
  "register_deepiri_nodes pl pe = fold register_platform_node (platform_nodes pl) pe"

section \<open>Chains of nodes\<close>

text \<open>
  A node hands on when it only changes the state, to what its transformation says, and names a fixed next
  capability. A chain of such nodes ends with the composition of their transformations.
\<close>

definition hands_on :: "prism \<Rightarrow> string \<Rightarrow> string option \<Rightarrow> (pval \<Rightarrow> dict \<Rightarrow> dict option) \<Rightarrow> bool" where
  "hands_on pe c nxt tr \<longleftrightarrow> c \<noteq> [] \<and> \<not> starts_with cap_prefix c \<and>
     (\<exists>ty off f. serves pe (plain_node ty off c f) \<and>
       (\<forall>e st. tr (env_input e) (env_state e) = Some st \<longrightarrow> f e = goes_to nxt (e\<lparr>env_state := st\<rparr>)))"

lemma hands_on_diffs [simp]: "hands_on (pe\<lparr>pe_diffs := ds\<rparr>) c nxt tr = hands_on pe c nxt tr"
  by (simp add: hands_on_def)

inductive chain :: "prism \<Rightarrow> string option \<Rightarrow> pval \<Rightarrow> dict \<Rightarrow> dict \<Rightarrow> bool" where
  chain_end: "chain pe None v st st"
| chain_hop: "hands_on pe c nxt tr \<Longrightarrow> tr v st = Some st1 \<Longrightarrow> chain pe nxt v st1 st2 \<Longrightarrow> chain pe (Some c) v st st2"

inductive_simps chain_None [simp]: "chain pe None v st st'"

lemma chain_run:
  assumes "chain pe c v st st'"
  shows "env_next e = c \<Longrightarrow> env_input e = v \<Longrightarrow> env_state e = st \<Longrightarrow> \<not> env_terminated e \<Longrightarrow>
    env_plan e = empty_plan \<Longrightarrow>
    \<exists>e' ds' t'. engine_loop io start t e (pe\<lparr>pe_diffs := ds\<rparr>) = Some (None, e', pe\<lparr>pe_diffs := ds'\<rparr>, t') \<and>
      env_state e' = st'"
  using assms
proof (induction arbitrary: e t ds rule: chain.induct)
  case (chain_end pe v st)
  then have "engine_step io start t e (pe\<lparr>pe_diffs := ds\<rparr>) = EDone e (pe\<lparr>pe_diffs := ds\<rparr>)"
    by (simp add: engine_step_def)
  with chain_end show ?case by (subst engine_loop.simps) auto
next
  case (chain_hop pe c nxt tr v st st1 st2)
  then obtain ty off f where f: "serves pe (plain_node ty off c f)" "c \<noteq> []" "\<not> starts_with cap_prefix c"
    "f e = goes_to nxt (e\<lparr>env_state := st1\<rparr>)" by (auto simp: hands_on_def)
  from f(1) have "serves (pe\<lparr>pe_diffs := ds\<rparr>) (plain_node ty off c f)" by simp
  from plain_step [OF this f(2,3) chain_hop.prems(1,4,5) f(4), of io start t] chain_hop.prems
  obtain e2 ds2 where s: "engine_step io start t e (pe\<lparr>pe_diffs := ds\<rparr>) = ENext e2 (pe\<lparr>pe_diffs := ds2\<rparr>)"
    "env_state e2 = st1" "env_input e2 = v" "env_next e2 = nxt" "\<not> env_terminated e2" "env_plan e2 = empty_plan"
    by auto
  from chain_hop.IH [OF s(4,3,2,5,6), of "t + 1" ds2] s(1) show ?case
    by (subst engine_loop.simps) auto
qed

section \<open>The health chains\<close>

text \<open>Every timeout can be read, and these are the results of the three probes.\<close>

definition probes :: "platform \<Rightarrow> pval \<Rightarrow> pval \<Rightarrow> pval \<Rightarrow> bool" where
  "probes pl a l c \<longleftrightarrow>
     http_get_json pl (auth_base pl @ ''/health'') None = Inr a \<and>
     http_get_json pl (lis_base pl @ ''/health'') None = Inr l \<and> cyrex_health pl = Inr c"

lemma probe_ok_result [simp]: "probe_ok (probe_result ok code body url) = Some ok"
  by (simp add: probe_ok_def probe_result_def got_def)

lemma probe_shape:
  "http_request_json pl m url hs t = Inr v \<Longrightarrow> \<exists>ok code body. v = probe_result ok code body url"
  by (simp add: http_request_json_def read_reply_def ok_simps split: http_reply.splits)
    (metis http_reply.exhaust)

lemma probes_ok: "probes pl a l c \<Longrightarrow> \<exists>oa ol oc. probe_ok a = Some oa \<and> probe_ok l = Some ol \<and> probe_ok c = Some oc"
  by (auto simp: probes_def http_get_json_def cyrex_health_def ok_simps Let_def split: if_splits dest!: probe_shape)

definition assigning :: "string \<Rightarrow> pval \<Rightarrow> pval \<Rightarrow> dict \<Rightarrow> dict option" where
  "assigning k v inp st = Some (AList.update k v st)"

definition aggregated :: "pval \<Rightarrow> dict \<Rightarrow> dict option" where
  "aggregated inp st =
     map_option (\<lambda>v. AList.update ''result'' v (AList.update ''deepiri_report'' v st))
       (health_report (got st ''auth_health'' (PDict [])) (got st ''lis_health'' (PDict []))
          (got st ''cyrex_health'' (PDict [])))"

lemma health_hops:
  assumes "\<forall>nd \<in> set (platform_nodes pl). serves pe nd" "probes pl a l c"
  shows "hands_on pe ''deepiri.auth.health'' (Some ''deepiri.lis.health'') (assigning ''auth_health'' a)"
    and "hands_on pe ''deepiri.lis.health'' (Some ''deepiri.cyrex.health'') (assigning ''lis_health'' l)"
    and "hands_on pe ''deepiri.health.parallel'' (Some ''deepiri.cyrex.health'')
      (\<lambda>inp st. Some (AList.update ''lis_health'' l (AList.update ''auth_health'' a st)))"
    and "hands_on pe ''deepiri.cyrex.health'' (Some ''deepiri.aggregate'') (assigning ''cyrex_health'' c)"
    and "hands_on pe ''deepiri.aggregate'' None aggregated"
proof -
  have nds: "serves pe (plain_node ''DeepiriAuthHealthNode'' True ''deepiri.auth.health'' (auth_health_process pl))"
    "serves pe (plain_node ''DeepiriLisHealthNode'' True ''deepiri.lis.health'' (lis_health_process pl))"
    "serves pe (plain_node ''DeepiriParallelHealthNode'' True ''deepiri.health.parallel'' (parallel_health_process pl))"
    "serves pe (plain_node ''DeepiriCyrexHealthNode'' True ''deepiri.cyrex.health'' (cyrex_health_process pl))"
    "serves pe (plain_node ''DeepiriAggregateNode'' False ''deepiri.aggregate'' aggregate_process)"
    using assms(1) by (simp_all add: platform_nodes_def)
  note step = hands_on_def assigning_def raising_def set_state_def starts_with_def cap_prefix_def
  note pr = assms(2) [unfolded probes_def]
  show "hands_on pe ''deepiri.auth.health'' (Some ''deepiri.lis.health'') (assigning ''auth_health'' a)"
    using pr by (auto simp: step auth_health_process_def intro!: exI [of _ "auth_health_process pl"] exI nds(1))
  show "hands_on pe ''deepiri.lis.health'' (Some ''deepiri.cyrex.health'') (assigning ''lis_health'' l)"
    using pr by (auto simp: step lis_health_process_def intro!: exI [of _ "lis_health_process pl"] exI nds(2))
  show "hands_on pe ''deepiri.health.parallel'' (Some ''deepiri.cyrex.health'')
      (\<lambda>inp st. Some (AList.update ''lis_health'' l (AList.update ''auth_health'' a st)))"
    using pr by (auto simp: step parallel_health_process_def intro!: exI [of _ "parallel_health_process pl"] exI nds(3))
  show "hands_on pe ''deepiri.cyrex.health'' (Some ''deepiri.aggregate'') (assigning ''cyrex_health'' c)"
    using pr by (auto simp: step cyrex_health_process_def intro!: exI [of _ "cyrex_health_process pl"] exI nds(4))
  show "hands_on pe ''deepiri.aggregate'' None aggregated"
    by (auto simp: step aggregated_def aggregate_process_def intro!: exI [of _ aggregate_process] exI nds(5))
qed

text \<open>
  C34: The parallel health chain is an optimisation of the sequential one: on an engine that serves the platform's
  nodes, whatever the services answer, both end with the same state. Its report says that the platform is
  useful exactly when the authentication and the language service answered with success, and whether the
  Cyrex service answers, or is configured at all, makes no difference to that.
\<close>

theorem parallel_health_equals_sequential:
  assumes "\<forall>nd \<in> set (platform_nodes pl). serves pe nd" "probes pl a l c"
    and "\<not> env_terminated e" "env_plan e = empty_plan"
  shows "\<exists>e1 ds1 t1 e2 ds2 t2 r.
    engine_loop io start t (e\<lparr>env_next := Some ''deepiri.health.parallel''\<rparr>) pe = Some (None, e1, pe\<lparr>pe_diffs := ds1\<rparr>, t1) \<and>
    engine_loop io start t (e\<lparr>env_next := Some ''deepiri.auth.health''\<rparr>) pe = Some (None, e2, pe\<lparr>pe_diffs := ds2\<rparr>, t2) \<and>
    env_state e1 = env_state e2 \<and> map_of (env_state e1) ''deepiri_report'' = Some (PDict r) \<and>
    map_of r ''useful'' = Some (PBool (probe_ok a = Some True \<and> probe_ok l = Some True))"
proof -
  note hops = health_hops [OF assms(1,2)]
  define st where "st = AList.update ''cyrex_health'' c
    (AList.update ''lis_health'' l (AList.update ''auth_health'' a (env_state e)))"
  obtain oa ol oc where ok: "probe_ok a = Some oa" "probe_ok l = Some ol" "probe_ok c = Some oc"
    using probes_ok [OF assms(2)] by blast
  obtain r where r: "health_report a l c = Some (PDict r)" "map_of r ''useful'' = Some (PBool (oa \<and> ol))"
    using ok by (simp add: health_report_def)
  define st' where "st' = AList.update ''result'' (PDict r) (AList.update ''deepiri_report'' (PDict r) st)"
  have agg: "aggregated (env_input e) st = Some st'"
    using r(1) by (simp add: aggregated_def st_def st'_def got_def map_of_update)
  have tail: "chain pe (Some ''deepiri.cyrex.health'') (env_input e)
      (AList.update ''lis_health'' l (AList.update ''auth_health'' a (env_state e))) st'"
    by (rule chain_hop [OF hops(4) _ chain_hop [OF hops(5) agg chain_end]]) (simp add: assigning_def st_def)
  have par: "chain pe (Some ''deepiri.health.parallel'') (env_input e) (env_state e) st'"
    by (rule chain_hop [OF hops(3) _ tail]) simp
  have sequential: "chain pe (Some ''deepiri.auth.health'') (env_input e) (env_state e) st'"
    by (rule chain_hop [OF hops(1) _ chain_hop [OF hops(2) _ tail]]) (simp_all add: assigning_def)
  have same: "pe\<lparr>pe_diffs := pe_diffs pe\<rparr> = pe" by simp
  obtain e1 ds1 t1 where 1: "engine_loop io start t (e\<lparr>env_next := Some ''deepiri.health.parallel''\<rparr>) pe =
      Some (None, e1, pe\<lparr>pe_diffs := ds1\<rparr>, t1)" "env_state e1 = st'"
    using chain_run [OF par, of "e\<lparr>env_next := Some ''deepiri.health.parallel''\<rparr>" io start t "pe_diffs pe"] assms(3,4)
    by auto
  obtain e2 ds2 t2 where 2: "engine_loop io start t (e\<lparr>env_next := Some ''deepiri.auth.health''\<rparr>) pe =
      Some (None, e2, pe\<lparr>pe_diffs := ds2\<rparr>, t2)" "env_state e2 = st'"
    using chain_run [OF sequential, of "e\<lparr>env_next := Some ''deepiri.auth.health''\<rparr>" io start t "pe_diffs pe"] assms(3,4)
    by auto
  have "map_of st' ''deepiri_report'' = Some (PDict r)" by (simp add: st'_def map_of_update)
  with 1 2 r(2) ok(1,2) show ?thesis by auto
qed

definition demo_platform :: platform where
  "demo_platform = \<lparr>pl_env = (\<lambda>_. None), pl_float = (\<lambda>_. Some 1), pl_str = (\<lambda>_. []),
     pl_http = (\<lambda>_ url _ _. if starts_with ''http://cyrex'' url then HttpRaised ''down'' else HttpReply 200 None [])\<rparr>"

definition demo_platform_prism :: prism where
  "demo_platform_prism =
     register_deepiri_nodes demo_platform (new_prism (new_graph 10 30 3 [] [] False) (new_executor new_watcher False None))"

lemma demo_platform_serves: "\<forall>nd \<in> set (platform_nodes demo_platform). serves demo_platform_prism nd"
  by (auto simp: serves_def demo_platform_prism_def register_deepiri_nodes_def register_platform_node_def
      platform_nodes_def plain_node_def register_node_def new_prism_def router_defs new_router_def is_remote_def
      new_remote_executor_def Let_def)

theorem parallel_health_equals_sequential_witness:
  "\<exists>e1 ds1 t1 r. engine_loop demo_eio [] 0 (demo_env (Some ''deepiri.health.parallel'')) demo_platform_prism =
      Some (None, e1, demo_platform_prism\<lparr>pe_diffs := ds1\<rparr>, t1) \<and>
    map_of (env_state e1) ''deepiri_report'' = Some (PDict r) \<and> map_of r ''useful'' = Some (PBool True)"
proof -
  let ?up = "\<lambda>u. probe_result True 200 (PDict [(''raw'', PStr [])]) u"
  have p: "probes demo_platform (?up ''http://auth-service:5001/health'')
      (?up ''http://language-intelligence-service:5003/health'')
      (probe_result False 0 (PDict [(''error'', PStr ''down'')]) ''http://cyrex:8000/health'')"
    unfolding probes_def by (intro conjI; code_simp)
  show ?thesis
    using parallel_health_equals_sequential [OF demo_platform_serves p, of "demo_env (Some ''deepiri.health.parallel'')" demo_eio "[]" 0]
    by (fastforce simp: demo_env_def empty_plan_def)
qed

section \<open>Authorisation\<close>

lemma strip_fixed: "s \<noteq> [] \<Longrightarrow> \<not> is_space (hd s) \<Longrightarrow> \<not> is_space (last s) \<Longrightarrow> strip s = s"
proof -
  assume s: "s \<noteq> []" "\<not> is_space (hd s)" "\<not> is_space (last s)"
  then have "dropWhile is_space s = s" by (cases s) simp_all
  moreover have "dropWhile is_space (rev s) = rev s" using s by (cases s rule: rev_cases) simp_all
  ultimately show ?thesis by (simp add: strip_def)
qed

text \<open>Normalising a header twice is normalising it once, and the result is empty or names a scheme.\<close>

lemma normalized_shape:
  "normalize_authorization a = [] \<or> starts_with ''bearer '' (lower (normalize_authorization a))"
proof -
  have "lower ''Bearer '' = ''bearer ''" by code_simp
  then show ?thesis by (auto simp: normalize_authorization_def starts_with_def lower_def Let_def)
qed

lemma normalize_idempotent: "normalize_authorization (Some (normalize_authorization a)) = normalize_authorization a"
proof -
  let ?v = "strip (or_str a [])"
  have n: "strip (normalize_authorization a) = normalize_authorization a"
  proof (cases "normalize_authorization a = []")
    case False
    then have v: "?v \<noteq> []" by (auto simp: normalize_authorization_def Let_def split: if_splits)
    have "\<not> is_space CHR ''B''" by code_simp
    with v strip_no_lead [OF v] strip_no_trail [OF v] show ?thesis
      by (intro strip_fixed) (auto simp: normalize_authorization_def Let_def)
  qed (simp add: strip_def)
  from normalized_shape [of a] n show ?thesis
    by (auto simp: normalize_authorization_def [of "Some _"] or_str_def Let_def)
qed

text \<open>
  A session without a token is refused without a call of the authentication service: it depends on nothing
  that the service would answer.
\<close>

lemma session_without_token:
  assumes "normalize_authorization a = []" "bootstrap_session pl a = Inr s"
  shows "map_of s ''authenticated'' = Some (PBool False) \<and> map_of s ''useful'' = Some (PBool False) \<and>
    map_of s ''user'' = Some PNone"
  using assms
  by (auto simp: bootstrap_session_def verify_token_def build_session_result_def session_user_def entry_of_def
      probe_result_def got_def ok_simps Let_def)

text \<open>A token is accepted exactly when the service answers its verification with a success status.\<close>

lemma session_authenticated_iff:
  assumes "normalize_authorization a = t" "t \<noteq> []" "env_float pl ''DEEPIRI_AUTH_VERIFY_TIMEOUT_S'' ''1.5'' = Inr limit"
    and "bootstrap_session pl a = Inr s"
  shows "map_of s ''authenticated'' = Some (PBool True) \<longleftrightarrow>
    (\<exists>code json raw. pl_http pl ''GET'' (auth_base pl @ ''/auth/verify'') [(''Authorization'', PStr t)] limit =
       HttpReply code json raw \<and> 200 \<le> code \<and> code < 300)"
  using assms
  by (auto simp: bootstrap_session_def verify_token_def build_session_result_def entry_of_def http_request_json_def
      read_reply_def probe_result_def got_def ok_simps Let_def split: http_reply.splits)

end
