(* ===== verification/Genomes.thy ===== *)
theory Genomes
  imports Prism_Prelude Text_Util
begin

text \<open>
  Pipeline genomes (\<open>src/src/prismpipe/dna.py\<close>): the successful paths that are remembered with their running
  averages, the choice of the best path of an intent, and the mutation and crossover of paths. Fresh
  identifiers and random draws are arguments.
\<close>

section \<open>State\<close>

record genome =
  gn_id :: string
  gn_path :: "string list"
  gn_success_rate :: rat
  gn_avg_latency :: rat
  gn_count :: nat
  gn_fitness :: rat

record variation =
  va_id :: string
  va_parent :: string
  va_path :: "string list"
  va_success :: bool

record dna =
  dn_genomes :: "genome pdict"
  dn_variations :: "variation list pdict"
  dn_intents :: "string list pdict"

definition new_dna :: dna where
  "new_dna = \<lparr>dn_genomes = [], dn_variations = [], dn_intents = []\<rparr>"

section \<open>Operations\<close>

definition genome_key :: "string list \<Rightarrow> string" where
  "genome_key path = join ''->'' path"

definition fitness_of :: "rat \<Rightarrow> rat \<Rightarrow> rat" where
  "fitness_of rate latency = rate * (7 / 10) + max 0 (1 - latency / 10000) * (3 / 10)"

definition rerun :: "bool \<Rightarrow> rat \<Rightarrow> genome \<Rightarrow> genome" where
  "rerun success latency g =
     (let n = gn_count g + 1; k = of_nat n :: rat
      in g\<lparr>gn_count := n, gn_avg_latency := (gn_avg_latency g * (k - 1) + latency) / k,
           gn_success_rate := (if success then (gn_success_rate g * (k - 1) + 1) / k
                               else (gn_success_rate g * (k - 1)) / k)\<rparr>)"

definition new_genome :: "string \<Rightarrow> string list \<Rightarrow> bool \<Rightarrow> rat \<Rightarrow> genome" where
  "new_genome uid path success latency =
     \<lparr>gn_id = uid, gn_path = path, gn_success_rate = of_bool success, gn_avg_latency = latency, gn_count = 1,
      gn_fitness = fitness_of (of_bool success) latency\<rparr>"

definition push_at :: "string \<Rightarrow> 'a \<Rightarrow> 'a list pdict \<Rightarrow> 'a list pdict" where
  "push_at k x d = AList.update k ((case map_of d k of Some xs \<Rightarrow> xs | None \<Rightarrow> []) @ [x]) d"

definition record_successful_path ::
    "string \<Rightarrow> string \<Rightarrow> string list \<Rightarrow> bool \<Rightarrow> rat \<Rightarrow> dna \<Rightarrow> string \<times> dna" where
  "record_successful_path uid i path success latency d =
     (case find (\<lambda>(gid, g). genome_key (gn_path g) = genome_key path) (dn_genomes d) of
        Some (gid, g) \<Rightarrow> (gid, d\<lparr>dn_genomes := AList.update gid (rerun success latency g) (dn_genomes d)\<rparr>)
      | None \<Rightarrow> (uid, d\<lparr>dn_genomes := AList.update uid (new_genome uid path success latency) (dn_genomes d),
                        dn_intents := push_at i uid (dn_intents d)\<rparr>))"

fun fittest :: "genome pdict \<Rightarrow> rat \<Rightarrow> genome option \<Rightarrow> string list \<Rightarrow> genome option" where
  "fittest gs bound best [] = best"
| "fittest gs bound best (gid # gids) =
     (case map_of gs gid of
        Some g \<Rightarrow> if bound < gn_fitness g then fittest gs (gn_fitness g) (Some g) gids else fittest gs bound best gids
      | None \<Rightarrow> fittest gs bound best gids)"

definition get_best_path :: "string \<Rightarrow> dna \<Rightarrow> string list option" where
  "get_best_path i d =
     map_option gn_path (fittest (dn_genomes d) (- 1) None
       (case map_of (dn_intents d) i of Some ids \<Rightarrow> ids | None \<Rightarrow> []))"

definition create_variant :: "string \<Rightarrow> string \<Rightarrow> string list \<Rightarrow> bool \<Rightarrow> dna \<Rightarrow> string \<times> dna" where
  "create_variant uid parent path success d =
     (uid, d\<lparr>dn_variations := push_at parent
       \<lparr>va_id = uid, va_parent = parent, va_path = path, va_success = success\<rparr> (dn_variations d)\<rparr>)"

text \<open>The draws of \<open>mutate_path\<close>: the kind, a position, the number of a capability, and two positions.\<close>

record draws =
  dr_kind :: string
  dr_pos :: nat
  dr_number :: nat
  dr_pair :: "nat \<times> nat"

definition random_capability :: "draws \<Rightarrow> string" where
  "random_capability w = ''capability_'' @ show_nat (dr_number w)"

definition mutate_path :: "draws \<Rightarrow> string list \<Rightarrow> py_error + string list" where
  "mutate_path w path =
     (let n = length path in
      if path = [] then Inr path
      else if dr_kind w = ''insert'' \<and> n < 10
      then Inr (take (dr_pos w) path @ [random_capability w] @ drop (dr_pos w) path)
      else if dr_kind w = ''remove'' \<and> 2 < n
      then Inl (NameError ''name remove_pos_pos is not defined'')
      else if dr_kind w = ''replace'' then Inr (path[dr_pos w := random_capability w])
      else if 2 \<le> n
      then (case dr_pair w of (i, j) \<Rightarrow> Inr (path[i := path ! j, j := path ! i]))
      else Inr path)"

definition crossover :: "nat \<Rightarrow> string list \<Rightarrow> string list \<Rightarrow> py_error + string list" where
  "crossover point p1 p2 =
     (if p1 = [] \<or> p2 = [] then Inr (if p1 \<noteq> [] then p1 else p2)
      else if min (length p1) (length p2) \<le> 1 then Inl (ValueError ''empty range for randrange()'')
      else Inr (take point p1 @ drop point p2))"

record dna_stats =
  ds_genomes :: nat
  ds_variations :: nat
  ds_intents :: nat
  ds_success_rate :: rat
  ds_latency :: rat

definition dna_statistics :: "dna \<Rightarrow> dna_stats" where
  "dna_statistics d =
     (let gs = map snd (dn_genomes d); n = of_nat (max 1 (length gs)) :: rat
      in \<lparr>ds_genomes = length gs, ds_variations = sum_list (map (length \<circ> snd) (dn_variations d)),
          ds_intents = length (dn_intents d), ds_success_rate = sum_list (map gn_success_rate gs) / n,
          ds_latency = sum_list (map gn_avg_latency gs) / n\<rparr>)"

section \<open>Genomes hold the averages of the runs of their path\<close>

record run =
  rn_uid :: string
  rn_intent :: string
  rn_path :: "string list"
  rn_success :: bool
  rn_latency :: rat

definition record_run :: "run \<Rightarrow> dna \<Rightarrow> dna" where
  "record_run r d = snd (record_successful_path (rn_uid r) (rn_intent r) (rn_path r) (rn_success r) (rn_latency r) d)"

definition runs_of :: "string \<Rightarrow> run list \<Rightarrow> run list" where
  "runs_of k rs = filter (\<lambda>r. genome_key (rn_path r) = k) rs"

definition wins :: "run list \<Rightarrow> nat" where
  "wins rs = length (filter rn_success rs)"

lemma runs_of_snoc [simp]:
  "runs_of k (rs @ [r]) = (if genome_key (rn_path r) = k then runs_of k rs @ [r] else runs_of k rs)"
  by (simp add: runs_of_def)

lemma wins_snoc [simp]: "wins (rs @ [r]) = wins rs + of_bool (rn_success r)"
  by (simp add: wins_def)

text \<open>What the specification says of the genome of a path, given the runs of that path.\<close>

definition summarises :: "genome \<Rightarrow> run list \<Rightarrow> bool" where
  "summarises g rs \<longleftrightarrow> rs \<noteq> [] \<and> gn_count g = length rs \<and>
     gn_success_rate g = of_nat (wins rs) / of_nat (length rs) \<and>
     gn_avg_latency g = sum_list (map rn_latency rs) / of_nat (length rs) \<and>
     gn_fitness g = fitness_of (of_bool (rn_success (hd rs))) (rn_latency (hd rs))"

lemma summarises_new: "summarises (new_genome u p s l) [r]" if "rn_success r = s" "rn_latency r = l"
  using that by (simp add: summarises_def new_genome_def wins_def)

lemma summarises_rerun:
  assumes "summarises g rs"
  shows "summarises (rerun (rn_success r) (rn_latency r) g) (rs @ [r])"
proof -
  have n: "(of_nat (length rs) :: rat) \<noteq> 0" using assms by (simp add: summarises_def)
  with assms show ?thesis
    by (simp add: summarises_def rerun_def Let_def add.commute)
qed

text \<open>Each genome summarises the runs of its path, each run has a genome, and no path has two.\<close>

definition genomes_summarise :: "run list \<Rightarrow> genome pdict \<Rightarrow> bool" where
  "genomes_summarise rs gs = (\<forall>gid g. map_of gs gid = Some g \<longrightarrow> summarises g (runs_of (genome_key (gn_path g)) rs))"

definition runs_covered :: "run list \<Rightarrow> genome pdict \<Rightarrow> bool" where
  "runs_covered rs gs =
     (\<forall>r \<in> set rs. \<exists>gid g. map_of gs gid = Some g \<and> genome_key (gn_path g) = genome_key (rn_path r))"

definition paths_unique :: "genome pdict \<Rightarrow> bool" where
  "paths_unique gs =
     (\<forall>gid g gid' g'. map_of gs gid = Some g \<longrightarrow> map_of gs gid' = Some g' \<longrightarrow>
        genome_key (gn_path g) = genome_key (gn_path g') \<longrightarrow> gid = gid')"

definition dna_ok :: "run list \<Rightarrow> dna \<Rightarrow> bool" where
  "dna_ok rs d \<longleftrightarrow> wf_dict (dn_genomes d) \<and> fst ` set (dn_genomes d) \<subseteq> rn_uid ` set rs \<and>
     genomes_summarise rs (dn_genomes d) \<and> runs_covered rs (dn_genomes d) \<and> paths_unique (dn_genomes d)"

lemma rerun_path [simp]: "gn_path (rerun s l g) = gn_path g"
  by (simp add: rerun_def Let_def)

lemma new_genome_path [simp]: "gn_path (new_genome u p s l) = p"
  by (simp add: new_genome_def)

lemma dna_ok_added:
  assumes "dna_ok rs d" "map_of (dn_genomes d) (rn_uid r) = None"
    and no: "\<And>gid g. map_of (dn_genomes d) gid = Some g \<Longrightarrow> genome_key (gn_path g) \<noteq> genome_key (rn_path r)"
    and new: "dn_genomes d' = AList.update (rn_uid r) (new_genome u (rn_path r) (rn_success r) (rn_latency r)) (dn_genomes d)"
  shows "dna_ok (rs @ [r]) d'"
proof -
  let ?gs = "dn_genomes d"
  from assms(1) have old: "wf_dict ?gs" "fst ` set ?gs \<subseteq> rn_uid ` set rs" "genomes_summarise rs ?gs"
    "runs_covered rs ?gs" "paths_unique ?gs" by (auto simp: dna_ok_def)
  from old(4) no have "runs_of (genome_key (rn_path r)) rs = []"
    by (fastforce simp: runs_covered_def runs_of_def filter_empty_conv)
  then have "genomes_summarise (rs @ [r]) (dn_genomes d')"
    using old(3) no unfolding genomes_summarise_def new map_of_update
    by (metis append_Nil fun_upd_apply new_genome_path option.sel runs_of_snoc summarises_new)
  moreover have "runs_covered (rs @ [r]) (dn_genomes d')"
    using old(4) assms(2) unfolding runs_covered_def new map_of_update
    by (auto simp: new_genome_path) (metis option.distinct(1))
  moreover have "paths_unique (dn_genomes d')"
    using old(5) no unfolding paths_unique_def new map_of_update
    by (metis fun_upd_apply new_genome_path option.sel)
  ultimately show ?thesis
    using old(1,2) by (auto simp: dna_ok_def new wf_update keys_update)
qed

lemma dna_ok_rerun:
  assumes "dna_ok rs d" "map_of (dn_genomes d) gid = Some g" "genome_key (gn_path g) = genome_key (rn_path r)"
    and new: "dn_genomes d' = AList.update gid (rerun (rn_success r) (rn_latency r) g) (dn_genomes d)"
  shows "dna_ok (rs @ [r]) d'"
proof -
  let ?gs = "dn_genomes d"
  from assms(1) have old: "wf_dict ?gs" "fst ` set ?gs \<subseteq> rn_uid ` set rs" "genomes_summarise rs ?gs"
    "runs_covered rs ?gs" "paths_unique ?gs" by (auto simp: dna_ok_def)
  have "gid \<in> rn_uid ` set rs" using old(2) map_of_SomeD [OF assms(2)] by force
  moreover have "summarises (rerun (rn_success r) (rn_latency r) g) (runs_of (genome_key (gn_path g)) (rs @ [r]))"
    using summarises_rerun [of g "runs_of (genome_key (gn_path g)) rs" r] old(3) assms(2,3)
    by (simp add: genomes_summarise_def) metis
  then have "genomes_summarise (rs @ [r]) (dn_genomes d')"
    using old(3,5) assms(2,3) unfolding genomes_summarise_def paths_unique_def new map_of_update
    by (metis fun_upd_apply option.sel rerun_path runs_of_snoc)
  moreover have "runs_covered (rs @ [r]) (dn_genomes d')"
    unfolding runs_covered_def new map_of_update
  proof
    fix x assume "x \<in> set (rs @ [r])"
    with old(4) assms(2,3) obtain gid' g' where x: "map_of ?gs gid' = Some g'" "genome_key (gn_path g') = genome_key (rn_path x)"
      unfolding runs_covered_def by auto
    show "\<exists>gid' g'. ((map_of ?gs)(gid \<mapsto> rerun (rn_success r) (rn_latency r) g)) gid' = Some g' \<and>
        genome_key (gn_path g') = genome_key (rn_path x)"
    proof (cases "gid' = gid")
      case True
      with x assms(2) show ?thesis by (intro exI [of _ gid]) auto
    next
      case False
      with x show ?thesis by (intro exI [of _ gid'] exI [of _ g']) simp
    qed
  qed
  moreover have "paths_unique (dn_genomes d')"
    using old(5) assms(2) unfolding paths_unique_def new map_of_update
    by (metis fun_upd_apply option.sel rerun_path)
  ultimately show ?thesis
    using old(1,2) by (auto simp: dna_ok_def new wf_update keys_update)
qed

lemma dna_ok_step:
  assumes "dna_ok rs d" "rn_uid r \<notin> rn_uid ` set rs"
  shows "dna_ok (rs @ [r]) (record_run r d)"
proof (cases "find (\<lambda>(gid, g). genome_key (gn_path g) = genome_key (rn_path r)) (dn_genomes d)")
  case None
  then have "\<And>gid g. map_of (dn_genomes d) gid = Some g \<Longrightarrow> genome_key (gn_path g) \<noteq> genome_key (rn_path r)"
    by (auto simp: find_None_iff dest: map_of_SomeD)
  moreover have "map_of (dn_genomes d) (rn_uid r) = None"
    using assms by (auto simp: dna_ok_def map_of_eq_None_iff)
  ultimately show ?thesis
    using None by (intro dna_ok_added [OF assms(1)]) (simp_all add: record_run_def record_successful_path_def)
next
  case (Some p)
  obtain gid g where p: "p = (gid, g)" by (cases p)
  from Some p have g: "(gid, g) \<in> set (dn_genomes d)" "genome_key (gn_path g) = genome_key (rn_path r)"
    by (auto simp: find_Some_iff) (metis nth_mem)
  from g(1) assms(1) have "map_of (dn_genomes d) gid = Some g" by (simp add: dna_ok_def map_of_is_SomeI)
  from dna_ok_rerun [OF assms(1) this g(2)] show ?thesis
    using Some p by (simp add: record_run_def record_successful_path_def)
qed

lemma dna_ok_runs: "distinct (map rn_uid rs) \<Longrightarrow> dna_ok rs (fold record_run rs new_dna)"
proof (induction rs rule: rev_induct)
  case Nil
  then show ?case
    by (simp add: dna_ok_def genomes_summarise_def runs_covered_def paths_unique_def new_dna_def)
next
  case (snoc r rs)
  then show ?case using dna_ok_step by simp
qed

text \<open>
  Note: Whatever runs are recorded, with fresh identifiers, every run has exactly one genome with its path. That
  genome counts the runs of the path, and its running rates are the true averages: successes over runs, and
  the mean latency. Its fitness, by which paths are chosen, is that of the first of these runs, whatever
  happened since.
\<close>

theorem genomes_are_averages:
  assumes "distinct (map rn_uid rs)" "r \<in> set rs"
  shows "\<exists>!gid. \<exists>g. map_of (dn_genomes (fold record_run rs new_dna)) gid = Some g \<and>
      genome_key (gn_path g) = genome_key (rn_path r) \<and> summarises g (runs_of (genome_key (rn_path r)) rs)"
proof -
  note ok = dna_ok_runs [OF assms(1), unfolded dna_ok_def genomes_summarise_def runs_covered_def paths_unique_def]
  with assms(2) obtain gid g where "map_of (dn_genomes (fold record_run rs new_dna)) gid = Some g"
    "genome_key (gn_path g) = genome_key (rn_path r)" by blast
  with ok show ?thesis by (metis (no_types, lifting))
qed

definition demo_runs :: "run list" where
  "demo_runs = [\<lparr>rn_uid = ''1'', rn_intent = ''i'', rn_path = [''a''], rn_success = True, rn_latency = 10\<rparr>,
     \<lparr>rn_uid = ''2'', rn_intent = ''j'', rn_path = [''a''], rn_success = False, rn_latency = 30\<rparr>]"

theorem genomes_are_averages_witness:
  "\<exists>!gid. \<exists>g. map_of (dn_genomes (fold record_run demo_runs new_dna)) gid = Some g \<and>
      genome_key (gn_path g) = ''a'' \<and> summarises g demo_runs"
  using genomes_are_averages [of demo_runs "demo_runs ! 1"]
  by (simp add: demo_runs_def genome_key_def runs_of_def)

section \<open>Consequences\<close>

text \<open>A path that was first recorded under one intent is never found under another.\<close>

lemma other_intent_finds_nothing:
  "find (\<lambda>(gid, g). genome_key (gn_path g) = genome_key path) (dn_genomes d) = Some p \<Longrightarrow>
     map_of (dn_intents d) i = None \<Longrightarrow>
     get_best_path i (snd (record_successful_path uid i path s l d)) = None"
  by (cases p) (simp add: record_successful_path_def get_best_path_def)

text \<open>
  Mutation of a path of three capabilities or more fails on the draw \<open>remove\<close>, whatever the other draws; a
  mutation that succeeds changes the length by at most one. Crossing a path of one capability fails.
\<close>

lemma mutation_fails_iff:
  "mutate_path w path = Inl err \<longleftrightarrow>
     dr_kind w = ''remove'' \<and> 2 < length path \<and> err = NameError ''name remove_pos_pos is not defined''"
  by (auto simp: mutate_path_def Let_def split: prod.splits)

lemma mutation_length:
  "mutate_path w path = Inr path' \<Longrightarrow> dr_pos w \<le> length path \<Longrightarrow>
     length path' \<in> {length path, Suc (length path)} \<and> length path' \<le> max 10 (length path)"
  by (auto simp: mutate_path_def Let_def split: if_splits prod.splits)

lemma crossover_fails_iff:
  "(\<exists>err. crossover pt p1 p2 = Inl err) \<longleftrightarrow> p1 \<noteq> [] \<and> p2 \<noteq> [] \<and> (length p1 = 1 \<or> length p2 = 1)"
proof -
  have "min (length p1) (length p2) \<le> 1 \<longleftrightarrow> length p1 = 1 \<or> length p2 = 1" if "p1 \<noteq> []" "p2 \<noteq> []"
    using that by (cases p1; cases p2) (auto simp: min_def split: if_splits)
  then show ?thesis by (auto simp: crossover_def)
qed

lemma crossover_child:
  "crossover pt p1 p2 = Inr child \<Longrightarrow> p1 \<noteq> [] \<Longrightarrow> p2 \<noteq> [] \<Longrightarrow> 1 \<le> pt \<Longrightarrow> pt < min (length p1) (length p2) \<Longrightarrow>
     length child = length p2 \<and> hd child = hd p1 \<and> last child = last p2"
  by (auto simp: crossover_def split: if_splits)

end
