(* ===== verification/Tenancy.thy ===== *)
theory Tenancy
  imports Prism_Prelude
begin

text \<open>
  Feature flags (\<open>src/src/prismpipe/features.py\<close>) and tenants with their quotas
  (\<open>src/src/prismpipe/tenancy.py\<close>). Random draws and the hash that picks a bucket are arguments.
\<close>

section \<open>Feature flags\<close>

record feature_flag =
  fl_name :: string
  fl_enabled :: bool
  fl_variants :: "rat pdict"
  fl_rollout :: rat

record flags =
  ff_flags :: "feature_flag pdict"
  ff_overrides :: "bool pdict pdict"

definition plain_flag :: "string \<Rightarrow> feature_flag" where
  "plain_flag n = \<lparr>fl_name = n, fl_enabled = False, fl_variants = [], fl_rollout = 0\<rparr>"

text \<open>A value of the configuration: a dictionary with its typed fields, or anything else.\<close>

datatype flag_config = Detailed "bool option" "rat pdict option" "rat option" | Simple pval

definition some_or :: "'a option \<Rightarrow> 'a \<Rightarrow> 'a" where
  "some_or x d = (case x of Some v \<Rightarrow> v | None \<Rightarrow> d)"

fun configured :: "string \<Rightarrow> flag_config \<Rightarrow> feature_flag" where
  "configured n (Detailed e vs r) =
     \<lparr>fl_name = n, fl_enabled = some_or e False, fl_variants = some_or vs [], fl_rollout = some_or r 0\<rparr>"
| "configured n (Simple v) = (plain_flag n)\<lparr>fl_enabled := truthy v\<rparr>"

definition new_flags :: "flag_config pdict \<Rightarrow> flags" where
  "new_flags cfg = \<lparr>ff_flags = fold (\<lambda>(n, v). AList.update n (configured n v)) cfg [], ff_overrides = []\<rparr>"

text \<open>The draw lies in \<open>[0, 1)\<close>.\<close>

definition is_enabled :: "rat \<Rightarrow> string \<Rightarrow> string option \<Rightarrow> flags \<Rightarrow> bool" where
  "is_enabled draw f tenant ff =
     (case (if truthy_opt tenant then map_of (ff_overrides ff) (the tenant) else None) of
        Some ov \<Rightarrow> some_or (map_of ov f) False
      | None \<Rightarrow>
          (case map_of (ff_flags ff) f of
             None \<Rightarrow> False
           | Some x \<Rightarrow> if 0 < fl_rollout x then draw * 100 < fl_rollout x else fl_enabled x))"

fun pick_variant :: "nat \<Rightarrow> rat \<Rightarrow> rat pdict \<Rightarrow> string \<Rightarrow> string" where
  "pick_variant bucket acc [] d = d"
| "pick_variant bucket acc ((v, p) # vs) d =
     (if of_nat bucket < acc + p * 100 then v else pick_variant bucket (acc + p * 100) vs d)"

text \<open>The bucket is the hash of the flag and the tenant, or of the flag and a random number, modulo 100.\<close>

definition get_variant :: "(string \<Rightarrow> nat) \<Rightarrow> string \<Rightarrow> string \<Rightarrow> string \<Rightarrow> string option \<Rightarrow> flags \<Rightarrow> string" where
  "get_variant md5 random f d tenant ff =
     (case map_of (ff_flags ff) f of
        None \<Rightarrow> d
      | Some x \<Rightarrow>
          if fl_variants x = [] then d
          else pick_variant (md5 (f @ '':'' @ or_str tenant random) mod 100) 0 (fl_variants x) d)"

definition set_enabled :: "string \<Rightarrow> bool \<Rightarrow> string option \<Rightarrow> flags \<Rightarrow> flags" where
  "set_enabled f b tenant ff =
     (if truthy_opt tenant
      then ff\<lparr>ff_overrides := AList.update (the tenant)
             (AList.update f b (some_or (map_of (ff_overrides ff) (the tenant)) [])) (ff_overrides ff)\<rparr>
      else ff\<lparr>ff_flags := AList.update f
             ((some_or (map_of (ff_flags ff) f) (plain_flag f))\<lparr>fl_enabled := b\<rparr>) (ff_flags ff)\<rparr>)"

definition add_flag :: "feature_flag \<Rightarrow> flags \<Rightarrow> flags" where
  "add_flag x ff = ff\<lparr>ff_flags := AList.update (fl_name x) x (ff_flags ff)\<rparr>"

definition list_enabled :: "(string \<Rightarrow> rat) \<Rightarrow> string option \<Rightarrow> flags \<Rightarrow> string list" where
  "list_enabled draw tenant ff = filter (\<lambda>n. is_enabled (draw n) n tenant ff) (map fst (ff_flags ff))"

lemma set_enabled_takes_effect:
  assumes "truthy_opt tenant \<or> fl_rollout (some_or (map_of (ff_flags ff) f) (plain_flag f)) \<le> 0"
  shows "is_enabled draw f tenant (set_enabled f b tenant ff) = b"
  using assms by (auto simp: is_enabled_def set_enabled_def some_or_def map_of_update)

text \<open>
  An override is not one of the flag alone: once a tenant has an override for one flag, every flag without an
  override is off for this tenant, also those that are on for everybody.
\<close>

lemma override_disables_the_rest:
  assumes "t \<noteq> []" "map_of (ff_overrides ff) t = None" "g \<noteq> f"
  shows "\<not> is_enabled draw g (Some t) (set_enabled f b (Some t) ff)"
    and "is_enabled draw g (Some t) ff = is_enabled draw g None ff"
    and "is_enabled draw g None (set_enabled f b (Some t) ff) = is_enabled draw g None ff"
  using assms by (simp_all add: is_enabled_def set_enabled_def some_or_def map_of_update)

text \<open>Switching off a flag that is rolled out to a percentage has no effect.\<close>

lemma rollout_ignores_switch:
  "map_of (ff_flags ff) f = Some x \<Longrightarrow> 0 < fl_rollout x \<Longrightarrow>
     is_enabled draw f None (set_enabled f b None ff) = is_enabled draw f None ff"
  by (simp add: is_enabled_def set_enabled_def some_or_def map_of_update)

lemma pick_variant_total:
  assumes "of_nat bucket < acc + 100 * sum_list (map snd vs)" "of_nat bucket \<ge> acc"
  shows "pick_variant bucket acc vs d \<in> fst ` set vs"
  using assms
proof (induction bucket acc vs d rule: pick_variant.induct)
  case (2 bucket acc v p vs d)
  then show ?case by (cases "of_nat bucket < acc + p * 100") (auto simp: algebra_simps)
qed simp

text \<open>Variants whose shares add up to the whole leave nobody in the control group.\<close>

lemma shares_cover_everybody:
  assumes "map_of (ff_flags ff) f = Some x" "1 \<le> sum_list (map snd (fl_variants x))"
  shows "get_variant md5 random f d tenant ff \<in> fst ` set (fl_variants x)"
proof -
  let ?b = "md5 (f @ '':'' @ or_str tenant random) mod 100"
  have "?b < 100" by simp
  then have "(of_nat ?b :: rat) < 100" by (metis of_nat_less_iff of_nat_numeral)
  moreover have "fl_variants x \<noteq> []" using assms(2) by auto
  ultimately show ?thesis
    using assms pick_variant_total [of ?b 0 "fl_variants x" d] by (simp add: get_variant_def)
qed

section \<open>Tenants\<close>

record tenant =
  tn_id :: string
  tn_name :: string
  tn_quota :: "rat pdict"
  tn_capabilities :: "string list"

record usage =
  us_requests :: int
  us_compute_ms :: rat
  us_storage :: int

record tenants =
  tm_tenants :: "tenant pdict"
  tm_usage :: "usage pdict"

definition no_usage :: usage where
  "no_usage = \<lparr>us_requests = 0, us_compute_ms = 0, us_storage = 0\<rparr>"

definition new_tenants :: tenants where
  "new_tenants = \<lparr>tm_tenants = [], tm_usage = []\<rparr>"

definition add_tenant :: "tenant \<Rightarrow> tenants \<Rightarrow> tenants" where
  "add_tenant x m = m\<lparr>tm_tenants := AList.update (tn_id x) x (tm_tenants m),
     tm_usage := AList.update (tn_id x) no_usage (tm_usage m)\<rparr>"

definition get_tenant :: "string \<Rightarrow> tenants \<Rightarrow> tenant option" where
  "get_tenant t m = map_of (tm_tenants m) t"

definition has_capability_access :: "string \<Rightarrow> string \<Rightarrow> tenants \<Rightarrow> bool" where
  "has_capability_access t c m =
     (case get_tenant t m of
        None \<Rightarrow> False
      | Some x \<Rightarrow> tn_capabilities x = [] \<or> c \<in> set (tn_capabilities x))"

definition get_usage :: "string \<Rightarrow> tenants \<Rightarrow> usage" where
  "get_usage t m = some_or (map_of (tm_usage m) t) no_usage"

definition below :: "rat \<Rightarrow> rat option \<Rightarrow> bool" where
  "below x limit = (case limit of None \<Rightarrow> True | Some l \<Rightarrow> x < l)"

definition check_quota :: "string \<Rightarrow> string \<Rightarrow> tenants \<Rightarrow> bool" where
  "check_quota t resource m =
     (case get_tenant t m of
        None \<Rightarrow> True
      | Some x \<Rightarrow>
          let u = get_usage t m; limit = map_of (tn_quota x) resource in
          if resource = ''requests'' then below (of_int (us_requests u)) limit
          else if resource = ''compute_time_ms'' then below (us_compute_ms u) limit
          else True)"

text \<open>\<open>int(value)\<close> cuts off the fraction.\<close>

definition truncated :: "rat \<Rightarrow> int" where
  "truncated x = (if 0 \<le> x then \<lfloor>x\<rfloor> else \<lceil>x\<rceil>)"

definition record_usage :: "string \<Rightarrow> string \<Rightarrow> rat \<Rightarrow> tenants \<Rightarrow> tenants" where
  "record_usage t resource x m =
     (let u = get_usage t m;
          u' = (if resource = ''requests'' then u\<lparr>us_requests := us_requests u + truncated x\<rparr>
                else if resource = ''compute_time_ms'' then u\<lparr>us_compute_ms := us_compute_ms u + x\<rparr>
                else u)
      in m\<lparr>tm_usage := AList.update t u' (tm_usage m)\<rparr>)"

definition reset_usage :: "string \<Rightarrow> tenants \<Rightarrow> tenants" where
  "reset_usage t m =
     (if map_of (tm_usage m) t = None then m else m\<lparr>tm_usage := AList.update t no_usage (tm_usage m)\<rparr>)"

text \<open>\<open>with TenantContext(t)\<close>: the current tenant while the body runs, and after it.\<close>

definition enter_tenant :: "string \<Rightarrow> string option \<Rightarrow> string option" where
  "enter_tenant t current = Some t"

definition exit_tenant :: "string option \<Rightarrow> string option" where
  "exit_tenant current = None"

text \<open>A caller that admits a request only under the quota, and then records it.\<close>

definition admit :: "string \<Rightarrow> tenants \<Rightarrow> bool \<times> tenants" where
  "admit t m = (if check_quota t ''requests'' m then (True, record_usage t ''requests'' 1 m) else (False, m))"

fun admitted :: "nat \<Rightarrow> string \<Rightarrow> tenants \<Rightarrow> nat" where
  "admitted 0 t m = 0"
| "admitted (Suc n) t m = (case admit t m of (b, m') \<Rightarrow> of_bool b + admitted n t m')"

lemma get_usage_record [simp]:
  "get_usage t (record_usage t' r x m) =
     (if t = t'
      then (let u = get_usage t m in
        if r = ''requests'' then u\<lparr>us_requests := us_requests u + truncated x\<rparr>
        else if r = ''compute_time_ms'' then u\<lparr>us_compute_ms := us_compute_ms u + x\<rparr> else u)
      else get_usage t m)"
  by (simp add: get_usage_def record_usage_def map_of_update some_or_def Let_def)

lemma get_tenant_record [simp]: "get_tenant t (record_usage t' r x m) = get_tenant t m"
  by (simp add: get_tenant_def record_usage_def Let_def)

lemma truncated_one [simp]: "truncated 1 = 1"
  by (simp add: truncated_def)

text \<open>Of any number of requests exactly the first ones are admitted, as many as the quota has left.\<close>

lemma quota_is_exact:
  assumes "get_tenant t m = Some x" "map_of (tn_quota x) ''requests'' = Some (of_int limit)"
    and "us_requests (get_usage t m) \<le> limit"
  shows "int (admitted n t m) = min (int n) (limit - us_requests (get_usage t m))"
  using assms
proof (induction n arbitrary: m)
  case (Suc n)
  show ?case
  proof (cases "us_requests (get_usage t m) < limit")
    case True
    then have "admit t m = (True, record_usage t ''requests'' 1 m)"
      using Suc.prems by (simp add: admit_def check_quota_def below_def Let_def)
    with True Suc.IH [of "record_usage t ''requests'' 1 m"] Suc.prems show ?thesis by (simp add: Let_def)
  next
    case False
    then have "admit t m = (False, m)"
      using Suc.prems by (simp add: admit_def check_quota_def below_def Let_def)
    with False Suc show ?thesis by simp
  qed
qed simp

text \<open>A tenant that nobody has added may use nothing, but has no quota either.\<close>

lemma unknown_tenant:
  "get_tenant t m = None \<Longrightarrow> \<not> has_capability_access t c m \<and> check_quota t r m"
  by (simp add: has_capability_access_def check_quota_def)

text \<open>Leaving an inner context forgets the tenant of the outer one.\<close>

lemma inner_context_forgets_outer: "exit_tenant (enter_tenant u (enter_tenant t current)) \<noteq> enter_tenant t current"
  by (simp add: exit_tenant_def enter_tenant_def)


definition demo_tenants :: tenants where
  "demo_tenants = add_tenant \<lparr>tn_id = ''t'', tn_name = ''T'', tn_quota = [(''requests'', 2)], tn_capabilities = []\<rparr> new_tenants"


end
