(* ===== verification/Experience.thy ===== *)
theory Experience
  imports Envelope Errors
begin

text \<open>
  Reuse of experience: the graph of past requests (\<open>src/src/prismpipe/memory_graph.py\<close>) and early answers with a
  confidence (\<open>src/src/prismpipe/partial.py\<close>). Hashes, fresh identifiers and clocks are arguments.
\<close>

section \<open>The graph of requests\<close>

text \<open>The path of a node is the plan of its envelope: the code stores the model object itself.\<close>

record request_node =
  rq_id :: string
  rq_intent :: string
  rq_hash :: string
  rq_state_keys :: "string list"
  rq_path :: plan
  rq_success :: bool
  rq_latency :: rat
  rq_created :: rat
  rq_parent :: "string option"

record memory_graph =
  mg_nodes :: "request_node pdict"
  mg_intents :: "string list pdict"
  mg_hashes :: "string list pdict"
  mg_paths :: "string list pdict"

definition new_memory_graph :: memory_graph where
  "new_memory_graph = \<lparr>mg_nodes = [], mg_intents = [], mg_hashes = [], mg_paths = []\<rparr>"

definition index_of :: "string \<Rightarrow> string list pdict \<Rightarrow> string list" where
  "index_of k d = (case map_of d k of Some xs \<Rightarrow> xs | None \<Rightarrow> [])"

definition index_add :: "string \<Rightarrow> string \<Rightarrow> string list pdict \<Rightarrow> string list pdict" where
  "index_add k x d = AList.update k (index_of k d @ [x]) d"

definition unhashable :: py_error where
  "unhashable = TypeError (''unhashable type: '' @ quoted ''list'')"

text \<open>
  A model object is true and iterates over pairs of field names and values. The first pair holds the list of
  capabilities, so that its use as a key of the path index raises, after the request has been stored.
\<close>

definition add_request ::
    "(pval \<Rightarrow> string) \<Rightarrow> string \<Rightarrow> rat \<Rightarrow> envelope \<Rightarrow> bool \<Rightarrow> rat \<Rightarrow> memory_graph \<Rightarrow> (py_error + string) \<times> memory_graph" where
  "add_request hash uid now e success latency g =
     (let rid = or_str (Some (env_id e)) uid; h = hash (env_input e);
          nd = \<lparr>rq_id = rid, rq_intent = intent_value (env_intent e), rq_hash = h, rq_state_keys = map fst (env_state e),
                rq_path = env_plan e, rq_success = success, rq_latency = latency, rq_created = now,
                rq_parent = env_parent_id e\<rparr>
      in (Inl unhashable,
          g\<lparr>mg_nodes := AList.update rid nd (mg_nodes g),
            mg_intents := index_add (rq_intent nd) rid (mg_intents g),
            mg_hashes := index_add h rid (mg_hashes g)\<rparr>))"

record similar_request =
  sr_id :: string
  sr_similarity :: rat
  sr_path :: plan
  sr_success :: bool
  sr_latency :: rat

definition add_score :: "rat \<Rightarrow> string \<Rightarrow> rat pdict \<Rightarrow> rat pdict" where
  "add_score x rid d = AList.update rid ((case map_of d rid of Some s \<Rightarrow> s | None \<Rightarrow> 0) + x) d"

definition score_all :: "rat \<Rightarrow> string list \<Rightarrow> rat pdict \<Rightarrow> rat pdict" where
  "score_all x rids d = fold (add_score x) rids d"

definition candidates ::
    "(pval \<Rightarrow> string) \<Rightarrow> string option \<Rightarrow> dict \<Rightarrow> string list \<Rightarrow> memory_graph \<Rightarrow> rat pdict" where
  "candidates hash i inp path g =
     (let c1 = (if truthy_opt i then score_all (4 / 10) (index_of (the i) (mg_intents g)) [] else []);
          c2 = (if inp \<noteq> [] then score_all (4 / 10) (index_of (hash (PDict inp)) (mg_hashes g)) c1 else c1);
          caps = remdups path
      in fold (\<lambda>c. score_all (1 / 10 / of_nat (length caps)) (index_of c (mg_paths g))) caps c2)"

definition similar_requests ::
    "(pval \<Rightarrow> string) \<Rightarrow> string option \<Rightarrow> dict \<Rightarrow> string list \<Rightarrow> int \<Rightarrow> memory_graph \<Rightarrow> similar_request list" where
  "similar_requests hash i inp path limit g =
     List.map_filter (\<lambda>(rid, s).
         map_option (\<lambda>nd. \<lparr>sr_id = rid, sr_similarity = min 1 s, sr_path = rq_path nd, sr_success = rq_success nd,
           sr_latency = rq_latency nd\<rparr>) (map_of (mg_nodes g) rid))
       (py_prefix limit (sort_desc snd (candidates hash i inp path g)))"

definition inherit_state :: "string \<Rightarrow> memory_graph \<Rightarrow> (string list \<times> string \<times> plan) option" where
  "inherit_state rid g = map_option (\<lambda>nd. (rq_state_keys nd, rid, rq_path nd)) (map_of (mg_nodes g) rid)"

text \<open>The loop of \<open>get_ancestry\<close>; \<open>None\<close> when it never ends.\<close>

partial_function (option) request_ancestry :: "memory_graph \<Rightarrow> request_node list \<Rightarrow> string option \<Rightarrow> request_node list option" where
  "request_ancestry g acc cur =
     (case cur of
        None \<Rightarrow> Some acc
      | Some rid \<Rightarrow>
          if rid = [] then Some acc
          else (case map_of (mg_nodes g) rid of
                  None \<Rightarrow> Some acc
                | Some nd \<Rightarrow> request_ancestry g (acc @ [nd]) (rq_parent nd)))"

definition get_ancestry :: "string \<Rightarrow> memory_graph \<Rightarrow> request_node list option" where
  "get_ancestry rid g = request_ancestry g [] (Some rid)"

text \<open>Joining a plan as if it were a list of names raises for the first node.\<close>

definition get_execution_patterns :: "memory_graph \<Rightarrow> py_error + string pdict" where
  "get_execution_patterns g =
     (if mg_nodes g = [] then Inr []
      else Inl (TypeError ''sequence item 0: expected str instance, tuple found''))"

definition memory_size :: "memory_graph \<Rightarrow> nat" where
  "memory_size g = length (mg_nodes g)"

definition clear_memory :: "memory_graph \<Rightarrow> memory_graph" where
  "clear_memory g = new_memory_graph"

section \<open>What is remembered\<close>

lemma keys_score_all: "fst ` set (score_all x rids d) = fst ` set d \<union> set rids"
  unfolding score_all_def by (induction rids arbitrary: d) (auto simp: add_score_def keys_update)

lemma length_score_all: "length (score_all x rids d) \<le> length d + length rids"
  unfolding score_all_def
proof (induction rids arbitrary: d)
  case (Cons r rids)
  have "length (add_score x r d) \<le> Suc (length d)" by (simp add: add_score_def length_update)
  with Cons.IH [of "add_score x r d"] show ?case by simp
qed simp

text \<open>A request found by its intent, when the limit leaves room for every request with that intent.\<close>

lemma found_by_intent:
  assumes "map_of (mg_nodes g) rid = Some nd" "rid \<in> set (index_of i (mg_intents g))" "i \<noteq> []"
    and "int (length (index_of i (mg_intents g))) \<le> limit"
  shows "\<exists>x \<in> set (similar_requests hash (Some i) [] [] limit g). sr_id x = rid \<and> sr_latency x = rq_latency nd"
proof -
  let ?c = "score_all (4 / 10) (index_of i (mg_intents g)) []"
  have c: "candidates hash (Some i) [] [] g = ?c" using assms(3) by (simp add: candidates_def Let_def)
  have "length (sort_desc snd ?c) \<le> nat limit"
    using length_score_all [of "4 / 10" "index_of i (mg_intents g)" "[]"] assms(4) by (simp add: sort_desc_def)
  moreover have "0 \<le> limit" using assms(4) by linarith
  ultimately have all: "py_prefix limit (sort_desc snd ?c) = sort_desc snd ?c" by (simp add: py_prefix_def)
  have "rid \<in> fst ` set ?c" using assms(2) by (simp add: keys_score_all)
  then obtain s where "(rid, s) \<in> set (sort_desc snd ?c)" by auto
  with assms(1) show ?thesis
    unfolding similar_requests_def c all by (force simp: List.map_filter_def image_iff)
qed

text \<open>
  Note: Adding a request always fails with a \<open>TypeError\<close>, whatever the request, and always takes effect: the request
  is stored and found by its intent. As every addition stops there, no capability is ever indexed, and from
  the first addition on the analysis of patterns fails as well.
\<close>

theorem adding_a_request_raises_but_stores:
  assumes "env_id e \<noteq> []" "add_request hash uid now e success latency g = (res, g')"
    and "int (length (index_of (intent_value (env_intent e)) (mg_intents g))) < limit"
  shows "res = Inl unhashable \<and> mg_paths g' = mg_paths g \<and>
    (\<exists>err. get_execution_patterns g' = Inl err) \<and>
    (\<exists>x \<in> set (similar_requests hash (Some (intent_value (env_intent e))) [] [] limit g').
       sr_id x = env_id e \<and> sr_latency x = latency)"
proof -
  let ?i = "intent_value (env_intent e)"
  have g': "map_of (mg_nodes g') (env_id e) \<noteq> None" "rq_latency (the (map_of (mg_nodes g') (env_id e))) = latency"
    "mg_intents g' = index_add ?i (env_id e) (mg_intents g)" "mg_paths g' = mg_paths g" "res = Inl unhashable"
    "mg_nodes g' \<noteq> []"
    using assms(1,2) by (auto simp: add_request_def or_str_def map_of_update Let_def)
  have idx: "index_of ?i (mg_intents g') = index_of ?i (mg_intents g) @ [env_id e]"
    by (simp add: g'(3) index_add_def index_of_def map_of_update)
  have "?i \<noteq> []" by (cases "env_intent e") simp_all
  from g'(1) obtain nd where nd: "map_of (mg_nodes g') (env_id e) = Some nd" by blast
  have "\<exists>x \<in> set (similar_requests hash (Some ?i) [] [] limit g'). sr_id x = env_id e \<and> sr_latency x = rq_latency nd"
    by (rule found_by_intent [OF nd _ \<open>?i \<noteq> []\<close>]) (use idx assms(3) in auto)
  with g'(2,4,5,6) nd show ?thesis by (simp add: get_execution_patterns_def)
qed

definition demo_request_envelope :: envelope where
  "demo_request_envelope = \<lparr>env_id = ''r'', env_intent = CUSTOM, env_input = PDict [], env_state = [], env_history = [],
     env_metadata = empty_metadata, env_plan = empty_plan, env_next = None, env_error = None, env_terminated = False,
     env_parent_id = Some ''r''\<rparr>"

theorem adding_a_request_raises_but_stores_witness:
  "fst (add_request (\<lambda>_. ''h'') ''u'' 0 demo_request_envelope True 5 new_memory_graph) = Inl unhashable"
proof -
  obtain res g' where add: "add_request (\<lambda>_. ''h'') ''u'' 0 demo_request_envelope True 5 new_memory_graph = (res, g')"
    by fastforce
  have "env_id demo_request_envelope \<noteq> []"
    "int (length (index_of (intent_value (env_intent demo_request_envelope)) (mg_intents new_memory_graph))) < 1"
    by (simp_all add: demo_request_envelope_def new_memory_graph_def index_of_def)
  from adding_a_request_raises_but_stores [OF this(1) add this(2)] add show ?thesis by simp
qed

text \<open>The ancestry of a request is not returned when the chain of its parents meets itself, and else it is.\<close>

definition ancestor_closed :: "memory_graph \<Rightarrow> string set \<Rightarrow> bool" where
  "ancestor_closed g C \<longleftrightarrow>
     (\<forall>i \<in> C. i \<noteq> [] \<and> (\<exists>nd p. map_of (mg_nodes g) i = Some nd \<and> rq_parent nd = Some p \<and> p \<in> C))"

lemma ancestry_in_cycle:
  assumes "request_ancestry g acc cur = Some l"
  shows "ancestor_closed g C \<longrightarrow> cur \<notin> Some ` C"
proof (rule request_ancestry.raw_induct [where P = "\<lambda>g acc cur l. ancestor_closed g C \<longrightarrow> cur \<notin> Some ` C", OF _ assms])
  fix f g acc cur l
  assume IH: "\<And>g acc cur l. f g acc cur = Some l \<Longrightarrow> ancestor_closed g C \<longrightarrow> cur \<notin> Some ` C"
    and body: "(case cur of None \<Rightarrow> Some acc
      | Some rid \<Rightarrow> if rid = [] then Some acc
          else (case map_of (mg_nodes g) rid of None \<Rightarrow> Some acc | Some nd \<Rightarrow> f g (acc @ [nd]) (rq_parent nd))) = Some l"
  show "ancestor_closed g C \<longrightarrow> cur \<notin> Some ` C"
  proof (intro impI notI)
    assume C: "ancestor_closed g C" and "cur \<in> Some ` C"
    then obtain i where i: "cur = Some i" "i \<in> C" by blast
    with C obtain nd p where nd: "i \<noteq> []" "map_of (mg_nodes g) i = Some nd" "rq_parent nd = Some p" "p \<in> C"
      unfolding ancestor_closed_def by blast
    with i body have "f g (acc @ [nd]) (Some p) = Some l" by simp
    from IH [OF this] C nd show False by simp
  qed
qed

lemma ancestry_diverges: "ancestor_closed g C \<Longrightarrow> i \<in> C \<Longrightarrow> get_ancestry i g = None"
  using ancestry_in_cycle [of g "[]" "Some i" _ C] by (cases "get_ancestry i g") (auto simp: get_ancestry_def)

lemma ancestry_ends:
  assumes "\<And>i nd p. map_of (mg_nodes g) i = Some nd \<Longrightarrow> rq_parent nd = Some p \<Longrightarrow> (rank p :: nat) < rank i"
  shows "\<exists>l. request_ancestry g acc (Some i) = Some (acc @ l)"
proof (induction i arbitrary: acc rule: measure_induct_rule [of rank])
  case (less i)
  show ?case
  proof (cases "i = [] \<or> map_of (mg_nodes g) i = None")
    case True
    then show ?thesis by (subst request_ancestry.simps) auto
  next
    case False
    then obtain nd where nd: "map_of (mg_nodes g) i = Some nd" "i \<noteq> []" by auto
    show ?thesis
    proof (cases "rq_parent nd")
      case None
      with nd show ?thesis by (subst request_ancestry.simps) (simp add: request_ancestry.simps [of g _ None])
    next
      case (Some p)
      from less.IH [OF assms [OF nd(1) Some], of "acc @ [nd]"] nd Some show ?thesis
        by (subst request_ancestry.simps) auto
    qed
  qed
qed

section \<open>Partial knowledge\<close>

record early_result =
  pt_data :: pval
  pt_confidence :: rat
  pt_partial :: bool
  pt_final :: bool
  pt_metadata :: dict

datatype task_status = RUNNING | COMPLETED | FAILED

record background_task =
  bt_id :: string
  bt_request :: string
  bt_status :: task_status
  bt_result :: pval
  bt_error :: "string option"
  bt_created :: rat
  bt_completed :: "rat option"

record partial_engine =
  kn_min_confidence :: rat
  kn_tasks :: "background_task pdict"

definition new_partial_engine :: "rat \<Rightarrow> partial_engine" where
  "new_partial_engine c = \<lparr>kn_min_confidence = c, kn_tasks = []\<rparr>"

text \<open>How the envelope's intent and the JSON text of its input are printed are arguments.\<close>

definition partial_key :: "(intent \<Rightarrow> string) \<Rightarrow> (pval \<Rightarrow> string) \<Rightarrow> envelope \<Rightarrow> string" where
  "partial_key fmt dumps e = fmt (env_intent e) @ '':'' @ dumps (env_input e)"

definition quick_path :: "string \<Rightarrow> partial_engine \<Rightarrow> early_result option" where
  "quick_path key k =
     (case map_of (kn_tasks k) key of
        Some t \<Rightarrow>
          if bt_status t = COMPLETED
          then Some \<lparr>pt_data = bt_result t, pt_confidence = 85 / 100, pt_partial = True, pt_final = True, pt_metadata = []\<rparr>
          else None
      | None \<Rightarrow> None)"

definition full_result :: "pval \<Rightarrow> early_result" where
  "full_result v = \<lparr>pt_data = v, pt_confidence = 1, pt_partial = False, pt_final = True, pt_metadata = []\<rparr>"

text \<open>A threshold of zero is false, so that it selects the default.\<close>

definition process_with_partial ::
    "(envelope \<Rightarrow> py_error + pval) \<Rightarrow> string \<Rightarrow> envelope \<Rightarrow> bool \<Rightarrow> rat option \<Rightarrow> partial_engine \<Rightarrow> py_error + early_result" where
  "process_with_partial f key e accept_partial threshold k =
     (let m = (case threshold of Some x \<Rightarrow> if x \<noteq> 0 then x else kn_min_confidence k | None \<Rightarrow> kn_min_confidence k);
          full = map_sum id full_result (f e)
      in if \<not> accept_partial then full
         else case quick_path key k of
                Some q \<Rightarrow> if m \<le> pt_confidence q then Inr q else full
              | None \<Rightarrow> full)"

definition start_background :: "string \<Rightarrow> string \<Rightarrow> rat \<Rightarrow> partial_engine \<Rightarrow> partial_engine" where
  "start_background uid rid now k =
     k\<lparr>kn_tasks := AList.update uid
        \<lparr>bt_id = uid, bt_request = rid, bt_status = RUNNING, bt_result = PNone, bt_error = None, bt_created = now,
         bt_completed = None\<rparr> (kn_tasks k)\<rparr>"

definition finish_background :: "(rat \<Rightarrow> string) \<Rightarrow> string \<Rightarrow> rat \<Rightarrow> py_error + pval \<Rightarrow> partial_engine \<Rightarrow> partial_engine" where
  "finish_background fmt uid now res k =
     (case map_of (kn_tasks k) uid of
        None \<Rightarrow> k
      | Some t \<Rightarrow>
          let t' = (case res of
                 Inr v \<Rightarrow> t\<lparr>bt_result := v, bt_status := COMPLETED\<rparr>
               | Inl x \<Rightarrow> t\<lparr>bt_error := Some (exn_str fmt x), bt_status := FAILED\<rparr>)
          in k\<lparr>kn_tasks := AList.update uid (t'\<lparr>bt_completed := Some now\<rparr>) (kn_tasks k)\<rparr>)"

definition get_background_result :: "string \<Rightarrow> partial_engine \<Rightarrow> background_task option" where
  "get_background_result uid k = map_of (kn_tasks k) uid"

definition flagged_by :: "string \<Rightarrow> dict \<Rightarrow> rat \<Rightarrow> rat" where
  "flagged_by k d x = (case map_of d k of Some v \<Rightarrow> if truthy v then x else 0 | None \<Rightarrow> 0)"

text \<open>The expected keys are those of the envelope's metadata, a list of texts.\<close>

definition estimate_confidence :: "string list \<Rightarrow> dict \<Rightarrow> rat" where
  "estimate_confidence expected d =
     (let c = 5 / 10 + flagged_by ''from_cache'' d (2 / 10) + flagged_by ''validated'' d (15 / 100);
          found = card (fst ` set d \<inter> set expected)
      in min 1 (if expected = [] then c
                else c * (5 / 10) + of_nat found / of_nat (length expected) * (5 / 10)))"

definition create_partial_response :: "pval \<Rightarrow> rat \<Rightarrow> dict option \<Rightarrow> early_result" where
  "create_partial_response v c md =
     \<lparr>pt_data = v, pt_confidence = c, pt_partial = True, pt_final = (9 / 10 \<le> c),
      pt_metadata = (case md of Some d \<Rightarrow> d | None \<Rightarrow> [])\<rparr>"

text \<open>The operations on tasks, and the tasks that a sequence of them can leave behind.\<close>

datatype task_op = StartTask string string rat | FinishTask string rat "py_error + pval"

fun task_step :: "(rat \<Rightarrow> string) \<Rightarrow> task_op \<Rightarrow> partial_engine \<Rightarrow> partial_engine" where
  "task_step fmt (StartTask uid rid now) k = start_background uid rid now k"
| "task_step fmt (FinishTask uid now res) k = finish_background fmt uid now res k"

fun op_uid :: "task_op \<Rightarrow> string" where
  "op_uid (StartTask uid rid now) = uid"
| "op_uid (FinishTask uid now res) = uid"

lemma task_keys: "fst ` set (kn_tasks (fold (task_step fmt) ops k)) \<subseteq> fst ` set (kn_tasks k) \<union> op_uid ` set ops"
proof (induction ops arbitrary: k)
  case (Cons x ops)
  have "fst ` set (kn_tasks (task_step fmt x k)) \<subseteq> fst ` set (kn_tasks k) \<union> {op_uid x}"
    by (cases x) (auto simp: start_background_def finish_background_def keys_update Let_def split: option.splits)
  with Cons.IH [of "task_step fmt x k"] show ?case by auto
qed simp

text \<open>
  Note: No answer is ever early: tasks are kept under their identifiers, which hold no colon, while the quick path
  looks them up under a key that holds one. Whatever tasks were started and finished, processing with and
  without acceptance of partial results is the same, and always runs the full computation.
\<close>

theorem quick_path_never_hits:
  assumes "\<forall>x \<in> set ops. CHR '':'' \<notin> set (op_uid x)"
  shows "process_with_partial f (partial_key fmt dumps e) e accept_partial threshold
      (fold (task_step show_rat) ops (new_partial_engine c)) = map_sum id full_result (f e)"
proof -
  let ?k = "fold (task_step show_rat) ops (new_partial_engine c)"
  have "fst ` set (kn_tasks ?k) \<subseteq> op_uid ` set ops"
    using task_keys [of show_rat ops "new_partial_engine c"] by (simp add: new_partial_engine_def)
  moreover have "partial_key fmt dumps e \<noteq> op_uid x" if "x \<in> set ops" for x
    using assms that by (metis in_set_conv_decomp partial_key_def append_Cons append_Nil)
  ultimately have "partial_key fmt dumps e \<notin> fst ` set (kn_tasks ?k)" by (meson image_iff subsetD)
  then have "map_of (kn_tasks ?k) (partial_key fmt dumps e) = None" by (simp add: map_of_eq_None_iff)
  then have "quick_path (partial_key fmt dumps e) ?k = None" by (simp add: quick_path_def)
  then show ?thesis by (simp add: process_with_partial_def Let_def)
qed

theorem quick_path_never_hits_witness:
  "process_with_partial (\<lambda>e. Inr (PInt 2)) (partial_key intent_value (\<lambda>_. ''{}'') demo_request_envelope) demo_request_envelope True None
     (fold (task_step (\<lambda>_. [])) [StartTask ''t'' ''r'' 0, FinishTask ''t'' 1 (Inr (PInt 2))] (new_partial_engine (7 / 10))) =
   Inr (full_result (PInt 2))"
  by (subst quick_path_never_hits) simp_all

text \<open>An estimate lies between a quarter and one.\<close>

lemma estimate_bounds: "1 / 4 \<le> estimate_confidence expected d \<and> estimate_confidence expected d \<le> 1"
proof -
  have f: "0 \<le> flagged_by k d x" if "0 \<le> x" for k x
    using that by (auto simp: flagged_by_def split: option.splits)
  define c where "c = 5 / 10 + flagged_by ''from_cache'' d (2 / 10) + flagged_by ''validated'' d (15 / 100)"
  have c: "1 / 2 \<le> c" using f [of "2 / 10"] f [of "15 / 100"] by (simp add: c_def)
  have "0 \<le> (of_nat n / of_nat m :: rat) * (5 / 10)" for n m by simp
  moreover have "1 / 4 \<le> c * (5 / 10)" using c by simp
  ultimately have "1 / 4 \<le> c * (5 / 10) + of_nat n / of_nat m * (5 / 10)" for n m :: nat
    by (metis add_increasing2)
  with c show ?thesis unfolding estimate_confidence_def c_def [symmetric] Let_def by auto
qed

end
