(* ===== verification/StageStore.thy ===== *)
theory StageStore
  imports Prism_Prelude
begin

text \<open>
  Memoisation of pipeline stages by the content of their inputs (\<open>src/src/prismpipe/cyrex_stage_store.py\<close>): the
  tables that its three SQL statements touch, the statements, and the store around them. A table is a list
  of rows, with a primary key as an association list; the hash and the database's failures are arguments.
\<close>

section \<open>Tables and statements\<close>

type_synonym stage = "string \<times> string"

record memo_db =
  db_inputs :: "((stage \<times> string) \<times> string) list"
  db_outputs :: "((stage \<times> string) \<times> string option) list"
  db_artifacts :: "(string \<times> bool) list"
  db_stages :: "(stage \<times> string \<times> rat option) list"

text \<open>A row of the lookup: the artifact, its type, the run, and when its stage was completed.\<close>

record memo_row =
  mr_artifact :: string
  mr_type :: "string option"
  mr_run :: string
  mr_completed :: "rat option"

text \<open>
  The four joined tables, filtered: an input with this stage and hash, the outputs of the same run and stage,
  artifacts that are not deleted, and a completed stage.
\<close>

definition row_of ::
    "memo_db \<Rightarrow> string \<Rightarrow> string \<Rightarrow> (stage \<times> string) \<times> string \<Rightarrow> (stage \<times> string) \<times> string option \<Rightarrow> memo_row option" where
  "row_of db name h i out =
     (case (i, out) of
        ((((run, st), ref), h'), (((run', st'), art), ty)) \<Rightarrow>
          if st = name \<and> h' = h \<and> run' = run \<and> st' = st \<and> map_of (db_artifacts db) art = Some False
          then (case map_of (db_stages db) (run, st) of
                  Some (status, t) \<Rightarrow>
                    if status = ''completed''
                    then Some \<lparr>mr_artifact = art, mr_type = ty, mr_run = run, mr_completed = t\<rparr> else None
                | None \<Rightarrow> None)
          else None)"

definition joined :: "string \<Rightarrow> string \<Rightarrow> memo_db \<Rightarrow> memo_row list" where
  "joined name h db = concat (map (\<lambda>i. List.map_filter (row_of db name h i) (db_outputs db)) (db_inputs db))"

text \<open>\<open>ORDER BY completed_at DESC NULLS LAST LIMIT n\<close>; rows that tie keep the order of the tables.\<close>

definition newest_first :: "memo_row list \<Rightarrow> memo_row list" where
  "newest_first rows =
     sort_desc (\<lambda>r. the (mr_completed r)) (filter (\<lambda>r. mr_completed r \<noteq> None) rows) @
     filter (\<lambda>r. mr_completed r = None) rows"

definition lookup_rows :: "string \<Rightarrow> string \<Rightarrow> nat \<Rightarrow> memo_db \<Rightarrow> memo_row list" where
  "lookup_rows name h limit db = take limit (newest_first (joined name h db))"

text \<open>The insertions: a conflicting input takes the new hash, a conflicting output is left as it is.\<close>

definition record_input :: "stage \<Rightarrow> string \<Rightarrow> string \<Rightarrow> memo_db \<Rightarrow> memo_db" where
  "record_input s h ref db = db\<lparr>db_inputs := AList.update (s, ref) h (db_inputs db)\<rparr>"

definition record_output :: "stage \<Rightarrow> string option \<Rightarrow> string \<Rightarrow> memo_db \<Rightarrow> memo_db" where
  "record_output s ty art db =
     (if map_of (db_outputs db) (s, art) = None then db\<lparr>db_outputs := db_outputs db @ [((s, art), ty)]\<rparr> else db)"

section \<open>The store\<close>

definition stage_input_hash :: "(pval \<Rightarrow> string) \<Rightarrow> (string \<Rightarrow> string) \<Rightarrow> pval \<Rightarrow> string \<Rightarrow> string" where
  "stage_input_hash dumps sha256 v version = sha256 (version @ '':'' @ dumps v)"

record memo_hit =
  mh_stage :: string
  mh_hash :: string
  mh_artifacts :: "string list"
  mh_types :: "string option list"
  mh_run :: string

record memo_stats =
  mc_hits :: nat
  mc_misses :: nat

definition lookup_memo ::
    "string \<Rightarrow> string \<Rightarrow> nat \<Rightarrow> memo_db \<Rightarrow> memo_stats \<Rightarrow> memo_hit option \<times> memo_stats" where
  "lookup_memo name h limit db c =
     (case lookup_rows name h limit db of
        [] \<Rightarrow> (None, c\<lparr>mc_misses := mc_misses c + 1\<rparr>)
      | row # rows \<Rightarrow>
          (Some \<lparr>mh_stage = name, mh_hash = h, mh_artifacts = map mr_artifact (row # rows),
             mh_types = map mr_type (row # rows), mh_run = mr_run row\<rparr>,
           c\<lparr>mc_hits := mc_hits c + 1\<rparr>))"

record memo_entry =
  me_run :: string
  me_stage :: string
  me_hash :: string
  me_artifacts :: "string list"
  me_ref :: string
  me_type :: "string option"

definition write_entry :: "memo_entry \<Rightarrow> memo_db \<Rightarrow> memo_db" where
  "write_entry x db =
     (let s = (me_run x, me_stage x)
      in fold (record_output s (me_type x)) (me_artifacts x) (record_input s (me_hash x) (me_ref x) db))"

text \<open>One transaction: a failure of any statement leaves the tables as they were.\<close>

definition record_memo :: "py_error option \<Rightarrow> memo_entry \<Rightarrow> memo_db \<Rightarrow> (py_error + unit) \<times> memo_db" where
  "record_memo failure x db =
     (case failure of Some err \<Rightarrow> (Inl err, db) | None \<Rightarrow> (Inr (), write_entry x db))"

definition memo_hit_ratio :: "memo_stats \<Rightarrow> rat" where
  "memo_hit_ratio c = of_nat (mc_hits c) / of_nat (max (mc_hits c + mc_misses c) 1)"

section \<open>What a hit promises\<close>

lemma memo_hit_ratio_bounds: "0 \<le> memo_hit_ratio c \<and> memo_hit_ratio c \<le> 1"
proof -
  have "mc_hits c \<le> max (mc_hits c + mc_misses c) 1" by simp
  then show ?thesis by (simp add: memo_hit_ratio_def divide_le_eq)
qed

lemma set_newest_first [simp]: "set (newest_first rows) = set rows"
  by (auto simp: newest_first_def)

lemma row_of_Some:
  "row_of db name h i out = Some row \<longleftrightarrow>
     (\<exists>ref. i = (((mr_run row, name), ref), h)) \<and> out = (((mr_run row, name), mr_artifact row), mr_type row) \<and>
     map_of (db_artifacts db) (mr_artifact row) = Some False \<and>
     map_of (db_stages db) (mr_run row, name) = Some (''completed'', mr_completed row)"
  by (cases row) (auto simp: row_of_def split: prod.splits option.splits if_splits)

lemma joined_row: "row \<in> set (joined name h db) \<longleftrightarrow>
    (\<exists>i \<in> set (db_inputs db). \<exists>out \<in> set (db_outputs db). row_of db name h i out = Some row)"
  by (force simp: joined_def List.map_filter_def)

text \<open>The tables hold nothing but what was recorded.\<close>

definition written :: "memo_entry list \<Rightarrow> memo_db \<Rightarrow> bool" where
  "written xs db \<longleftrightarrow>
     set (db_inputs db) \<subseteq> (\<lambda>x. (((me_run x, me_stage x), me_ref x), me_hash x)) ` set xs \<and>
     fst ` set (db_outputs db) \<subseteq> (\<Union>x \<in> set xs. Pair (me_run x, me_stage x) ` set (me_artifacts x))"

lemma outputs_fold:
  "set (db_outputs (fold (record_output s ty) arts db)) \<subseteq> set (db_outputs db) \<union> (\<lambda>a. ((s, a), ty)) ` set arts"
proof (induction arts arbitrary: db)
  case (Cons a arts)
  have "set (db_outputs (record_output s ty a db)) \<subseteq> set (db_outputs db) \<union> {((s, a), ty)}"
    by (auto simp: record_output_def)
  with Cons.IH [of "record_output s ty a db"] show ?case by auto
qed simp

lemma outputs_fold_inputs [simp]: "db_inputs (fold (record_output s ty) arts db) = db_inputs db"
  by (induction arts arbitrary: db) (simp_all add: record_output_def)

lemma set_update_subset: "set (AList.update k v d) \<subseteq> insert (k, v) (set d)"
  by (induction d) auto

lemma written_entry: "written xs db \<Longrightarrow> written (xs @ [x]) (write_entry x db)"
proof -
  assume w: "written xs db"
  let ?s = "(me_run x, me_stage x)"
  have i: "set (db_inputs (write_entry x db)) \<subseteq> insert ((?s, me_ref x), me_hash x) (set (db_inputs db))"
    using set_update_subset [of "(?s, me_ref x)" "me_hash x" "db_inputs db"]
    by (simp add: write_entry_def record_input_def Let_def)
  have "set (db_outputs (write_entry x db)) \<subseteq> set (db_outputs db) \<union> (\<lambda>a. ((?s, a), me_type x)) ` set (me_artifacts x)"
    using outputs_fold [of ?s "me_type x" "me_artifacts x" "record_input ?s (me_hash x) (me_ref x) db"]
    by (simp add: write_entry_def record_input_def Let_def)
  then have "fst ` set (db_outputs (write_entry x db)) \<subseteq> fst ` set (db_outputs db) \<union> Pair ?s ` set (me_artifacts x)"
    by force
  moreover from w have "fst ` set (db_outputs db) \<subseteq> (\<Union>y \<in> set xs. Pair (me_run y, me_stage y) ` set (me_artifacts y))"
    by (simp add: written_def)
  ultimately have "fst ` set (db_outputs (write_entry x db)) \<subseteq>
      (\<Union>y \<in> set xs. Pair (me_run y, me_stage y) ` set (me_artifacts y)) \<union> Pair ?s ` set (me_artifacts x)"
    by (rule subset_trans [OF _ Un_mono [OF _ subset_refl]])
  then have "fst ` set (db_outputs (write_entry x db)) \<subseteq>
      (\<Union>y \<in> set (xs @ [x]). Pair (me_run y, me_stage y) ` set (me_artifacts y))"
    by (simp add: Un_commute)
  moreover have "set (db_inputs (write_entry x db)) \<subseteq>
      (\<lambda>y. (((me_run y, me_stage y), me_ref y), me_hash y)) ` set (xs @ [x])"
    using w i unfolding written_def by auto
  ultimately show ?thesis unfolding written_def by blast
qed

definition empty_tables :: "(string \<times> bool) list \<Rightarrow> (stage \<times> string \<times> rat option) list \<Rightarrow> memo_db" where
  "empty_tables arts sts = \<lparr>db_inputs = [], db_outputs = [], db_artifacts = arts, db_stages = sts\<rparr>"

lemma written_all: "written xs (fold write_entry xs (empty_tables arts sts))"
proof (induction xs rule: rev_induct)
  case Nil
  then show ?case by (simp add: written_def empty_tables_def)
next
  case (snoc x xs)
  then show ?case using written_entry by simp
qed

text \<open>
  C21: When each run executes a stage at most once, memoisation by content is sound: every artifact that a lookup
  returns was recorded by a run for this stage and this very input hash.
\<close>

theorem memo_hit_is_sound:
  assumes "distinct (map (\<lambda>x. (me_run x, me_stage x)) xs)"
    and "lookup_memo name h limit (fold write_entry xs (empty_tables arts sts)) c = (Some hit, c')"
    and "a \<in> set (mh_artifacts hit)"
  shows "\<exists>x \<in> set xs. me_stage x = name \<and> me_hash x = h \<and> a \<in> set (me_artifacts x)"
proof -
  let ?db = "fold write_entry xs (empty_tables arts sts)"
  have "mh_artifacts hit = map mr_artifact (lookup_rows name h limit ?db)"
    using assms(2) by (auto simp: lookup_memo_def split: list.splits)
  with assms(3) obtain row where row: "row \<in> set (lookup_rows name h limit ?db)" "mr_artifact row = a" by auto
  then have "row \<in> set (joined name h ?db)" by (auto simp: lookup_rows_def dest: in_set_takeD)
  then obtain ref where i: "(((mr_run row, name), ref), h) \<in> set (db_inputs ?db)"
    and o: "((mr_run row, name), a) \<in> fst ` set (db_outputs ?db)"
    using row(2) unfolding joined_row row_of_Some by force
  obtain x where x: "x \<in> set xs" "me_run x = mr_run row" "me_stage x = name" "me_hash x = h"
    using i written_all [of xs arts sts] unfolding written_def by auto
  obtain y where y: "y \<in> set xs" "me_run y = mr_run row" "me_stage y = name" "a \<in> set (me_artifacts y)"
    using o written_all [of xs arts sts] unfolding written_def by auto
  have "x = y" using assms(1) x y by (auto simp: distinct_map inj_on_def)
  with x y show ?thesis by blast
qed

definition demo_entry :: memo_entry where
  "demo_entry = \<lparr>me_run = ''r'', me_stage = ''s'', me_hash = ''h'', me_artifacts = [''a'', ''b''], me_ref = [], me_type = None\<rparr>"

definition demo_tables :: memo_db where
  "demo_tables = empty_tables [(''a'', False), (''b'', False), (''c'', False)] [((''r'', ''s''), ''completed'', Some 1)]"

theorem memo_hit_is_sound_witness:
  "\<exists>hit c'. lookup_memo ''s'' ''h'' 64 (fold write_entry [demo_entry] demo_tables) \<lparr>mc_hits = 0, mc_misses = 0\<rparr> = (Some hit, c') \<and>
     ''b'' \<in> set (mh_artifacts hit) \<and> ''b'' \<in> set (me_artifacts demo_entry)"
proof -
  obtain hit c' where l: "lookup_memo ''s'' ''h'' 64 (fold write_entry [demo_entry] demo_tables) \<lparr>mc_hits = 0, mc_misses = 0\<rparr> = (Some hit, c')"
    "''b'' \<in> set (mh_artifacts hit)"
    by (simp add: lookup_memo_def lookup_rows_def newest_first_def joined_def row_of_def List.map_filter_def write_entry_def record_input_def
        record_output_def demo_entry_def demo_tables_def empty_tables_def sort_desc_def Let_def)
  have "distinct (map (\<lambda>x. (me_run x, me_stage x)) [demo_entry])" by simp
  from memo_hit_is_sound [OF this l(1) [unfolded demo_tables_def] l(2)] l show ?thesis by auto
qed

text \<open>
  A run that executes a stage twice with the default reference breaks this: the second input takes the place of
  the first, so that a lookup of the second hash returns the artifacts of both, and the first is forgotten.
\<close>

lemma second_input_takes_all:
  assumes "me_run x = me_run y" "me_stage x = me_stage y" "me_ref x = me_ref y" "me_hash x \<noteq> me_hash y"
    and "a \<in> set (me_artifacts x)" "map_of arts a = Some False"
    and "map_of sts (me_run x, me_stage x) = Some (''completed'', t)"
  defines "db \<equiv> write_entry y (write_entry x (empty_tables arts sts))"
  shows "\<exists>row \<in> set (joined (me_stage y) (me_hash y) db). mr_artifact row = a"
    and "joined (me_stage x) (me_hash x) db = []"
proof -
  let ?s = "(me_run x, me_stage x)"
  have i: "db_inputs db = [((?s, me_ref x), me_hash y)]"
    using assms(1-3) by (simp add: db_def write_entry_def record_input_def empty_tables_def Let_def)
  have keep: "((?s, a), ty) \<in> set (db_outputs d) \<Longrightarrow> ((?s, a), ty) \<in> set (db_outputs (fold (record_output s ty') arts' d))"
    for d ty s ty' arts' by (induction arts' arbitrary: d) (auto simp: record_output_def)
  have put: "a \<in> set arts' \<Longrightarrow> \<exists>ty. ((?s, a), ty) \<in> set (db_outputs (fold (record_output ?s ty') arts' d))" for d ty' arts'
  proof (induction arts' arbitrary: d)
    case (Cons b arts')
    have "\<exists>ty. ((?s, a), ty) \<in> set (db_outputs (record_output ?s ty' a d))"
      by (auto simp: record_output_def dest: map_of_SomeD)
    with Cons keep show ?case by (cases "a = b") (auto, blast)
  qed simp
  obtain ty where "((?s, a), ty) \<in> set (db_outputs (write_entry x (empty_tables arts sts)))"
    using put [OF assms(5)] unfolding write_entry_def Let_def by blast
  then have o: "((?s, a), ty) \<in> set (db_outputs db)"
    using keep by (simp add: db_def write_entry_def [of y] record_input_def Let_def)
  have fixed: "db_artifacts (fold (record_output s ty') arts' d) = db_artifacts d"
    "db_stages (fold (record_output s ty') arts' d) = db_stages d" for s ty' arts' d
    by (induction arts' arbitrary: d) (simp_all add: record_output_def)
  have tables: "db_artifacts db = arts" "db_stages db = sts"
    by (simp_all add: db_def write_entry_def fixed record_input_def empty_tables_def Let_def)
  have "\<lparr>mr_artifact = a, mr_type = ty, mr_run = me_run x, mr_completed = t\<rparr> \<in> set (joined (me_stage y) (me_hash y) db)"
    unfolding joined_row row_of_Some using i o tables assms(2,6,7) by force
  then show "\<exists>row \<in> set (joined (me_stage y) (me_hash y) db). mr_artifact row = a" by force
  show "joined (me_stage x) (me_hash x) db = []" using i assms(4)
    by (simp add: joined_def List.map_filter_def row_of_def split: prod.splits)
qed

end
