(* ===== verification/Sdk.thy ===== *)
theory Sdk
  imports Pipeline
begin

text \<open>
  The SDK (\<open>src/src/prismpipe/sdk/__init__.py\<close>): nodes made of functions by the decorators \<open>node\<close>, \<open>enrich\<close>,
  \<open>transform\<close> and \<open>validate\<close>, and the class \<open>PrismPipe\<close> around a pipeline. A user's function is an argument: what
  it does to the envelope, and the message of the exception that it raises or the value that it returns.
\<close>

section \<open>Nodes of functions\<close>

datatype fn_value = FnResult node_result | FnEnvelope envelope | FnOther

definition failed_with :: "string \<Rightarrow> envelope \<Rightarrow> outcome" where
  "failed_with m e = Returned \<lparr>res_envelope = e, res_success = False, res_error = Some m, res_metadata = []\<rparr>"

definition function_process :: "(envelope \<Rightarrow> envelope \<times> (string + fn_value)) \<Rightarrow> envelope \<Rightarrow> outcome" where
  "function_process f e =
     (case f e of
        (e1, Inl m) \<Rightarrow> failed_with m (env_terminate (Some m) e1)
      | (e1, Inr (FnResult res)) \<Rightarrow> Returned res
      | (e1, Inr (FnEnvelope e2)) \<Rightarrow> Returned (ok_result e2)
      | (e1, Inr FnOther) \<Rightarrow> Returned (ok_result e1))"

text \<open>Functions of the input and the state: they see no other part of the envelope.\<close>

definition enrich_fn_process :: "(pval \<Rightarrow> dict \<Rightarrow> string + dict) \<Rightarrow> envelope \<Rightarrow> outcome" where
  "enrich_fn_process f e =
     (case f (env_input e) (env_state e) of
        Inl m \<Rightarrow> failed_with m e
      | Inr d \<Rightarrow> Returned (ok_result (e\<lparr>env_state := dict_update (env_state e) d\<rparr>)))"

definition transform_fn_process :: "(pval \<Rightarrow> dict \<Rightarrow> string + pval) \<Rightarrow> envelope \<Rightarrow> outcome" where
  "transform_fn_process f e =
     (case f (env_input e) (env_state e) of
        Inl m \<Rightarrow> failed_with m e
      | Inr v \<Rightarrow> Returned (ok_result (set_state ''transformed'' v e)))"

definition validate_fn_process :: "(pval \<Rightarrow> string) \<Rightarrow> (pval \<Rightarrow> dict \<Rightarrow> string + pval) \<Rightarrow> envelope \<Rightarrow> outcome" where
  "validate_fn_process show_value f e =
     (case f (env_input e) (env_state e) of
        Inl m \<Rightarrow> failed_with m e
      | Inr v \<Rightarrow>
          if truthy v
          then failed_with (show_value v) (env_terminate (Some (''Validation failed: '' @ show_value v)) e)
          else Returned (ok_result (set_state ''validation_passed'' (PBool True) e)))"

definition function_node :: "string \<Rightarrow> string \<Rightarrow> string \<Rightarrow> (envelope \<Rightarrow> outcome) \<Rightarrow> node" where
  "function_node uid type c p =
     \<lparr>nd_id = uid, nd_type = type, nd_capability = c, nd_timeout_ms = None, nd_offload = True, nd_process = p\<rparr>"

section \<open>PrismPipe\<close>

record sdk =
  sd_router :: "node router"
  sd_config :: pipe_config
  sd_hooks :: hooks
  sd_start :: "string option"

definition new_sdk :: "pipe_config \<Rightarrow> sdk" where
  "new_sdk cfg = \<lparr>sd_router = new_router, sd_config = cfg, sd_hooks = no_hooks, sd_start = None\<rparr>"

definition sdk_node :: "string \<Rightarrow> string \<Rightarrow> (envelope \<Rightarrow> envelope \<times> (string + fn_value)) \<Rightarrow> sdk \<Rightarrow> py_error + node \<times> sdk" where
  "sdk_node uid c f sd =
     (let nd = function_node uid ''FunctionNode'' c (function_process f)
      in map_sum id (\<lambda>r. (nd, sd\<lparr>sd_router := r\<rparr>)) (register_node nd (sd_router sd)))"

definition sdk_start :: "string \<Rightarrow> sdk \<Rightarrow> sdk" where
  "sdk_start c sd = sd\<lparr>sd_start := Some c\<rparr>"

definition sdk_envelope :: "string \<Rightarrow> dict \<Rightarrow> dict \<Rightarrow> string option \<Rightarrow> sdk \<Rightarrow> envelope" where
  "sdk_envelope uid inp st start sd =
     \<lparr>env_id = ''req_'' @ uid, env_intent = CUSTOM, env_input = PDict inp, env_state = st, env_history = [],
      env_metadata = empty_metadata, env_plan = empty_plan, env_next = or_opt start (sd_start sd), env_error = None,
      env_terminated = False, env_parent_id = None\<rparr>"

text \<open>\<open>execute\<close> on a dictionary, or on an envelope as it is.\<close>

definition sdk_execute :: "runtime \<Rightarrow> string \<Rightarrow> dict + envelope \<Rightarrow> dict \<Rightarrow> string option \<Rightarrow> sdk \<Rightarrow> pipe_result" where
  "sdk_execute rt uid x st start sd =
     pipe_execute rt (sd_config sd) (sd_hooks sd) (sd_router sd)
       (case x of Inl inp \<Rightarrow> sdk_envelope uid inp st start sd | Inr e \<Rightarrow> e)"

section \<open>Nodes that do not advance\<close>

text \<open>
  A node that always succeeds and leaves the next hop as it is. A pipeline that has reached it runs it again
  until the iterations are used up.
\<close>

definition never_advances :: "node \<Rightarrow> bool" where
  "never_advances nd \<longleftrightarrow> nd_timeout_ms nd = None \<and>
     (\<forall>e. \<not> env_terminated e \<longrightarrow>
        (\<exists>e1. nd_process nd e = Returned (ok_result e1) \<and> env_next e1 = env_next e \<and> \<not> env_terminated e1))"

lemma never_advances_step:
  assumes "never_advances nd" "\<not> env_terminated e"
  shows "res_success (execute_sync rt t nd e) \<and> env_next (res_envelope (execute_sync rt t nd e)) = env_next e \<and>
    \<not> env_terminated (res_envelope (execute_sync rt t nd e))"
proof -
  obtain e1 where "nd_process nd e = Returned (ok_result e1)" "env_next e1 = env_next e" "\<not> env_terminated e1"
    using assms unfolding never_advances_def by blast
  then show ?thesis by (simp add: execute_sync_def finalize_result_def ok_result_def env_record_def Let_def)
qed

lemma show_int_nonempty [simp]: "show_int i \<noteq> []"
  by (auto simp: show_int_def show_nat.simps)

lemma max_iter_message_true: "truthy_opt (Some (max_iter_message cfg))"
  by (simp add: max_iter_message_def)

lemma repeats_until_bound:
  assumes nd: "never_advances nd" "resolve r c = Inr nd" and c: "hop_capability (Some nxt) = Some c" "c \<noteq> []"
  shows "int n = pc_max_iterations cfg - ps_iterations s \<Longrightarrow> env_next (ps_env s) = Some nxt \<Longrightarrow>
    \<not> env_terminated (ps_env s) \<Longrightarrow> ps_tick s = 0 \<Longrightarrow>
    \<exists>s'. pipe_loop rt cfg no_hooks r None s = (s', None) \<and> env_terminated (ps_env s') \<and>
      env_error (ps_env s') = Some (max_iter_message cfg) \<and> ps_iterations s' = pc_max_iterations cfg + 1 \<and>
      ps_nodes s' = ps_nodes s @ replicate n (nd_id nd)"
proof (induction n arbitrary: s)
  case 0
  have "nxt \<noteq> []" using c(1) by (auto simp: hop_capability_def)
  with 0 have go: "truthy_opt (env_next (ps_env s)) \<and> \<not> env_terminated (ps_env s)" by simp
  have "pipe_step rt cfg no_hooks r None s =
      Break (on_env (env_terminate (Some (max_iter_message cfg))) (s\<lparr>ps_iterations := pc_max_iterations cfg + 1\<rparr>))"
    using 0(1) by (simp add: pipe_step_def)
  with go show ?case by (subst pipe_loop.simps) (simp add: max_iter_message_true del: truthy_opt.simps)
next
  case (Suc n)
  have "nxt \<noteq> []" using c(1) by (auto simp: hop_capability_def)
  with Suc.prems have go: "truthy_opt (env_next (ps_env s)) \<and> \<not> env_terminated (ps_env s)" by simp
  have cap: "get_capability (ps_env s) = Some c" using Suc.prems(2) c(1) by (simp add: get_capability_def)
  define s1 where "s1 = s\<lparr>ps_env := res_envelope (execute_sync rt 0 nd (ps_env s)),
      ps_iterations := ps_iterations s + 1, ps_nodes := ps_nodes s @ [nd_id nd]\<rparr>"
  note st = never_advances_step [OF nd(1) Suc.prems(3), of rt 0]
  have "nd_timeout_ms nd = None" using nd(1) by (simp add: never_advances_def)
  then have step: "pipe_step rt cfg no_hooks r None s = Continue s1"
    using pipe_step_hop [OF cap c(2) nd(2) _ _ Suc.prems(4), of cfg rt] st Suc.prems(1)
    by (simp add: s1_def Let_def)
  have "int n = pc_max_iterations cfg - ps_iterations s1" "env_next (ps_env s1) = Some nxt"
    "\<not> env_terminated (ps_env s1)" "ps_tick s1 = 0"
    using Suc.prems st by (simp_all add: s1_def)
  from Suc.IH [OF this] step go show ?case
    by (subst pipe_loop.simps) (auto simp: s1_def)
qed

lemma enrich_never_advances:
  "\<forall>i s. \<exists>d. f i s = Inr d \<Longrightarrow> never_advances (function_node uid ty c (enrich_fn_process f))"
  by (auto simp: never_advances_def function_node_def enrich_fn_process_def split: sum.splits) (metis sum.distinct(1))

lemma transform_never_advances:
  "\<forall>i s. \<exists>v. f i s = Inr v \<Longrightarrow> never_advances (function_node uid ty c (transform_fn_process f))"
  by (auto simp: never_advances_def function_node_def transform_fn_process_def set_state_def split: sum.splits)
    (metis sum.distinct(1))

lemma validate_never_advances:
  "\<forall>i s. \<exists>v. f i s = Inr v \<and> \<not> truthy v \<Longrightarrow> never_advances (function_node uid ty c (validate_fn_process sh f))"
  by (auto simp: never_advances_def function_node_def validate_fn_process_def set_state_def split: sum.splits)
    (metis sum.distinct(1) sum.inject(2))+

text \<open>
  Note: A pipeline that reaches a node of the decorators \<open>enrich\<close>, \<open>transform\<close> or \<open>validate\<close> never gets past it. However
  well the function does its work, the node cannot name a next capability: the pipeline runs it as often as
  the iterations allow, and then reports failure, with the iteration bound as its error.
\<close>

theorem function_nodes_exhaust_pipeline:
  assumes "nd = function_node uid ty c p"
    and "(\<exists>f. p = enrich_fn_process f \<and> (\<forall>i s. \<exists>d. f i s = Inr d)) \<or>
      (\<exists>f. p = transform_fn_process f \<and> (\<forall>i s. \<exists>v. f i s = Inr v)) \<or>
      (\<exists>sh f. p = validate_fn_process sh f \<and> (\<forall>i s. \<exists>v. f i s = Inr v \<and> \<not> truthy v))"
    and "resolve (sd_router sd) c = Inr nd" "hop_capability (or_opt start (sd_start sd)) = Some c" "c \<noteq> []"
    and "pc_timeout_seconds (sd_config sd) = None" "sd_hooks sd = no_hooks" "0 \<le> pc_max_iterations (sd_config sd)"
  shows "let r = sdk_execute rt uid' (Inl inp) st start sd in
    pr_nodes r = replicate (nat (pc_max_iterations (sd_config sd))) uid \<and> \<not> pr_success r \<and>
    pr_error r = Some (max_iter_message (sd_config sd))"
proof -
  have nd: "never_advances nd"
    using assms(1,2) enrich_never_advances transform_never_advances validate_never_advances by blast
  obtain nxt where nxt: "or_opt start (sd_start sd) = Some nxt" "hop_capability (Some nxt) = Some c"
    using assms(4) by (cases "or_opt start (sd_start sd)") (auto simp: hop_capability_def)
  let ?e = "sdk_envelope uid' inp st start sd"
  let ?s = "\<lparr>ps_env = ?e, ps_iterations = 0, ps_nodes = [], ps_errors = [], ps_tick = 0\<rparr>"
  have "env_next (ps_env ?s) = Some nxt" "\<not> env_terminated (ps_env ?s)" "ps_tick ?s = 0"
    "int (nat (pc_max_iterations (sd_config sd))) = pc_max_iterations (sd_config sd) - ps_iterations ?s"
    using nxt(1) assms(8) by (simp_all add: sdk_envelope_def)
  from repeats_until_bound [OF nd assms(3) nxt(2) assms(5) this(4,1,2,3), of rt]
  obtain s' where s': "pipe_loop rt (sd_config sd) no_hooks (sd_router sd) None ?s = (s', None)"
    "env_terminated (ps_env s')" "env_error (ps_env s') = Some (max_iter_message (sd_config sd))"
    "ps_nodes s' = replicate (nat (pc_max_iterations (sd_config sd))) (nd_id nd)" by auto
  have "pipe_start (sd_config sd) ?e = ?e" using nxt(1) by (simp add: pipe_start_def sdk_envelope_def)
  with s' assms(1,6,7) show ?thesis
    by (simp add: sdk_execute_def pipe_execute_def pipe_deadline_def function_node_def Let_def)
qed

definition demo_sdk :: sdk where
  "demo_sdk = (new_sdk \<lparr>pc_max_iterations = 3, pc_timeout_seconds = None, pc_continue_on_error = False,
       pc_enable_history = True\<rparr>)
     \<lparr>sd_router := register ''double''
        (function_node ''n'' ''TransformFunctionNode'' ''double'' (transform_fn_process (\<lambda>i s. Inr (PInt 2)))) 0 [] new_router,
      sd_start := Some ''double''\<rparr>"

theorem function_nodes_exhaust_pipeline_witness:
  "pr_nodes (sdk_execute demo_runtime ''1'' (Inl []) [] None demo_sdk) = [''n'', ''n'', ''n'']"
proof -
  let ?nd = "function_node ''n'' ''TransformFunctionNode'' ''double'' (transform_fn_process (\<lambda>i s. Inr (PInt 2)))"
  have "resolve (sd_router demo_sdk) ''double'' = Inr ?nd"
    by (simp add: demo_sdk_def resolve_def resolve_capability_def register_def new_router_def)
  moreover have "hop_capability (or_opt None (sd_start demo_sdk)) = Some ''double''"
    by (simp add: demo_sdk_def or_opt_def hop_capability_def cap_prefix_def starts_with_def)
  ultimately show ?thesis
    using function_nodes_exhaust_pipeline [of ?nd "''n''" "''TransformFunctionNode''" "''double''"
        "transform_fn_process (\<lambda>i s. Inr (PInt 2))" demo_sdk None demo_runtime "''1''" "[]" "[]"]
    by (simp add: demo_sdk_def new_sdk_def Let_def eval_nat_numeral) blast
qed

end
