(* ===== verification/Collaboration.thy ===== *)
theory Collaboration
  imports Envelope
begin

text \<open>
  Envelopes that collaborate: the map-and-collect engine of \<open>src/src/prismpipe/swarm.py\<close> and the event bus of
  \<open>src/src/prismpipe/events.py\<close>. What the caller's functions return or raise is an argument; the tasks that the
  engine runs together are independent of each other.
\<close>

section \<open>Splitting work\<close>

record part =
  pa_id :: string
  pa_envelope :: envelope
  pa_key :: "string option"
  pa_index :: nat
  pa_total :: nat

record split_result =
  sp_id :: string
  sp_results :: "pval list"
  sp_by_index :: "(nat \<times> pval) list"
  sp_success :: bool

record swarm_engine =
  se_active :: "part list pdict"
  se_shared :: "dict pdict"

definition new_swarm_engine :: swarm_engine where
  "new_swarm_engine = \<lparr>se_active = [], se_shared = []\<rparr>"

definition data_key :: string where
  "data_key = ''_partition_data''"

definition part_of :: "string \<Rightarrow> envelope \<Rightarrow> dict \<Rightarrow> string option \<Rightarrow> nat \<Rightarrow> nat \<Rightarrow> pval \<Rightarrow> part" where
  "part_of swarm_id e inp key n i v =
     (let pid = or_str (Some (env_id e)) swarm_id @ ''_p'' @ show_nat i
      in \<lparr>pa_id = pid, pa_envelope = e\<lparr>env_id := pid, env_input := PDict (AList.update data_key v inp)\<rparr>,
          pa_key = key, pa_index = i, pa_total = n\<rparr>)"

definition parts_of :: "string \<Rightarrow> envelope \<Rightarrow> dict \<Rightarrow> string option \<Rightarrow> pval list \<Rightarrow> part list" where
  "parts_of swarm_id e inp key vs =
     map (\<lambda>(i, v). part_of swarm_id e inp key (length vs) i v) (enumerate 0 vs)"

definition part_data :: "part \<Rightarrow> pval" where
  "part_data p =
     (case env_input (pa_envelope p) of
        PDict d \<Rightarrow> (case map_of d data_key of Some v \<Rightarrow> v | None \<Rightarrow> PNone) | _ \<Rightarrow> PNone)"

definition execute_partition :: "(envelope \<Rightarrow> pval \<Rightarrow> string + pval) \<Rightarrow> part \<Rightarrow> pval" where
  "execute_partition f p =
     (case f (pa_envelope p) (part_data p) of
        Inr v \<Rightarrow> v
      | Inl m \<Rightarrow> PDict [(''error'', PStr m), (''partition'', PInt (int (pa_index p)))])"

definition is_error :: "pval \<Rightarrow> bool" where
  "is_error v = (case v of PDict d \<Rightarrow> map_of d ''error'' \<noteq> None | _ \<Rightarrow> False)"

text \<open>
  The split is registered, run and removed. A negative limit raises in between, and a limit of zero lets no
  task start: the call never returns, which is \<open>None\<close>.
\<close>

definition split_and_execute ::
    "string \<Rightarrow> envelope \<Rightarrow> pval list \<Rightarrow> (envelope \<Rightarrow> pval \<Rightarrow> string + pval) \<Rightarrow> string option \<Rightarrow> int \<Rightarrow> swarm_engine
      \<Rightarrow> ((py_error + split_result) \<times> swarm_engine) option" where
  "split_and_execute swarm_id e vs f key limit s =
     (let inp = (case env_input e of PDict d \<Rightarrow> Some d | _ \<Rightarrow> None)
      in if vs \<noteq> [] \<and> inp = None then Some (Inl (TypeError ''object is not a mapping''), s)
         else
           let parts = (case inp of Some d \<Rightarrow> parts_of swarm_id e d key vs | None \<Rightarrow> []);
               s1 = s\<lparr>se_active := AList.update swarm_id parts (se_active s)\<rparr>;
               rs = map (execute_partition f) parts
           in if limit < 0 then Some (Inl (ValueError ''Semaphore initial value must be >= 0''), s1)
              else if limit = 0 \<and> parts \<noteq> [] then None
              else Some (Inr \<lparr>sp_id = swarm_id, sp_results = rs, sp_by_index = enumerate 0 rs,
                     sp_success = list_all (\<lambda>r. \<not> is_error r) rs\<rparr>,
                   s1\<lparr>se_active := AList.delete swarm_id (se_active s1)\<rparr>))"

definition swarm_status :: "string \<Rightarrow> swarm_engine \<Rightarrow> (string \<times> nat \<times> string option) list" where
  "swarm_status swarm_id s =
     map (\<lambda>p. (pa_id p, pa_index p, pa_key p)) (case map_of (se_active s) swarm_id of Some ps \<Rightarrow> ps | None \<Rightarrow> [])"

section \<open>Shared state\<close>

definition update_shared_state :: "string \<Rightarrow> string \<Rightarrow> pval \<Rightarrow> swarm_engine \<Rightarrow> swarm_engine" where
  "update_shared_state swarm_id k v s =
     (case map_of (se_shared s) swarm_id of
        None \<Rightarrow> s
      | Some d \<Rightarrow> s\<lparr>se_shared := AList.update swarm_id (AList.update k v d) (se_shared s)\<rparr>)"

definition get_shared_state :: "string \<Rightarrow> swarm_engine \<Rightarrow> dict" where
  "get_shared_state swarm_id s = (case map_of (se_shared s) swarm_id of Some d \<Rightarrow> d | None \<Rightarrow> [])"

text \<open>The caller's function works on the engine; the shared state is removed whether it returns or raises.\<close>

definition gather_with_shared_state ::
    "string \<Rightarrow> envelope \<Rightarrow> (string \<Rightarrow> swarm_engine \<Rightarrow> (py_error + dict) \<times> swarm_engine) \<Rightarrow> string list \<Rightarrow> swarm_engine
      \<Rightarrow> (py_error + dict) \<times> swarm_engine" where
  "gather_with_shared_state uid e compute ks s =
     (let swarm_id = or_str (Some (env_id e)) uid;
          s1 = s\<lparr>se_shared := AList.update swarm_id (fold (\<lambda>k. AList.update k PNone) ks []) (se_shared s)\<rparr>;
          (res, s2) = compute swarm_id s1
      in (res, s2\<lparr>se_shared := AList.delete swarm_id (se_shared s2)\<rparr>))"

record decision =
  dc_total :: nat
  dc_true :: nat
  dc_false :: nat
  dc_decision :: bool
  dc_unanimous :: bool

definition collective_decision :: "(envelope \<Rightarrow> bool) \<Rightarrow> envelope list \<Rightarrow> decision" where
  "collective_decision decide es =
     (let votes = map decide es; t = length (filter id votes); f = length votes - t
      in \<lparr>dc_total = length votes, dc_true = t, dc_false = f, dc_decision = (f < t),
          dc_unanimous = (t = length votes \<or> f = length votes)\<rparr>)"

lemma part_data_part [simp]: "part_data (part_of swarm_id e d key n i v) = v"
  by (simp add: part_data_def part_of_def map_of_update Let_def)

lemma part_index [simp]: "pa_index (part_of swarm_id e d key n i v) = i"
  by (simp add: part_of_def Let_def)

text \<open>A majority is strict, so that a tie, as well as an empty vote, decides against.\<close>

lemma decision_is_majority:
  "dc_decision (collective_decision decide es) \<longleftrightarrow>
     length (filter (\<lambda>e. \<not> decide e) es) < length (filter decide es)"
proof -
  have "length (filter decide es) + length (filter (\<lambda>e. \<not> decide e) es) = length es"
    by (rule sum_length_filter_compl)
  moreover have "length (filter id (map decide es)) = length (filter decide es)"
    by (simp add: filter_map comp_def)
  ultimately show ?thesis by (simp add: collective_decision_def Let_def) arith
qed

text \<open>A nested use for the same envelope takes the outer shared state with it.\<close>

lemma nested_use_removes_outer_state:
  "map_of (se_shared (snd (gather_with_shared_state uid e compute ks s))) (or_str (Some (env_id e)) uid) = None"
  by (simp add: gather_with_shared_state_def Let_def case_prod_beta map_of_delete)

lemma delete_added: "k \<notin> fst ` set d \<Longrightarrow> AList.delete k (AList.update k x d) = d"
  by (induction d) (auto simp: AList.delete_eq)

text \<open>
  Note: Partitions fail alone: the results are those of the partitions in the order of the data, each computed from its
  own item, a partition that raises is reported under its own index and leaves the others as they are, and
  nothing of the split is left behind. The whole is a success exactly when no result carries an error.
\<close>

theorem partitions_fail_alone:
  assumes "env_input e = PDict d" "0 < limit" "map_of (se_active s) swarm_id = None"
  shows "\<exists>r. split_and_execute swarm_id e vs f key limit s = Some (Inr r, s) \<and> length (sp_results r) = length vs \<and>
    (\<forall>i < length vs. sp_by_index r ! i = (i, sp_results r ! i) \<and>
       sp_results r ! i =
         (case f (pa_envelope (part_of swarm_id e d key (length vs) i (vs ! i))) (vs ! i) of
            Inr v \<Rightarrow> v
          | Inl m \<Rightarrow> PDict [(''error'', PStr m), (''partition'', PInt (int i))])) \<and>
    (sp_success r \<longleftrightarrow> (\<forall>i < length vs. \<not> is_error (sp_results r ! i)))"
proof -
  let ?rs = "map (execute_partition f) (parts_of swarm_id e d key vs)"
  let ?r = "\<lparr>sp_id = swarm_id, sp_results = ?rs, sp_by_index = enumerate 0 ?rs,
      sp_success = list_all (\<lambda>r. \<not> is_error r) ?rs\<rparr>"
  have new: "swarm_id \<notin> fst ` set (se_active s)" using assms(3) by (simp add: map_of_eq_None_iff)
  from delete_added [OF this] have run: "split_and_execute swarm_id e vs f key limit s = Some (Inr ?r, s)"
    using assms(1,2) by (simp add: split_and_execute_def Let_def)
  have len: "length ?rs = length vs" by (simp add: parts_of_def)
  have nth: "?rs ! i = (case f (pa_envelope (part_of swarm_id e d key (length vs) i (vs ! i))) (vs ! i) of
      Inr v \<Rightarrow> v | Inl m \<Rightarrow> PDict [(''error'', PStr m), (''partition'', PInt (int i))])" if "i < length vs" for i
    using that by (simp add: parts_of_def nth_enumerate_eq execute_partition_def split: sum.split)
  have "sp_success ?r \<longleftrightarrow> (\<forall>i < length vs. \<not> is_error (sp_results ?r ! i))"
    using len by (simp add: list_all_length)
  with run len nth show ?thesis
    by (intro exI [of _ ?r]) (simp add: nth_enumerate_eq)
qed

definition demo_part_envelope :: envelope where
  "demo_part_envelope = \<lparr>env_id = ''r'', env_intent = BATCH, env_input = PDict [], env_state = [], env_history = [],
     env_metadata = empty_metadata, env_plan = empty_plan, env_next = None, env_error = None, env_terminated = False,
     env_parent_id = None\<rparr>"

definition demo_part_fn :: "envelope \<Rightarrow> pval \<Rightarrow> string + pval" where
  "demo_part_fn e v = (case v of PInt i \<Rightarrow> Inr (PInt (2 * i)) | _ \<Rightarrow> Inl ''not a number'')"

theorem partitions_fail_alone_witness:
  "\<exists>r. split_and_execute ''s'' demo_part_envelope [PInt 1, PNone] demo_part_fn None 10 new_swarm_engine =
      Some (Inr r, new_swarm_engine) \<and> sp_results r ! 0 = PInt 2 \<and> is_error (sp_results r ! 1) \<and> \<not> sp_success r"
proof -
  have i: "env_input demo_part_envelope = PDict []" by (simp add: demo_part_envelope_def)
  have "map_of (se_active new_swarm_engine) ''s'' = None" by (simp add: new_swarm_engine_def)
  note p = partitions_fail_alone [OF i _ this, of 10 "[PInt 1, PNone]" demo_part_fn None, simplified]
  from p obtain r where r: "split_and_execute ''s'' demo_part_envelope [PInt 1, PNone] demo_part_fn None 10 new_swarm_engine =
      Some (Inr r, new_swarm_engine)"
    and nth: "\<forall>i < Suc (Suc 0). sp_by_index r ! i = (i, sp_results r ! i) \<and> sp_results r ! i =
       (case demo_part_fn (pa_envelope (part_of ''s'' demo_part_envelope [] None (Suc (Suc 0)) i ([PInt 1, PNone] ! i)))
          ([PInt 1, PNone] ! i) of
          Inr v \<Rightarrow> v | Inl m \<Rightarrow> PDict [(''error'', PStr m), (''partition'', PInt (int i))])"
    and ok: "sp_success r = (\<forall>i < Suc (Suc 0). \<not> is_error (sp_results r ! i))" by blast
  have "sp_results r ! 0 = PInt 2" using nth [rule_format, of 0] by (simp add: demo_part_fn_def)
  moreover have e: "is_error (sp_results r ! 1)"
    using nth [rule_format, of 1] by (simp add: demo_part_fn_def is_error_def)
  moreover have "\<not> sp_success r" using ok e by (metis One_nat_def lessI)
  ultimately show ?thesis using r by blast
qed

section \<open>The event bus\<close>

datatype event_type =
  REQUEST_STARTED | REQUEST_COMPLETED | REQUEST_FAILED | NODE_EXECUTED | NODE_FAILED | CACHE_HIT | CACHE_MISS |
  PIPELINE_STARTED | PIPELINE_COMPLETED

record event =
  ev_type :: event_type
  ev_time :: rat
  ev_data :: dict

record event_bus =
  eb_handlers :: "event_type \<Rightarrow> string list"
  eb_all :: "string list"

definition new_event_bus :: event_bus where
  "new_event_bus = \<lparr>eb_handlers = (\<lambda>_. []), eb_all = []\<rparr>"

definition bus_subscribe :: "event_type \<Rightarrow> string \<Rightarrow> event_bus \<Rightarrow> event_bus" where
  "bus_subscribe t h b = b\<lparr>eb_handlers := (eb_handlers b)(t := eb_handlers b t @ [h])\<rparr>"

definition bus_subscribe_all :: "string \<Rightarrow> event_bus \<Rightarrow> event_bus" where
  "bus_subscribe_all h b = b\<lparr>eb_all := eb_all b @ [h]\<rparr>"

definition bus_unsubscribe :: "event_type \<Rightarrow> string \<Rightarrow> event_bus \<Rightarrow> event_bus" where
  "bus_unsubscribe t h b = b\<lparr>eb_handlers := (eb_handlers b)(t := remove1 h (eb_handlers b t))\<rparr>"

text \<open>
  Calling a handler gives a coroutine that ends or raises when it is awaited, or raises at once when the
  handler is a plain function. The calls that were made, and whether they are awaited.
\<close>

datatype handler_call = Coroutine "string option" | RaisesNow py_error

fun call_handlers :: "(string \<Rightarrow> handler_call) \<Rightarrow> string list \<Rightarrow> string list \<times> py_error option" where
  "call_handlers beh [] = ([], None)"
| "call_handlers beh (h # hs) =
     (case beh h of
        RaisesNow err \<Rightarrow> ([h], Some err)
      | Coroutine _ \<Rightarrow> (case call_handlers beh hs of (called, err) \<Rightarrow> (h # called, err)))"

text \<open>The handlers whose coroutines run to their end, and the error that \<open>publish\<close> raises.\<close>

definition publish_event :: "(string \<Rightarrow> handler_call) \<Rightarrow> event \<Rightarrow> event_bus \<Rightarrow> string list \<times> py_error option" where
  "publish_event beh ev b =
     (case call_handlers beh (eb_handlers b (ev_type ev) @ eb_all b) of
        (called, None) \<Rightarrow> (called, None)
      | (called, Some err) \<Rightarrow> ([], Some err))"

definition node_event :: "string \<Rightarrow> rat \<Rightarrow> bool \<Rightarrow> string \<Rightarrow> rat \<Rightarrow> event" where
  "node_event c latency ok rid now =
     \<lparr>ev_type = (if ok then NODE_EXECUTED else NODE_FAILED), ev_time = now,
      ev_data = [(''capability'', PStr c), (''latency_ms'', PFloat (Fin latency)), (''success'', PBool ok),
        (''request_id'', PStr rid)]\<rparr>"

definition request_started_event :: "string \<Rightarrow> string \<Rightarrow> rat \<Rightarrow> event" where
  "request_started_event rid i now =
     \<lparr>ev_type = REQUEST_STARTED, ev_time = now, ev_data = [(''request_id'', PStr rid), (''intent'', PStr i)]\<rparr>"

definition request_completed_event :: "string \<Rightarrow> rat \<Rightarrow> rat \<Rightarrow> event" where
  "request_completed_event rid d now =
     \<lparr>ev_type = REQUEST_COMPLETED, ev_time = now,
      ev_data = [(''request_id'', PStr rid), (''duration_ms'', PFloat (Fin d))]\<rparr>"

lemma call_handlers_coroutines:
  "(\<forall>h \<in> set hs. \<exists>x. beh h = Coroutine x) \<Longrightarrow> call_handlers beh hs = (hs, None)"
  by (induction hs) auto

text \<open>Asynchronous handlers all run, whether others raise or not; one plain handler that raises stops them all.\<close>

lemma coroutines_all_run:
  "(\<forall>h \<in> set (eb_handlers b (ev_type ev) @ eb_all b). \<exists>x. beh h = Coroutine x) \<Longrightarrow>
     publish_event beh ev b = (eb_handlers b (ev_type ev) @ eb_all b, None)"
  by (simp add: publish_event_def call_handlers_coroutines)

lemma plain_failure_stops_all:
  "h \<in> set hs \<Longrightarrow> beh h = RaisesNow err \<Longrightarrow> snd (call_handlers beh hs) \<noteq> None"
  by (induction hs) (auto split: handler_call.splits prod.splits)

lemma plain_failure_silences_bus:
  "h \<in> set (eb_handlers b (ev_type ev) @ eb_all b) \<Longrightarrow> beh h = RaisesNow err \<Longrightarrow>
     fst (publish_event beh ev b) = [] \<and> snd (publish_event beh ev b) \<noteq> None"
  using plain_failure_stops_all [of h "eb_handlers b (ev_type ev) @ eb_all b" beh err]
  by (cases "call_handlers beh (eb_handlers b (ev_type ev) @ eb_all b)") (auto simp: publish_event_def)

text \<open>A subscription is undone by one call of \<open>bus_unsubscribe\<close> when there was none before.\<close>

lemma unsubscribe_undoes: "h \<notin> set (eb_handlers b t) \<Longrightarrow> bus_unsubscribe t h (bus_subscribe t h b) = b"
  by (simp add: bus_unsubscribe_def bus_subscribe_def remove1_append)

end
