(* ===== verification/RemoteStorage.thy ===== *)
theory RemoteStorage
  imports Storage Results
begin

text \<open>
  The storage backends on servers: Redis (\<open>src/src/prismpipe/storage_redis.py\<close>) and Postgres
  (\<open>src/src/prismpipe/storage_postgres.py\<close>). The server, with its own state and failures, is an argument, as are
  the JSON text of a value and its reading. What is modelled is the commands, their use of the replies, and
  the errors.
\<close>

datatype remote_cmd =
    SetKey string string "int option" | GetKey string | DelKey string | HasKey string | ScanKeys string

datatype remote_reply = Ok | Text "string option" | Flag bool | Keys "string list"

type_synonym 's server = "remote_cmd \<Rightarrow> 's \<Rightarrow> (py_error + remote_reply) \<times> 's"

record remote =
  rm_prefix :: string
  rm_ttl :: "int option"
  rm_dumps :: "pval \<Rightarrow> py_error + string"
  rm_loads :: "string \<Rightarrow> py_error + pval"

text \<open>
  \<open>StorageError(message)\<close>: the class wants an operation and a reason, so that constructing it from a message
  alone raises a \<open>TypeError\<close>, whatever went wrong before.
\<close>

definition storage_error_arity :: py_error where
  "storage_error_arity =
     TypeError (''StorageError.__init__() missing 1 required positional argument: '' @ [CHR 39] @ ''reason'' @ [CHR 39])"

definition wrapped :: "py_error + 'a \<Rightarrow> py_error + 'a" where
  "wrapped r = (case r of Inl _ \<Rightarrow> Inl storage_error_arity | Inr x \<Rightarrow> Inr x)"

definition remote_key :: "remote \<Rightarrow> string \<Rightarrow> string" where
  "remote_key c k = rm_prefix c @ k"

section \<open>Redis\<close>

definition redis_save :: "'s server \<Rightarrow> remote \<Rightarrow> string \<Rightarrow> pval \<Rightarrow> 's \<Rightarrow> (py_error + unit) \<times> 's" where
  "redis_save srv c k v s =
     (case rm_dumps c v of
        Inl err \<Rightarrow> (Inl storage_error_arity, s)
      | Inr t \<Rightarrow> (case srv (SetKey (remote_key c k) t (rm_ttl c)) s of (r, s') \<Rightarrow> (wrapped (map_sum id (\<lambda>_. ()) r), s')))"

definition read_text :: "remote \<Rightarrow> remote_reply \<Rightarrow> py_error + pval option" where
  "read_text c x =
     (case x of
        Text (Some t) \<Rightarrow> map_sum id Some (rm_loads c t)
      | _ \<Rightarrow> Inr None)"

definition redis_load :: "'s server \<Rightarrow> remote \<Rightarrow> string \<Rightarrow> 's \<Rightarrow> (py_error + pval option) \<times> 's" where
  "redis_load srv c k s =
     (case srv (GetKey (remote_key c k)) s of (r, s') \<Rightarrow> (wrapped (bindE r (read_text c)), s'))"

definition redis_delete :: "'s server \<Rightarrow> remote \<Rightarrow> string \<Rightarrow> 's \<Rightarrow> (py_error + unit) \<times> 's" where
  "redis_delete srv c k s =
     (case srv (DelKey (remote_key c k)) s of (r, s') \<Rightarrow> (wrapped (map_sum id (\<lambda>_. ()) r), s'))"

definition redis_exists :: "'s server \<Rightarrow> remote \<Rightarrow> string \<Rightarrow> 's \<Rightarrow> (py_error + bool) \<times> 's" where
  "redis_exists srv c k s =
     (case srv (HasKey (remote_key c k)) s of (r, s') \<Rightarrow> (wrapped (map_sum id (\<lambda>x. x = Flag True) r), s'))"

definition stripped :: "remote \<Rightarrow> remote_reply \<Rightarrow> string list" where
  "stripped c x = (case x of Keys ks \<Rightarrow> map (drop (length (rm_prefix c))) ks | _ \<Rightarrow> [])"

definition redis_list_keys :: "'s server \<Rightarrow> remote \<Rightarrow> string \<Rightarrow> 's \<Rightarrow> (py_error + string list) \<times> 's" where
  "redis_list_keys srv c p s =
     (case srv (ScanKeys (remote_key c (p @ ''*''))) s of (r, s') \<Rightarrow> (wrapped (map_sum id (stripped c) r), s'))"

section \<open>Postgres\<close>

text \<open>The table \<open>prismpipe_kv\<close>: texts of values by key; statements fail as the argument says.\<close>

type_synonym kv_table = "string pdict"

fun sql_like :: "string \<Rightarrow> string \<Rightarrow> bool" where
  "sql_like [] s = (s = [])"
| "sql_like (p # ps) s =
     (if p = CHR ''%'' then sql_like ps s \<or> (case s of [] \<Rightarrow> False | c # cs \<Rightarrow> sql_like (p # ps) cs)
      else case s of
        [] \<Rightarrow> False
      | c # cs \<Rightarrow>
          if p = CHR ''_'' then sql_like ps cs
          else if p = CHR 92
          then (case ps of [] \<Rightarrow> False | q # qs \<Rightarrow> q = c \<and> sql_like qs cs)
          else p = c \<and> sql_like ps cs)"

definition pg_save :: "remote \<Rightarrow> py_error option \<Rightarrow> string \<Rightarrow> pval \<Rightarrow> kv_table \<Rightarrow> (py_error + unit) \<times> kv_table" where
  "pg_save c failure k v t =
     (case (rm_dumps c v, failure) of
        (Inr x, None) \<Rightarrow> (Inr (), AList.update k x t)
      | _ \<Rightarrow> (Inl storage_error_arity, t))"

definition pg_load :: "remote \<Rightarrow> py_error option \<Rightarrow> string \<Rightarrow> kv_table \<Rightarrow> py_error + pval option" where
  "pg_load c failure k t =
     wrapped (case failure of
         Some err \<Rightarrow> Inl err
       | None \<Rightarrow> (case map_of t k of None \<Rightarrow> Inr None | Some x \<Rightarrow> map_sum id Some (rm_loads c x)))"

definition pg_delete :: "py_error option \<Rightarrow> string \<Rightarrow> kv_table \<Rightarrow> (py_error + unit) \<times> kv_table" where
  "pg_delete failure k t =
     (case failure of Some err \<Rightarrow> (Inl storage_error_arity, t) | None \<Rightarrow> (Inr (), AList.delete k t))"

definition pg_exists :: "py_error option \<Rightarrow> string \<Rightarrow> kv_table \<Rightarrow> py_error + bool" where
  "pg_exists failure k t = wrapped (case failure of Some err \<Rightarrow> Inl err | None \<Rightarrow> Inr (map_of t k \<noteq> None))"

definition pg_list_keys :: "(string list \<Rightarrow> string list) \<Rightarrow> py_error option \<Rightarrow> string \<Rightarrow> kv_table \<Rightarrow> py_error + string list" where
  "pg_list_keys collate failure p t =
     wrapped (case failure of
         Some err \<Rightarrow> Inl err
       | None \<Rightarrow> Inr (collate (filter (sql_like (p @ ''%'')) (map fst t))))"

section \<open>Errors and round trips\<close>

lemma wrapped_Inl: "wrapped r = Inl err \<Longrightarrow> err = storage_error_arity"
  by (auto simp: wrapped_def split: sum.splits)

lemma wrapped_Inr [simp]: "wrapped (Inr x) = Inr x"
  by (simp add: wrapped_def)

text \<open>Whatever the server does, no failure is ever reported as a storage error.\<close>

lemma failures_are_type_errors:
  "fst (redis_save srv c k v s) = Inl err \<Longrightarrow> err = storage_error_arity"
  "fst (redis_load srv c k s) = Inl err' \<Longrightarrow> err' = storage_error_arity"
  "fst (redis_list_keys srv c p s) = Inl err'' \<Longrightarrow> err'' = storage_error_arity"
  "fst (pg_save c failure k v t) = Inl err \<Longrightarrow> err = storage_error_arity"
  "pg_load c failure k t = Inl err' \<Longrightarrow> err' = storage_error_arity"
  by (auto simp: redis_save_def redis_load_def redis_list_keys_def pg_save_def pg_load_def
      dest: wrapped_Inl split: sum.splits option.splits prod.splits)

text \<open>What a Redis client documents: a key that has just been set is read back, and keys are apart.\<close>

definition redis_laws :: "'s server \<Rightarrow> bool" where
  "redis_laws srv \<longleftrightarrow>
     (\<forall>k t ttl s. \<exists>s'. srv (SetKey k t ttl) s = (Inr Ok, s') \<and> fst (srv (GetKey k) s') = Inr (Text (Some t)) \<and>
        (\<forall>j. j \<noteq> k \<longrightarrow> fst (srv (GetKey j) s') = fst (srv (GetKey j) s)))"

lemma redis_roundtrip:
  assumes "redis_laws srv" "rm_dumps c v = Inr t" "rm_loads c t = Inr (json_norm v)"
  shows "\<exists>s'. redis_save srv c k v s = (Inr (), s') \<and> fst (redis_load srv c k s') = Inr (Some (json_norm v)) \<and>
    (\<forall>j. j \<noteq> k \<longrightarrow> fst (redis_load srv c j s') = fst (redis_load srv c j s))"
proof -
  from assms(1) obtain s' where s': "srv (SetKey (remote_key c k) t (rm_ttl c)) s = (Inr Ok, s')"
    "fst (srv (GetKey (remote_key c k)) s') = Inr (Text (Some t))"
    "\<forall>j. j \<noteq> remote_key c k \<longrightarrow> fst (srv (GetKey j) s') = fst (srv (GetKey j) s)"
    unfolding redis_laws_def by blast
  have "fst (redis_load srv c j s') = fst (redis_load srv c j s)" if "j \<noteq> k" for j
    using s'(3) that by (simp add: redis_load_def remote_key_def case_prod_beta)
  with s' assms(2,3) show ?thesis
    by (intro exI [of _ s']) (simp add: redis_save_def redis_load_def read_text_def case_prod_beta)
qed

text \<open>Without wildcards in the prefix the pattern selects exactly the keys with the prefix.\<close>

lemma like_any [simp]: "sql_like ''%'' s"
  by (induction s) auto

lemma like_plain_prefix:
  "set p \<inter> {CHR ''%'', CHR ''_'', CHR 92} = {} \<Longrightarrow> sql_like (p @ ''%'') s \<longleftrightarrow> starts_with p s"
proof (induction p arbitrary: s)
  case Nil
  then show ?case by (simp add: starts_with_def del: sql_like.simps)
next
  case (Cons x p)
  then show ?case by (cases s) (auto simp: starts_with_def)
qed

lemma like_wildcard_prefix: "sql_like (''a_b'' @ ''%'') ''axb'' \<and> \<not> starts_with ''a_b'' ''axb''"
  by (simp add: starts_with_def)

text \<open>On a table whose statements succeed, Postgres is a key-value store for keys without wildcards.\<close>

definition pg_put :: "remote \<Rightarrow> string \<Rightarrow> pval \<Rightarrow> kv_table \<Rightarrow> kv_table" where
  "pg_put c k v t = snd (pg_save c None k v t)"

lemma pg_roundtrip:
  assumes "rm_dumps c v = Inr x" "rm_loads c x = Inr (json_norm v)"
  shows "pg_save c None k v t = (Inr (), pg_put c k v t)"
    and "pg_load c None k (pg_put c k v t) = Inr (Some (json_norm v))"
    and "j \<noteq> k \<Longrightarrow> pg_load c None j (pg_put c k v t) = pg_load c None j t"
    and "pg_load c None k (snd (pg_delete None k t)) = Inr None"
  using assms by (simp_all add: pg_put_def pg_save_def pg_load_def pg_delete_def map_of_update map_of_delete)

end
