(* ===== verification/ConsumerTasks.thy ===== *)
theory ConsumerTasks
  imports Transport "HOL-Library.Multiset"
begin

text \<open>
  The tasks of \<open>DocumentVectorizeConsumer\<close> (\<open>src/src/prismpipe/document/processing.py\<close>): the dispatcher that takes
  messages and starts a task for each under a semaphore, the tasks themselves, the recovery of pending
  publications, and starting and stopping under the lifecycle lock, as a step relation on the in-memory
  transport and the operation store. A task handles its message in one step; what other workers do to the
  store in the meantime is part of the handling itself. The lists of taken, handled and dropped messages are
  history variables.
\<close>

section \<open>State\<close>

type_synonym world = "broker \<times> proc_state"

record tasks =
  ct_world :: world
  ct_free :: nat
  ct_hand :: "message option"
  ct_active :: "message list"
  ct_dispatching :: bool
  ct_recovering :: bool
  ct_stopping :: bool
  ct_in_stop :: bool
  ct_taken :: "message list"
  ct_handled :: "message list"
  ct_dropped :: "message list"

definition new_tasks :: "consumer \<Rightarrow> world \<Rightarrow> tasks" where
  "new_tasks cn w =
     \<lparr>ct_world = w, ct_free = cn_max_concurrency cn, ct_hand = None, ct_active = [], ct_dispatching = False,
      ct_recovering = False, ct_stopping = False, ct_in_stop = False, ct_taken = [], ct_handled = [], ct_dropped = []\<rparr>"

definition deliver :: "consumer \<Rightarrow> proc_io \<Rightarrow> message \<Rightarrow> world \<Rightarrow> world" where
  "deliver cn io m w =
     (case process_message cn io (transport_of (fst w)) m (snd w) of
        (res, acts, st) \<Rightarrow> (fold (perform m) acts (fst w), st))"

text \<open>The publications of a drain, which concern no message.\<close>

definition no_message :: message where
  "no_message = \<lparr>ms_id = [], ms_payload = PNone, ms_headers = [], ms_attempt = 1, ms_topic = None\<rparr>"

definition drain_world :: "consumer \<Rightarrow> proc_io \<Rightarrow> world \<Rightarrow> (doc_error + nat) \<times> world" where
  "drain_world cn io w =
     (case drain_pending_publications cn io (transport_of (fst w)) None (snd w) of
        (r, acts, st) \<Rightarrow> (r, (fold (perform no_message) acts (fst w), st)))"

definition is_ok :: "'e + 'a \<Rightarrow> bool" where
  "is_ok r = (case r of Inl _ \<Rightarrow> False | Inr _ \<Rightarrow> True)"

definition hand_list :: "tasks \<Rightarrow> message list" where
  "hand_list s = (case ct_hand s of None \<Rightarrow> [] | Some m \<Rightarrow> [m])"

text \<open>The dispatcher ends and forgets the message it has in hand.\<close>

definition end_dispatcher :: "tasks \<Rightarrow> tasks" where
  "end_dispatcher s =
     s\<lparr>ct_dispatching := False, ct_hand := None, ct_dropped := ct_dropped s @ hand_list s\<rparr>"

definition without :: "nat \<Rightarrow> 'a list \<Rightarrow> 'a list" where
  "without i xs = take i xs @ drop (Suc i) xs"

section \<open>Steps\<close>

datatype consumer_label =
  TTake | TDispatch | TQuit | TFinish nat | TDied | TRecover | TStart | TBeginStop | TCancelDispatcher | TAbort nat | TEndStop

text \<open>
  \<open>TQuit\<close>: the dispatcher finds that the consumer is stopping, before or after it has got a permit, and leaves
  its loop. \<open>TDied\<close>: the message iterator raised. \<open>TRecover\<close>: one round of the recovery task, which ends when
  the drain raises. \<open>TStart\<close>: \<open>start\<close>, when one of the two tasks is not running: both are cancelled, the
  transport is started, pending publications are drained, and both are made anew unless the drain raises.
  \<open>TAbort\<close>: a task is cancelled by \<open>stop(drain=False)\<close>, somewhere in its work.
\<close>

inductive consumer_step :: "consumer \<Rightarrow> proc_io \<Rightarrow> tasks \<Rightarrow> consumer_label \<Rightarrow> tasks \<Rightarrow> bool" for cn io where
  take: "ct_dispatching s \<Longrightarrow> ct_hand s = None \<Longrightarrow> broker_take vectorize_topic (fst (ct_world s)) = Some (m, b) \<Longrightarrow>
    consumer_step cn io s TTake
      (s\<lparr>ct_hand := Some m, ct_world := (b, snd (ct_world s)), ct_taken := ct_taken s @ [m]\<rparr>)"
| dispatch: "ct_dispatching s \<Longrightarrow> ct_hand s = Some m \<Longrightarrow> \<not> ct_stopping s \<Longrightarrow> 0 < ct_free s \<Longrightarrow>
    consumer_step cn io s TDispatch
      (s\<lparr>ct_hand := None, ct_free := ct_free s - 1, ct_active := ct_active s @ [m]\<rparr>)"
| quit: "ct_dispatching s \<Longrightarrow> ct_hand s = Some m \<Longrightarrow> ct_stopping s \<Longrightarrow> consumer_step cn io s TQuit (end_dispatcher s)"
| finish: "i < length (ct_active s) \<Longrightarrow>
    consumer_step cn io s (TFinish i)
      (s\<lparr>ct_active := without i (ct_active s), ct_free := ct_free s + 1,
         ct_world := deliver cn io (ct_active s ! i) (ct_world s),
         ct_handled := ct_handled s @ [ct_active s ! i]\<rparr>)"
| died: "ct_dispatching s \<Longrightarrow> ct_hand s = None \<Longrightarrow> consumer_step cn io s TDied (s\<lparr>ct_dispatching := False\<rparr>)"
| recover: "ct_recovering s \<Longrightarrow> \<not> ct_stopping s \<Longrightarrow> drain_world cn io (ct_world s) = (r, w) \<Longrightarrow>
    consumer_step cn io s TRecover (s\<lparr>ct_world := w, ct_recovering := is_ok r\<rparr>)"
| start: "\<not> ct_in_stop s \<Longrightarrow> \<not> (ct_dispatching s \<and> ct_recovering s) \<Longrightarrow>
    drain_world cn io (broker_start (fst (ct_world s)), snd (ct_world s)) = (r, w) \<Longrightarrow>
    consumer_step cn io s TStart
      ((end_dispatcher s)\<lparr>ct_world := w, ct_stopping := False, ct_dispatching := is_ok r, ct_recovering := is_ok r\<rparr>)"
| begin_stop: "\<not> ct_in_stop s \<Longrightarrow>
    consumer_step cn io s TBeginStop (s\<lparr>ct_stopping := True, ct_in_stop := True, ct_recovering := False\<rparr>)"
| cancel_dispatcher: "ct_in_stop s \<Longrightarrow> ct_dispatching s \<Longrightarrow> consumer_step cn io s TCancelDispatcher (end_dispatcher s)"
| abort: "ct_in_stop s \<Longrightarrow> \<not> ct_dispatching s \<Longrightarrow> i < length (ct_active s) \<Longrightarrow>
    consumer_step cn io s (TAbort i)
      (s\<lparr>ct_active := without i (ct_active s), ct_free := ct_free s + 1, ct_world := w,
         ct_dropped := ct_dropped s @ [ct_active s ! i]\<rparr>)"
| end_stop: "ct_in_stop s \<Longrightarrow> \<not> ct_dispatching s \<Longrightarrow> ct_active s = [] \<Longrightarrow>
    consumer_step cn io s TEndStop
      (s\<lparr>ct_in_stop := False, ct_world := (broker_stop (fst (ct_world s)), snd (ct_world s))\<rparr>)"

inductive_cases consumer_stepE: "consumer_step cn io s l s'"

inductive consumer_run :: "consumer \<Rightarrow> proc_io \<Rightarrow> tasks \<Rightarrow> consumer_label list \<Rightarrow> tasks \<Rightarrow> bool" for cn io where
  no_step: "consumer_run cn io s [] s"
| further: "consumer_run cn io s ls s1 \<Longrightarrow> consumer_step cn io s1 l s2 \<Longrightarrow> consumer_run cn io s (ls @ [l]) s2"

section \<open>Permits and messages\<close>

text \<open>
  Permits are conserved, every message that was taken is in exactly one place, only a running dispatcher has
  a message in hand, and each start and each cancelled task allow for one dropped message.
\<close>

fun costs :: "consumer_label \<Rightarrow> nat" where
  "costs TStart = 1"
| "costs (TAbort i) = 1"
| "costs _ = 0"

definition permits_ok :: "consumer \<Rightarrow> tasks \<Rightarrow> bool" where
  "permits_ok cn s \<longleftrightarrow> ct_free s + length (ct_active s) = cn_max_concurrency cn"

definition placed :: "tasks \<Rightarrow> bool" where
  "placed s \<longleftrightarrow>
     mset (ct_taken s) = mset (ct_handled s) + mset (ct_dropped s) + mset (ct_active s) + mset (hand_list s)"

definition hand_ok :: "tasks \<Rightarrow> bool" where
  "hand_ok s \<longleftrightarrow> (ct_hand s \<noteq> None \<longrightarrow> ct_dispatching s)"

definition drops_ok :: "nat \<Rightarrow> tasks \<Rightarrow> bool" where
  "drops_ok n s \<longleftrightarrow> length (ct_dropped s) + of_bool (ct_dispatching s) \<le> n"

lemma mset_without: "i < length xs \<Longrightarrow> mset xs = add_mset (xs ! i) (mset (without i xs))"
  by (metis (no_types) id_take_nth_drop mset.simps(2) mset_append union_mset_add_mset_right without_def)

lemma length_without: "i < length xs \<Longrightarrow> Suc (length (without i xs)) = length xs"
  by (simp add: without_def)

lemma hand_list_simps [simp]:
  "hand_list (s\<lparr>ct_hand := None\<rparr>) = []" "hand_list (s\<lparr>ct_hand := Some m\<rparr>) = [m]"
  "ct_hand s = None \<Longrightarrow> hand_list s = []" "ct_hand s = Some m \<Longrightarrow> hand_list s = [m]"
  by (simp_all add: hand_list_def)

lemma hand_list_ct_hand: "hand_list s = (case ct_hand s of None \<Rightarrow> [] | Some m \<Rightarrow> [m])"
  by (rule hand_list_def)

lemma permits_step: "consumer_step cn io s l s' \<Longrightarrow> permits_ok cn s \<Longrightarrow> permits_ok cn s'"
  by (erule consumer_stepE) (auto simp: permits_ok_def end_dispatcher_def length_without dest: length_without)

lemma placed_step: "consumer_step cn io s l s' \<Longrightarrow> placed s \<Longrightarrow> placed s'"
  by (erule consumer_stepE)
    (auto simp: placed_def end_dispatcher_def hand_list_def mset_without split: option.splits)

lemma hand_step: "consumer_step cn io s l s' \<Longrightarrow> hand_ok s \<Longrightarrow> hand_ok s'"
  by (erule consumer_stepE) (auto simp: hand_ok_def end_dispatcher_def)

lemma drops_step: "consumer_step cn io s l s' \<Longrightarrow> hand_ok s \<Longrightarrow> drops_ok n s \<Longrightarrow> drops_ok (n + costs l) s'"
  by (erule consumer_stepE)
    (auto simp: drops_ok_def hand_ok_def end_dispatcher_def hand_list_def split: option.splits)

lemma consumer_run_inv:
  "consumer_run cn io s ls s' \<Longrightarrow> s = new_tasks cn w \<Longrightarrow>
     permits_ok cn s' \<and> placed s' \<and> hand_ok s' \<and> drops_ok (sum_list (map costs ls)) s'"
proof (induction rule: consumer_run.induct)
  case (no_step s)
  then show ?case
    by (simp add: permits_ok_def placed_def hand_ok_def drops_ok_def new_tasks_def hand_list_def)
next
  case (further s ls s1 l s2)
  then show ?case
    using permits_step placed_step hand_step drops_step by auto
qed

text \<open>
  C20: In every interleaving of the consumer's tasks, the messages under way never exceed the configured
  concurrency and no permit is lost, so that the semaphore never blocks the consumer for good. When a stop has
  ended, every message that was taken has been handled, but for at most one for each start, which the
  dispatcher had in hand when it was stopped, and the tasks that the stop has cancelled. Such a message has
  been neither acknowledged nor put back.
\<close>

theorem consumer_bounded_and_accounted:
  assumes "consumer_run cn io (new_tasks cn w) ls s"
  shows "length (ct_active s) \<le> cn_max_concurrency cn \<and> ct_free s = cn_max_concurrency cn - length (ct_active s) \<and>
    (\<forall>s'. consumer_step cn io s TEndStop s' \<longrightarrow>
       mset (ct_taken s') = mset (ct_handled s') + mset (ct_dropped s') \<and>
       length (ct_dropped s') \<le> length (filter (\<lambda>l. costs l = 1) ls))"
proof -
  note inv = consumer_run_inv [OF assms refl]
  have costs: "sum_list (map costs ls) = length (filter (\<lambda>l. costs l = 1) ls)"
  proof (induction ls)
    case (Cons l ls)
    have "costs l = 0 \<or> costs l = 1" by (cases l) auto
    with Cons show ?case by auto
  qed simp
  have "mset (ct_taken s') = mset (ct_handled s') + mset (ct_dropped s') \<and>
      length (ct_dropped s') \<le> length (filter (\<lambda>l. costs l = 1) ls)" if "consumer_step cn io s TEndStop s'" for s'
    using that inv costs
    by (auto elim!: consumer_stepE simp: placed_def drops_ok_def hand_ok_def hand_list_def split: option.splits)
  with inv show ?thesis by (auto simp: permits_ok_def)
qed

definition demo_start :: world where
  "demo_start = (broker_send vectorize_topic demo_message new_broker, (0, []))"

lemma demo_drain: "drain_world demo_consumer demo_proc (b, (n, [])) = (Inr 0, (b, (Suc n, [])))"
  by (simp add: drain_world_def drain_pending_publications_def pending_publications_def pending_rows_def transact_def
      demo_proc_def)

lemma demo_permits: "cn_max_concurrency demo_consumer = 4"
  by (simp add: demo_consumer_def)

lemma consumer_bounded_and_accounted_witness:
  "\<exists>s s'. consumer_run demo_consumer demo_proc (new_tasks demo_consumer demo_start)
       [TStart, TTake, TDispatch, TBeginStop, TCancelDispatcher, TFinish 0] s \<and>
     consumer_step demo_consumer demo_proc s TEndStop s' \<and> ct_taken s' = [demo_message] \<and>
     mset (ct_taken s') = mset (ct_handled s') + mset (ct_dropped s')"
proof -
  let ?step = "consumer_step demo_consumer demo_proc" and ?run = "consumer_run demo_consumer demo_proc (new_tasks demo_consumer demo_start)"
  let ?b = "broker_start (fst demo_start)" and ?q = "bk_queues_update (AList.update vectorize_topic [])"
  define s0 where "s0 = new_tasks demo_consumer demo_start"
  define s1 where "s1 = s0\<lparr>ct_world := (?b, (1, [])), ct_dispatching := True, ct_recovering := True\<rparr>"
  define s2 where "s2 = s1\<lparr>ct_hand := Some demo_message, ct_world := (?q ?b, (1, [])), ct_taken := [demo_message]\<rparr>"
  define s3 where "s3 = s2\<lparr>ct_hand := None, ct_free := ct_free s2 - 1, ct_active := [demo_message]\<rparr>"
  define s4 where "s4 = s3\<lparr>ct_stopping := True, ct_in_stop := True, ct_recovering := False\<rparr>"
  define s5 where "s5 = end_dispatcher s4"
  define s6 where "s6 = s5\<lparr>ct_active := without 0 (ct_active s5), ct_free := ct_free s5 + 1,
         ct_world := deliver demo_consumer demo_proc (ct_active s5 ! 0) (ct_world s5),
         ct_handled := ct_handled s5 @ [ct_active s5 ! 0]\<rparr>"
  define s7 where "s7 = s6\<lparr>ct_in_stop := False, ct_world := (broker_stop (fst (ct_world s6)), snd (ct_world s6))\<rparr>"
  note unfold = new_tasks_def demo_start_def end_dispatcher_def hand_list_def demo_permits without_def
  have t1: "?step s0 TStart s1"
    using consumer_step.start [of s0 demo_consumer demo_proc "Inr 0" "(?b, (1, []))"]
    by (simp add: s1_def s0_def demo_drain is_ok_def unfold)
  have t2: "?step s1 TTake s2"
    using consumer_step.take [of s1 demo_message "?q ?b" demo_consumer demo_proc]
    by (simp add: s2_def s1_def s0_def unfold broker_take_def broker_start_def broker_send_def new_broker_def queue_of_def
        put_queue_def demo_message_def vectorize_topic_def)
  have t3: "?step s2 TDispatch s3"
    using consumer_step.dispatch [of s2 demo_message demo_consumer demo_proc] by (simp add: s3_def s2_def s1_def s0_def unfold)
  have t4: "?step s3 TBeginStop s4"
    using consumer_step.begin_stop [of s3 demo_consumer demo_proc] by (simp add: s4_def s3_def s2_def s1_def s0_def unfold)
  have t5: "?step s4 TCancelDispatcher s5"
    using consumer_step.cancel_dispatcher [of s4 demo_consumer demo_proc]
    by (simp add: s5_def s4_def s3_def s2_def s1_def s0_def unfold)
  have one: "ct_active s5 = [demo_message]" "ct_in_stop s5" "\<not> ct_dispatching s5" "ct_taken s5 = [demo_message]"
    by (simp_all add: s5_def s4_def s3_def s2_def s1_def s0_def unfold)
  have t6: "?step s5 (TFinish 0) s6"
    using consumer_step.finish [of 0 s5 demo_consumer demo_proc] one by (simp add: s6_def)
  have run: "?run (((((([] @ [TStart]) @ [TTake]) @ [TDispatch]) @ [TBeginStop]) @ [TCancelDispatcher]) @ [TFinish 0]) s6"
    unfolding s0_def [symmetric]
    by (rule further [OF further [OF further [OF further [OF further [OF further [OF consumer_run.no_step t1] t2] t3] t4] t5] t6])
  have stop: "?step s6 TEndStop s7"
    using consumer_step.end_stop [of s6 demo_consumer demo_proc] one by (simp add: s7_def s6_def without_def)
  from consumer_bounded_and_accounted [OF run] stop
  have "mset (ct_taken s7) = mset (ct_handled s7) + mset (ct_dropped s7)" by blast
  moreover have "ct_taken s7 = [demo_message]" using one by (simp add: s7_def s6_def)
  moreover have "?run [TStart, TTake, TDispatch, TBeginStop, TCancelDispatcher, TFinish 0] s6" using run by simp
  ultimately show ?thesis using stop by blast
qed

text \<open>A message is dropped without a trace by a dispatcher that waits for a permit.\<close>

lemma waiting_message_is_dropped:
  assumes "ct_dispatching s" "ct_hand s = Some m" "ct_in_stop s"
  shows "\<exists>s'. consumer_step cn io s TCancelDispatcher s' \<and> m \<in> set (ct_dropped s') \<and> ct_world s' = ct_world s"
proof -
  have "consumer_step cn io s TCancelDispatcher (end_dispatcher s)" using assms by (intro cancel_dispatcher)
  moreover have "m \<in> set (ct_dropped (end_dispatcher s))" "ct_world (end_dispatcher s) = ct_world s"
    using assms(2) by (simp_all add: end_dispatcher_def)
  ultimately show ?thesis by blast
qed

text \<open>Once the recovery task has met an error, it never runs again before the next start.\<close>

lemma recovery_stays_dead:
  "consumer_run cn io s ls s' \<Longrightarrow> \<not> ct_recovering s \<Longrightarrow> TStart \<notin> set ls \<Longrightarrow> \<not> ct_recovering s' \<and> TRecover \<notin> set ls"
proof (induction rule: consumer_run.induct)
  case (further s ls s1 l s2)
  then have no: "\<not> ct_recovering s1" "l \<noteq> TStart" "TRecover \<notin> set ls" by auto
  from further.hyps(2) no(1,2) have "\<not> ct_recovering s2 \<and> l \<noteq> TRecover"
    by (auto elim!: consumer_stepE simp: end_dispatcher_def)
  with no(3) show ?case by auto
qed simp

end
