(* ===== verification/AsyncNode.thy ===== *)
theory AsyncNode
  imports Node
begin

text \<open>
  \<open>Node.execute_async\<close> (\<open>src/src/prismpipe/core/node.py\<close>) as a state machine over the events that the event loop
  delivers to a call: the operation on the working copy of the envelope ends, the deadline passes, the caller is
  cancelled. An operation is a task, when \<open>process\<close> is a coroutine function, or else a call in the bounded
  executor. What an operation has done to its working copy is part of the event that ends it.
\<close>

section \<open>A call\<close>

datatype call_result = Resulted node_result | CallCancelled | Refused py_error

text \<open>
  \<open>Stopping b\<close>: the call has cancelled its task and waits until the task has ended; with \<open>b\<close> the caller is
  cancelled too, otherwise the deadline has passed.
\<close>

datatype call_phase = Waiting | Stopping bool | Over call_result

text \<open>
  \<open>OpEnds t o\<close>: the operation ends at instant \<open>t\<close>, with an outcome of \<open>process\<close>, or cancelled when \<open>o\<close> is
  \<open>None\<close>. This happens also without a caller's doing: \<open>process\<close> may raise \<open>CancelledError\<close>, and a shutdown of
  the executor cancels the calls that wait in it.
\<close>

datatype call_event = OpEnds nat "outcome option" | DeadlinePasses nat | CallerCancels

text \<open>\<open>_execute_async_process\<close> and \<open>_execute_sync\<close> make the same result of what \<open>process\<close> did.\<close>

definition finish_process :: "runtime \<Rightarrow> nat \<Rightarrow> node \<Rightarrow> outcome \<Rightarrow> node_result" where
  "finish_process rt t nd x =
     (case x of Returned r \<Rightarrow> finalize_result rt t nd r | Raised e ty msg \<Rightarrow> failure_result rt t nd e ty msg)"

definition start_call :: "runtime \<Rightarrow> nat \<Rightarrow> node \<Rightarrow> bool \<Rightarrow> envelope \<Rightarrow> rat option \<Rightarrow> call_phase" where
  "start_call rt t nd coroutine e s =
     (case effective_timeout nd s of
        Some eff \<Rightarrow>
          if eff \<le> 0 then Over (Resulted (timeout_result rt t nd e eff))
          else if coroutine then Waiting
          else (case rt_worker rt t of
                  WShutdown \<Rightarrow> Over (Refused (RuntimeError ''Node execution resources are shut down''))
                | WFull \<Rightarrow> Over (Resulted (capacity_result rt t nd e))
                | _ \<Rightarrow> Waiting)
      | None \<Rightarrow>
          if coroutine then Waiting
          else (case rt_worker rt t of
                  WShutdown \<Rightarrow> Over (Refused (RuntimeError ''Node execution resources are shut down''))
                | WFull \<Rightarrow> Over (Resulted (capacity_result rt t nd e))
                | _ \<Rightarrow> Waiting))"

text \<open>
  A cancelled task is awaited, an abandoned call in the executor is not. A second cancellation of the caller
  while it awaits the task is passed on once the task has ended.
\<close>

fun call_step :: "runtime \<Rightarrow> node \<Rightarrow> bool \<Rightarrow> envelope \<Rightarrow> rat option \<Rightarrow> call_event \<Rightarrow> call_phase \<Rightarrow> call_phase" where
  "call_step rt nd coroutine e s (OpEnds t x) Waiting =
     (case x of
        Some y \<Rightarrow> Over (Resulted (commit_completed e (finish_process rt t nd y)))
      | None \<Rightarrow> Over CallCancelled)"
| "call_step rt nd coroutine e s (OpEnds t x) (Stopping b) =
     (if b then Over CallCancelled
      else case effective_timeout nd s of
        None \<Rightarrow> Stopping b
      | Some eff \<Rightarrow> Over (Resulted (timeout_result rt t nd e eff)))"
| "call_step rt nd coroutine e s (DeadlinePasses t) Waiting =
     (case effective_timeout nd s of
        None \<Rightarrow> Waiting
      | Some eff \<Rightarrow> if coroutine then Stopping False else Over (Resulted (timeout_result rt t nd e eff)))"
| "call_step rt nd coroutine e s (DeadlinePasses t) (Stopping b) = Stopping b"
| "call_step rt nd coroutine e s CallerCancels Waiting = (if coroutine then Stopping True else Over CallCancelled)"
| "call_step rt nd coroutine e s CallerCancels (Stopping b) = Stopping True"
| "call_step rt nd coroutine e s ev (Over r) = Over r"

definition execute_async ::
    "runtime \<Rightarrow> nat \<Rightarrow> node \<Rightarrow> bool \<Rightarrow> envelope \<Rightarrow> rat option \<Rightarrow> call_event list \<Rightarrow> call_phase" where
  "execute_async rt t nd coroutine e s evs =
     run_steps (call_step rt nd coroutine e s) evs (start_call rt t nd coroutine e s)"

section \<open>All or nothing\<close>

text \<open>The request as it was, but for one more entry of its history, its error and its end.\<close>

definition untouched :: "envelope \<Rightarrow> node_result \<Rightarrow> bool" where
  "untouched e res \<longleftrightarrow>
     \<not> res_success res \<and> (\<exists>h. env_history (res_envelope res) = env_history e @ [h]) \<and>
     (res_envelope res)\<lparr>env_history := env_history e, env_error := env_error e,
       env_terminated := env_terminated e\<rparr> = e"

lemma refusals_leave_request [simp]:
  "untouched e (timeout_result rt t nd e eff)" "untouched e (capacity_result rt t nd e)"
  by (simp_all add: untouched_def timeout_result_def capacity_result_def env_record_def env_terminate_def Let_def)

lemma run_over [simp]: "run_steps (call_step rt nd coroutine e s) evs (Over r) = Over r"
  by (induction evs) simp_all

text \<open>While a task is being stopped, its work is lost whatever it does.\<close>

lemma stopping_result:
  "run_steps (call_step rt nd coroutine e s) evs (Stopping b) = Over r \<Longrightarrow>
     r = CallCancelled \<or> (\<exists>res. r = Resulted res \<and> untouched e res)"
proof (induction evs arbitrary: b)
  case (Cons ev evs)
  then show ?case by (cases ev) (auto split: if_splits option.splits)
qed simp

fun decides :: "rat option \<Rightarrow> call_event \<Rightarrow> bool" where
  "decides eff (DeadlinePasses t) = (eff \<noteq> None)"
| "decides eff _ = True"

lemma undecided: "\<not> decides (effective_timeout nd s) ev \<Longrightarrow> call_step rt nd coroutine e s ev Waiting = Waiting"
  by (cases ev) auto

lemma waiting_result:
  assumes "run_steps (call_step rt nd coroutine e s) evs Waiting = Over (Resulted res)" "\<not> untouched e res"
  shows "\<exists>before t y after. evs = before @ OpEnds t (Some y) # after \<and>
    list_all (\<lambda>ev. \<not> decides (effective_timeout nd s) ev) before \<and> res = finish_process rt t nd y"
  using assms
proof (induction evs)
  case (Cons ev evs)
  show ?case
  proof (cases "decides (effective_timeout nd s) ev")
    case False
    with Cons undecided obtain before t y after where
      "evs = before @ OpEnds t (Some y) # after" "res = finish_process rt t nd y"
      "list_all (\<lambda>ev. \<not> decides (effective_timeout nd s) ev) before" by fastforce
    with False show ?thesis by (intro exI [of _ "ev # before"] exI) auto
  next
    case True
    show ?thesis
    proof (cases ev)
      case (OpEnds t x)
      with Cons.prems(1) obtain y where "x = Some y" "res = finish_process rt t nd y" by (cases x) auto
      with OpEnds show ?thesis by (intro exI [of _ "[]"]) auto
    next
      case (DeadlinePasses t)
      with True Cons.prems show ?thesis
        by (auto split: if_splits dest!: stopping_result)
    next
      case CallerCancels
      with Cons.prems show ?thesis by (auto split: if_splits dest!: stopping_result)
    qed
  qed
qed simp

text \<open>
  C25: A call of \<open>execute_async\<close> is all or nothing in every order of events. Either the operation ended before any
  deadline and any cancellation, and the request becomes exactly what the node made of it; or the result is a
  failure, and the request keeps everything but one new history entry, its error and its end.
\<close>

theorem async_call_is_atomic:
  assumes "execute_async rt t nd coroutine e s evs = Over (Resulted res)"
  shows "untouched e res \<or>
    (\<exists>before t' y after. evs = before @ OpEnds t' (Some y) # after \<and>
       list_all (\<lambda>ev. \<not> decides (effective_timeout nd s) ev) before \<and> res = finish_process rt t' nd y)"
proof (cases "start_call rt t nd coroutine e s = Waiting")
  case True
  with assms waiting_result show ?thesis unfolding execute_async_def by metis
next
  case False
  then have "\<exists>r. start_call rt t nd coroutine e s = Over r \<and> (\<forall>res. r = Resulted res \<longrightarrow> untouched e res)"
    by (auto simp: start_call_def split: option.splits if_splits worker.splits)
  with assms show ?thesis by (auto simp: execute_async_def)
qed

definition slow_node :: node where
  "slow_node = \<lparr>nd_id = ''n'', nd_type = ''N'', nd_capability = ''slow'', nd_timeout_ms = Some 1000, nd_offload = True,
     nd_process = \<lambda>e. Returned (ok_result (set_next (Some ''x'') e))\<rparr>"

definition plain_runtime :: runtime where
  "plain_runtime = \<lparr>rt_mono = \<lambda>_. 0, rt_wall = \<lambda>_. 0, rt_dur = \<lambda>_. 0, rt_worker = \<lambda>_. WDone, rt_fmt = \<lambda>_. ''1''\<rparr>"

lemma async_call_is_atomic_witness:
  "\<exists>res. execute_async plain_runtime 0 slow_node True (demo_env None) None
      [DeadlinePasses 1, OpEnds 2 (Some (nd_process slow_node (demo_env None)))] = Over (Resulted res) \<and>
    untouched (demo_env None) res"
proof -
  let ?evs = "[DeadlinePasses 1, OpEnds 2 (Some (nd_process slow_node (demo_env None)))]"
  have eff: "effective_timeout slow_node None = Some 1" by (simp add: effective_timeout_def slow_node_def)
  then have run: "execute_async plain_runtime 0 slow_node True (demo_env None) None ?evs =
      Over (Resulted (timeout_result plain_runtime 2 slow_node (demo_env None) 1))"
    by (simp add: execute_async_def start_call_def)
  from async_call_is_atomic [OF run] have "untouched (demo_env None) (timeout_result plain_runtime 2 slow_node (demo_env None) 1)"
    using eff by (auto simp: Cons_eq_append_conv)
  with run show ?thesis by blast
qed

section \<open>Whether a call ends\<close>

text \<open>A call in the executor is over as soon as one event decides it.\<close>

lemma executor_call_ends:
  assumes "ev \<in> set evs" "decides (effective_timeout nd s) ev"
  shows "\<exists>r. execute_async rt t nd False e s evs = Over r"
proof -
  have "\<exists>r. run_steps (call_step rt nd False e s) evs Waiting = Over r"
    using assms
  proof (induction evs)
    case (Cons ev' evs)
    show ?case
    proof (cases "decides (effective_timeout nd s) ev'")
      case True
      then show ?thesis by (cases ev') (auto split: option.splits)
    next
      case False
      with Cons show ?thesis by (auto simp: undecided)
    qed
  qed simp
  moreover have "start_call rt t nd False e s = Waiting \<or> (\<exists>r. start_call rt t nd False e s = Over r)"
    by (auto simp: start_call_def split: option.splits worker.splits)
  ultimately show ?thesis by (auto simp: execute_async_def)
qed

text \<open>
  A call of a coroutine ends only when the coroutine ends: one that ignores its cancellation keeps the caller
  beyond the deadline, however often the caller is cancelled.
\<close>

lemma deadline_waits_for_coroutine:
  assumes "list_all (\<lambda>ev. case ev of OpEnds _ _ \<Rightarrow> False | _ \<Rightarrow> True) evs"
    and "\<forall>eff. effective_timeout nd s = Some eff \<longrightarrow> 0 < eff"
  shows "\<forall>r. execute_async rt t nd True e s evs \<noteq> Over r"
proof -
  have "\<forall>r. run_steps (call_step rt nd True e s) evs p \<noteq> Over r" if "\<forall>r. p \<noteq> Over r" for p
    using assms(1) that
  proof (induction evs arbitrary: p)
    case (Cons ev evs)
    then have "\<forall>r. call_step rt nd True e s ev p \<noteq> Over r"
      by (cases ev; cases p) (auto split: option.splits)
    with Cons show ?case by simp
  qed simp
  moreover have "start_call rt t nd True e s = Waiting"
    using assms(2) by (auto simp: start_call_def split: option.splits)
  ultimately show ?thesis by (simp add: execute_async_def)
qed

text \<open>Without a deadline or a cancellation the asynchronous call gives what the synchronous one gives.\<close>

lemma async_equals_sync:
  assumes "rt_worker rt t = WDone" "effective_timeout nd s \<noteq> None"
    and "\<forall>eff. effective_timeout nd s = Some eff \<longrightarrow> 0 < eff"
  shows "\<exists>res. execute_async rt t nd False e s [OpEnds t (Some (nd_process nd e))] = Over (Resulted res) \<and>
    execute_with_timeout rt t nd e s = Inr res"
  using assms
  by (auto simp: execute_async_def start_call_def execute_with_timeout_def execute_sync_def finish_process_def
      split: outcome.splits)

end
