(* ===== verification/OrganismApi.thy ===== *)
theory OrganismApi
  imports HttpServer Lifecycle
begin

text \<open>
  The organism and inspection endpoints of \<open>src/server.py\<close> over the engine and the hibernated organisms, with the
  in-memory backend that is configured when no server is. A reply is the data that the endpoint returns, before
  the web framework prints it; an exception becomes the reply of the error handler.
\<close>

section \<open>Requests and replies\<close>

record spawn_request =
  sp_intent :: string
  sp_input :: dict
  sp_capability :: "string option"
  sp_parent :: "string option"

definition empty_spawn :: spawn_request where
  "empty_spawn = \<lparr>sp_intent = ''custom'', sp_input = [], sp_capability = Some ''bench.compute'', sp_parent = None\<rparr>"

record organism_view =
  ov_id :: string
  ov_intent :: string
  ov_input :: dict
  ov_state :: dict
  ov_next :: "string option"
  ov_terminated :: bool
  ov_parent :: "string option"
  ov_knowledge :: "(string \<times> pval \<times> rat) list"
  ov_history :: "history_entry list"

text \<open>\<open>_serialize_organism\<close>.\<close>

definition organism_view_of :: "organism \<Rightarrow> organism_view" where
  "organism_view_of o' =
     \<lparr>ov_id = og_id o', ov_intent = intent_str (og_intent o'), ov_input = og_input o', ov_state = og_state o',
      ov_next = og_next o', ov_terminated = org_terminated o', ov_parent = og_parent o',
      ov_knowledge = map (\<lambda>a. (ka_key a, ka_value a, ka_confidence a)) (atoms_of o'), ov_history = og_history o'\<rparr>"

record diff_view =
  dv_capability :: string
  dv_added :: dict
  dv_modified :: "string pdict"
  dv_removed :: "string list"
  dv_latency_ms :: rat

datatype reply =
    NotFound string
  | ServerError
  | OrganismReply organism_view
  | ExecutedReply organism_view metrics "change list"
  | LineageReply "organism_view list"
  | HibernatedReply string string
  | HealthReply organism_view pval bool metrics
  | CapabilitiesReply "string list"
  | SnapshotsReply "string list"
  | MemoryReply nat "(string \<times> string \<times> bool) list"
  | CacheReply nat "string list"
  | AncestryReply "string list pdict"
  | DiffReply string "diff_view list"
  | ReplayReply bool dict
  | ForkReply string string
  | DemoReply string "string list" bool
  | ReadyReply nat
  | NotReadyReply string

record api =
  ap_engine :: prism
  ap_persisted :: "hibernated pdict"
  ap_storage :: "hibernated memory"

section \<open>Organisms\<close>

definition spawn_endpoint :: "string \<Rightarrow> rat \<Rightarrow> spawn_request \<Rightarrow> api \<Rightarrow> reply \<times> api" where
  "spawn_endpoint uid now b a =
     (let (o', pe) = spawn_organism uid now (Inr (sp_intent b)) (sp_input b) (sp_capability b) (sp_parent b) (ap_engine a)
      in (OrganismReply (organism_view_of o'), a\<lparr>ap_engine := pe\<rparr>))"

text \<open>\<open>execute_organism\<close>. \<open>None\<close> is an execution that never returns.\<close>

definition execute_endpoint :: "xio \<Rightarrow> cgraph \<Rightarrow> string \<Rightarrow> api \<Rightarrow> (reply \<times> api) option" where
  "execute_endpoint io fresh oid a =
     (case get_organism oid (pe_registry (ap_engine a)) of
        None \<Rightarrow> Some (NotFound ''Organism not found'', a)
      | Some o' \<Rightarrow>
          map_option (\<lambda>(err, o1, pe).
              (case err of
                 Some _ \<Rightarrow> ServerError
               | None \<Rightarrow> ExecutedReply (organism_view_of o1) (get_metrics pe)
                   (case map_of (x_mutations (pe_exec pe)) oid of Some m \<Rightarrow> get_timeline m | None \<Rightarrow> []),
               a\<lparr>ap_engine := pe\<rparr>))
            (execute_organism io fresh True o' (ap_engine a)))"

definition inspect_endpoint :: "string \<Rightarrow> api \<Rightarrow> reply" where
  "inspect_endpoint oid a =
     (case get_organism oid (pe_registry (ap_engine a)) of
        None \<Rightarrow> NotFound ''Organism not found''
      | Some o' \<Rightarrow> OrganismReply (organism_view_of o'))"

definition lineage_endpoint :: "string \<Rightarrow> api \<Rightarrow> reply option" where
  "lineage_endpoint oid a =
     map_option (\<lambda>os. if os = [] then NotFound ''Organism not found'' else LineageReply (map organism_view_of os))
       (get_lineage (pe_registry (ap_engine a)) (Some oid) [])"

text \<open>The suspended organism is the one in the registry.\<close>

definition hibernate_endpoint :: "string \<Rightarrow> rat \<Rightarrow> string \<Rightarrow> api \<Rightarrow> reply \<times> api" where
  "hibernate_endpoint uid now oid a =
     (let pe = ap_engine a
      in case get_organism oid (pe_registry pe) of
           None \<Rightarrow> (NotFound ''Organism not found'', a)
         | Some o' \<Rightarrow>
             (let (hid, d, o1, p) = hibernate uid now o' (ap_persisted a)
              in (HibernatedReply hid oid,
                  a\<lparr>ap_engine := pe\<lparr>pe_registry := sync_registry o1 (pe_registry pe)\<rparr>, ap_persisted := p,
                    ap_storage := mem_save hid d (ap_storage a)\<rparr>)))"

definition wake_endpoint :: "rat \<Rightarrow> string \<Rightarrow> api \<Rightarrow> reply \<times> api" where
  "wake_endpoint now hid a =
     (let (found, p) = wake now hid (mem_load hid (ap_storage a)) (ap_persisted a); pe = ap_engine a
      in case found of
           None \<Rightarrow> (NotFound ''Hibernation not found'', a\<lparr>ap_persisted := p\<rparr>)
         | Some o' \<Rightarrow>
             (OrganismReply (organism_view_of o'),
              a\<lparr>ap_persisted := p, ap_engine := pe\<lparr>pe_registry := register_organism o' (pe_registry pe)\<rparr>\<rparr>))"

text \<open>\<open>deepiri_health_pipeline\<close>; a report that is not a dictionary has no \<open>get\<close>.\<close>

definition health_endpoint ::
    "xio \<Rightarrow> cgraph \<Rightarrow> string \<Rightarrow> rat \<Rightarrow> dict \<Rightarrow> bool \<Rightarrow> api \<Rightarrow> (reply \<times> api) option" where
  "health_endpoint io fresh uid now inp sharing a =
     (let (o', pe) = spawn_organism uid now (Inr ''deepiri.health'')
            (if inp = [] then [(''probe'', PStr ''health'')] else inp) (Some ''deepiri.health.parallel'') None (ap_engine a)
      in map_option (\<lambda>(err, o1, pe1).
             (case err of
                Some _ \<Rightarrow> ServerError
              | None \<Rightarrow>
                  (case got (og_state o1) ''deepiri_report'' (PDict []) of
                     PDict report \<Rightarrow> HealthReply (organism_view_of o1) (PDict report)
                         (truthy (got report ''useful'' PNone)) (get_metrics pe1)
                   | _ \<Rightarrow> ServerError),
              a\<lparr>ap_engine := pe1\<rparr>))
           (execute_organism io fresh sharing o' pe))"

section \<open>Inspection\<close>

definition ready_endpoint :: "api \<Rightarrow> reply" where
  "ready_endpoint a =
     (let n = length (list_capabilities (pe_router (ap_engine a)))
      in if n = 0 then NotReadyReply ''No nodes registered'' else ReadyReply n)"

definition capabilities_endpoint :: "api \<Rightarrow> reply" where
  "capabilities_endpoint a = CapabilitiesReply (list_capabilities (pe_router (ap_engine a)))"

definition snapshots_endpoint :: "api \<Rightarrow> reply" where
  "snapshots_endpoint a = SnapshotsReply (map fst (re_snapshots (pe_replay (ap_engine a))))"

text \<open>\<open>xs[-10:]\<close>; the text of an enumeration member is \<open>Intent.NAME\<close> and comes from \<open>shown\<close>.\<close>

definition last_ten :: "'a list \<Rightarrow> 'a list" where
  "last_ten xs = drop (length xs - 10) xs"

definition memory_endpoint :: "(intent \<Rightarrow> string) \<Rightarrow> api \<Rightarrow> reply" where
  "memory_endpoint shown a =
     (let rs = map snd (rm_requests (pe_memory (ap_engine a)))
      in MemoryReply (length rs) (map (\<lambda>e. (env_id e, shown (env_intent e), env_terminated e)) (last_ten rs)))"

definition cache_endpoint :: "api \<Rightarrow> reply" where
  "cache_endpoint a =
     (let c = pe_semantic (ap_engine a) in CacheReply (length (sm_cache c)) (map fst (sm_index c)))"

definition ancestry_endpoint :: "api \<Rightarrow> reply" where
  "ancestry_endpoint a = AncestryReply (pe_tree (ap_engine a))"

definition diff_view_of :: "(pval \<times> pval \<Rightarrow> string) \<Rightarrow> state_diff \<Rightarrow> diff_view" where
  "diff_view_of shown d =
     \<lparr>dv_capability = sd_capability d, dv_added = sd_added d,
      dv_modified = map (\<lambda>(k, v). (k, shown v)) (sd_modified d), dv_removed = sd_removed d,
      dv_latency_ms = sd_latency_ms d\<rparr>"

definition diff_endpoint :: "(pval \<times> pval \<Rightarrow> string) \<Rightarrow> string \<Rightarrow> api \<Rightarrow> reply" where
  "diff_endpoint shown i a = DiffReply i (map (diff_view_of shown) (diff_timeline i (pe_diffs (ap_engine a))))"

definition replay_endpoint :: "eio \<Rightarrow> string \<Rightarrow> api \<Rightarrow> (reply \<times> api) option" where
  "replay_endpoint io sid a =
     (case restore_snapshot sid (pe_replay (ap_engine a)) of
        None \<Rightarrow> Some (NotFound ''Snapshot not found'', a)
      | Some e \<Rightarrow>
          map_option (\<lambda>(res, pe).
              (case res of Inl _ \<Rightarrow> ServerError | Inr e' \<Rightarrow> ReplayReply (\<not> env_terminated e') (env_state e'),
               a\<lparr>ap_engine := pe\<rparr>))
            (engine_execute io e (ap_engine a)))"

definition fork_endpoint :: "string \<Rightarrow> rat \<Rightarrow> api \<Rightarrow> reply \<times> api" where
  "fork_endpoint uid now a =
     (let pe = ap_engine a; rs = map snd (rm_requests (pe_memory pe))
      in if rs = [] then (NotFound ''No requests to fork'', a)
         else (let (f, r) = fork_envelope uid now (List.last rs) [(''_forked'', PBool True)] (pe_replay pe)
               in (ForkReply (env_id (List.last rs)) (env_id f), a\<lparr>ap_engine := pe\<lparr>pe_replay := r\<rparr>\<rparr>)))"

text \<open>\<open>demo_intent_routing\<close>: a text that is no intent makes \<open>create_envelope\<close> raise.\<close>

definition demo_endpoint :: "eio \<Rightarrow> string \<Rightarrow> string \<Rightarrow> api \<Rightarrow> (reply \<times> api) option" where
  "demo_endpoint io uid i a =
     (case create_envelope uid (Inr i) (PDict [(''query'', PStr ''show me analytics'')]) [] (Some ''auth.validate'')
             empty_metadata of
        Inl _ \<Rightarrow> Some (ServerError, a)
      | Inr e \<Rightarrow>
          map_option (\<lambda>(res, pe).
              (case res of
                 Inl _ \<Rightarrow> ServerError
               | Inr e' \<Rightarrow> DemoReply i (map he_capability (env_history e')) (\<not> env_terminated e'),
               a\<lparr>ap_engine := pe\<rparr>))
            (engine_execute io e (ap_engine a)))"

section \<open>Hibernation through the interface\<close>

lemma view_of_woken:
  assumes "wf_knowledge o'" "normalize_intent (og_intent o') = og_intent o'"
  shows "organism_view_of ((deserialize now (serialize t o'))\<lparr>og_status := SPAWNED\<rparr>) =
    (organism_view_of o')\<lparr>ov_terminated := False\<rparr>"
proof -
  have "map (\<lambda>a. (ka_key a, ka_value a, ka_confidence a)) (map snd (map (\<lambda>(k, a). (k, a\<lparr>ka_timestamp := now\<rparr>)) d)) =
      map (\<lambda>a. (ka_key a, ka_value a, ka_confidence a)) (map snd d)" for d
    by (induction d) auto
  with deserialize_serialize [OF assms, of now t] show ?thesis
    by (simp add: organism_view_of_def org_terminated_def atoms_of_def Let_def del: map_map)
qed

lemma inspect_registered:
  "inspect_endpoint (og_id o') (a\<lparr>ap_engine := pe\<lparr>pe_registry := register_organism o' r\<rparr>\<rparr>) =
     OrganismReply (organism_view_of o')"
  by (simp add: inspect_endpoint_def get_organism_def register_organism_def dict_simps)

text \<open>
  C31: Hibernating a registered organism and waking it through the interface, in the same process or after a restart
  that keeps only the storage, returns and registers an organism whose reply is the one from before, in
  every part that the interface shows, but for the end: an organism that was terminated comes back alive.
\<close>

theorem api_hibernation_restores_view:
  assumes "get_organism oid (pe_registry (ap_engine a)) = Some o'" "og_id o' = oid"
    and "wf_knowledge o'" "normalize_intent (og_intent o') = og_intent o'"
  shows "\<exists>hid a1. hibernate_endpoint uid t oid a = (HibernatedReply hid oid, a1) \<and>
    (\<forall>a2. a2 = a1 \<or> (ap_persisted a2 = [] \<and> ap_storage a2 = ap_storage a1) \<longrightarrow>
       (\<exists>a3. wake_endpoint now hid a2 = (OrganismReply ((organism_view_of o')\<lparr>ov_terminated := False\<rparr>), a3) \<and>
          inspect_endpoint oid a3 = OrganismReply ((organism_view_of o')\<lparr>ov_terminated := False\<rparr>)))"
proof -
  let ?hid = "''hib_'' @ uid" and ?d = "serialize t o'" and ?q = "(deserialize now (serialize t o'))\<lparr>og_status := SPAWNED\<rparr>"
  obtain a1 where h: "hibernate_endpoint uid t oid a = (HibernatedReply ?hid oid, a1)"
    and p: "map_of (ap_persisted a1) ?hid = Some ?d" "mem_load ?hid (ap_storage a1) = Some ?d"
    using assms(1) by (auto simp: hibernate_endpoint_def hibernate_def mem_defs dict_simps Let_def)
  have id: "og_id ?q = oid" using deserialize_serialize [OF assms(3,4), of now t] assms(2) by (simp add: Let_def)
  have "\<exists>a3. wake_endpoint now ?hid a2 = (OrganismReply (organism_view_of ?q), a3) \<and>
      inspect_endpoint oid a3 = OrganismReply (organism_view_of ?q)"
    if "a2 = a1 \<or> (ap_persisted a2 = [] \<and> ap_storage a2 = ap_storage a1)" for a2
  proof -
    from that p have "fst (wake now ?hid (mem_load ?hid (ap_storage a2)) (ap_persisted a2)) = Some ?q"
      by (auto simp: wake_def Let_def)
    then show ?thesis
      using inspect_registered [of ?q] id by (auto simp: wake_endpoint_def Let_def split: prod.splits)
  qed
  with h view_of_woken [OF assms(3,4)] show ?thesis by auto
qed

definition demo_api :: api where
  "demo_api = \<lparr>ap_engine = demo_prism\<lparr>pe_registry := register_organism demo_organism new_registry\<rparr>,
     ap_persisted = [], ap_storage = []\<rparr>"

lemma api_hibernation_restores_view_witness:
  "\<exists>hid a1. hibernate_endpoint ''1'' 2 (og_id demo_organism) demo_api = (HibernatedReply hid (og_id demo_organism), a1) \<and>
     (\<exists>a3. wake_endpoint 5 hid (a1\<lparr>ap_engine := demo_prism, ap_persisted := []\<rparr>) =
        (OrganismReply ((organism_view_of demo_organism)\<lparr>ov_terminated := False\<rparr>), a3))"
proof -
  have r: "get_organism (og_id demo_organism) (pe_registry (ap_engine demo_api)) = Some demo_organism"
    by (simp add: demo_api_def get_organism_def register_organism_def dict_simps)
  have i: "normalize_intent (og_intent demo_organism) = og_intent demo_organism"
    by (auto simp: demo_organism_def normalize_intent_def intent_of_def split: option.splits sum.splits)
  from api_hibernation_restores_view [OF r refl demo_wf i, of "''1''" 2 5] obtain hid a1 where
    h: "hibernate_endpoint ''1'' 2 (og_id demo_organism) demo_api = (HibernatedReply hid (og_id demo_organism), a1)"
    and w: "\<forall>a2. a2 = a1 \<or> (ap_persisted a2 = [] \<and> ap_storage a2 = ap_storage a1) \<longrightarrow>
       (\<exists>a3. wake_endpoint 5 hid a2 = (OrganismReply ((organism_view_of demo_organism)\<lparr>ov_terminated := False\<rparr>), a3) \<and>
          inspect_endpoint (og_id demo_organism) a3 = OrganismReply ((organism_view_of demo_organism)\<lparr>ov_terminated := False\<rparr>))"
    by (elim exE conjE) (rule that)
  have "\<exists>a3. wake_endpoint 5 hid (a1\<lparr>ap_engine := demo_prism, ap_persisted := []\<rparr>) =
      (OrganismReply ((organism_view_of demo_organism)\<lparr>ov_terminated := False\<rparr>), a3)"
    using w [rule_format, of "a1\<lparr>ap_engine := demo_prism, ap_persisted := []\<rparr>"] by auto
  with h show ?thesis by blast
qed

text \<open>Waking an organism lists it once more under its intent, however often it is there already.\<close>

lemma wake_lists_again:
  assumes "wake_endpoint now hid a = (OrganismReply v, a1)"
  shows "ids_at (ov_intent v) (rg_by_intent (pe_registry (ap_engine a1))) =
    ids_at (ov_intent v) (rg_by_intent (pe_registry (ap_engine a))) @ [ov_id v]"
  using assms
  by (auto simp: wake_endpoint_def register_organism_def append_at_def ids_at_def organism_view_of_def dict_simps Let_def
      split: prod.splits option.splits)

section \<open>Replays\<close>

lemma intent_has_words: "words (lower (intent_value i)) \<noteq> []"
  by (cases i) (simp_all add: words_def lower_def lower_char_def is_space_def Let_def)

text \<open>
  Note: The replay endpoint never runs a node of the request it replays. The snapshot of a request is taken when it has
  returned, and its result was cached for its intent just before, so that the replay is answered from the
  cache, as a success, even when the request had failed.
\<close>

theorem replay_runs_no_node:
  assumes "engine_execute io e (ap_engine a) = Some (Inr e', pe')"
    and "sem_get (ei_hash io) (intent_value (env_intent e)) (env_input e) (pe_semantic (ap_engine a)) = None"
    and "env_history e' \<noteq> []" "env_intent e' = env_intent e"
  shows "\<exists>hit::envelope. replay_endpoint io (''final_'' @ env_id e') (a\<lparr>ap_engine := pe'\<rparr>) =
    Some (ReplayReply True (AList.update ''_cached_result'' (PDict (env_state hit))
            (AList.update ''_from_cache'' (PBool True) (env_state e'))), a\<lparr>ap_engine := pe'\<rparr>)"
proof -
  let ?i = "intent_value (env_intent e)"
  from assms(1,2) obtain t pe0 where pe': "pe' = remember io t ?i e' pe0"
    by (auto simp: engine_execute_def split: option.splits)
  obtain r where r: "restore_snapshot (''final_'' @ env_id e') (pe_replay pe') = Some r"
    "env_intent r = env_intent e" "env_state r = env_state e'" "\<not> env_terminated r"
    using assms(4) pe'
    by (auto simp: remember_def take_snapshot_def restore_snapshot_def or_str_def dict_simps Let_def)
  obtain hit where "sem_get (ei_hash io) ?i (env_input r) (pe_semantic pe') = Some hit"
    using semantic_cache_ignores_input [OF intent_has_words] assms(3) pe' by (fastforce simp: remember_def)
  with r have x: "engine_execute io r pe' = Some (Inr (answer_from hit r), pe')"
    by (simp add: engine_execute_def)
  show ?thesis by (rule exI [of _ hit]) (use r x in \<open>simp add: replay_endpoint_def answer_from_def\<close>)
qed

lemma replay_runs_no_node_witness:
  "\<exists>e' pe' (hit::envelope). engine_execute demo_eio (demo_env (Some ''a'')) demo_prism = Some (Inr e', pe') \<and>
    replay_endpoint demo_eio (''final_'' @ env_id e') (demo_api\<lparr>ap_engine := pe'\<rparr>) =
      Some (ReplayReply True (AList.update ''_cached_result'' (PDict (env_state hit))
              (AList.update ''_from_cache'' (PBool True) (env_state e'))), demo_api\<lparr>ap_engine := pe'\<rparr>)"
proof -
  let ?e = "demo_env (Some ''a'')" and ?a = "demo_api\<lparr>ap_engine := demo_prism\<rparr>"
  have e: "env_next ?e = Some ''a''" "\<not> env_terminated ?e" "env_plan ?e = empty_plan" by (simp_all add: demo_env_def)
  have miss: "sem_get h i v (pe_semantic demo_prism) = None" for h i v
    by (simp add: sem_get_def demo_prism_def register_node_def new_prism_def new_sem_cache_def Let_def)
  obtain e1 pe1 where s: "engine_step demo_eio [] 0 ?e demo_prism = ENext e1 pe1"
    "env_next e1 = None" "env_history e1 \<noteq> []" "env_intent e1 = env_intent ?e"
    using demo_served(1) e
    by (simp add: engine_step_def get_capability_def hop_capability_plain served_locally_def demo_prism_def
        register_node_def new_prism_def demo_node_def router_defs new_router_def node_defs effective_timeout_def
        ok_result_def set_next_def env_record_def follow_plan_def empty_plan_def Let_def)
  have "engine_step demo_eio [] 1 e1 pe1 = EDone e1 pe1" using s(2) by (simp add: engine_step_def)
  with s(1) have "engine_loop demo_eio [] 0 ?e demo_prism = Some (None, e1, pe1, 1)"
    by (subst engine_loop.simps, simp, subst engine_loop.simps, simp)
  then have x: "engine_execute demo_eio ?e (ap_engine ?a) =
      Some (Inr e1, remember demo_eio 1 (intent_value (env_intent ?e)) e1 pe1)"
    using miss by (simp add: engine_execute_def) (simp add: demo_env_def)
  from replay_runs_no_node [OF x _ s(3,4)] miss x show ?thesis by auto
qed

end
