(* ===== verification/Settings.thy ===== *)
theory Settings
  imports Errors "HOL-Library.Sublist"
begin

text \<open>
  What surrounds every request: configuration values under dotted keys with environment variables in their text
  (\<open>src/src/prismpipe/config.py\<close>), the redaction of sensitive keys in log events (\<open>logging.py\<close>) and the counters
  (\<open>metrics.py\<close>). The environment, the files and the metrics client are arguments.
\<close>

section \<open>Dotted keys\<close>

text \<open>\<open>s.split(c)\<close>.\<close>

fun split_on :: "char \<Rightarrow> string \<Rightarrow> string list" where
  "split_on c [] = [[]]"
| "split_on c (x # xs) =
     (if x = c then [] # split_on c xs
      else case split_on c xs of [] \<Rightarrow> [[x]] | w # ws \<Rightarrow> (x # w) # ws)"

lemma split_on_nonempty [simp]: "split_on c s \<noteq> []"
  by (induction s) (auto split: list.splits)

lemma split_on_no_sep: "c \<notin> set s \<Longrightarrow> split_on c s = [s]"
  by (induction s) auto

text \<open>\<open>Config.get\<close>: below anything that is not a dictionary there is nothing; \<open>None\<close> counts as absent.\<close>

fun value_at :: "string list \<Rightarrow> pval \<Rightarrow> pval" where
  "value_at [] v = v"
| "value_at (k # ks) v =
     (case v of PDict d \<Rightarrow> value_at ks (case map_of d k of Some w \<Rightarrow> w | None \<Rightarrow> PNone) | _ \<Rightarrow> PNone)"

text \<open>The error of \<open>k in v\<close>, \<open>v[k]\<close> or \<open>v[k] = x\<close> when \<open>v\<close> is no dictionary.\<close>

fun type_name :: "pval \<Rightarrow> string" where
  "type_name PNone = ''NoneType''"
| "type_name (PBool _) = ''bool''"
| "type_name (PInt _) = ''int''"
| "type_name (PFloat _) = ''float''"
| "type_name (PStr _) = ''str''"
| "type_name (PList _) = ''list''"
| "type_name (PDict _) = ''dict''"

definition item_fault :: "bool \<Rightarrow> string \<Rightarrow> pval \<Rightarrow> py_error" where
  "item_fault inner k v =
     TypeError
       (case v of
          PStr s \<Rightarrow>
            if inner \<and> contains k s then ''string indices must be integers, not '' @ quoted ''str''
            else quoted ''str'' @ '' object does not support item assignment''
        | PList xs \<Rightarrow> ''list indices must be integers or slices, not str''
        | _ \<Rightarrow>
            if inner then ''argument of type '' @ quoted (type_name v) @ '' is not iterable''
            else quoted (type_name v) @ '' object does not support item assignment'')"

text \<open>\<open>Config.set\<close>: missing dictionaries on the way are made.\<close>

fun set_at :: "string list \<Rightarrow> pval \<Rightarrow> pval \<Rightarrow> py_error + pval" where
  "set_at [] v c = Inr v"
| "set_at [k] v c =
     (case c of PDict d \<Rightarrow> Inr (PDict (AList.update k v d)) | _ \<Rightarrow> Inl (item_fault False k c))"
| "set_at (k # ks) v c =
     (case c of
        PDict d \<Rightarrow>
          (case set_at ks v (case map_of d k of Some w \<Rightarrow> w | None \<Rightarrow> PDict []) of
             Inl e \<Rightarrow> Inl e
           | Inr w \<Rightarrow> Inr (PDict (AList.update k w d)))
      | _ \<Rightarrow> Inl (item_fault True k c))"

text \<open>
  \<open>re.sub(r'\$\{([^}]+)\}', ...)\<close>: the leftmost match is replaced, and the search goes on behind it. A variable
  that is not set keeps its text.
\<close>

definition open_brace :: char where "open_brace = CHR 0x7B"
definition close_brace :: char where "close_brace = CHR 0x7D"

definition variable_at :: "string \<Rightarrow> (string \<times> string) option" where
  "variable_at s =
     (case s of
        d # b # rest \<Rightarrow>
          (let name = takeWhile (\<lambda>c. c \<noteq> close_brace) rest; after = dropWhile (\<lambda>c. c \<noteq> close_brace) rest
           in if d = CHR ''$'' \<and> b = open_brace \<and> name \<noteq> [] \<and> after \<noteq> [] then Some (name, tl after) else None)
      | _ \<Rightarrow> None)"

lemma variable_at_shorter: "variable_at s = Some (name, after) \<Longrightarrow> length after < length s"
proof -
  assume "variable_at s = Some (name, after)"
  then obtain d b rest where s: "s = d # b # rest" and "after = tl (dropWhile (\<lambda>c. c \<noteq> close_brace) rest)"
    by (auto simp: variable_at_def Let_def split: list.splits if_splits)
  then have "length after \<le> length (dropWhile (\<lambda>c. c \<noteq> close_brace) rest)" by simp
  also have "\<dots> \<le> length rest" by (rule length_dropWhile_le)
  finally show ?thesis using s by simp
qed

function subst_env :: "(string \<Rightarrow> string option) \<Rightarrow> string \<Rightarrow> string" where
  "subst_env env s =
     (case s of
        [] \<Rightarrow> []
      | c # cs \<Rightarrow>
          (case variable_at s of
             None \<Rightarrow> c # subst_env env cs
           | Some (name, after) \<Rightarrow>
               (case env name of
                  Some v \<Rightarrow> v
                | None \<Rightarrow> [CHR ''$'', open_brace] @ name @ [close_brace]) @ subst_env env after))"
  by pat_completeness auto
termination by (relation "measure (\<lambda>(env, s). length s)") (auto dest: variable_at_shorter)

declare subst_env.simps [simp del]

fun substitute :: "(string \<Rightarrow> string option) \<Rightarrow> pval \<Rightarrow> pval" where
  "substitute env (PStr s) = PStr (subst_env env s)"
| "substitute env (PDict d) = PDict (map (\<lambda>(k, v). (k, substitute env v)) d)"
| "substitute env (PList xs) = PList (map (substitute env) xs)"
| "substitute env v = v"

text \<open>A configuration is a dictionary, or whatever else a file held.\<close>

definition new_config :: "pval option \<Rightarrow> pval" where
  "new_config c = (case c of None \<Rightarrow> PDict [] | Some v \<Rightarrow> if truthy v then v else PDict [])"

definition config_get :: "(string \<Rightarrow> string option) \<Rightarrow> string \<Rightarrow> pval \<Rightarrow> pval \<Rightarrow> pval" where
  "config_get env key fallback c =
     (let v = value_at (split_on (CHR ''.'') key) c in if v = PNone then fallback else substitute env v)"

definition config_set :: "string \<Rightarrow> pval \<Rightarrow> pval \<Rightarrow> py_error + pval" where
  "config_set key v c = set_at (split_on (CHR ''.'') key) v c"

definition config_item :: "(string \<Rightarrow> string option) \<Rightarrow> string \<Rightarrow> pval \<Rightarrow> pval" where
  "config_item env key c = config_get env key PNone c"

definition default_settings :: pval where
  "default_settings = PDict
     [(''pipeline'', PDict [(''max_iterations'', PInt 100), (''default_timeout'', PInt 30)]),
      (''logging'', PDict [(''level'', PStr ''INFO''), (''format'', PStr ''json'')])]"

definition ends_with :: "string \<Rightarrow> string \<Rightarrow> bool" where
  "ends_with p s = starts_with (rev p) (rev s)"

text \<open>
  \<open>load_config\<close>: \<open>exists\<close>, \<open>read_json\<close> and \<open>read_yaml\<close> are the file system and the two parsers. An empty path counts
  as none.
\<close>

definition load_config ::
    "(string \<Rightarrow> string option) \<Rightarrow> (string \<Rightarrow> bool) \<Rightarrow> (string \<Rightarrow> py_error + pval) \<Rightarrow> (string \<Rightarrow> py_error + pval)
       \<Rightarrow> string option \<Rightarrow> py_error + pval" where
  "load_config env exists read_json read_yaml path =
     (let p = (case path of None \<Rightarrow> env ''PRISMPIPE_CONFIG'' | Some x \<Rightarrow> Some x)
      in if truthy_opt p \<and> exists (the p)
         then (case (if ends_with ''.json'' (the p) then read_json (the p) else read_yaml (the p)) of
                 Inl e \<Rightarrow> Inl e
               | Inr v \<Rightarrow> Inr (new_config (Some v)))
         else Inr (new_config (Some default_settings)))"

text \<open>The process-wide configuration.\<close>

definition get_config :: "(unit \<Rightarrow> py_error + pval) \<Rightarrow> pval option \<Rightarrow> (py_error + pval) \<times> pval option" where
  "get_config load current =
     (case current of
        Some c \<Rightarrow> (Inr c, current)
      | None \<Rightarrow> (case load () of Inl e \<Rightarrow> (Inl e, None) | Inr c \<Rightarrow> (Inr c, Some c)))"

definition set_config :: "pval \<Rightarrow> pval option \<Rightarrow> pval option" where
  "set_config c current = Some c"

subsection \<open>A value that was set is read, and nothing else changes\<close>

lemma value_at_PNone [simp]: "value_at ks PNone = PNone"
  by (cases ks) auto

lemma value_at_empty [simp]: "ks \<noteq> [] \<Longrightarrow> value_at ks (PDict []) = PNone"
  by (cases ks) auto

lemma set_at_below:
  assumes "set_at (k # k' # ks) v c = Inr c'"
  shows "\<exists>d w. c = PDict d \<and> c' = PDict (AList.update k w d) \<and>
    set_at (k' # ks) v (case map_of d k of Some w \<Rightarrow> w | None \<Rightarrow> PDict []) = Inr w"
  using assms by (cases c) (auto split: sum.splits)

lemma set_at_reads_back: "set_at ks v c = Inr c' \<Longrightarrow> value_at ks c' = v"
proof (induction ks v c arbitrary: c' rule: set_at.induct)
  case (2 k v c)
  then show ?case by (cases c) (auto simp: dict_simps)
next
  case (3 k k' ks v c)
  from set_at_below [OF "3.prems"] obtain d w where c: "c = PDict d" "c' = PDict (AList.update k w d)"
    and w: "set_at (k' # ks) v (case map_of d k of Some w \<Rightarrow> w | None \<Rightarrow> PDict []) = Inr w" by blast
  from "3.IH" [OF c(1) w] c show ?case by (simp add: dict_simps)
qed simp

lemma set_at_frame:
  "set_at ks v c = Inr c' \<Longrightarrow> \<not> prefix ks js \<Longrightarrow> \<not> prefix js ks \<Longrightarrow> value_at js c' = value_at js c"
proof (induction ks v c arbitrary: c' js rule: set_at.induct)
  case (2 k v c)
  then show ?case by (cases js; cases c) (auto simp: dict_simps)
next
  case (3 k k' ks v c)
  from set_at_below [OF "3.prems"(1)] obtain d w where c: "c = PDict d" "c' = PDict (AList.update k w d)"
    and w: "set_at (k' # ks) v (case map_of d k of Some w \<Rightarrow> w | None \<Rightarrow> PDict []) = Inr w" by blast
  from "3.prems"(3) obtain j js' where js: "js = j # js'" by (cases js) auto
  show ?case
  proof (cases "j = k")
    case True
    with "3.prems"(2,3) js have "\<not> prefix (k' # ks) js'" "\<not> prefix js' (k' # ks)" by auto
    with "3.IH" [OF c(1) w] have "value_at js' w = value_at js' (case map_of d k of Some w \<Rightarrow> w | None \<Rightarrow> PDict [])"
      by blast
    moreover from \<open>\<not> prefix js' (k' # ks)\<close> have "js' \<noteq> []" by auto
    ultimately show ?thesis using True js c by (auto simp: dict_simps split: option.splits)
  next
    case False
    with js c show ?thesis by (simp add: dict_simps)
  qed
qed simp

text \<open>
  Note: A value that \<open>Config.set\<close> has stored under a dotted key is what \<open>Config.get\<close> reads under it, with the
  environment in its text, and the default if it is \<open>None\<close>. Keys that are neither above nor below it in the
  tree read as before, and a write that runs into a value that is no dictionary changes nothing.
\<close>

theorem config_get_after_set:
  "case config_set key v c of
     Inl e \<Rightarrow> \<exists>msg. e = TypeError msg
   | Inr c' \<Rightarrow>
       config_get env key fallback c' = (if v = PNone then fallback else substitute env v) \<and>
       (\<forall>other. \<not> prefix (split_on (CHR ''.'') key) (split_on (CHR ''.'') other) \<and>
                \<not> prefix (split_on (CHR ''.'') other) (split_on (CHR ''.'') key) \<longrightarrow>
          config_get env other fallback c' = config_get env other fallback c)"
proof (cases "config_set key v c")
  case (Inl e)
  have "set_at ks v c = Inl e \<Longrightarrow> \<exists>msg. e = TypeError msg" for ks
    by (induction ks v c rule: set_at.induct) (auto simp: item_fault_def split: pval.splits sum.splits)
  with Inl show ?thesis by (simp add: config_set_def)
next
  case (Inr c')
  then show ?thesis
    using set_at_reads_back set_at_frame by (auto simp: config_get_def config_set_def Let_def)
qed

theorem config_get_after_set_witness:
  "\<exists>c'. config_set ''a.b'' (PStr ''x'') (PDict [(''c'', PInt 1)]) = Inr c' \<and>
    config_get (\<lambda>_. None) ''c'' PNone c' = PInt 1"
proof -
  have s: "split_on (CHR ''.'') ''a.b'' = [''a'', ''b'']" "split_on (CHR ''.'') ''c'' = [''c'']" by simp_all
  obtain c' where c': "config_set ''a.b'' (PStr ''x'') (PDict [(''c'', PInt 1)]) = Inr c'"
    by (simp add: config_set_def)
  from config_get_after_set [where key = "''a.b''" and v = "PStr ''x''" and c = "PDict [(''c'', PInt 1)]" and env = "\<lambda>_. None"
      and fallback = PNone] c' s
  have "config_get (\<lambda>_. None) ''c'' PNone c' = config_get (\<lambda>_. None) ''c'' PNone (PDict [(''c'', PInt 1)])"
    by (auto simp del: split_on.simps)
  with c' show ?thesis by (simp add: config_get_def)
qed

text \<open>Substituted text is not searched again, so that a variable cannot bring in another one.\<close>

lemma substitution_is_single_pass:
  assumes "close_brace \<notin> set name" "name \<noteq> []" "env name = Some v"
  shows "subst_env env ([CHR ''$'', open_brace] @ name @ [close_brace] @ rest) = v @ subst_env env rest"
proof -
  have "takeWhile (\<lambda>c. c \<noteq> close_brace) (name @ close_brace # rest) = name"
    "dropWhile (\<lambda>c. c \<noteq> close_brace) (name @ close_brace # rest) = close_brace # rest"
    using assms(1) by (induction name) auto
  then have "variable_at ([CHR ''$'', open_brace] @ name @ [close_brace] @ rest) = Some (name, rest)"
    using assms(2) by (simp add: variable_at_def)
  with assms(3) show ?thesis by (subst subst_env.simps) simp
qed

section \<open>Redaction of log events\<close>

definition sensitive_keys :: "string list option \<Rightarrow> string list" where
  "sensitive_keys keys =
     (case keys of
        Some (k # ks) \<Rightarrow> k # ks
      | _ \<Rightarrow> [''password'', ''token'', ''secret'', ''api_key'', ''authorization''])"

definition redacted_mark :: pval where
  "redacted_mark = PStr ''***REDACTED***''"

fun redact :: "string list \<Rightarrow> pval \<Rightarrow> pval" where
  "redact keys (PDict d) = PDict (map (\<lambda>(k, v). (k, if lower k \<in> set keys then redacted_mark else redact keys v)) d)"
| "redact keys (PList xs) = PList (map (redact keys) xs)"
| "redact keys v = v"

text \<open>\<open>RedactSensitiveKeys.__call__\<close> on the items of an event.\<close>

definition redact_event :: "string list \<Rightarrow> dict \<Rightarrow> dict" where
  "redact_event keys event =
     map (\<lambda>(k, v).
       (k, if lower k \<in> set keys then redacted_mark
           else (case v of PDict _ \<Rightarrow> redact keys v | PList _ \<Rightarrow> redact keys v | _ \<Rightarrow> v))) event"

record log_context =
  lc_request_id :: "string option"
  lc_tenant_id :: "string option"

definition no_context :: log_context where
  "no_context = \<lparr>lc_request_id = None, lc_tenant_id = None\<rparr>"

definition set_request_context :: "string option \<Rightarrow> string option \<Rightarrow> log_context \<Rightarrow> log_context" where
  "set_request_context rid tid c =
     \<lparr>lc_request_id = (if truthy_opt rid then rid else lc_request_id c),
      lc_tenant_id = (if truthy_opt tid then tid else lc_tenant_id c)\<rparr>"

definition clear_request_context :: "log_context \<Rightarrow> log_context" where
  "clear_request_context c = no_context"

definition add_request_context :: "log_context \<Rightarrow> dict \<Rightarrow> dict" where
  "add_request_context c event =
     (let e1 = (if truthy_opt (lc_request_id c)
                then AList.update ''request_id'' (PStr (the (lc_request_id c))) event else event)
      in if truthy_opt (lc_tenant_id c) then AList.update ''tenant_id'' (PStr (the (lc_tenant_id c))) e1 else e1)"

text \<open>The two processors of the code, in the order in which \<open>configure_logging\<close> lists them.\<close>

definition log_event :: "log_context \<Rightarrow> string list option \<Rightarrow> dict \<Rightarrow> dict" where
  "log_event c keys event = redact_event (sensitive_keys keys) (add_request_context c event)"

text \<open>Two values that agree except below sensitive keys.\<close>

inductive agree_outside :: "string list \<Rightarrow> pval \<Rightarrow> pval \<Rightarrow> bool" for keys where
  agree_same: "agree_outside keys v v"
| agree_list: "list_all2 (agree_outside keys) xs ys \<Longrightarrow> agree_outside keys (PList xs) (PList ys)"
| agree_dict:
    "list_all2 (\<lambda>p q. fst p = fst q \<and> (lower (fst p) \<in> set keys \<or> agree_outside keys (snd p) (snd q))) d e \<Longrightarrow>
     agree_outside keys (PDict d) (PDict e)"

lemma redact_event_is_redact: "PDict (redact_event keys event) = redact keys (PDict event)"
  by (auto simp: redact_event_def split: pval.splits)

lemma agree_outside_redacts: "agree_outside keys a b \<Longrightarrow> redact keys a = redact keys b"
proof (induction rule: agree_outside.induct)
  case (agree_list xs ys)
  then have "map (redact keys) xs = map (redact keys) ys"
    by (induction rule: list_all2_induct) auto
  then show ?case by simp
next
  case (agree_dict d e)
  then have "map (\<lambda>(k, v). (k, if lower k \<in> set keys then redacted_mark else redact keys v)) d =
      map (\<lambda>(k, v). (k, if lower k \<in> set keys then redacted_mark else redact keys v)) e"
    by (induction rule: list_all2_induct) auto
  then show ?case by simp
qed simp

lemma map_eq_list_all2: "map f xs = map f ys \<Longrightarrow> list_all2 (\<lambda>x y. f x = f y) xs ys"
  by (simp add: list_all2_conv_all_nth) (metis length_map nth_map)

lemma redact_leaf:
  "PNone = redact keys b \<longleftrightarrow> b = PNone"
  "PBool x = redact keys b \<longleftrightarrow> b = PBool x"
  "PInt n = redact keys b \<longleftrightarrow> b = PInt n"
  "PFloat q = redact keys b \<longleftrightarrow> b = PFloat q"
  "PStr s = redact keys b \<longleftrightarrow> b = PStr s"
  by (cases b; auto)+

lemma redacts_alike_agrees: "redact keys a = redact keys b \<Longrightarrow> agree_outside keys a b"
proof (induction keys a arbitrary: b rule: redact.induct)
  case (1 keys d)
  let ?f = "\<lambda>(k, v). (k, if lower k \<in> set keys then redacted_mark else redact keys v)"
  from "1.prems" obtain e where b: "b = PDict e" and e: "map ?f d = map ?f e" by (cases b) auto
  have "list_all2 (\<lambda>p q. fst p = fst q \<and> (lower (fst p) \<in> set keys \<or> agree_outside keys (snd p) (snd q))) d e"
  proof (rule list.rel_mono_strong [OF map_eq_list_all2 [OF e]])
    fix p q assume p: "p \<in> set d" and pq: "?f p = ?f q"
    obtain k v k' w where kv: "p = (k, v)" "q = (k', w)" by (cases p, cases q)
    show "fst p = fst q \<and> (lower (fst p) \<in> set keys \<or> agree_outside keys (snd p) (snd q))"
    proof (cases "lower k \<in> set keys")
      case False
      with pq kv have "k' = k" "redact keys v = redact keys w" by auto
      with "1.IH" [OF p, of k v] kv False show ?thesis by auto
    qed (use pq kv in auto)
  qed
  with b show ?case by (simp add: agree_dict)
next
  case (2 keys xs)
  from "2.prems" obtain ys where b: "b = PList ys" and ys: "map (redact keys) xs = map (redact keys) ys"
    by (cases b) auto
  have "list_all2 (agree_outside keys) xs ys"
    by (rule list.rel_mono_strong [OF map_eq_list_all2 [OF ys]]) (use "2.IH" in blast)
  with b show ?case by (simp add: agree_list)
qed (simp_all add: redact_leaf agree_same)

text \<open>
  C33: A log line tells nothing about the values under sensitive keys, at any depth, and hides nothing else: two
  events give the same line exactly when they agree outside those keys.
\<close>

theorem log_line_hides_exactly_secrets:
  "redact_event (sensitive_keys keys) a = redact_event (sensitive_keys keys) b \<longleftrightarrow>
     agree_outside (sensitive_keys keys) (PDict a) (PDict b)"
  using agree_outside_redacts [of "sensitive_keys keys" "PDict a" "PDict b"]
    redacts_alike_agrees [of "sensitive_keys keys" "PDict a" "PDict b"]
  by (auto simp only: redact_event_is_redact [symmetric] pval.inject)

text \<open>Keys of an event are lowered, but the configured ones are not: a configured key with a capital redacts nothing.\<close>

lemma lower_char_idem: "lower_char (lower_char c) = lower_char c"
proof (cases "65 \<le> (of_char c :: nat) \<and> (of_char c :: nat) \<le> 90")
  case True
  then have "(of_char (char_of ((of_char c :: nat) + 32) :: char) :: nat) = of_char c + 32" by simp
  with True show ?thesis by (simp add: lower_char_def Let_def)
qed (auto simp: lower_char_def Let_def)

lemma lower_idem [simp]: "lower (lower s) = lower s"
  by (simp add: lower_def lower_char_idem)

lemma capital_keys_redact_nothing: "\<forall>k \<in> set keys. lower k \<noteq> k \<Longrightarrow> redact keys v = v"
proof (induction keys v rule: redact.induct)
  case (1 keys d)
  have "lower k \<notin> set keys" for k using "1.prems" lower_idem [of k] by fastforce
  with 1 show ?case by (auto intro!: map_idI)
next
  case (2 keys xs)
  then show ?case by (auto intro!: map_idI)
qed simp_all

lemma context_is_replaced_or_kept:
  "lc_request_id (set_request_context rid tid c) = (if truthy_opt rid then rid else lc_request_id c)"
  "add_request_context (clear_request_context c) event = event"
  by (simp_all add: set_request_context_def clear_request_context_def add_request_context_def no_context_def)

section \<open>Counters\<close>

text \<open>
  The metrics client counts per name and labels. \<open>track_node_execution\<close> wraps a function: it returns or raises
  what the function does and counts it, as an error only for an \<open>Exception\<close>.
\<close>

type_synonym series = "string \<times> string list"

record counters =
  mc_counts :: "(series \<times> nat) list"

definition inc :: "string \<Rightarrow> string list \<Rightarrow> counters \<Rightarrow> counters" where
  "inc name labels c =
     c\<lparr>mc_counts := AList.update (name, labels)
         (Suc (case map_of (mc_counts c) (name, labels) of Some n \<Rightarrow> n | None \<Rightarrow> 0)) (mc_counts c)\<rparr>"

definition counted :: "string \<Rightarrow> string list \<Rightarrow> counters \<Rightarrow> nat" where
  "counted name labels c = (case map_of (mc_counts c) (name, labels) of Some n \<Rightarrow> n | None \<Rightarrow> 0)"

datatype 'a call_end = CallReturned 'a | CallFailed py_error | CallInterrupted string

definition track_node_execution :: "string \<Rightarrow> ('s \<Rightarrow> 'a call_end \<times> 's) \<Rightarrow> 's \<times> counters \<Rightarrow> 'a call_end \<times> ('s \<times> counters)" where
  "track_node_execution capability f st =
     (case f (fst st) of
        (r, s) \<Rightarrow>
          (r, (s, inc ''prismpipe_node_execution_total''
                [capability, case r of CallFailed _ \<Rightarrow> ''error'' | _ \<Rightarrow> ''success''] (snd st))))"

definition track_request :: "string \<Rightarrow> string \<Rightarrow> counters \<Rightarrow> counters" where
  "track_request status i c = inc ''prismpipe_requests_total'' [status, i] c"

definition track_cache_hit :: "string \<Rightarrow> counters \<Rightarrow> counters" where
  "track_cache_hit name c = inc ''prismpipe_cache_hits_total'' [name] c"

definition track_cache_miss :: "string \<Rightarrow> counters \<Rightarrow> counters" where
  "track_cache_miss name c = inc ''prismpipe_cache_misses_total'' [name] c"

definition track_error :: "string \<Rightarrow> string option \<Rightarrow> counters \<Rightarrow> counters" where
  "track_error ty capability c = inc ''prismpipe_errors_total'' [ty, or_str capability ''unknown''] c"

lemma counted_inc:
  "counted n ls (inc m ks c) = (if (n, ls) = (m, ks) then Suc (counted n ls c) else counted n ls c)"
  by (auto simp: counted_def inc_def update_conv' split: option.splits)

lemma tracked_call:
  "fst (track_node_execution cap f (s, c)) = fst (f s)"
  "counted ''prismpipe_node_execution_total'' [cap, ''error''] (snd (snd (track_node_execution cap f (s, c)))) =
     counted ''prismpipe_node_execution_total'' [cap, ''error''] c +
     of_bool (case fst (f s) of CallFailed _ \<Rightarrow> True | _ \<Rightarrow> False)"
  by (auto simp: track_node_execution_def counted_inc split: prod.splits call_end.splits)

end
