(* ===== verification/Computation.thy ===== *)
theory Computation
  imports Errors Text_Util
begin

text \<open>
  Code that a request carries (\<open>src/src/prismpipe/computation.py\<close>, and the experimental package
  \<open>src/src/prismpipe/organic/computation\<close>). The interpreter is an argument: parsing a text to the nodes that a walk
  of its tree visits, evaluating an expression, and executing a program. What is modelled is what the code
  admits, what it hands to the interpreter and what it makes of the answers.
\<close>

section \<open>The interpreter\<close>

record ast_node =
  an_kind :: string
  an_attr :: "string option"

text \<open>The names a text is evaluated with: the builtins it may use and the values of its variables.\<close>

record namespace =
  ns_builtins :: "string list"
  ns_vars :: dict

record interpreter =
  in_parse :: "string \<Rightarrow> string + ast_node list"
  in_eval :: "string \<Rightarrow> namespace \<Rightarrow> py_error + pval"
  in_exec :: "string \<Rightarrow> namespace \<Rightarrow> dict \<Rightarrow> py_error + dict"
  in_builtins :: "string list"
  in_repr :: "string \<Rightarrow> string"
  in_text :: "py_error \<Rightarrow> string"
  in_clock :: "nat \<Rightarrow> rat"

section \<open>computation.py\<close>

datatype exec_mode = SAFE | WASM | NATIVE

record comp_payload =
  cp_code :: string
  cp_language :: string
  cp_args :: dict
  cp_timeout_ms :: int

record comp_result =
  cr_success :: bool
  cr_result :: pval
  cr_error :: "string option"
  cr_duration_ms :: rat
  cr_confidence :: rat

datatype comp_error = ComputationError string | SandboxViolation string | Interpreted py_error

definition comp_text :: "interpreter \<Rightarrow> comp_error \<Rightarrow> string" where
  "comp_text ip e = (case e of ComputationError m \<Rightarrow> m | SandboxViolation m \<Rightarrow> m | Interpreted x \<Rightarrow> in_text ip x)"

definition forbidden_nodes :: "string list" where
  "forbidden_nodes =
     [''Assign'', ''AugAssign'', ''AnnAssign'', ''Import'', ''ImportFrom'', ''Global'', ''Nonlocal'', ''FunctionDef'',
      ''ClassDef'', ''Raise'', ''Try'', ''With'', ''WithItem'', ''Delete'']"

definition allowed_builtins :: "string list" where
  "allowed_builtins =
     [''len'', ''str'', ''int'', ''float'', ''bool'', ''list'', ''dict'', ''set'', ''tuple'', ''range'', ''enumerate'',
      ''zip'', ''map'', ''filter'', ''sorted'', ''reversed'', ''sum'', ''min'', ''max'', ''abs'', ''round'', ''pow'',
      ''divmod'', ''isinstance'', ''issubclass'', ''hasattr'', ''getattr'', ''setattr'', ''all'', ''any'', ''ord'', ''chr'',
      ''bin'', ''hex'', ''oct'', ''slice'']"

text \<open>\<open>validate_code\<close>: the first forbidden node of the walk is named.\<close>

definition validate_code :: "interpreter \<Rightarrow> string \<Rightarrow> comp_error + bool" where
  "validate_code ip code =
     (case in_parse ip code of
        Inl e \<Rightarrow> Inl (ComputationError (''Invalid syntax: '' @ e))
      | Inr nodes \<Rightarrow>
          (case find (\<lambda>n. an_kind n \<in> set forbidden_nodes) nodes of
             Some n \<Rightarrow> Inl (SandboxViolation (''Forbidden operation: '' @ an_kind n))
           | None \<Rightarrow> Inr True))"

definition inner_names :: "string list" where
  "inner_names =
     [''len'', ''str'', ''int'', ''float'', ''bool'', ''list'', ''dict'', ''set'', ''tuple'', ''range'', ''enumerate'',
      ''zip'', ''map'', ''filter'', ''sorted'', ''reversed'', ''sum'', ''min'', ''max'', ''abs'', ''round'', ''pow'',
      ''divmod'', ''isinstance'', ''issubclass'', ''hasattr'', ''getattr'', ''all'', ''any'', ''ord'', ''chr'',
      ''bin'', ''hex'', ''oct'', ''slice'']"

definition newline :: string where "newline = [CHR 10]"

definition item_text :: "string \<Rightarrow> string" where
  "item_text n = quoted n @ '': '' @ n"

definition wrapped_code :: "interpreter \<Rightarrow> string \<Rightarrow> string" where
  "wrapped_code ip code =
     newline @ ''_code = '' @ in_repr ip code @ newline @ ''_context = _context'' @ newline @ ''_args = _args'' @ newline @
     ''_result = eval(_code, {'' @ join '', '' ((quoted ''_context'' @ '': _context'') # (quoted ''_args'' @ '': _args'') #
        map item_text inner_names) @ ''}, {})'' @ newline"

definition comp_ok :: "interpreter \<Rightarrow> rat \<Rightarrow> pval \<Rightarrow> comp_result" where
  "comp_ok ip start v =
     \<lparr>cr_success = True, cr_result = v, cr_error = None, cr_duration_ms = (in_clock ip 1 - start) * 1000,
      cr_confidence = 1\<rparr>"

definition comp_failed :: "string \<Rightarrow> rat \<Rightarrow> comp_result" where
  "comp_failed msg duration =
     \<lparr>cr_success = False, cr_result = PNone, cr_error = Some msg, cr_duration_ms = duration, cr_confidence = 1\<rparr>"

definition execute_safe :: "interpreter \<Rightarrow> comp_payload \<Rightarrow> dict \<Rightarrow> rat \<Rightarrow> comp_error + comp_result" where
  "execute_safe ip p context start =
     (case validate_code ip (cp_code p) of
        Inl e \<Rightarrow> Inl e
      | Inr _ \<Rightarrow>
          (case in_eval ip (wrapped_code ip (cp_code p))
                  \<lparr>ns_builtins = filter (\<lambda>k. k \<in> set (in_builtins ip)) allowed_builtins,
                   ns_vars = [(''_context'', PDict context), (''_args'', PDict (cp_args p))]\<rparr> of
             Inl e \<Rightarrow> Inl (Interpreted e)
           | Inr v \<Rightarrow> Inr (comp_ok ip start v)))"

text \<open>\<open>_execute_native\<close>: the result is what the program leaves in \<open>_result\<close>.\<close>

definition execute_native :: "interpreter \<Rightarrow> comp_payload \<Rightarrow> dict \<Rightarrow> rat \<Rightarrow> comp_result" where
  "execute_native ip p context start =
     (case in_exec ip (cp_code p) \<lparr>ns_builtins = in_builtins ip, ns_vars = []\<rparr> (dict_update context (cp_args p)) of
        Inl e \<Rightarrow> comp_failed (in_text ip e) ((in_clock ip 1 - start) * 1000)
      | Inr locals \<Rightarrow> comp_ok ip start (case map_of locals ''_result'' of Some v \<Rightarrow> v | None \<Rightarrow> PNone))"

definition execute_wasm :: "comp_payload \<Rightarrow> comp_result" where
  "execute_wasm p = comp_failed ''WASM execution not yet implemented'' 0"

definition execute_payload :: "interpreter \<Rightarrow> exec_mode \<Rightarrow> comp_payload \<Rightarrow> dict \<Rightarrow> comp_result" where
  "execute_payload ip mode p context =
     (let start = in_clock ip 0
      in if cp_language p = ''python''
         then (if mode = SAFE
               then (case execute_safe ip p context start of
                       Inl e \<Rightarrow> comp_failed (comp_text ip e) ((in_clock ip 1 - start) * 1000)
                     | Inr r \<Rightarrow> r)
               else execute_native ip p context start)
         else if cp_language p = ''wasm'' then execute_wasm p
         else comp_failed (''Unsupported language: '' @ cp_language p) 0)"

text \<open>The process-wide engine is its mode.\<close>

definition get_computation_engine :: "exec_mode \<Rightarrow> exec_mode option \<Rightarrow> exec_mode \<times> exec_mode option" where
  "get_computation_engine mode current = (case current of Some m \<Rightarrow> (m, current) | None \<Rightarrow> (mode, Some mode))"

definition set_computation_engine :: "exec_mode \<Rightarrow> exec_mode option \<Rightarrow> exec_mode option" where
  "set_computation_engine m current = Some m"

definition execute_code ::
    "interpreter \<Rightarrow> string \<Rightarrow> dict option \<Rightarrow> dict \<Rightarrow> exec_mode option \<Rightarrow> comp_result \<times> exec_mode option" where
  "execute_code ip code context args current =
     (case get_computation_engine SAFE current of
        (m, current') \<Rightarrow>
          (execute_payload ip m \<lparr>cp_code = code, cp_language = ''python'', cp_args = args, cp_timeout_ms = 5000\<rparr>
             (case context of Some c \<Rightarrow> c | None \<Rightarrow> []), current'))"

subsection \<open>What is admitted, and that nothing is run\<close>

lemma find_found: "find P xs = Some x \<Longrightarrow> \<exists>y \<in> set xs. P y"
  by (induction xs) (auto split: if_splits)

lemma validate_code_iff:
  "validate_code ip code = Inr True \<longleftrightarrow>
     (\<exists>nodes. in_parse ip code = Inr nodes \<and> (\<forall>n \<in> set nodes. an_kind n \<notin> set forbidden_nodes))"
  by (auto simp: validate_code_def find_None_iff split: sum.splits option.splits dest!: find_found)

text \<open>Loops, lambdas, named expressions and asynchronous definitions are admitted.\<close>

lemma admitted_kinds:
  "set [''NamedExpr'', ''Lambda'', ''While'', ''AsyncFunctionDef'', ''AsyncWith'', ''withitem'', ''Attribute''] \<inter> set forbidden_nodes = {}"
  by (simp add: forbidden_nodes_def)

text \<open>\<open>eval\<close> takes one expression, and a text whose first line assigns a name is none.\<close>

definition eval_takes_expressions :: "interpreter \<Rightarrow> bool" where
  "eval_takes_expressions ip \<longleftrightarrow>
     (\<forall>name rest ns. name \<noteq> [] \<and> list_all is_word name \<longrightarrow>
        (\<exists>e. in_eval ip (newline @ name @ '' = '' @ rest) ns = Inl e))"

lemma safe_mode_never_succeeds:
  assumes "eval_takes_expressions ip" "cp_language p = ''python''"
  shows "\<not> cr_success (execute_payload ip SAFE p context)"
proof -
  have w: "\<exists>rest. wrapped_code ip code = newline @ ''_code'' @ '' = '' @ rest" for code
    by (simp add: wrapped_code_def newline_def)
  have "list_all is_word ''_code''" by (simp add: is_word_def)
  then have "\<exists>e. in_eval ip (newline @ ''_code'' @ '' = '' @ rest) ns = Inl e" for rest ns
    using assms(1) unfolding eval_takes_expressions_def by blast
  then have "\<exists>e. in_eval ip (wrapped_code ip (cp_code p)) ns = Inl e" for ns
    using w [of "cp_code p"] by metis
  then have "\<exists>e. execute_safe ip p context start = Inl e" for start
    by (auto simp: execute_safe_def split: sum.splits) (metis sum.distinct(1))
  then obtain e where "execute_safe ip p context (in_clock ip 0) = Inl e" by blast
  with assms(2) show ?thesis by (simp add: execute_payload_def comp_failed_def Let_def)
qed

text \<open>The first caller decides the mode of the process-wide engine.\<close>

lemma engine_mode_is_sticky:
  "get_computation_engine mode (snd (get_computation_engine first None)) = (first, Some first)"
  by (simp add: get_computation_engine_def)

section \<open>The experimental package: contract, payload and result\<close>

record contract =
  ct_allowed_modules :: "string list"
  ct_blocked_modules :: "string list"
  ct_allowed_builtins :: "string list"
  ct_blocked_builtins :: "string list"
  ct_max_memory_mb :: int
  ct_max_execution_time_ms :: int
  ct_max_output_size_bytes :: int
  ct_allow_network :: bool
  ct_allow_filesystem :: bool
  ct_allowed_paths :: "string list"
  ct_env_vars :: "string pdict"

definition is_module_allowed :: "contract \<Rightarrow> string \<Rightarrow> bool" where
  "is_module_allowed c m =
     (if m \<in> set (ct_blocked_modules c) then False
      else if ct_allowed_modules c \<noteq> [] then list_ex (\<lambda>a. starts_with a m) (ct_allowed_modules c)
      else True)"

definition is_builtin_allowed :: "contract \<Rightarrow> string \<Rightarrow> bool" where
  "is_builtin_allowed c b =
     (if b \<in> set (ct_blocked_builtins c) then False
      else if ct_allowed_builtins c \<noteq> [] then b \<in> set (ct_allowed_builtins c)
      else True)"

definition default_contract :: contract where
  "default_contract =
     \<lparr>ct_allowed_modules = [''json'', ''math'', ''random'', ''re'', ''datetime'', ''collections'', ''itertools'',
         ''functools'', ''operator''],
      ct_blocked_modules = [],
      ct_allowed_builtins = inner_names,
      ct_blocked_builtins = [], ct_max_memory_mb = 128, ct_max_execution_time_ms = 5000,
      ct_max_output_size_bytes = 1024 * 1024, ct_allow_network = False, ct_allow_filesystem = False,
      ct_allowed_paths = [], ct_env_vars = []\<rparr>"

text \<open>Modules are allowed by prefix, so that \<open>re\<close> also allows a client for the network.\<close>

lemma prefix_allows_other_modules:
  "is_module_allowed default_contract ''requests''" "is_module_allowed default_contract ''resource''"
  "\<not> ct_allow_network default_contract"
  by (simp_all add: is_module_allowed_def default_contract_def starts_with_def)

lemma blocked_is_never_allowed:
  "m \<in> set (ct_blocked_modules c) \<Longrightarrow> \<not> is_module_allowed c m"
  "b \<in> set (ct_blocked_builtins c) \<Longrightarrow> \<not> is_builtin_allowed c b"
  by (simp_all add: is_module_allowed_def is_builtin_allowed_def)

datatype language = PYTHON | WASM_LANGUAGE | JAVASCRIPT

fun language_value :: "language \<Rightarrow> string" where
  "language_value PYTHON = ''python''"
| "language_value WASM_LANGUAGE = ''wasm''"
| "language_value JAVASCRIPT = ''javascript''"

datatype isolation = NO_ISOLATION | PROCESS | VM | CONTAINER

record org_payload =
  op_code :: string
  op_language :: language
  op_args :: dict
  op_timeout_ms :: int
  op_memory_limit_mb :: int
  op_isolation :: isolation
  op_dependencies :: "string list"
  op_metadata :: dict

text \<open>A capability of a context is a function of the named arguments that may raise.\<close>

record exec_context =
  xc_request_id :: string
  xc_tenant_id :: "string option"
  xc_state :: dict
  xc_input :: dict
  xc_capabilities :: "(dict \<Rightarrow> py_error + pval) pdict"
  xc_env_vars :: "string pdict"

definition context_get :: "string \<Rightarrow> pval \<Rightarrow> exec_context \<Rightarrow> pval" where
  "context_get k fallback x = (case map_of (xc_state x) k of Some v \<Rightarrow> v | None \<Rightarrow> fallback)"

definition context_set :: "string \<Rightarrow> pval \<Rightarrow> exec_context \<Rightarrow> exec_context" where
  "context_set k v x = x\<lparr>xc_state := AList.update k v (xc_state x)\<rparr>"

definition call_capability :: "string \<Rightarrow> dict \<Rightarrow> exec_context \<Rightarrow> py_error + pval" where
  "call_capability name args x =
     (case map_of (xc_capabilities x) name of
        Some f \<Rightarrow> f args
      | None \<Rightarrow> Inl (ValueError (''Capability not found: '' @ name)))"

lemma context_get_set: "context_get k d (context_set j v x) = (if k = j then v else context_get k d x)"
  by (simp add: context_get_def context_set_def dict_simps)

datatype exec_status = PENDING | RUNNING | SUCCESS | FAILED | TIMEOUT | CANCELLED | SANDBOX_VIOLATION

fun exec_status_value :: "exec_status \<Rightarrow> string" where
  "exec_status_value PENDING = ''pending''"
| "exec_status_value RUNNING = ''running''"
| "exec_status_value SUCCESS = ''success''"
| "exec_status_value FAILED = ''failed''"
| "exec_status_value TIMEOUT = ''timeout''"
| "exec_status_value CANCELLED = ''cancelled''"
| "exec_status_value SANDBOX_VIOLATION = ''sandbox_violation''"

record org_result =
  or_status :: exec_status
  or_result :: pval
  or_error :: "string option"
  or_error_type :: "string option"
  or_duration_ms :: rat
  or_memory_used_mb :: rat
  or_stdout :: string
  or_stderr :: string
  or_metadata :: dict

definition org_result_of :: "exec_status \<Rightarrow> pval \<Rightarrow> string option \<Rightarrow> string option \<Rightarrow> rat \<Rightarrow> org_result" where
  "org_result_of st v err ty duration =
     \<lparr>or_status = st, or_result = v, or_error = err, or_error_type = ty, or_duration_ms = duration,
      or_memory_used_mb = 0, or_stdout = [], or_stderr = [], or_metadata = []\<rparr>"

definition result_success :: "org_result \<Rightarrow> bool" where
  "result_success r = (or_status r = SUCCESS)"

definition result_failed :: "org_result \<Rightarrow> bool" where
  "result_failed r = (or_status r = FAILED \<or> or_status r = SANDBOX_VIOLATION)"

definition opt_value :: "string option \<Rightarrow> pval" where
  "opt_value x = (case x of None \<Rightarrow> PNone | Some s \<Rightarrow> PStr s)"

definition result_to_dict :: "org_result \<Rightarrow> dict" where
  "result_to_dict r =
     [(''status'', PStr (exec_status_value (or_status r))), (''result'', or_result r), (''error'', opt_value (or_error r)),
      (''error_type'', opt_value (or_error_type r)), (''duration_ms'', PFloat (Fin (or_duration_ms r))),
      (''memory_used_mb'', PFloat (Fin (or_memory_used_mb r))), (''stdout'', PStr (or_stdout r)),
      (''stderr'', PStr (or_stderr r)), (''metadata'', PDict (or_metadata r))]"

text \<open>A timeout is neither a success nor a failure.\<close>

lemma timeout_is_neither: "\<not> result_success r \<Longrightarrow> \<not> result_failed r \<Longrightarrow>
    or_status r \<in> {PENDING, RUNNING, TIMEOUT, CANCELLED}"
  by (cases "or_status r") (auto simp: result_success_def result_failed_def)

section \<open>The experimental package: sandbox, runtime and handlers\<close>

definition sandbox_forbidden :: "string list" where
  "sandbox_forbidden =
     [''Assign'', ''AugAssign'', ''AnnAssign'', ''Import'', ''ImportFrom'', ''Global'', ''Nonlocal'', ''FunctionDef'',
      ''AsyncFunctionDef'', ''ClassDef'', ''Raise'', ''Try'', ''With'', ''WithItem'', ''Delete'', ''Yield'', ''YieldFrom'',
      ''Await'']"

definition forbidden_attributes :: "string list" where
  "forbidden_attributes = [''__globals__'', ''__code__'', ''__closure__'']"

record ast_sandbox =
  sb_builtins :: "string list"
  sb_modules :: "string list"

definition new_sandbox :: "string list \<Rightarrow> string list \<Rightarrow> ast_sandbox" where
  "new_sandbox builtins modules =
     \<lparr>sb_builtins = (if builtins \<noteq> [] then builtins else inner_names),
      sb_modules = (if modules \<noteq> [] then modules
        else [''json'', ''math'', ''random'', ''re'', ''datetime'', ''collections'', ''itertools'', ''functools'',
              ''operator''])\<rparr>"

text \<open>\<open>validate\<close>: kinds are checked over the whole tree before attributes.\<close>

definition sandbox_validate :: "interpreter \<Rightarrow> string \<Rightarrow> bool \<times> string option" where
  "sandbox_validate ip code =
     (case in_parse ip code of
        Inl e \<Rightarrow> (False, Some (''Syntax error: '' @ e))
      | Inr nodes \<Rightarrow>
          (case find (\<lambda>n. an_kind n \<in> set sandbox_forbidden) nodes of
             Some n \<Rightarrow> (False, Some (''Forbidden construct: '' @ an_kind n))
           | None \<Rightarrow>
               (case find (\<lambda>n. an_kind n = ''Attribute'' \<and> (\<exists>a \<in> set forbidden_attributes. an_attr n = Some a)) nodes of
                  Some n \<Rightarrow> (False, Some (''Forbidden attribute access: '' @ the (an_attr n)))
                | None \<Rightarrow> (True, None))))"

definition sandbox_wrap :: "interpreter \<Rightarrow> string \<Rightarrow> string" where
  "sandbox_wrap ip code =
     newline @ ''_result = None'' @ newline @ ''try:'' @ newline @ ''    _result = eval('' @ in_repr ip code @ '')'' @ newline @
     ''except Exception as e:'' @ newline @ ''    _result = {'' @ [CHR 34] @ ''error'' @ [CHR 34] @ '': str(e)}'' @ newline"

text \<open>The builtins that exist, under the name by which the sandbox looks them up.\<close>

definition sandbox_builtins :: "interpreter \<Rightarrow> ast_sandbox \<Rightarrow> string list" where
  "sandbox_builtins ip sb = filter (\<lambda>k. k \<in> set (in_builtins ip)) (sb_builtins sb)"

lemma sandbox_validate_iff:
  "fst (sandbox_validate ip code) \<longleftrightarrow>
     (\<exists>nodes. in_parse ip code = Inr nodes \<and>
        (\<forall>n \<in> set nodes. an_kind n \<notin> set sandbox_forbidden \<and>
           \<not> (an_kind n = ''Attribute'' \<and> (\<exists>a \<in> set forbidden_attributes. an_attr n = Some a))))"
  by (auto simp: sandbox_validate_def find_None_iff split: sum.splits option.splits dest!: find_found)

text \<open>The stricter sandbox admits nothing that the engine's own check refuses.\<close>

lemma sandbox_is_stricter: "fst (sandbox_validate ip code) \<Longrightarrow> validate_code ip code = Inr True"
  by (auto simp: sandbox_validate_iff validate_code_iff sandbox_forbidden_def forbidden_nodes_def)

definition runtime_validate :: "interpreter \<Rightarrow> (language \<Rightarrow> string) \<Rightarrow> org_payload \<Rightarrow> bool \<times> string option" where
  "runtime_validate ip shown p =
     (if op_language p \<noteq> PYTHON then (False, Some (''Unsupported language: '' @ shown (op_language p)))
      else if length (op_code p) > 100000 then (False, Some ''Code too long'')
      else (case in_parse ip (op_code p) of Inl e \<Rightarrow> (False, Some (''Syntax error: '' @ e)) | Inr _ \<Rightarrow> (True, None)))"

definition supported_languages :: "string list" where
  "supported_languages = [language_value PYTHON]"

text \<open>\<open>_build_globals\<close> names a variable \<open>payload\<close> that its scope does not have.\<close>

definition build_globals :: "interpreter \<Rightarrow> contract \<Rightarrow> exec_context \<Rightarrow> py_error + namespace" where
  "build_globals ip c x = Inl (NameError (''name '' @ quoted ''payload'' @ '' is not defined''))"

text \<open>\<open>type(e).__name__\<close>.\<close>

fun prism_type :: "prism_error \<Rightarrow> string" where
  "prism_type (CapabilityNotFound _) = ''NodeNotFoundError''"
| "prism_type (NodeExecutionError _ _ _) = ''NodeExecutionError''"
| "prism_type (CapabilityAccessDenied _ _) = ''CapabilityAccessDenied''"
| "prism_type (RequestTimeoutError _ _) = ''RequestTimeoutError''"
| "prism_type (CircuitOpenError _) = ''CircuitOpenError''"
| "prism_type (RateLimitError _ _) = ''RateLimitError''"
| "prism_type (ValidationError _) = ''ValidationError''"
| "prism_type (StorageError _ _) = ''StorageError''"

fun error_type :: "py_error \<Rightarrow> string" where
  "error_type (KeyError _) = ''KeyError''"
| "error_type (ValueError _) = ''ValueError''"
| "error_type (RuntimeError _) = ''RuntimeError''"
| "error_type (CapacityError _) = ''NodeExecutionCapacityError''"
| "error_type (TypeError _) = ''TypeError''"
| "error_type (NameError _) = ''NameError''"
| "error_type (NodeNotFoundError _) = ''NodeNotFoundError''"
| "error_type (PrismError e) = prism_type e"
| "error_type (OtherError ty _) = ty"

definition failed_result :: "interpreter \<Rightarrow> py_error \<Rightarrow> rat \<Rightarrow> org_result" where
  "failed_result ip e duration =
     (case e of
        OtherError ty msg \<Rightarrow>
          if ty = ''TimeoutError'' then org_result_of TIMEOUT PNone (Some ''Execution timed out'') None duration
          else if ty = ''SecurityError'' then org_result_of SANDBOX_VIOLATION PNone (Some msg) (Some ty) duration
          else org_result_of FAILED PNone (Some (in_text ip e)) (Some ty) duration
      | _ \<Rightarrow> org_result_of FAILED PNone (Some (in_text ip e)) (Some (error_type e)) duration)"

definition runtime_execute ::
    "interpreter \<Rightarrow> (language \<Rightarrow> string) \<Rightarrow> contract \<Rightarrow> org_payload \<Rightarrow> exec_context \<Rightarrow> org_result" where
  "runtime_execute ip shown c p x =
     (let start = in_clock ip 0; duration = (in_clock ip 1 - start) * 1000
      in case runtime_validate ip shown p of
           (False, err) \<Rightarrow> org_result_of FAILED PNone err (Some ''ValidationError'') duration
         | (True, _) \<Rightarrow>
             (case build_globals ip c x of
                Inl e \<Rightarrow> failed_result ip e duration
              | Inr ns \<Rightarrow>
                  (case in_exec ip (op_code p) ns [] of
                     Inl e \<Rightarrow> failed_result ip e duration
                   | Inr locals \<Rightarrow>
                       org_result_of SUCCESS (case map_of locals ''_result'' of Some v \<Rightarrow> v | None \<Rightarrow> PNone) None None
                         duration)))"

text \<open>The runtime reports a failure for every payload, whatever its code is and without running it.\<close>

lemma runtime_never_runs: "or_status (runtime_execute ip shown c p x) = FAILED"
  by (simp add: runtime_execute_def build_globals_def failed_result_def org_result_of_def Let_def split: bool.splits prod.splits)

type_synonym 'h handlers = "'h pdict"

definition register_handler :: "string \<Rightarrow> 'h \<Rightarrow> 'h handlers \<Rightarrow> 'h handlers" where
  "register_handler name h hs = AList.update name h hs"

definition get_handler :: "string \<Rightarrow> 'h handlers \<Rightarrow> 'h option" where
  "get_handler name hs = map_of hs name"

definition list_handlers :: "'h handlers \<Rightarrow> string list" where
  "list_handlers hs = map fst hs"

definition unregister_handler :: "string \<Rightarrow> 'h handlers \<Rightarrow> 'h handlers" where
  "unregister_handler name hs = AList.delete name hs"

lemma handler_laws:
  "get_handler n (register_handler m h hs) = (if n = m then Some h else get_handler n hs)"
  "get_handler n (unregister_handler m hs) = (if n = m then None else get_handler n hs)"
  "n \<in> set (list_handlers hs) \<longleftrightarrow> get_handler n hs \<noteq> None"
  by (auto simp: get_handler_def register_handler_def unregister_handler_def list_handlers_def dict_simps
      map_of_eq_None_iff)

end
