(* ===== verification/ExpPlanning.thy ===== *)
theory ExpPlanning
  imports Text_Util "HOL-Library.Multiset"
begin

text \<open>
  The experimental packages \<open>organic/dna\<close> (a genetic search over pipelines) and \<open>organic/intent\<close> (a planner over
  patterns, learning from past executions, metadata of capabilities), below \<open>src/src/prismpipe\<close>. Random draws and
  fresh identifiers are arguments. A gene is a text or \<open>None\<close>, which uniform crossover can leave.
\<close>

section \<open>Genomes\<close>

record xgenome =
  xg_id :: string
  xg_genes :: "string option list"
  xg_fitness :: rat
  xg_metadata :: dict

definition new_xgenome :: "string \<Rightarrow> string option list \<Rightarrow> xgenome" where
  "new_xgenome uid genes = \<lparr>xg_id = uid, xg_genes = genes, xg_fitness = 0, xg_metadata = []\<rparr>"

definition gene_value :: "string option \<Rightarrow> pval" where
  "gene_value g = (case g of None \<Rightarrow> PNone | Some s \<Rightarrow> PStr s)"

definition xgenome_to_dict :: "xgenome \<Rightarrow> dict" where
  "xgenome_to_dict g =
     [(''id'', PStr (xg_id g)), (''genes'', PList (map gene_value (xg_genes g))), (''fitness'', PFloat (Fin (xg_fitness g))),
      (''metadata'', PDict (xg_metadata g))]"

text \<open>A copy has a new identifier and keeps the fitness.\<close>

definition copy_xgenome :: "string \<Rightarrow> xgenome \<Rightarrow> xgenome" where
  "copy_xgenome uid g = g\<lparr>xg_id := uid\<rparr>"

definition default_pool :: "string list" where
  "default_pool = [''fetch'', ''transform'', ''filter'', ''aggregate'', ''validate'']"

definition new_pool :: "string list option \<Rightarrow> string list" where
  "new_pool p = (case p of Some (g # gs) \<Rightarrow> g # gs | _ \<Rightarrow> default_pool)"

text \<open>\<open>roll i\<close> is \<open>random()\<close> and \<open>pick i\<close> the choice from the pool at position \<open>i\<close>.\<close>

definition xmutate :: "string \<Rightarrow> rat \<Rightarrow> (nat \<Rightarrow> rat) \<Rightarrow> (nat \<Rightarrow> string) \<Rightarrow> xgenome \<Rightarrow> xgenome" where
  "xmutate uid rate roll pick g =
     (copy_xgenome uid g)\<lparr>xg_genes :=
        map (\<lambda>(i, x). if roll i < rate then Some (pick i) else x) (enumerate 0 (xg_genes g))\<rparr>"

definition xmutate_insert :: "string \<Rightarrow> nat \<Rightarrow> string \<Rightarrow> xgenome \<Rightarrow> xgenome" where
  "xmutate_insert uid pos gene g =
     (copy_xgenome uid g)\<lparr>xg_genes := take pos (xg_genes g) @ [Some gene] @ drop pos (xg_genes g)\<rparr>"

definition xmutate_delete :: "string \<Rightarrow> nat \<Rightarrow> xgenome \<Rightarrow> xgenome" where
  "xmutate_delete uid pos g =
     (if length (xg_genes g) \<le> 1 then copy_xgenome uid g
      else (copy_xgenome uid g)\<lparr>xg_genes := take pos (xg_genes g) @ drop (Suc pos) (xg_genes g)\<rparr>)"

text \<open>\<open>crossover\<close>: \<open>randint(1, n)\<close> raises for \<open>n = 0\<close>; \<open>point\<close> is what it draws otherwise.\<close>

definition xcrossover ::
    "string \<Rightarrow> string \<Rightarrow> rat \<Rightarrow> rat \<Rightarrow> nat \<Rightarrow> xgenome \<Rightarrow> xgenome \<Rightarrow> py_error + (xgenome \<times> xgenome)" where
  "xcrossover u1 u2 rate roll point p q =
     (let n = min (length (xg_genes p)) (length (xg_genes q))
      in if roll > rate \<or> n = 0 then Inr (copy_xgenome u1 p, copy_xgenome u2 q)
         else if n = 1 then Inl (ValueError ''empty range for randrange()'')
         else Inr (new_xgenome u1 (take point (xg_genes p) @ drop point (xg_genes q)),
                   new_xgenome u2 (take point (xg_genes q) @ drop point (xg_genes p))))"

text \<open>\<open>a or b\<close>: \<open>None\<close> and the empty text give way.\<close>

definition or_gene :: "string option \<Rightarrow> string option \<Rightarrow> string option" where
  "or_gene a b = (if truthy_opt a then a else b)"

definition gene_at :: "nat \<Rightarrow> string option list \<Rightarrow> string option" where
  "gene_at i gs = (if i < length gs then gs ! i else None)"

definition uniform_genes :: "(nat \<Rightarrow> rat) \<Rightarrow> string option list \<Rightarrow> string option list \<Rightarrow> (string option \<times> string option) list" where
  "uniform_genes roll xs ys =
     map (\<lambda>i. if i \<ge> min (length xs) (length ys)
              then (or_gene (gene_at i xs) (gene_at i ys), or_gene (gene_at i ys) (gene_at i xs))
              else if roll i < 1 / 2 then (xs ! i, ys ! i) else (ys ! i, xs ! i))
       [0..<max (length xs) (length ys)]"

definition uniform_crossover :: "string \<Rightarrow> string \<Rightarrow> (nat \<Rightarrow> rat) \<Rightarrow> xgenome \<Rightarrow> xgenome \<Rightarrow> xgenome \<times> xgenome" where
  "uniform_crossover u1 u2 roll p q =
     (let gs = uniform_genes roll (xg_genes p) (xg_genes q)
      in (new_xgenome u1 (map fst gs), new_xgenome u2 (map snd gs)))"

definition valid_genes :: "string option list \<Rightarrow> bool" where
  "valid_genes gs = list_all (\<lambda>g. \<exists>s \<in> set default_pool. g = Some s) gs"

definition diversity :: "string option list \<Rightarrow> rat" where
  "diversity gs = (if gs = [] then 0 else of_nat (length (remdups gs)) / of_nat (length gs))"

text \<open>\<open>evaluate\<close>: the score of the test cases is always zero. A genome without genes keeps the fitness it had.\<close>

definition evaluate_xgenome :: "xgenome \<Rightarrow> rat \<times> xgenome" where
  "evaluate_xgenome g =
     (if xg_genes g = [] then (0, g)
      else (let f = (if valid_genes (xg_genes g) then 1 / 2 else 0) + diversity (xg_genes g) + 0
            in (f, g\<lparr>xg_fitness := f\<rparr>)))"

definition evaluate_population :: "xgenome list \<Rightarrow> xgenome list" where
  "evaluate_population gs = map (\<lambda>g. snd (evaluate_xgenome g)) gs"

text \<open>\<open>sample\<close> draws that many different members; \<open>max\<close> of none raises.\<close>

definition tournament :: "(nat \<Rightarrow> xgenome list \<Rightarrow> xgenome list) \<Rightarrow> nat \<Rightarrow> xgenome list \<Rightarrow> py_error + xgenome" where
  "tournament sample k gs =
     (if gs = [] then Inl (ValueError ''Population is empty'')
      else case first_max xg_fitness (sample (min k (length gs)) gs) of
             None \<Rightarrow> Inl (ValueError ''max() iterable argument is empty'')
           | Some g \<Rightarrow> Inr g)"

definition select_pair ::
    "(nat \<Rightarrow> xgenome list \<Rightarrow> xgenome list) \<Rightarrow> (nat \<Rightarrow> xgenome list \<Rightarrow> xgenome list) \<Rightarrow> nat \<Rightarrow> xgenome list
       \<Rightarrow> py_error + (xgenome \<times> xgenome)" where
  "select_pair s1 s2 k gs =
     (case tournament s1 k gs of
        Inl e \<Rightarrow> Inl e
      | Inr a \<Rightarrow> (case tournament s2 k gs of Inl e \<Rightarrow> Inl e | Inr b \<Rightarrow> Inr (a, b)))"

record population =
  po_size :: int
  po_genomes :: "xgenome list"

definition add_genome :: "xgenome \<Rightarrow> population \<Rightarrow> population" where
  "add_genome g p = p\<lparr>po_genomes := po_genomes p @ [g]\<rparr>"

definition get_best :: "population \<Rightarrow> xgenome option" where
  "get_best p = first_max xg_fitness (po_genomes p)"

definition clear_population :: "population \<Rightarrow> population" where
  "clear_population p = p\<lparr>po_genomes := []\<rparr>"

definition sort_by_fitness :: "bool \<Rightarrow> population \<Rightarrow> population" where
  "sort_by_fitness reverse p =
     p\<lparr>po_genomes := (if reverse then sort_desc xg_fitness (po_genomes p) else sort_key xg_fitness (po_genomes p))\<rparr>"

subsection \<open>What the operators keep\<close>

lemma xmutate_length: "length (xg_genes (xmutate u rate roll pick g)) = length (xg_genes g)"
  by (simp add: xmutate_def)

text \<open>One-point crossover only moves genes between the parents, and fails for a parent of a single gene.\<close>

lemma xcrossover_moves_genes:
  "xcrossover u1 u2 rate roll point p q = Inr (c, d) \<Longrightarrow>
     mset (xg_genes c) + mset (xg_genes d) = mset (xg_genes p) + mset (xg_genes q)"
proof -
  assume x: "xcrossover u1 u2 rate roll point p q = Inr (c, d)"
  have parts: "mset (take n xs) + mset (drop n xs) = mset xs" for n and xs :: "string option list"
    by (metis append_take_drop_id mset_append)
  have "mset (take n xs @ drop n ys) + mset (take n ys @ drop n xs) = mset xs + mset ys"
    for n and xs ys :: "string option list"
    using parts [of n xs] parts [of n ys] by (simp add: ac_simps) (metis add.assoc add.commute)
  with x show ?thesis
    by (auto simp: xcrossover_def copy_xgenome_def new_xgenome_def Let_def split: if_splits)
qed

lemma xcrossover_fails:
  "roll \<le> rate \<Longrightarrow> min (length (xg_genes p)) (length (xg_genes q)) = 1 \<Longrightarrow>
     xcrossover u1 u2 rate roll point p q = Inl (ValueError ''empty range for randrange()'')"
  by (simp add: xcrossover_def Let_def)

text \<open>Uniform crossover gives both children the tail of the longer parent, so that genes are doubled.\<close>

lemma uniform_tail_is_shared:
  assumes "i < max (length xs) (length ys)" "i \<ge> min (length xs) (length ys)" "truthy_opt (gene_at i xs) \<or> truthy_opt (gene_at i ys)"
  shows "fst (uniform_genes roll xs ys ! i) = snd (uniform_genes roll xs ys ! i)"
  using assms by (auto simp: uniform_genes_def or_gene_def gene_at_def split: if_splits)

lemma diversity_bounds: "0 \<le> diversity gs" "diversity gs \<le> 1" "gs \<noteq> [] \<Longrightarrow> 0 < diversity gs"
  by (auto simp: diversity_def divide_le_eq length_remdups_leq)

lemma fitness_bounds: "0 \<le> fst (evaluate_xgenome g)" "fst (evaluate_xgenome g) \<le> 3 / 2"
  using diversity_bounds [of "xg_genes g"] by (auto simp: evaluate_xgenome_def Let_def)

text \<open>The fitness that is stored is the one returned, but for an empty genome.\<close>

lemma empty_genome_keeps_fitness:
  "xg_genes g = [] \<Longrightarrow> evaluate_xgenome g = (0, g)"
  "xg_genes g \<noteq> [] \<Longrightarrow> xg_fitness (snd (evaluate_xgenome g)) = fst (evaluate_xgenome g)"
  by (simp_all add: evaluate_xgenome_def Let_def)

lemma first_max_best: "first_max f xs = Some x \<Longrightarrow> y \<in> set xs \<Longrightarrow> f y \<le> f x"
  using first_min_le by (fastforce simp: first_max_def)

lemma best_is_head_of_sorted:
  "po_genomes p \<noteq> [] \<Longrightarrow> get_best p = Some (hd (po_genomes (sort_by_fitness True p)))"
  by (simp add: get_best_def sort_by_fitness_def hd_sort_desc)

lemma tournament_winner:
  assumes "\<And>k ys. set (sample k ys) \<subseteq> set ys" "tournament sample k gs = Inr g"
  shows "g \<in> set gs"
proof -
  from assms(2) have "first_max xg_fitness (sample (min k (length gs)) gs) = Some g"
    by (auto simp: tournament_def split: if_splits option.splits)
  then have "g \<in> set (sample (min k (length gs)) gs)" unfolding first_max_def by (rule first_min_in)
  with assms(1) show ?thesis by blast
qed

section \<open>Intents and paths\<close>

datatype xintent_type =
  FETCH | CREATE | UPDATE | DELETE | ANALYZE | TRANSFORM | AGGREGATE | FORMAT | VALIDATE | COMPUTE | SEARCH | RECOMMEND
  | UNKNOWN

record xintent =
  xi_raw :: string
  xi_type :: xintent_type
  xi_entities :: dict
  xi_confidence :: rat
  xi_constraints :: dict
  xi_metadata :: dict

record xpath =
  xp_capabilities :: "string list"
  xp_confidence :: rat
  xp_latency_ms :: rat
  xp_cost :: rat
  xp_fallbacks :: "string list list"
  xp_metadata :: dict

definition new_xpath :: "string list \<Rightarrow> rat \<Rightarrow> xpath" where
  "new_xpath cs conf =
     \<lparr>xp_capabilities = cs, xp_confidence = conf, xp_latency_ms = 0, xp_cost = 0, xp_fallbacks = [], xp_metadata = []\<rparr>"

definition xpath_key :: "xpath \<Rightarrow> string" where
  "xpath_key p = join '' -> '' (xp_capabilities p)"

text \<open>\<open>DEFAULT_PATHS.get(type, [])\<close>.\<close>

fun xdefault_path :: "xintent_type \<Rightarrow> string list" where
  "xdefault_path FETCH = [''auth.validate'', ''data.fetch'', ''format.json'']"
| "xdefault_path CREATE = [''auth.validate'', ''validate.input'', ''data.create'', ''format.json'']"
| "xdefault_path UPDATE = [''auth.validate'', ''validate.input'', ''data.update'', ''format.json'']"
| "xdefault_path DELETE = [''auth.validate'', ''data.delete'', ''format.json'']"
| "xdefault_path ANALYZE = [''auth.validate'', ''data.fetch'', ''analytics.compute'', ''format.json'']"
| "xdefault_path TRANSFORM = [''auth.validate'', ''transform.apply'', ''format.json'']"
| "xdefault_path AGGREGATE = [''auth.validate'', ''data.fetch'', ''analytics.aggregate'', ''format.json'']"
| "xdefault_path SEARCH = [''auth.validate'', ''search.execute'', ''format.json'']"
| "xdefault_path RECOMMEND = [''auth.validate'', ''data.fetch'', ''recommend.compute'', ''format.json'']"
| "xdefault_path _ = []"

text \<open>Each pattern is a choice of verbs at the start, in any case, then white space and a word.\<close>

definition xpatterns :: "(string list \<times> xintent_type) list" where
  "xpatterns =
     [([''get'', ''fetch'', ''retrieve'', ''list''], FETCH), ([''create'', ''add'', ''insert''], CREATE),
      ([''update'', ''modify'', ''edit''], UPDATE), ([''delete'', ''remove''], DELETE),
      ([''analyze'', ''analyse''], ANALYZE), ([''search'', ''find''], SEARCH), ([''recommend'', ''suggest''], RECOMMEND)]"

definition verb_matches :: "string \<Rightarrow> string \<Rightarrow> bool" where
  "verb_matches w s =
     (let rest = drop (length w) s; arg = dropWhile is_space rest
      in starts_with w (lower s) \<and> rest \<noteq> [] \<and> is_space (hd rest) \<and> arg \<noteq> [] \<and> is_word (hd arg))"

text \<open>
  \<open>plan_path\<close>. Customising replaces \<open>{entity}\<close> in the capabilities of the default path, none of which
  has one, so that the path is taken as it is.
\<close>

definition xplan_path :: "string list pdict \<Rightarrow> xintent \<Rightarrow> xpath" where
  "xplan_path custom i =
     (case map_of custom (xi_raw i) of
        Some cs \<Rightarrow> new_xpath cs 1
      | None \<Rightarrow>
          (case find (\<lambda>(vs, t). list_ex (\<lambda>v. verb_matches v (xi_raw i)) vs) xpatterns of
             Some (_, t) \<Rightarrow> new_xpath (xdefault_path t) (9 / 10)
           | None \<Rightarrow> new_xpath [] 0))"

definition xregister_path :: "string \<Rightarrow> string list \<Rightarrow> string list pdict \<Rightarrow> string list pdict" where
  "xregister_path pat cs custom = AList.update pat cs custom"

lemma default_paths_have_no_placeholder:
  "list_all (\<lambda>c. \<not> contains ([CHR 0x7B] @ ''entity'' @ [CHR 0x7D]) c) (xdefault_path t)"
  by (cases t) (simp_all add: starts_with_def)

lemma custom_path_wins: "xplan_path (xregister_path (xi_raw i) cs custom) i = new_xpath cs 1"
  by (simp add: xplan_path_def xregister_path_def dict_simps)

text \<open>A planned path is either empty with no confidence, a registered one, or starts with the authentication.\<close>

lemma patterns_have_paths: "(vs, t) \<in> set xpatterns \<Longrightarrow> \<exists>cs. xdefault_path t = ''auth.validate'' # cs"
  by (auto simp: xpatterns_def)

lemma planned_path_authenticates:
  assumes "map_of custom (xi_raw i) = None" "xp_confidence (xplan_path custom i) \<noteq> 0"
  shows "\<exists>cs. xp_capabilities (xplan_path custom i) = ''auth.validate'' # cs"
proof -
  let ?P = "\<lambda>(vs, t). list_ex (\<lambda>v. verb_matches v (xi_raw i)) vs"
  obtain vs t where f: "find ?P xpatterns = Some (vs, t)"
    using assms by (cases "find ?P xpatterns") (auto simp: xplan_path_def new_xpath_def)
  then have "(vs, t) \<in> set xpatterns" by (auto simp: find_Some_iff in_set_conv_nth)
  with f assms(1) patterns_have_paths show ?thesis by (auto simp: xplan_path_def new_xpath_def)
qed

section \<open>Metadata of capabilities\<close>

record cap_metadata =
  cm_name :: string
  cm_description :: string
  cm_version :: string
  cm_parameters :: dict
  cm_tags :: "string list"

type_synonym cap_registry = "cap_metadata pdict"

definition register_metadata :: "cap_metadata \<Rightarrow> cap_registry \<Rightarrow> cap_registry" where
  "register_metadata c r = AList.update (cm_name c) c r"

definition get_metadata :: "string \<Rightarrow> cap_registry \<Rightarrow> cap_metadata option" where
  "get_metadata n r = map_of r n"

definition list_metadata :: "cap_registry \<Rightarrow> cap_metadata list" where
  "list_metadata r = map snd r"

definition find_by_tag :: "string \<Rightarrow> cap_registry \<Rightarrow> cap_metadata list" where
  "find_by_tag t r = filter (\<lambda>c. t \<in> set (cm_tags c)) (map snd r)"

definition unregister_metadata :: "string \<Rightarrow> cap_registry \<Rightarrow> bool \<times> cap_registry" where
  "unregister_metadata n r = (if map_of r n \<noteq> None then (True, AList.delete n r) else (False, r))"

lemma metadata_laws:
  "get_metadata n (register_metadata c r) = (if n = cm_name c then Some c else get_metadata n r)"
  "get_metadata n (snd (unregister_metadata m r)) = (if n = m then None else get_metadata n r)"
  "fst (unregister_metadata m r) \<longleftrightarrow> get_metadata m r \<noteq> None"
  by (auto simp: get_metadata_def register_metadata_def unregister_metadata_def dict_simps)

section \<open>Learning from history\<close>

record exec_record =
  er_intent :: string
  er_path :: "string list"
  er_success :: bool
  er_latency :: rat

record learn_stats =
  ls_successes :: nat
  ls_failures :: nat
  ls_latencies :: "rat list"

record learner =
  le_history :: "exec_record list"
  le_stats :: "learn_stats pdict"

definition new_learner :: learner where
  "new_learner = \<lparr>le_history = [], le_stats = []\<rparr>"

definition arrow_key :: "string list \<Rightarrow> string" where
  "arrow_key cs = join ''->'' cs"

definition stats_at :: "string \<Rightarrow> learner \<Rightarrow> learn_stats" where
  "stats_at k l =
     (case map_of (le_stats l) k of Some s \<Rightarrow> s | None \<Rightarrow> \<lparr>ls_successes = 0, ls_failures = 0, ls_latencies = []\<rparr>)"

definition learn :: "string \<Rightarrow> string list \<Rightarrow> bool \<Rightarrow> rat \<Rightarrow> learner \<Rightarrow> learner" where
  "learn i path success latency l =
     (let s = stats_at (arrow_key path) l;
          s' = (if success then s\<lparr>ls_successes := Suc (ls_successes s)\<rparr> else s\<lparr>ls_failures := Suc (ls_failures s)\<rparr>)
      in \<lparr>le_history = le_history l @ [\<lparr>er_intent = i, er_path = path, er_success = success, er_latency = latency\<rparr>],
          le_stats = AList.update (arrow_key path) (s'\<lparr>ls_latencies := ls_latencies s' @ [latency]\<rparr>) (le_stats l)\<rparr>)"

text \<open>\<open>s.split('->')\<close>.\<close>

function split_arrow :: "string \<Rightarrow> string list" where
  "split_arrow [] = [[]]"
| "starts_with ''->'' (c # cs) \<Longrightarrow> split_arrow (c # cs) = [] # split_arrow (drop 2 (c # cs))"
| "\<not> starts_with ''->'' (c # cs) \<Longrightarrow> split_arrow (c # cs) =
     (case split_arrow cs of [] \<Rightarrow> [[c]] | w # ws \<Rightarrow> (c # w) # ws)"
  by (metis list.exhaust) auto
termination by (relation "measure length") auto

definition runs_on :: "string \<Rightarrow> exec_record list \<Rightarrow> exec_record list" where
  "runs_on k rs = filter (\<lambda>r. arrow_key (er_path r) = k) rs"

definition rate_on :: "string \<Rightarrow> exec_record list \<Rightarrow> rat" where
  "rate_on k rs = of_nat (length (filter er_success (runs_on k rs))) / of_nat (length (runs_on k rs))"

definition mean_latency :: "string \<Rightarrow> exec_record list \<Rightarrow> rat" where
  "mean_latency k rs = sum_list (map er_latency (runs_on k rs)) / of_nat (length (runs_on k rs))"

text \<open>\<open>min\<close> over pairs: the first key that no later one beats.\<close>

definition beats :: "exec_record list \<Rightarrow> string \<Rightarrow> string \<Rightarrow> bool" where
  "beats rs j k \<longleftrightarrow> rate_on j rs > rate_on k rs \<or> (rate_on j rs = rate_on k rs \<and> mean_latency j rs < mean_latency k rs)"

fun first_best :: "exec_record list \<Rightarrow> string \<Rightarrow> string list \<Rightarrow> string" where
  "first_best rs k [] = k"
| "first_best rs k (j # js) = first_best rs (if beats rs j k then j else k) js"

definition best_learned_path :: "string \<Rightarrow> learner \<Rightarrow> string list option" where
  "best_learned_path i l =
     (let rs = filter (\<lambda>r. er_intent r = i) (le_history l)
      in case unique [] (map (\<lambda>r. arrow_key (er_path r)) rs) of
           [] \<Rightarrow> None
         | k # ks \<Rightarrow> Some (split_arrow (first_best rs k ks)))"

definition learner_stats :: "learner \<Rightarrow> nat \<times> nat \<times> learn_stats pdict" where
  "learner_stats l = (length (le_history l), length (le_stats l), le_stats l)"

subsection \<open>The best path\<close>

lemma beats_trans: "beats rs a b \<Longrightarrow> \<not> beats rs c b \<Longrightarrow> \<not> beats rs c a"
  by (auto simp: beats_def)

lemma first_best_spec: "first_best rs k ks \<in> set (k # ks) \<and> (\<forall>j \<in> set (k # ks). \<not> beats rs j (first_best rs k ks))"
proof (induction ks arbitrary: k)
  case (Cons j js)
  let ?m = "if beats rs j k then j else k"
  from Cons.IH [of ?m] have m: "first_best rs ?m js \<in> set (?m # js)"
    "\<forall>i \<in> set (?m # js). \<not> beats rs i (first_best rs ?m js)" by blast+
  have "\<not> beats rs i (first_best rs ?m js)" if "i = j \<or> i = k" for i
  proof -
    from m(2) have "\<not> beats rs ?m (first_best rs ?m js)" by simp
    then show ?thesis using that by (auto simp: beats_def split: if_splits)
  qed
  with m show ?case by auto
qed (simp add: beats_def)

lemma split_arrow_plain: "\<not> contains ''->'' s \<Longrightarrow> split_arrow s = [s]"
  by (induction s rule: split_arrow.induct) auto

lemma split_arrow_step:
  "\<not> contains ''->'' c \<Longrightarrow> split_arrow (c @ ''->'' @ rest) = c # split_arrow rest"
proof (induction c)
  case Nil
  then show ?case by (simp add: starts_with_def)
next
  case (Cons x xs)
  then have no: "\<not> starts_with ''->'' (x # xs)" "\<not> contains ''->'' xs" by auto
  then have "\<not> starts_with ''->'' (x # xs @ ''->'' @ rest)"
    by (cases xs) (auto simp: starts_with_def)
  with Cons.IH [OF no(2)] show ?case by simp
qed

lemma split_arrow_key:
  "cs \<noteq> [] \<Longrightarrow> list_all (\<lambda>c. \<not> contains ''->'' c) cs \<Longrightarrow> split_arrow (arrow_key cs) = cs"
proof (induction cs)
  case (Cons c cs)
  show ?case
  proof (cases cs)
    case Nil
    with Cons.prems show ?thesis by (simp add: arrow_key_def split_arrow_plain)
  next
    case (Cons d ds)
    then have "arrow_key (c # cs) = c @ ''->'' @ arrow_key cs" by (simp add: arrow_key_def)
    with split_arrow_step [of c "arrow_key cs"] Cons.prems Cons.IH Cons show ?thesis by simp
  qed
qed simp

text \<open>
  The best path of an intent has been recorded for it, and no other path recorded for it has a higher rate of
  successes, or the same rate and a lower mean latency; this needs paths that are not empty and
  capabilities without an arrow.
\<close>

theorem learned_path_is_best:
  assumes "best_learned_path i l = Some path"
    and "\<forall>r \<in> set (le_history l). er_intent r = i \<longrightarrow> er_path r \<noteq> [] \<and> list_all (\<lambda>c. \<not> contains ''->'' c) (er_path r)"
  defines "rs \<equiv> filter (\<lambda>r. er_intent r = i) (le_history l)"
  shows "(\<exists>r \<in> set rs. er_path r = path) \<and> (\<forall>r \<in> set rs. \<not> beats rs (arrow_key (er_path r)) (arrow_key path))"
proof -
  let ?keys = "unique [] (map (\<lambda>r. arrow_key (er_path r)) rs)"
  obtain k ks where ks: "?keys = k # ks" "path = split_arrow (first_best rs k ks)"
    using assms(1) by (auto simp: best_learned_path_def rs_def Let_def split: list.splits)
  have set: "set (k # ks) = (\<lambda>r. arrow_key (er_path r)) ` set rs"
    using set_unique [of "[]" "map (\<lambda>r. arrow_key (er_path r)) rs"] ks(1) by simp
  obtain r where r: "r \<in> set rs" "first_best rs k ks = arrow_key (er_path r)"
    using first_best_spec [of rs k ks] set by (metis (no_types, lifting) imageE)
  then have "split_arrow (arrow_key (er_path r)) = er_path r"
    using assms(2) by (auto simp: rs_def intro: split_arrow_key)
  with r ks(2) have path: "er_path r = path" "arrow_key path = first_best rs k ks" by simp_all
  have "\<not> beats rs (arrow_key (er_path q)) (first_best rs k ks)" if "q \<in> set rs" for q
    using first_best_spec [of rs k ks] set that by blast
  with path r(1) show ?thesis by auto
qed

text \<open>An empty path comes back as a path of one empty capability.\<close>

lemma empty_path_is_mangled: "best_learned_path i (learn i [] True t new_learner) = Some [[]]"
  by (simp add: best_learned_path_def learn_def new_learner_def arrow_key_def stats_at_def Let_def)

end
