(* ===== verification/ExpData.thy ===== *)
theory ExpData
  imports Prism_Prelude "HOL-Library.Multiset"
begin

text \<open>
  The experimental packages \<open>organic/partial\<close> (incomplete results and work that goes on in the background),
  \<open>organic/memory_graph\<close> (requests and their similarity) and \<open>organic/swarm\<close> (partitions of work and their results),
  below \<open>src/src/prismpipe\<close>. Hashes, fresh identifiers and the text of values are arguments. Where the code
  walks a set, the model takes the members in the order of their first appearance.
\<close>

section \<open>Partial results\<close>

datatype confidence_level = HIGH | MEDIUM | LOW | UNKNOWN_LEVEL

record xpartial =
  pr_data :: dict
  pr_confidence :: rat
  pr_level :: confidence_level
  pr_complete :: bool
  pr_missing :: "string list"

definition new_xpartial :: "dict \<Rightarrow> rat \<Rightarrow> string list option \<Rightarrow> xpartial" where
  "new_xpartial d c missing =
     \<lparr>pr_data = d, pr_confidence = c, pr_level = UNKNOWN_LEVEL, pr_complete = False,
      pr_missing = (case missing of None \<Rightarrow> [] | Some m \<Rightarrow> m)\<rparr>"

definition empty_xpartial :: xpartial where
  "empty_xpartial = new_xpartial [] (1 / 2) None"

text \<open>\<open>PartialKnowledgeEngine\<close>.\<close>

definition process_partial :: "rat \<Rightarrow> xpartial \<Rightarrow> xpartial" where
  "process_partial min_confidence r = (if pr_confidence r \<ge> min_confidence then r\<lparr>pr_complete := True\<rparr> else r)"

definition merged_data :: "xpartial list \<Rightarrow> dict" where
  "merged_data rs = foldl (\<lambda>d r. dict_update d (pr_data r)) [] rs"

definition all_missing :: "xpartial list \<Rightarrow> string list" where
  "all_missing rs = unique [] (concat (map pr_missing rs))"

definition mean_confidence :: "xpartial list \<Rightarrow> rat" where
  "mean_confidence rs = sum_list (map pr_confidence rs) / of_nat (length rs)"

definition merge_partials :: "xpartial list \<Rightarrow> xpartial" where
  "merge_partials rs =
     (if rs = [] then empty_xpartial else new_xpartial (merged_data rs) (mean_confidence rs) (Some (all_missing rs)))"

text \<open>\<open>ResultCombiner\<close>: an unknown strategy is the average.\<close>

definition combine_average :: "xpartial list \<Rightarrow> xpartial" where
  "combine_average rs = new_xpartial (merged_data rs) (mean_confidence rs) (Some (all_missing rs))"

definition combine_union :: "xpartial list \<Rightarrow> xpartial" where
  "combine_union rs = new_xpartial (merged_data rs) (foldl max 0 (map pr_confidence rs)) (Some (all_missing rs))"

definition combine_results :: "xpartial list \<Rightarrow> string \<Rightarrow> xpartial" where
  "combine_results rs strategy =
     (if rs = [] then empty_xpartial
      else if strategy = ''average'' then combine_average rs
      else if strategy = ''union'' then combine_union rs
      else if strategy = ''highest'' then the (first_max pr_confidence rs)
      else combine_average rs)"

definition completeness :: "xpartial \<Rightarrow> rat" where
  "completeness r =
     (let n = length (pr_data r) + length (pr_missing r)
      in if n = 0 then 0 else of_nat (length (pr_data r)) / of_nat n)"

definition data_quality :: "dict \<Rightarrow> rat" where
  "data_quality d =
     (if d = [] then 0 else of_nat (length (filter (\<lambda>(k, v). v \<noteq> PNone \<and> v \<noteq> PStr []) d)) / of_nat (length d))"

definition estimate_xconfidence :: "rat \<Rightarrow> rat \<Rightarrow> xpartial \<Rightarrow> rat" where
  "estimate_xconfidence wc wq r = completeness r * wc + data_quality (pr_data r) * wq"

lemma merge_is_average: "rs \<noteq> [] \<Longrightarrow> merge_partials rs = combine_results rs ''average''"
  by (simp add: merge_partials_def combine_results_def combine_average_def)

text \<open>A key that one of the results has is in the merged data, also when another result reports it as missing.\<close>

lemma merged_keys: "fst ` set (merged_data rs) = (\<Union>r \<in> set rs. fst ` set (pr_data r))"
proof -
  have keys: "fst ` set (dict_update d e) = fst ` set d \<union> fst ` set e" for d e :: dict
  proof (induction e arbitrary: d)
    case (Cons p e)
    obtain k v where p: "p = (k, v)" by (cases p)
    then have "dict_update d (p # e) = dict_update (AList.update k v d) e" by (simp add: dict_update_def)
    with Cons [of "AList.update k v d"] p show ?case by (simp only: keys_update) auto
  qed (simp add: dict_update_def)
  have "fst ` set (foldl (\<lambda>d r. dict_update d (pr_data r)) d rs) = fst ` set d \<union> (\<Union>r \<in> set rs. fst ` set (pr_data r))" for d
  proof (induction rs arbitrary: d)
    case (Cons r rs)
    then show ?case by (simp only: foldl_Cons keys list.set) blast
  qed simp
  then show ?thesis by (simp add: merged_data_def)
qed

lemma missing_may_be_present:
  "r \<in> set rs \<Longrightarrow> k \<in> set (pr_missing r) \<Longrightarrow> k \<in> set (all_missing rs)"
  by (auto simp: all_missing_def set_unique)

lemma completeness_bounds: "0 \<le> completeness r" "completeness r \<le> 1"
  by (auto simp: completeness_def divide_le_eq Let_def)

lemma quality_bounds: "0 \<le> data_quality d" "data_quality d \<le> 1"
  by (auto simp: data_quality_def divide_le_eq)

text \<open>With the default weights the estimate is a probability, whatever the data are.\<close>

lemma estimate_is_probability: "estimate_xconfidence (1 / 2) (1 / 2) r \<in> {0..1}"
  using completeness_bounds [of r] quality_bounds [of "pr_data r"] by (auto simp: estimate_xconfidence_def)

lemma sum_bound: "(\<And>x. x \<in> set xs \<Longrightarrow> f x \<le> (b::rat)) \<Longrightarrow> sum_list (map f xs) \<le> of_nat (length xs) * b"
  by (induction xs) (auto simp: algebra_simps intro: add_mono)

lemma union_is_most_confident:
  assumes "rs \<noteq> []" "\<forall>r \<in> set rs. 0 \<le> pr_confidence r"
  shows "pr_confidence (combine_results rs ''average'') \<le> pr_confidence (combine_results rs ''union'')"
proof -
  have ge: "x \<in> set xs \<Longrightarrow> x \<le> foldl max a xs" "a \<le> foldl max a xs" for x a and xs :: "rat list"
    by (induction xs arbitrary: a) (auto intro: order_trans [OF max.cobounded1] order_trans [OF max.cobounded2])
  have "sum_list (map pr_confidence rs) \<le> of_nat (length rs) * foldl max 0 (map pr_confidence rs)"
    by (rule sum_bound) (use ge(1) in auto)
  with assms(1) show ?thesis
    by (simp add: combine_results_def combine_average_def combine_union_def new_xpartial_def mean_confidence_def
        divide_le_eq mult.commute)
qed

section \<open>Background tasks\<close>

datatype xtask_status = PENDING | RUNNING | COMPLETED | FAILED

text \<open>The function of a task, with its arguments, may raise.\<close>

record xtask =
  xt_id :: string
  xt_run :: "unit \<Rightarrow> string + pval"
  xt_status :: xtask_status
  xt_result :: pval
  xt_error :: "string option"

definition new_xtask :: "string \<Rightarrow> (unit \<Rightarrow> string + pval) \<Rightarrow> xtask" where
  "new_xtask i f = \<lparr>xt_id = i, xt_run = f, xt_status = PENDING, xt_result = PNone, xt_error = None\<rparr>"

definition execute_xtask :: "xtask \<Rightarrow> pval \<times> xtask" where
  "execute_xtask t =
     (let t' = (case xt_run t () of
                  Inr v \<Rightarrow> t\<lparr>xt_result := v, xt_status := COMPLETED\<rparr>
                | Inl e \<Rightarrow> t\<lparr>xt_error := Some e, xt_status := FAILED\<rparr>)
      in (xt_result t', t'))"

type_synonym continuator = "xtask pdict"

definition submit_xtask :: "xtask \<Rightarrow> continuator \<Rightarrow> string \<times> continuator" where
  "submit_xtask t c = (xt_id t, AList.update (xt_id t) t c)"

definition get_xtask :: "string \<Rightarrow> continuator \<Rightarrow> xtask option" where
  "get_xtask i c = map_of c i"

text \<open>A status is a member of the enumeration, and no member equals the text it is compared with.\<close>

definition list_pending :: "continuator \<Rightarrow> xtask list" where
  "list_pending c = filter (\<lambda>t. Inl (xt_status t) = (Inr ''pending'' :: xtask_status + string)) (map snd c)"

definition remove_xtask :: "string \<Rightarrow> continuator \<Rightarrow> bool \<times> continuator" where
  "remove_xtask i c = (if map_of c i \<noteq> None then (True, AList.delete i c) else (False, c))"

lemma nothing_is_pending: "list_pending c = []"
  by (simp add: list_pending_def)

lemma executed_task:
  "xt_status (snd (execute_xtask t)) = COMPLETED \<longleftrightarrow> (\<exists>v. xt_run t () = Inr v)"
  "xt_status (snd (execute_xtask t)) = FAILED \<longleftrightarrow> (\<exists>e. xt_run t () = Inl e)"
  by (auto simp: execute_xtask_def Let_def split: sum.splits)

text \<open>A task that fails after a success of the same object still returns the older result.\<close>

lemma failure_returns_old_result: "xt_run t () = Inl e \<Longrightarrow> fst (execute_xtask t) = xt_result t"
  by (simp add: execute_xtask_def Let_def)

section \<open>The memory graph\<close>

record xrequest_node =
  rn_id :: string
  rn_request_id :: string
  rn_prompt :: string
  rn_intent :: string
  rn_path :: "string list"
  rn_metadata :: dict
  rn_timestamp :: rat

definition request_node_to_dict :: "xrequest_node \<Rightarrow> dict" where
  "request_node_to_dict n =
     [(''id'', PStr (rn_id n)), (''request_id'', PStr (rn_request_id n)), (''prompt'', PStr (rn_prompt n)),
      (''intent_type'', PStr (rn_intent n)), (''path'', PList (map PStr (rn_path n))),
      (''metadata'', PDict (rn_metadata n)), (''timestamp'', PFloat (Fin (rn_timestamp n)))]"

record xgraph =
  xg_nodes :: "xrequest_node pdict"
  xg_edges :: "string list pdict"

definition new_xgraph :: xgraph where
  "new_xgraph = \<lparr>xg_nodes = [], xg_edges = []\<rparr>"

definition add_xnode :: "xrequest_node \<Rightarrow> xgraph \<Rightarrow> xgraph" where
  "add_xnode n g =
     \<lparr>xg_nodes = AList.update (rn_id n) n (xg_nodes g),
      xg_edges = (if map_of (xg_edges g) (rn_id n) = None then AList.update (rn_id n) [] (xg_edges g) else xg_edges g)\<rparr>"

definition add_xedge :: "string \<Rightarrow> string \<Rightarrow> xgraph \<Rightarrow> xgraph" where
  "add_xedge a b g =
     g\<lparr>xg_edges := AList.update a ((case map_of (xg_edges g) a of Some bs \<Rightarrow> bs | None \<Rightarrow> []) @ [b]) (xg_edges g)\<rparr>"

definition get_xnode :: "string \<Rightarrow> xgraph \<Rightarrow> xrequest_node option" where
  "get_xnode i g = map_of (xg_nodes g) i"

definition neighbors :: "string \<Rightarrow> xgraph \<Rightarrow> xrequest_node list" where
  "neighbors i g =
     List.map_filter (map_of (xg_nodes g)) (case map_of (xg_edges g) i of Some bs \<Rightarrow> bs | None \<Rightarrow> [])"

definition all_xnodes :: "xgraph \<Rightarrow> xrequest_node list" where
  "all_xnodes g = map snd (xg_nodes g)"

definition clear_xgraph :: "xgraph \<Rightarrow> xgraph" where
  "clear_xgraph g = new_xgraph"

lemma neighbor_iff: "n \<in> set (neighbors a (add_xedge a b g)) \<longleftrightarrow> n \<in> set (neighbors a g) \<or> get_xnode b g = Some n"
  by (auto simp: neighbors_def add_xedge_def get_xnode_def dict_simps List.map_filter_def)

lemma add_node_keeps_edges: "neighbors a (add_xnode n g) = neighbors a g"
  if "get_xnode (rn_id n) g = Some n" for n
  using that by (auto simp: neighbors_def add_xnode_def get_xnode_def dict_simps List.map_filter_def fun_upd_idem
      split: option.splits)

text \<open>\<open>HashSimilarity\<close>: the digest of the texts, and the share of its equal characters.\<close>

definition node_hash :: "(string \<Rightarrow> string) \<Rightarrow> xrequest_node \<Rightarrow> string" where
  "node_hash digest n = digest (rn_prompt n @ rn_intent n @ join ''-'' (rn_path n))"

definition hash_similarity :: "(string \<Rightarrow> string) \<Rightarrow> xrequest_node \<Rightarrow> xrequest_node \<Rightarrow> rat" where
  "hash_similarity digest a b =
     (let x = node_hash digest a; y = node_hash digest b
      in if x = y then 1
         else of_nat (length (filter (\<lambda>(c, d). c = d) (zip x y))) / of_nat (length x))"

definition select_similar :: "(string \<Rightarrow> string) \<Rightarrow> xrequest_node \<Rightarrow> xrequest_node list \<Rightarrow> rat \<Rightarrow> xrequest_node list" where
  "select_similar digest target cs threshold =
     filter (\<lambda>c. rn_id c \<noteq> rn_id target \<and> hash_similarity digest target c \<ge> threshold) cs"

definition rank_similar :: "(string \<Rightarrow> string) \<Rightarrow> xrequest_node \<Rightarrow> xrequest_node list \<Rightarrow> (xrequest_node \<times> rat) list" where
  "rank_similar digest target cs =
     sort_desc snd (map (\<lambda>c. (c, hash_similarity digest target c)) (filter (\<lambda>c. rn_id c \<noteq> rn_id target) cs))"

text \<open>The texts are joined without separators, so that different requests can be entirely similar.\<close>

lemma different_requests_collide:
  "hash_similarity digest (n\<lparr>rn_prompt := ''list users'', rn_intent := []\<rparr>) (n\<lparr>rn_prompt := ''list'', rn_intent := '' users''\<rparr>) = 1"
  by (simp add: hash_similarity_def node_hash_def)

lemma memory_similarity_bounds:
  assumes "length (node_hash digest a) > 0"
  shows "0 \<le> hash_similarity digest a b" "hash_similarity digest a b \<le> 1"
proof -
  have "length (filter P (zip xs ys)) \<le> length xs" for P and xs ys :: string
    by (rule order_trans [OF length_filter_le]) simp
  then show "hash_similarity digest a b \<le> 1" "0 \<le> hash_similarity digest a b"
    using assms by (simp_all add: hash_similarity_def divide_le_eq Let_def)
qed

definition store_node :: "xrequest_node \<Rightarrow> xrequest_node pdict \<Rightarrow> xrequest_node pdict" where
  "store_node n s = AList.update (rn_id n) n s"

definition retrieve_node :: "string \<Rightarrow> xrequest_node pdict \<Rightarrow> xrequest_node option" where
  "retrieve_node i s = map_of s i"

definition delete_node :: "string \<Rightarrow> xrequest_node pdict \<Rightarrow> bool \<times> xrequest_node pdict" where
  "delete_node i s = (if map_of s i \<noteq> None then (True, AList.delete i s) else (False, s))"

definition list_nodes :: "xrequest_node pdict \<Rightarrow> xrequest_node list" where
  "list_nodes s = map snd s"

lemma node_store_laws:
  "retrieve_node i (store_node n s) = (if i = rn_id n then Some n else retrieve_node i s)"
  "retrieve_node i (snd (delete_node j s)) = (if i = j then None else retrieve_node i s)"
  "fst (delete_node j s) \<longleftrightarrow> retrieve_node j s \<noteq> None"
  by (auto simp: store_node_def retrieve_node_def delete_node_def dict_simps)

section \<open>Partitions of work\<close>

record swarm_envelope =
  sw_task_id :: string
  sw_payload :: pval
  sw_partition :: int
  sw_metadata :: dict
  sw_timestamp :: rat

definition swarm_envelope_to_dict :: "swarm_envelope \<Rightarrow> dict" where
  "swarm_envelope_to_dict e =
     [(''task_id'', PStr (sw_task_id e)), (''payload'', sw_payload e), (''partition'', PInt (sw_partition e)),
      (''metadata'', PDict (sw_metadata e)), (''timestamp'', PFloat (Fin (sw_timestamp e)))]"

record swarm_result =
  sr_task_id :: string
  sr_partition :: int
  sr_data :: pval
  sr_error :: "string option"
  sr_success :: bool
  sr_metadata :: dict

definition swarm_result_to_dict :: "swarm_result \<Rightarrow> dict" where
  "swarm_result_to_dict r =
     [(''task_id'', PStr (sr_task_id r)), (''partition'', PInt (sr_partition r)), (''data'', sr_data r),
      (''error'', case sr_error r of None \<Rightarrow> PNone | Some e \<Rightarrow> PStr e), (''success'', PBool (sr_success r)),
      (''metadata'', PDict (sr_metadata r))]"

text \<open>\<open>HashPartitioner\<close>: the digest of the text of the payload and the index, as a number, modulo the partitions.\<close>

definition hash_partition :: "(pval \<Rightarrow> string) \<Rightarrow> (string \<Rightarrow> nat) \<Rightarrow> pval \<Rightarrow> nat \<Rightarrow> int \<Rightarrow> py_error + int" where
  "hash_partition text digest v i n =
     (if n = 0 then Inl (OtherError ''ZeroDivisionError'' ''integer modulo by zero'')
      else Inr (int (digest (text v @ show_nat i)) mod n))"

text \<open>\<open>create_envelopes\<close>; \<open>uid i\<close> is the identifier of the envelope at position \<open>i\<close>.\<close>

fun create_from ::
    "(pval \<Rightarrow> nat \<Rightarrow> int \<Rightarrow> py_error + int) \<Rightarrow> (nat \<Rightarrow> string) \<Rightarrow> int \<Rightarrow> nat \<Rightarrow> pval list \<Rightarrow> py_error + swarm_envelope list" where
  "create_from part uid n i [] = Inr []"
| "create_from part uid n i (v # vs) =
     (case part v i n of
        Inl e \<Rightarrow> Inl e
      | Inr p \<Rightarrow>
          (case create_from part uid n (Suc i) vs of
             Inl e \<Rightarrow> Inl e
           | Inr es \<Rightarrow>
               Inr (\<lparr>sw_task_id = uid i, sw_payload = v, sw_partition = p, sw_metadata = [], sw_timestamp = 0\<rparr> # es)))"

definition create_envelopes ::
    "(pval \<Rightarrow> nat \<Rightarrow> int \<Rightarrow> py_error + int) \<Rightarrow> (nat \<Rightarrow> string) \<Rightarrow> int \<Rightarrow> pval list \<Rightarrow> py_error + swarm_envelope list" where
  "create_envelopes part uid n vs = create_from part uid n 0 vs"

type_synonym xcoordinator = "swarm_result pdict"

definition add_result :: "swarm_result \<Rightarrow> xcoordinator \<Rightarrow> xcoordinator" where
  "add_result r c = AList.update (sr_task_id r) r c"

definition get_result :: "string \<Rightarrow> xcoordinator \<Rightarrow> swarm_result option" where
  "get_result i c = map_of c i"

definition all_results :: "xcoordinator \<Rightarrow> swarm_result list" where
  "all_results c = map snd c"

definition successful_results :: "xcoordinator \<Rightarrow> swarm_result list" where
  "successful_results c = filter sr_success (map snd c)"

definition clear_results :: "xcoordinator \<Rightarrow> xcoordinator" where
  "clear_results c = []"

definition has_data :: "swarm_result \<Rightarrow> bool" where
  "has_data r \<longleftrightarrow> sr_success r \<and> sr_data r \<noteq> PNone"

definition collect_results :: "swarm_result list \<Rightarrow> pval list" where
  "collect_results rs = map sr_data (filter has_data rs)"

definition collect_one :: "swarm_result \<Rightarrow> (int \<times> pval list) list \<Rightarrow> (int \<times> pval list) list" where
  "collect_one r d =
     (if has_data r
      then AList.update (sr_partition r)
             ((case map_of d (sr_partition r) of Some vs \<Rightarrow> vs | None \<Rightarrow> []) @ [sr_data r]) d
      else d)"

definition collect_by_partition :: "swarm_result list \<Rightarrow> (int \<times> pval list) list" where
  "collect_by_partition rs = fold collect_one rs []"

lemma partitions_in_range: "0 < n \<Longrightarrow> hash_partition text digest v i n = Inr p \<Longrightarrow> 0 \<le> p \<and> p < n"
  by (auto simp: hash_partition_def split: if_splits)

lemma envelopes_keep_payloads: "create_from part uid n i vs = Inr es \<Longrightarrow> map sw_payload es = vs"
  by (induction vs arbitrary: i es) (auto split: sum.splits)

text \<open>Grouping by partition loses nothing: each group holds the data of its partition in order.\<close>

lemma collect_fold:
  "wf_dict d \<Longrightarrow> map_of (fold collect_one rs d) k =
     (case collect_results (filter (\<lambda>r. sr_partition r = k) rs) of
        [] \<Rightarrow> map_of d k
      | vs \<Rightarrow> Some ((case map_of d k of Some us \<Rightarrow> us | None \<Rightarrow> []) @ vs))"
proof (induction rs arbitrary: d)
  case (Cons r rs)
  have "wf_dict (collect_one r d)" using Cons.prems by (simp add: collect_one_def update_conv' distinct_update)
  from Cons.IH [OF this] show ?case
    by (auto simp: collect_one_def collect_results_def update_conv' split: list.splits option.splits)
qed (simp add: collect_results_def)

lemma collected_by_partition:
  "(case map_of (collect_by_partition rs) k of Some vs \<Rightarrow> vs | None \<Rightarrow> []) =
     collect_results (filter (\<lambda>r. sr_partition r = k) rs)"
  using collect_fold [of "[]" rs k] by (auto simp: collect_by_partition_def split: list.splits)

end
