(* ===== verification/VectorizeRuntime.thy ===== *)
theory VectorizeRuntime
  imports Engine VectorizeNode
begin

text \<open>
  \<open>execute_document_vectorize\<close> and \<open>DocumentVectorizeRuntimeResult\<close> of \<open>src/prismpipe/document/vectorize.py\<close>: a
  payload becomes the input of a request, the request an organism, and a child of that organism runs the
  vectorize node through the engine. Fresh identifiers and clock readings are functions of their order.
\<close>

section \<open>One organism at one node\<close>

text \<open>What executing a node leaves of an organism that stood at it.\<close>

definition settled :: "runtime \<Rightarrow> py_error + node_result \<Rightarrow> organism \<Rightarrow> organism" where
  "settled rt x o' =
     (case x of
        Inl err \<Rightarrow> org_terminate (Some (exn_str (rt_fmt rt) err)) o'
      | Inr res \<Rightarrow>
          let e = res_envelope res;
              o1 = o'\<lparr>og_state := env_state e, og_history := env_history e, og_next := env_next e\<rparr>
          in if res_success res \<and> \<not> env_terminated e then o1
             else org_terminate (Some (or_str (or_opt (res_error res) (env_error e)) ''node failed'')) o1)"

lemma settled_id [simp]: "og_id (settled rt x o') = og_id o'" "og_parent (settled rt x o') = og_parent o'"
  by (auto simp: settled_def org_terminate_def Let_def split: sum.splits)

lemma org_terminate_status [simp]: "og_status (org_terminate err o') = TERMINATED"
  by (simp add: org_terminate_def)

lemma org_terminate_state [simp]:
  "k \<noteq> ''_error'' \<Longrightarrow> map_of (og_state (org_terminate err o')) k = map_of (og_state o') k"
  by (simp add: org_terminate_def dict_simps)

definition empty_cache :: "xrun \<Rightarrow> bool" where
  "empty_cache r \<longleftrightarrow> cg_hash (xr_graph r) = [] \<and> \<not> cg_redis (xr_graph r)"

definition unwatched :: "xrun \<Rightarrow> bool" where
  "unwatched r \<longleftrightarrow> wt_watchers (x_watcher (xr_exec r)) = []"

lemma bookkeeping_frame [simp]:
  "xr_org (tick r) = xr_org r" "xr_env (tick r) = xr_env r" "xr_exec (tick r) = xr_exec r"
  "empty_cache (tick r) = empty_cache r" "unwatched (tick r) = unwatched r"
  "unwatched (publish e r) = unwatched r" "unwatched (on_org f r) = unwatched r"
  "xr_env (publish e r) = xr_env r"
  by (simp_all add: tick_def on_org_def empty_cache_def unwatched_def publish_def on_exec_def)

lemma lookup_empty:
  assumes "empty_cache r"
  shows "\<exists>r'. lookup io c key r = (Inr None, r') \<and> empty_cache r' \<and> xr_org r' = xr_org r \<and>
    xr_env r' = xr_env r \<and> xr_exec r' = xr_exec r"
  using assms
  by (auto simp: lookup_def get_cached_result_by_key_def l1_lookup_def hydrate_from_redis_def empty_cache_def tick_def)

lemma compute_settles:
  assumes "resolve nr c = Inr nd" "empty_cache r"
  shows "\<exists>t. xr_org (compute io nr c key start r) =
      settled (xi_rt io) (node_execute (xi_rt io) t nd (xr_env r)) (xr_org r)"
    and "unwatched (compute io nr c key start r) = unwatched r"
proof -
  have "xr_org (compute io nr c key start r) =
      settled (xi_rt io) (node_execute (xi_rt io) (xr_tick r) nd (xr_env r)) (xr_org r)"
    using assms
    by (auto simp: compute_def settled_def fail_step_def take_result_def register_computation_def register_new_def
        on_org_def on_exec_def tick_def empty_cache_def Let_def split: sum.splits)
  then show "\<exists>t. xr_org (compute io nr c key start r) =
      settled (xi_rt io) (node_execute (xi_rt io) t nd (xr_env r)) (xr_org r)" by blast
  show "unwatched (compute io nr c key start r) = unwatched r"
    using assms
    by (auto simp: compute_def fail_step_def take_result_def register_computation_def register_new_def
        on_org_def on_exec_def tick_def empty_cache_def unwatched_def Let_def split: sum.splits)
qed

lemma hop_settles:
  assumes "og_next (xr_org r) = Some n" "hop_capability (Some n) = Some c" "c \<noteq> []"
    and "resolve nr c = Inr nd" "empty_cache r" "unwatched r"
  shows "\<exists>t r'. xr_org r' = settled (xi_rt io) (node_execute (xi_rt io) t nd (xr_env r)) (xr_org r) \<and>
    unwatched r' \<and> exec_hop io nr oid r = Some (if org_terminated (xr_org r') then Stop r' else Next r')"
proof -
  let ?key = "step_key io c (xr_org r)" and ?start = "xi_perf io (xr_tick r)"
  from lookup_empty [of "tick r"] assms(5) obtain r1 where
    r1: "lookup io c ?key (tick r) = (Inr None, r1)" "empty_cache r1" "xr_org r1 = xr_org r"
      "xr_env r1 = xr_env r" "xr_exec r1 = xr_exec r" by fastforce
  from lookup_empty [OF r1(2)] obtain r2 where
    r2: "lookup io c ?key r1 = (Inr None, r2)" "empty_cache r2" "xr_org r2 = xr_org r"
      "xr_env r2 = xr_env r" "xr_exec r2 = xr_exec r" using r1 by fastforce
  define r3 where "r3 = compute io nr c ?key ?start (tick r2)"
  have pass: "cold_loop io nr c ?key ?start r1 = Some (Done r3)"
    using r2(1,2) by (subst cold_loop.simps) (simp add: cold_pass_def r3_def empty_cache_def)
  have "unwatched r2" using assms(6) r2(5) by (simp add: unwatched_def)
  with compute_settles(2) [of nr c nd "tick r2"] assms(4) r2(2) have w3: "unwatched r3"
    unfolding r3_def by simp
  from compute_settles(1) [of nr c nd "tick r2"] assms(4) r2 obtain t where
    t: "xr_org r3 = settled (xi_rt io) (node_execute (xi_rt io) t nd (xr_env r)) (xr_org r)"
    unfolding r3_def by fastforce
  let ?r4 = "after_hop io oid c (og_state (xr_org r)) r3"
  have r4: "xr_org ?r4 = xr_org r3" "unwatched ?r4"
    using w3 by (simp_all add: after_hop_def Let_def unwatched_notify_run unwatched_def tick_def)
  have hop: "exec_hop io nr oid r = Some (if org_terminated (xr_org r3) then Stop r3 else Next ?r4)"
    using assms(1-3) r1(1) pass by (simp add: exec_hop_def org_capability_def Let_def)
  show ?thesis
  proof (cases "org_terminated (xr_org r3)")
    case True
    with hop t w3 show ?thesis by fastforce
  next
    case False
    with hop t r4 show ?thesis by fastforce
  qed
qed

text \<open>
  An organism whose node, where it succeeds, names no next capability: the execution is the node, whatever the
  number of hops allowed.
\<close>

definition after_run :: "organism \<Rightarrow> organism" where
  "after_run o' = (if org_terminated o' then o' else o'\<lparr>og_status := LEARNING\<rparr>)"

lemma settled_final:
  assumes "\<And>res. x = Inr res \<Longrightarrow> res_success res \<Longrightarrow> env_next (res_envelope res) = None"
    and "\<not> org_terminated (settled rt x o')"
  shows "og_next (settled rt x o') = None"
  using assms by (auto simp: settled_def org_terminated_def Let_def split: sum.splits if_splits)

lemma loop_ends: "\<not> going r \<Longrightarrow> exec_loop n io nr oid r = Some (None, r)"
  by (cases n) simp_all

lemma finish_settled:
  assumes "unwatched r"
  shows "xr_org (finish_run io t r) = after_run (xr_org r)"
  using assms
  by (simp add: finish_run_def after_run_def Let_def unwatched_notify_run unwatched_def on_exec_def on_org_def tick_def)

lemma one_node_run:
  assumes "og_next o' = Some n" "hop_capability (Some n) = Some c" "c \<noteq> []" "resolve nr c = Inr nd"
    and "cg_hash g = []" "\<not> cg_redis g" "wt_watchers (x_watcher x) = []" "0 < x_max_hops x"
    and final: "\<And>t res. node_execute (xi_rt io) t nd (to_envelope o') = Inr res \<Longrightarrow> res_success res \<Longrightarrow>
      env_next (res_envelope res) = None"
  shows "\<exists>t r. org_execute io nr o' g x = Some (None, r) \<and> xr_org r =
    after_run (settled (xi_rt io) (node_execute (xi_rt io) t nd (to_envelope o')) (o'\<lparr>og_status := EXECUTING\<rparr>))"
proof -
  let ?o = "o'\<lparr>og_status := EXECUTING\<rparr>" and ?r = "start_run o' g x"
  have start: "xr_org ?r = ?o" "xr_env ?r = to_envelope o'" "empty_cache ?r" "unwatched ?r"
    using assms(5-7) by (simp_all add: start_run_def empty_cache_def unwatched_def Let_def to_envelope_def)
  have "og_next (xr_org ?r) = Some n" using assms(1) by (simp add: start(1))
  from hop_settles [OF this assms(2-4) start(3,4), of io "og_id o'"] obtain t r1 where
    r1: "xr_org r1 = settled (xi_rt io) (node_execute (xi_rt io) t nd (to_envelope o')) ?o" "unwatched r1"
      "exec_hop io nr (og_id o') ?r = Some (if org_terminated (xr_org r1) then Stop r1 else Next r1)"
    using start(1,2) by auto
  have go: "going ?r"
    using assms(1-3) start(1) by (auto simp: going_def org_terminated_def hop_capability_def split: if_splits)
  obtain m where m: "x_max_hops x = Suc m" using assms(8) by (cases "x_max_hops x") auto
  have "\<not> going r1" if "\<not> org_terminated (xr_org r1)"
    using settled_final [of "node_execute (xi_rt io) t nd (to_envelope o')"] final that r1(1)
    by (simp add: going_def)
  then have "exec_loop (x_max_hops x) io nr (og_id o') ?r = Some (None, r1)"
    using go r1(3) by (simp add: m loop_ends)
  then have "org_execute io nr o' g x = Some (None, finish_run io (xi_perf io 0) r1)"
    by (simp add: org_execute_def)
  with finish_settled [OF r1(2), of io "xi_perf io 0"] r1(1) show ?thesis by auto
qed

section \<open>Results\<close>

definition error_key :: string where
  "error_key = ''document_vectorize_error''"

record runtime_result =
  rr_parent :: organism
  rr_child :: organism
  rr_success :: bool
  rr_output :: pval
  rr_error :: pval

definition from_child :: "organism \<Rightarrow> organism \<Rightarrow> runtime_result" where
  "from_child parent child =
     (let out = dict_get vectorize_key (og_state child)
      in \<lparr>rr_parent = parent, rr_child = child, rr_success = (\<not> org_terminated child \<and> out \<noteq> PNone),
          rr_output = out, rr_error = dict_get error_key (og_state child)\<rparr>)"

definition runtime_payload :: "runtime_result \<Rightarrow> dict" where
  "runtime_payload rr =
     [(''success'', PBool (rr_success rr)), (''parentId'', PStr (og_id (rr_parent rr))),
      (''childId'', PStr (og_id (rr_child rr))), (''output'', rr_output rr), (''error'', rr_error rr)]"

section \<open>Routing a payload\<close>

definition runtime_input :: "dict \<Rightarrow> pval \<Rightarrow> dict" where
  "runtime_input inp payload =
     AList.update vectorize_key payload (AList.update ''event'' (PStr document_capability) inp)"

text \<open>
  The caller's state, input and metadata are empty when they are not given; \<open>src\<close> is the metadata's \<open>source\<close>, if it is
  among them. The parent in the result is the object that the registry holds.
\<close>

definition execute_document_vectorize ::
    "xio \<Rightarrow> cgraph \<Rightarrow> (nat \<Rightarrow> string) \<Rightarrow> (nat \<Rightarrow> rat) \<Rightarrow> pval \<Rightarrow> vectorizer \<Rightarrow> dict \<Rightarrow> string option option \<Rightarrow> metadata
       \<Rightarrow> dict \<Rightarrow> bool \<Rightarrow> prism \<Rightarrow> ((py_error + runtime_result) \<times> prism) option" where
  "execute_document_vectorize io fresh uid now payload vz st src md inp sharing pe =
     (let pe1 = register_node (vectorize_node (uid 0) vz 30) None None pe
      in case create_envelope (uid 1) (Inl CUSTOM) (PDict (runtime_input inp payload)) st None
                (md\<lparr>md_source := (case src of None \<Rightarrow> Some document_capability | Some s \<Rightarrow> s)\<rparr>) of
           Inl err \<Rightarrow> Some (Inl err, pe1)
         | Inr e \<Rightarrow>
             (case spawn_from_envelope (now 0) e None pe1 of
                None \<Rightarrow> None
              | Some (parent, pe2) \<Rightarrow>
                  map_option (\<lambda>(err, child, pe3).
                      (case err of
                         Some x \<Rightarrow> Inl x
                       | None \<Rightarrow> Inr (from_child
                           (case get_organism (og_id parent) (pe_registry pe3) of Some p \<Rightarrow> p | None \<Rightarrow> parent) child),
                       pe3))
                    (execute_child_organism io fresh (uid 2) (now 1) parent document_capability
                       [(vectorize_key, payload)] (Some (Inl CUSTOM)) sharing pe2)))"

section \<open>Every routed payload is settled\<close>

text \<open>How a call of the node ends that the request sees: with the node's own result, or without a trace of it.\<close>

lemma node_call_cases:
  fixes uid :: string and vz :: vectorizer
  assumes inp: "env_input e = PDict d"
  defines "nd \<equiv> vectorize_node uid vz 30"
  obtains (ran) r where "vectorize_process vz e = Returned r"
      "node_execute rt t nd e = Inr (finalize_result rt t nd r)"
    | (lost) "rt_worker rt t \<noteq> WDone \<or> input_from (field d vectorize_key) = Inl overflow_fault"
      "\<And>res. node_execute rt t nd e = Inr res \<Longrightarrow>
         \<not> res_success res \<and> env_terminated (res_envelope res) \<and> env_state (res_envelope res) = env_state e"
proof (cases "rt_worker rt t = WDone")
  case False
  moreover have "\<not> res_success res \<and> env_terminated (res_envelope res) \<and> env_state (res_envelope res) = env_state e"
    if "node_execute rt t nd e = Inr res" for res
    using that False
    by (cases "rt_worker rt t")
      (auto simp: nd_def node_execute_def execute_with_timeout_def effective_timeout_def vectorize_node_def
        truncate_int_def)
  ultimately show thesis by (rule lost [OF disjI1])
next
  case True
  then have ex: "node_execute rt t nd e = Inr (execute_sync rt t nd e)"
    by (simp add: nd_def node_execute_def execute_with_timeout_def effective_timeout_def vectorize_node_def
        truncate_int_def)
  show thesis
  proof (cases "vectorize_process vz e")
    case (Returned r)
    with ex show thesis by (intro ran) (simp_all add: execute_sync_def nd_def vectorize_node_def)
  next
    case (Raised e' ty m)
    with node_leaves_result_or_error [OF inp, of vz] have
      "e' = e" "input_from (field d vectorize_key) = Inl overflow_fault" by simp_all
    with Raised ex show thesis
      by (intro lost) (auto simp: execute_sync_def nd_def vectorize_node_def failure_result_def env_record_def)
  qed
qed

lemma finalize_simps [simp]:
  "res_success (finalize_result rt t nd r) = res_success r" "res_error (finalize_result rt t nd r) = res_error r"
  "env_state (res_envelope (finalize_result rt t nd r)) = env_state (res_envelope r)"
  "env_next (res_envelope (finalize_result rt t nd r)) = env_next (res_envelope r)"
  "env_terminated (res_envelope (finalize_result rt t nd r)) = env_terminated (res_envelope r)"
  by (simp_all add: finalize_result_def Let_def env_record_def)

lemma node_names_no_next:
  assumes "env_input e = PDict d" "node_execute rt t (vectorize_node uid vz 30) e = Inr res" "res_success res"
  shows "env_next (res_envelope res) = None"
  using assms(1)
proof (cases rule: node_call_cases [where rt = rt and t = t and uid = uid and vz = vz])
  case (ran r)
  with node_leaves_result_or_error [OF assms(1), of vz] assms(2) show ?thesis by (auto simp: Let_def)
qed (use assms in auto)

text \<open>What a result says, where \<open>st\<close> is the state that the caller gave the parent.\<close>

definition sound_answer :: "pval \<Rightarrow> vectorizer \<Rightarrow> runtime_result \<Rightarrow> bool" where
  "sound_answer payload vz rr \<longleftrightarrow>
     (\<exists>req br out. input_from payload = Inr req \<and> vz_vectorize vz req = BackendReturns (BackendResult br) \<and>
        sound_result req (vx_dimensions out) br \<and> vx_chunks out = br_chunks br \<and>
        rr_output rr = PDict (output_payload out) \<and> rr_error rr = PNone)"

definition told_failure :: "pval \<Rightarrow> vectorizer \<Rightarrow> runtime_result \<Rightarrow> bool" where
  "told_failure payload vz rr \<longleftrightarrow>
     \<not> soundly_served payload vz \<and> rr_output rr = PNone \<and> (\<exists>err. rr_error rr = PDict (vec_error_payload err) \<and>
       (ve_retryable err \<longleftrightarrow> (\<exists>req ty m. input_from payload = Inr req \<and> vz_vectorize vz req = BackendRaises ty m)))"

definition untold_failure :: "xio \<Rightarrow> pval \<Rightarrow> dict \<Rightarrow> runtime_result \<Rightarrow> bool" where
  "untold_failure io payload st rr \<longleftrightarrow>
     ((\<exists>t. rt_worker (xi_rt io) t \<noteq> WDone) \<or> input_from payload = Inl overflow_fault) \<and>
     rr_output rr = dict_get vectorize_key st \<and> rr_error rr = dict_get error_key st"

lemma child_answer:
  fixes child parent :: organism and uid :: string
  assumes inp: "dict_get vectorize_key (og_input child) = payload"
    and final: "child' = after_run (settled (xi_rt io)
      (node_execute (xi_rt io) t (vectorize_node uid vz 30) (to_envelope child)) (child\<lparr>og_status := EXECUTING\<rparr>))"
  defines "rr \<equiv> from_child parent child'"
  shows "if rr_success rr then sound_answer payload vz rr
    else org_terminated child' \<and> (told_failure payload vz rr \<or> untold_failure io payload (og_state child) rr)"
proof -
  let ?e = "to_envelope child" and ?s = "settled (xi_rt io)
      (node_execute (xi_rt io) t (vectorize_node uid vz 30) (to_envelope child)) (child\<lparr>og_status := EXECUTING\<rparr>)"
  have keys: "vectorize_key \<noteq> ''_error''" "error_key \<noteq> ''_error''"
    by (simp_all add: vectorize_key_def error_key_def)
  have e: "env_input ?e = PDict (og_input child)" "env_state ?e = og_state child" "\<not> env_terminated ?e"
    by (simp_all add: to_envelope_def)
  have fld: "field (og_input child) vectorize_key = payload"
    using inp by (simp add: field_def dict_get_def)
  have st: "og_state child' = og_state ?s" "org_terminated child' = org_terminated ?s"
    using final by (simp_all add: after_run_def org_terminated_def)
  have rr: "rr_success rr = (\<not> org_terminated ?s \<and> dict_get vectorize_key (og_state ?s) \<noteq> PNone)"
    "rr_output rr = dict_get vectorize_key (og_state ?s)" "rr_error rr = dict_get error_key (og_state ?s)"
    using st by (simp_all add: rr_def from_child_def Let_def)
  show ?thesis
    using e(1)
  proof (cases rule: node_call_cases [where rt = "xi_rt io" and t = t and uid = uid and vz = vz])
    case (ran r)
    note N = node_leaves_result_or_error [OF e(1), of vz, unfolded ran(1) fld outcome.case Let_def]
    show ?thesis
    proof (cases "res_success r")
      case True
      with N ran(2) e(3) rr show ?thesis
        by (fastforce simp: settled_def org_terminated_def Let_def sound_answer_def dict_get_def error_key_def)
    next
      case False
      then have "og_state ?s = og_state (org_terminate (Some (or_str (or_opt (res_error r)
            (env_error (res_envelope (finalize_result (xi_rt io) t (vectorize_node uid vz 30) r)))) ''node failed''))
            (child\<lparr>og_state := env_state (res_envelope r)\<rparr>))" "org_terminated ?s"
        by (simp_all add: ran(2) settled_def org_terminated_def org_terminate_def Let_def)
      with N False rr st(2) keys show ?thesis
        by (auto simp: told_failure_def dict_get_def error_key_def)
    qed
  next
    case lost
    have "org_terminated ?s" "map_of (og_state ?s) k = map_of (og_state child) k" if "k \<noteq> ''_error''" for k
      using that lost(2) e(2)
      by (auto simp: settled_def org_terminated_def Let_def split: sum.split)
    with lost(1) fld rr st(2) keys show ?thesis
      by (auto simp: untold_failure_def dict_get_def)
  qed
qed

lemma runtime_parent:
  "\<exists>p. create_envelope u (Inl CUSTOM) (PDict (runtime_input inp payload)) st None md = Inr e \<longrightarrow>
     from_envelope now e = Some p \<and> og_id p = ''req_'' @ u \<and> og_input p = runtime_input inp payload \<and>
     og_state p = st \<and> og_knowledge p = [] \<and> og_children p = []"
proof -
  have "runtime_input inp payload \<noteq> []" by (simp add: runtime_input_def update_nonempty)
  then show ?thesis
    by (auto simp: create_envelope_def from_envelope_def new_organism_def)
qed

lemma runtime_child:
  assumes "og_knowledge p = []" "spawn_child u now (Some (Inl CUSTOM)) patch (Some c) p = (child, p')"
  shows "og_input child = dict_update (og_input p) patch" "og_state child = og_state p"
    "og_next child = Some c" "og_parent child = Some (og_id p)" "og_id child = ''org_'' @ u"
    "p' = p\<lparr>og_children := og_children p @ [og_id child]\<rparr>"
  using assms by (auto simp: spawn_child_def Let_def new_organism_def atoms_of_def absorb_def)

lemma child_run:
  assumes "og_next child = Some document_capability" "resolve nr document_capability = Inr (vectorize_node nid vz 30)"
    and "cg_hash g = []" "\<not> cg_redis g" "wt_watchers (x_watcher x) = []" "0 < x_max_hops x"
  shows "\<exists>t r. org_execute io nr child g x = Some (None, r) \<and> xr_org r = after_run (settled (xi_rt io)
    (node_execute (xi_rt io) t (vectorize_node nid vz 30) (to_envelope child)) (child\<lparr>og_status := EXECUTING\<rparr>))"
proof (rule one_node_run [OF assms(1) _ _ assms(2-6)])
  show "hop_capability (Some document_capability) = Some document_capability" "document_capability \<noteq> []"
    by (simp_all add: hop_capability_def document_capability_def cap_prefix_def starts_with_def)
  have e: "env_input (to_envelope child) = PDict (og_input child)" by (simp add: to_envelope_def)
  show "env_next (res_envelope res) = None"
    if "node_execute (xi_rt io) t (vectorize_node nid vz 30) (to_envelope child) = Inr res" "res_success res" for t res
    by (rule node_names_no_next [OF e that])
qed


definition demo_engine :: prism where
  "demo_engine = new_prism (new_graph 10 30 3 [] [] False) (new_executor new_watcher True (Some 5))"


end
