(* ===== verification/RedisStreams.thy ===== *)
theory RedisStreams
  imports Transport
begin

text \<open>
  The Redis Streams adapter at work (\<open>src/src/prismpipe/redis_streams_transport.py\<close>): connecting, the generator
  behind \<open>consume\<close>, and publications, retries and acknowledgements that happen between its steps. Everything the
  Redis client answers is part of the events; the lists of received and given entries and of sent commands are
  history variables. The adapter serves one topic, as for a consumer.
\<close>

section \<open>State\<close>

type_synonym entry = "string \<times> (string \<times> string) list"

text \<open>
  The generator: not yet asked, waiting for the reply to a read, suspended at a message it has given with the
  rest of its batch, ended, or ended by an error.
\<close>

datatype gen = GNew | GReading | GGiven string string "entry list" | GEnded | GFailed py_error

record adapter =
  ad_client :: bool
  ad_bus :: redis_bus
  ad_gen :: gen
  ad_taken :: "entry list"
  ad_given :: "(message \<times> string) list"
  ad_sent :: "redis_cmd list"
  ad_retrying :: "message list"

definition new_adapter :: "string \<Rightarrow> adapter" where
  "new_adapter g = \<lparr>ad_client = False, ad_bus = new_redis_bus g, ad_gen = GNew, ad_taken = [],
     ad_given = [], ad_sent = [], ad_retrying = []\<rparr>"

text \<open>\<open>start\<close>: the client is kept even when it cannot be reached; \<open>stop\<close> keeps the client.\<close>

definition adapter_start :: "bool \<Rightarrow> adapter \<Rightarrow> adapter" where
  "adapter_start reached s =
     (if reached then s\<lparr>ad_client := True, ad_bus := (ad_bus s)\<lparr>rb_connected := True\<rparr>\<rparr> else s\<lparr>ad_client := True\<rparr>)"

definition adapter_stop :: "adapter \<Rightarrow> adapter" where
  "adapter_stop s = s\<lparr>ad_bus := (ad_bus s)\<lparr>rb_connected := False\<rparr>\<rparr>"

section \<open>The generator\<close>

text \<open>\<open>while self._connected\<close>: the next read is sent, or the generator ends.\<close>

definition read_on :: "adapter \<Rightarrow> adapter" where
  "read_on s = s\<lparr>ad_gen := (if rb_connected (ad_bus s) then GReading else GEnded)\<rparr>"

text \<open>The inner loops: the next entry of the batch is given; one that cannot be read ends the generator.\<close>

definition give_next ::
    "(string \<Rightarrow> py_error + pval) \<Rightarrow> (string \<Rightarrow> py_error + nat) \<Rightarrow> string \<Rightarrow> entry list \<Rightarrow> adapter \<Rightarrow> adapter" where
  "give_next parse number t batch s =
     (case batch of
        [] \<Rightarrow> read_on s
      | (entry, fs) # rest \<Rightarrow>
          (case redis_message parse number t entry fs of
             Inl err \<Rightarrow> s\<lparr>ad_gen := GFailed err\<rparr>
           | Inr m \<Rightarrow> s\<lparr>ad_gen := GGiven (ms_id m) entry rest, ad_given := ad_given s @ [(m, entry)]\<rparr>))"

datatype read_reply_event = ReadEntries "(string \<times> entry list) list" | ReadFails string | ReadCancelled

datatype bus_call =
    CStart bool
  | CStop
  | CNext "string option"
  | CReply read_reply_event
  | CAcknowledge message
  | CPublish message nat "string option"
  | CRetry message "string option"
  | CRetryDone message

text \<open>
  \<open>CNext\<close>: the consumer asks for a message. The first time the group is created, with its reply; afterwards the
  entry of the message given last is noted.
\<close>

definition next_call ::
    "(string \<Rightarrow> py_error + pval) \<Rightarrow> (string \<Rightarrow> py_error + nat) \<Rightarrow> string \<Rightarrow> string option \<Rightarrow> adapter \<Rightarrow> adapter" where
  "next_call parse number t reply s =
     (case ad_gen s of
        GNew \<Rightarrow>
          if \<not> ad_client s then s\<lparr>ad_gen := GFailed (bus_error ''Deepiri transport is not started'')\<rparr>
          else (case ensure_group reply t (ad_bus s) of
            (Inl err, b) \<Rightarrow> s\<lparr>ad_bus := b, ad_gen := GFailed err\<rparr>
          | (Inr cmds, b) \<Rightarrow> read_on (s\<lparr>ad_bus := b, ad_sent := ad_sent s @ cmds\<rparr>))
      | GGiven mid entry rest \<Rightarrow>
          give_next parse number t rest (s\<lparr>ad_bus := note_entry (mid, t, entry) (ad_bus s)\<rparr>)
      | _ \<Rightarrow> s)"

definition reply_call ::
    "(string \<Rightarrow> py_error + pval) \<Rightarrow> (string \<Rightarrow> py_error + nat) \<Rightarrow> string \<Rightarrow> read_reply_event \<Rightarrow> adapter \<Rightarrow> adapter" where
  "reply_call parse number t x s =
     (if ad_gen s \<noteq> GReading then s
      else case x of
        ReadEntries response \<Rightarrow>
          let batch = concat (map snd response)
          in give_next parse number t batch (s\<lparr>ad_taken := ad_taken s @ batch\<rparr>)
      | ReadFails m \<Rightarrow>
          s\<lparr>ad_gen := GFailed (bus_error (''Consume from '' @ quoted t @ '' failed: '' @ m))\<rparr>
      | ReadCancelled \<Rightarrow> s\<lparr>ad_gen := GFailed (OtherError ''CancelledError'' [])\<rparr>)"

section \<open>Calls between the steps of the generator\<close>

definition sending :: "(py_error + redis_cmd list) \<Rightarrow> adapter \<Rightarrow> adapter" where
  "sending r s = (case r of Inl _ \<Rightarrow> s | Inr cmds \<Rightarrow> s\<lparr>ad_sent := ad_sent s @ cmds\<rparr>)"

text \<open>\<open>retry\<close> awaits its publication: what follows, \<open>CRetryDone\<close>, may come after other calls.\<close>

definition retry_call :: "(pval \<Rightarrow> string) \<Rightarrow> message \<Rightarrow> string option \<Rightarrow> adapter \<Rightarrow> adapter" where
  "retry_call dumps m reply s =
     (if \<not> rb_connected (ad_bus s) then s
      else case ms_topic m of
        None \<Rightarrow> s
      | Some t \<Rightarrow>
          (case redis_publish dumps reply t m (ms_attempt m + 1) (ad_bus s) of
             Inl _ \<Rightarrow> s
           | Inr cmds \<Rightarrow> s\<lparr>ad_sent := ad_sent s @ cmds, ad_retrying := ad_retrying s @ [m]\<rparr>))"

definition retry_done :: "message \<Rightarrow> adapter \<Rightarrow> adapter" where
  "retry_done m s =
     (if m \<notin> set (ad_retrying s) then s
      else s\<lparr>ad_sent := ad_sent s @ (case (ms_topic m, map_of (rb_entries (ad_bus s)) (ms_id m)) of
                (Some t, Some (_, entry)) \<Rightarrow> [XAck t (rb_group (ad_bus s)) entry]
              | _ \<Rightarrow> []),
             ad_retrying := remove1 m (ad_retrying s)\<rparr>)"

fun bus_step ::
    "(pval \<Rightarrow> string) \<Rightarrow> (string \<Rightarrow> py_error + pval) \<Rightarrow> (string \<Rightarrow> py_error + nat) \<Rightarrow> string \<Rightarrow> bus_call \<Rightarrow> adapter
       \<Rightarrow> adapter" where
  "bus_step dumps parse number t (CStart reached) s = adapter_start reached s"
| "bus_step dumps parse number t CStop s = adapter_stop s"
| "bus_step dumps parse number t (CNext reply) s = next_call parse number t reply s"
| "bus_step dumps parse number t (CReply x) s = reply_call parse number t x s"
| "bus_step dumps parse number t (CAcknowledge m) s = sending (redis_acknowledge m (ad_bus s)) s"
| "bus_step dumps parse number t (CPublish m attempt reply) s =
     sending (redis_publish dumps reply t m attempt (ad_bus s)) s"
| "bus_step dumps parse number t (CRetry m reply) s = retry_call dumps m reply s"
| "bus_step dumps parse number t (CRetryDone m) s = retry_done m s"

text \<open>A retry that nothing interrupts is the call as a whole.\<close>

lemma retry_in_one_piece:
  assumes "redis_retry dumps reply [] m (ad_bus s) = (Inr cmds, b)" "m \<notin> set (ad_retrying s)"
  shows "retry_done m (retry_call dumps m reply s) = s\<lparr>ad_sent := ad_sent s @ cmds\<rparr>"
  using assms
  by (cases s) (auto simp: redis_retry_def retry_call_def retry_done_def Let_def remove1_append
      split: if_splits option.splits sum.splits)

section \<open>What the adapter gives and acknowledges\<close>

text \<open>A caller acknowledges and retries only messages that it was given.\<close>

definition call_ok :: "bus_call \<Rightarrow> adapter \<Rightarrow> bool" where
  "call_ok c s \<longleftrightarrow>
     (case c of
        CAcknowledge m \<Rightarrow> m \<in> fst ` set (ad_given s)
      | CRetry m _ \<Rightarrow> m \<in> fst ` set (ad_given s)
      | _ \<Rightarrow> True)"

inductive bus_reach ::
    "(pval \<Rightarrow> string) \<Rightarrow> (string \<Rightarrow> py_error + pval) \<Rightarrow> (string \<Rightarrow> py_error + nat) \<Rightarrow> string \<Rightarrow> string \<Rightarrow> adapter \<Rightarrow> bool"
    for dumps parse number t g where
  start: "bus_reach dumps parse number t g (new_adapter g)"
| step: "bus_reach dumps parse number t g s \<Longrightarrow> call_ok c s \<Longrightarrow>
    bus_reach dumps parse number t g (bus_step dumps parse number t c s)"

definition waiting_batch :: "adapter \<Rightarrow> entry list" where
  "waiting_batch s = (case ad_gen s of GGiven _ _ rest \<Rightarrow> rest | _ \<Rightarrow> [])"

text \<open>The deliveries whose entry the adapter knows: all but the one at which the generator stands.\<close>

definition noted :: "adapter \<Rightarrow> (message \<times> string) list" where
  "noted s = (case ad_gen s of GGiven _ _ _ \<Rightarrow> butlast (ad_given s) | _ \<Rightarrow> ad_given s)"

definition latest_entry :: "string \<Rightarrow> (message \<times> string) list \<Rightarrow> string option" where
  "latest_entry mid ds = map_option snd (find (\<lambda>(m, e). ms_id m = mid) (rev ds))"

lemma latest_snoc [simp]:
  "latest_entry mid (ds @ [(m, e)]) = (if ms_id m = mid then Some e else latest_entry mid ds)"
  by (simp add: latest_entry_def)

lemma latest_empty [simp]: "latest_entry mid [] = None"
  by (simp add: latest_entry_def)

lemma latest_given: "latest_entry mid ds = Some e \<Longrightarrow> e \<in> snd ` set ds"
  by (induction ds rule: rev_induct) (auto split: if_splits)

definition order_kept :: "adapter \<Rightarrow> bool" where
  "order_kept s \<longleftrightarrow> (\<exists>more. map snd (ad_given s) @ more = map fst (ad_taken s) \<and>
     ((\<forall>err. ad_gen s \<noteq> GFailed err) \<longrightarrow> more = map fst (waiting_batch s)))"

definition stands_at_last :: "adapter \<Rightarrow> bool" where
  "stands_at_last s \<longleftrightarrow> (\<forall>mid e rest. ad_gen s = GGiven mid e rest \<longrightarrow>
     (\<exists>ds m. ad_given s = ds @ [(m, e)] \<and> ms_id m = mid))"

definition entries_known :: "string \<Rightarrow> adapter \<Rightarrow> bool" where
  "entries_known t s \<longleftrightarrow>
     (\<forall>mid. map_of (rb_entries (ad_bus s)) mid = map_option (Pair t) (latest_entry mid (noted s)))"

definition topic_kept :: "string \<Rightarrow> string \<Rightarrow> adapter \<Rightarrow> bool" where
  "topic_kept t g s \<longleftrightarrow> rb_group (ad_bus s) = g \<and> (\<forall>m \<in> fst ` set (ad_given s). ms_topic m = Some t) \<and>
     set (ad_retrying s) \<subseteq> fst ` set (ad_given s)"

definition acks_given :: "string \<Rightarrow> string \<Rightarrow> adapter \<Rightarrow> bool" where
  "acks_given t g s \<longleftrightarrow>
     (\<forall>t' g' e. XAck t' g' e \<in> set (ad_sent s) \<longrightarrow> t' = t \<and> g' = g \<and> e \<in> snd ` set (ad_given s))"

lemmas adapter_defs = order_kept_def stands_at_last_def entries_known_def topic_kept_def acks_given_def

definition adapter_inv :: "string \<Rightarrow> string \<Rightarrow> adapter \<Rightarrow> bool" where
  "adapter_inv t g s \<longleftrightarrow> order_kept s \<and> stands_at_last s \<and> entries_known t s \<and> topic_kept t g s \<and> acks_given t g s"

lemma adapter_inv_new: "adapter_inv t g (new_adapter g)"
  by (simp add: adapter_inv_def adapter_defs new_adapter_def new_redis_bus_def waiting_batch_def noted_def)

text \<open>Calls that leave the generator where it is and only add commands.\<close>

lemma adapter_inv_sent:
  assumes "adapter_inv t g s"
    and "\<And>t' g' e. XAck t' g' e \<in> set cmds \<Longrightarrow> t' = t \<and> g' = g \<and> e \<in> snd ` set (ad_given s)"
    and "set ms \<subseteq> fst ` set (ad_given s)"
  shows "adapter_inv t g (s\<lparr>ad_sent := ad_sent s @ cmds, ad_retrying := ms\<rparr>)"
  using assms by (cases "ad_gen s") (auto simp: adapter_inv_def adapter_defs waiting_batch_def noted_def)

lemma adapter_inv_connection:
  "adapter_inv t g s \<Longrightarrow> adapter_inv t g (s\<lparr>ad_bus := (ad_bus s)\<lparr>rb_connected := b\<rparr>\<rparr>)"
  "adapter_inv t g s \<Longrightarrow> adapter_inv t g (s\<lparr>ad_client := cl\<rparr>)"
  by (cases "ad_gen s"; simp add: adapter_inv_def adapter_defs waiting_batch_def noted_def)+

text \<open>The generator has noted all that it has given, and goes on.\<close>

definition all_noted :: "string \<Rightarrow> string \<Rightarrow> entry list \<Rightarrow> adapter \<Rightarrow> bool" where
  "all_noted t g batch s \<longleftrightarrow>
     map snd (ad_given s) @ map fst batch = map fst (ad_taken s) \<and>
     (\<forall>mid. map_of (rb_entries (ad_bus s)) mid = map_option (Pair t) (latest_entry mid (ad_given s))) \<and>
     topic_kept t g s \<and> acks_given t g s"

lemma inv_all_noted:
  "adapter_inv t g s \<Longrightarrow> ad_gen s = GReading \<or> ad_gen s = GNew \<Longrightarrow> all_noted t g [] s"
  by (auto simp: adapter_inv_def adapter_defs all_noted_def waiting_batch_def noted_def)

lemma all_noted_inv:
  assumes "all_noted t g batch s" "\<And>mid e rest. x \<noteq> GGiven mid e rest" "batch = [] \<or> (\<exists>err. x = GFailed err)"
  shows "adapter_inv t g (s\<lparr>ad_gen := x\<rparr>)"
  using assms
  by (cases x) (auto simp: adapter_inv_def adapter_defs all_noted_def waiting_batch_def noted_def)

lemma give_next_inv:
  assumes "all_noted t g batch s"
  shows "adapter_inv t g (give_next parse number t batch s)"
proof (cases batch)
  case Nil
  with assms show ?thesis by (auto simp: give_next_def read_on_def intro: all_noted_inv)
next
  case (Cons p rest)
  obtain e fs where p: "p = (e, fs)" by (cases p)
  show ?thesis
  proof (cases "redis_message parse number t e fs")
    case (Inl err)
    with assms Cons p show ?thesis by (auto simp: give_next_def intro: all_noted_inv)
  next
    case (Inr m)
    then have "ms_topic m = Some t"
      by (auto simp: redis_message_def Let_def bindE_Inr)
    with Inr assms Cons p show ?thesis
      by (auto simp: give_next_def adapter_inv_def adapter_defs all_noted_def waiting_batch_def noted_def)
  qed
qed

lemma next_call_inv:
  assumes "adapter_inv t g s"
  shows "adapter_inv t g (next_call parse number t reply s)"
proof (cases "ad_gen s")
  case GNew
  with assms have n: "all_noted t g [] s" by (simp add: inv_all_noted)
  show ?thesis
  proof (cases "ensure_group reply t (ad_bus s)")
    case (Pair r b)
    then have b: "rb_entries b = rb_entries (ad_bus s)" "rb_group b = rb_group (ad_bus s)"
      "\<And>cmds t' g' e. r = Inr cmds \<Longrightarrow> XAck t' g' e \<notin> set cmds"
      by (auto simp: ensure_group_def split: if_splits option.splits)
    with n have "all_noted t g [] (s\<lparr>ad_bus := b\<rparr>)"
      "\<And>cmds. r = Inr cmds \<Longrightarrow> all_noted t g [] (s\<lparr>ad_bus := b, ad_sent := ad_sent s @ cmds\<rparr>)"
      by (auto simp: all_noted_def topic_kept_def acks_given_def)
    with n Pair GNew show ?thesis
      by (auto simp: next_call_def read_on_def intro: all_noted_inv split: sum.split)
  qed
next
  case (GGiven mid e rest)
  with assms obtain ds m where "ad_given s = ds @ [(m, e)]" "ms_id m = mid"
    by (auto simp: adapter_inv_def stands_at_last_def)
  with assms GGiven have "all_noted t g rest (s\<lparr>ad_bus := note_entry (mid, t, e) (ad_bus s)\<rparr>)"
    by (auto simp: all_noted_def adapter_inv_def adapter_defs waiting_batch_def noted_def note_entry_def map_of_update)
  with GGiven show ?thesis by (simp add: next_call_def give_next_inv)
qed (use assms in \<open>simp_all add: next_call_def\<close>)

lemma reply_call_inv:
  assumes "adapter_inv t g s"
  shows "adapter_inv t g (reply_call parse number t x s)"
proof (cases "ad_gen s = GReading")
  case True
  with assms have n: "all_noted t g [] s" by (simp add: inv_all_noted)
  show ?thesis
  proof (cases x)
    case (ReadEntries response)
    from n have "all_noted t g (concat (map snd response)) (s\<lparr>ad_taken := ad_taken s @ concat (map snd response)\<rparr>)"
      by (auto simp: all_noted_def topic_kept_def acks_given_def)
    with True ReadEntries show ?thesis by (simp add: reply_call_def Let_def give_next_inv)
  qed (use True n in \<open>auto simp: reply_call_def intro: all_noted_inv\<close>)
qed (use assms in \<open>simp add: reply_call_def\<close>)

text \<open>What the adapter knows of a message is an entry that it has given under the message's identifier.\<close>

lemma known_entry_given:
  assumes "adapter_inv t g s" "map_of (rb_entries (ad_bus s)) mid = Some (t', e)"
  shows "t' = t \<and> e \<in> snd ` set (ad_given s)"
proof -
  from assms have "t' = t" "latest_entry mid (noted s) = Some e"
    by (auto simp: adapter_inv_def entries_known_def)
  moreover have "set (noted s) \<subseteq> set (ad_given s)"
    by (auto simp: noted_def split: gen.split dest: in_set_butlastD)
  ultimately show ?thesis using latest_given by fastforce
qed

lemma sending_inv:
  assumes "adapter_inv t g s"
    and "\<And>cmds t' g' e. r = Inr cmds \<Longrightarrow> XAck t' g' e \<in> set cmds \<Longrightarrow>
      t' = t \<and> g' = g \<and> e \<in> snd ` set (ad_given s)"
  shows "adapter_inv t g (sending r s)"
proof (cases r)
  case (Inr cmds)
  have "set (ad_retrying s) \<subseteq> fst ` set (ad_given s)"
    using assms(1) by (simp add: adapter_inv_def topic_kept_def)
  from adapter_inv_sent [OF assms(1) assms(2) [OF Inr] this] Inr show ?thesis by (simp add: sending_def)
qed (use assms(1) in \<open>simp add: sending_def\<close>)

lemma no_ack_published: "redis_publish dumps reply t m n b = Inr cmds \<Longrightarrow> XAck t' g' e \<notin> set cmds"
  by (auto simp: redis_publish_def split: if_splits option.splits)

lemma retry_call_inv:
  assumes "adapter_inv t g s" "m \<in> fst ` set (ad_given s)"
  shows "adapter_inv t g (retry_call dumps m reply s)"
proof -
  from assms have "set (ad_retrying s @ [m]) \<subseteq> fst ` set (ad_given s)"
    by (auto simp: adapter_inv_def topic_kept_def)
  note A = adapter_inv_sent [OF assms(1) _ this]
  show ?thesis
    using assms(1) by (auto simp: retry_call_def dest: no_ack_published intro!: A split: option.split sum.split)
qed

lemma retry_done_inv:
  assumes inv: "adapter_inv t g s"
  shows "adapter_inv t g (retry_done m s)"
proof (cases "m \<in> set (ad_retrying s)")
  case True
  from inv have kept: "topic_kept t g s" by (simp add: adapter_inv_def)
  then have sub: "set (remove1 m (ad_retrying s)) \<subseteq> fst ` set (ad_given s)"
    and m: "ms_topic m = Some t" and g: "rb_group (ad_bus s) = g"
    using True set_remove1_subset by (fastforce simp: topic_kept_def)+
  note A = adapter_inv_sent [OF inv _ sub]
  show ?thesis
  proof (cases "map_of (rb_entries (ad_bus s)) (ms_id m)")
    case None
    with A [of "[]"] True m show ?thesis by (simp add: retry_done_def Let_def)
  next
    case (Some p)
    obtain t' e where p: "p = (t', e)" by (cases p)
    have "t' = t \<and> e \<in> snd ` set (ad_given s)" using known_entry_given [OF inv] Some p by blast
    with A [of "[XAck t g e]"] True m g Some p show ?thesis by (simp add: retry_done_def Let_def)
  qed
qed (use inv in \<open>simp add: retry_done_def\<close>)

lemma bus_step_inv:
  assumes inv: "adapter_inv t g s" and ok: "call_ok c s"
  shows "adapter_inv t g (bus_step dumps parse number t c s)"
proof (cases c)
  case (CStart reached)
  with adapter_inv_connection(1) [OF adapter_inv_connection(2) [OF inv], of True True]
    adapter_inv_connection(2) [OF inv, of True]
  show ?thesis by (simp add: adapter_start_def)
next
  case CStop
  with adapter_inv_connection(1) [OF inv, of False] show ?thesis by (simp add: adapter_stop_def)
next
  case (CAcknowledge m)
  have "t' = t \<and> g' = g \<and> e \<in> snd ` set (ad_given s)"
    if "redis_acknowledge m (ad_bus s) = Inr cmds" "XAck t' g' e \<in> set cmds" for cmds t' g' e
    using that inv known_entry_given [OF inv]
    by (auto simp: redis_acknowledge_def adapter_inv_def topic_kept_def split: if_splits option.splits)
  with CAcknowledge inv show ?thesis by (simp add: sending_inv)
next
  case (CPublish m n reply)
  with inv show ?thesis by (auto intro!: sending_inv dest: no_ack_published)
next
  case (CRetry m reply)
  with ok inv show ?thesis by (simp add: call_ok_def retry_call_inv)
qed (use inv in \<open>simp_all add: next_call_inv reply_call_inv retry_done_inv\<close>)

lemma bus_reach_inv: "bus_reach dumps parse number t g s \<Longrightarrow> adapter_inv t g s"
  by (induction rule: bus_reach.induct) (simp_all add: adapter_inv_new bus_step_inv)

text \<open>
  C22: Whatever the order of the calls and the answers of Redis, the adapter gives the entries it receives in their
  order, each once, and only an error of its generator leaves any of them out. It acknowledges nothing but
  entries that it has given, on its topic and for its group. Acknowledging a message sends the entry under
  which its identifier was noted last, and nothing while the generator still stands at its first delivery.
\<close>

theorem redis_adapter_sound:
  assumes "bus_reach dumps parse number t g s"
  shows "(\<exists>more. map snd (ad_given s) @ more = map fst (ad_taken s) \<and>
       ((\<forall>err. ad_gen s \<noteq> GFailed err) \<longrightarrow> more = map fst (waiting_batch s))) \<and>
    (\<forall>t' g' e. XAck t' g' e \<in> set (ad_sent s) \<longrightarrow> t' = t \<and> g' = g \<and> e \<in> snd ` set (ad_given s)) \<and>
    (rb_connected (ad_bus s) \<longrightarrow> redis_acknowledge m (ad_bus s) =
       Inr (case latest_entry (ms_id m) (noted s) of None \<Rightarrow> [] | Some e \<Rightarrow> [XAck t g e]))"
proof -
  have inv: "adapter_inv t g s" by (rule bus_reach_inv [OF assms])
  have "redis_acknowledge m (ad_bus s) =
      Inr (case latest_entry (ms_id m) (noted s) of None \<Rightarrow> [] | Some e \<Rightarrow> [XAck t g e])"
    if "rb_connected (ad_bus s)"
    using that inv
    by (auto simp: redis_acknowledge_def adapter_inv_def entries_known_def topic_kept_def split: option.split)
  with inv show ?thesis by (simp add: adapter_inv_def order_kept_def acks_given_def)
qed

definition demo_calls :: "bus_call list" where
  "demo_calls = [CStart True, CNext None,
     CReply (ReadEntries [(''t'', [(''1-0'', [(''message_id'', ''m1'')]), (''2-0'', [(''message_id'', ''m2'')])])]),
     CNext None]"

definition demo_bus_message :: "string \<Rightarrow> message" where
  "demo_bus_message i = \<lparr>ms_id = i, ms_payload = PNone, ms_headers = [], ms_attempt = 1, ms_topic = Some ''t''\<rparr>"

theorem redis_adapter_sound_witness:
  "\<exists>s. bus_reach (\<lambda>_. []) (\<lambda>_. Inr PNone) (\<lambda>_. Inr 1) ''t'' ''g'' s \<and>
     redis_acknowledge (demo_bus_message ''m1'') (ad_bus s) = Inr [XAck ''t'' ''g'' ''1-0''] \<and>
     redis_acknowledge (demo_bus_message ''m2'') (ad_bus s) = Inr []"
proof -
  let ?step = "bus_step (\<lambda>_. []) (\<lambda>_. Inr PNone) (\<lambda>_. Inr 1) ''t''"
  let ?reach = "bus_reach (\<lambda>_. []) (\<lambda>_. Inr PNone) (\<lambda>_. Inr 1) ''t'' ''g''"
  let ?s = "fold ?step demo_calls (new_adapter ''g'')"
  have "?reach s \<Longrightarrow> list_all (\<lambda>c. \<forall>s. call_ok c s) cs \<Longrightarrow> ?reach (fold ?step cs s)" for cs s
    by (induction cs arbitrary: s) (auto intro: bus_reach.step)
  from this [OF bus_reach.start, of demo_calls] have reach: "?reach ?s"
    by (simp add: demo_calls_def call_ok_def)
  have "rb_connected (ad_bus ?s)" "noted ?s = [(demo_bus_message ''m1'', ''1-0'')]"
    by (simp_all add: demo_calls_def new_adapter_def adapter_start_def next_call_def ensure_group_def read_on_def
        reply_call_def give_next_def redis_message_def new_redis_bus_def noted_def note_entry_def demo_bus_message_def
        headers_of_def Let_def)
  with redis_adapter_sound [OF reach, of "demo_bus_message ''m1''"] redis_adapter_sound [OF reach, of "demo_bus_message ''m2''"]
  have "redis_acknowledge (demo_bus_message ''m1'') (ad_bus ?s) = Inr [XAck ''t'' ''g'' ''1-0'']"
    "redis_acknowledge (demo_bus_message ''m2'') (ad_bus ?s) = Inr []"
    by (simp_all add: latest_entry_def demo_bus_message_def)
  with reach show ?thesis by blast
qed

text \<open>
  An entry that cannot be read ends the generator for good: it is never given, and nothing that comes after it
  is read.
\<close>

lemma unreadable_entry_ends_consumption:
  fixes dumps :: "pval \<Rightarrow> string"
  assumes "ad_gen s = GReading" "redis_message parse number t entry fs = Inl err"
    and "concat (map snd response) = (entry, fs) # rest"
  defines "s1 \<equiv> bus_step dumps parse number t (CReply (ReadEntries response)) s"
  shows "ad_gen (fold (bus_step dumps parse number t) cs s1) = GFailed err \<and>
    ad_given (fold (bus_step dumps parse number t) cs s1) = ad_given s"
proof -
  have "ad_gen s1 = GFailed err \<and> ad_given s1 = ad_given s"
    using assms(1-3) by (simp add: s1_def reply_call_def give_next_def)
  moreover have "ad_gen (bus_step dumps parse number t c u) = GFailed err \<and>
      ad_given (bus_step dumps parse number t c u) = ad_given u" if "ad_gen u = GFailed err" for c u
    using that
    by (cases c) (auto simp: adapter_start_def adapter_stop_def next_call_def reply_call_def sending_def
        retry_call_def retry_done_def split: sum.split option.split)
  ultimately show ?thesis by (induction cs arbitrary: s1) auto
qed

end
