(* ===== verification/SharedClient.thy ===== *)
theory SharedClient
  imports PlatformNodes
begin

text \<open>
  The process-wide HTTP client of \<open>src/src/prismpipe/deepiri_nodes.py\<close>: \<open>_shared_http_client\<close> and its asynchronous
  twin look for the client, take a lock when there is none, look again and make it. Callers are numbered; a step
  is what one caller does between two points where another may run. And the requests of the warm-up.
\<close>

section \<open>Making the client\<close>

record client_limits =
  cl_connections :: int
  cl_keepalive :: int

text \<open>Both limits are read from the environment; \<open>number\<close> is \<open>int\<close> of a text.\<close>

definition read_limits :: "(string \<Rightarrow> py_error + int) \<Rightarrow> platform \<Rightarrow> py_error + client_limits" where
  "read_limits number pl =
     bindE (number (getenv pl ''DEEPIRI_HTTP_MAX_CONNECTIONS'' ''32'')) (\<lambda>c.
     bindE (number (getenv pl ''DEEPIRI_HTTP_MAX_KEEPALIVE'' ''16'')) (\<lambda>k.
     Inr \<lparr>cl_connections = c, cl_keepalive = k\<rparr>))"

datatype 'c caller = Calling | AtLock | Locked | GotClient 'c | CallRaised py_error

record 'c client_pool =
  po_client :: "'c option"
  po_lock :: "nat option"
  po_callers :: "nat \<Rightarrow> 'c caller"
  po_made :: "'c list"

definition new_client_pool :: "'c client_pool" where
  "new_client_pool = \<lparr>po_client = None, po_lock = None, po_callers = (\<lambda>_. Calling), po_made = []\<rparr>"

definition becomes :: "nat \<Rightarrow> 'c caller \<Rightarrow> 'c client_pool \<Rightarrow> 'c client_pool" where
  "becomes i x p = p\<lparr>po_callers := (po_callers p)(i := x)\<rparr>"

text \<open>What making a client gives, an exception or a client, is an argument of the step that makes it.\<close>

inductive pool_step :: "nat \<Rightarrow> py_error + 'c \<Rightarrow> 'c client_pool \<Rightarrow> 'c client_pool \<Rightarrow> bool" where
  seen: "po_callers p i = Calling \<Longrightarrow> po_client p = Some c \<Longrightarrow> pool_step i made p (becomes i (GotClient c) p)"
| missed: "po_callers p i = Calling \<Longrightarrow> po_client p = None \<Longrightarrow> pool_step i made p (becomes i AtLock p)"
| enters: "po_callers p i = AtLock \<Longrightarrow> po_lock p = None \<Longrightarrow>
    pool_step i made p ((becomes i Locked p)\<lparr>po_lock := Some i\<rparr>)"
| finds: "po_callers p i = Locked \<Longrightarrow> po_client p = Some c \<Longrightarrow>
    pool_step i made p ((becomes i (GotClient c) p)\<lparr>po_lock := None\<rparr>)"
| makes: "po_callers p i = Locked \<Longrightarrow> po_client p = None \<Longrightarrow>
    pool_step i (Inr c) p ((becomes i (GotClient c) p)\<lparr>po_lock := None, po_client := Some c, po_made := po_made p @ [c]\<rparr>)"
| fails: "po_callers p i = Locked \<Longrightarrow> po_client p = None \<Longrightarrow>
    pool_step i (Inl err) p ((becomes i (CallRaised err) p)\<lparr>po_lock := None\<rparr>)"

inductive pool_reach :: "'c client_pool \<Rightarrow> bool" where
  pool_new: "pool_reach new_client_pool"
| pool_next: "pool_reach p \<Longrightarrow> pool_step i made p p' \<Longrightarrow> pool_reach p'"

definition pool_inv :: "'c client_pool \<Rightarrow> bool" where
  "pool_inv p \<longleftrightarrow>
     po_made p = (case po_client p of None \<Rightarrow> [] | Some c \<Rightarrow> [c]) \<and>
     (\<forall>i c. po_callers p i = GotClient c \<longrightarrow> po_client p = Some c) \<and>
     (\<forall>i. po_callers p i = Locked \<longleftrightarrow> po_lock p = Some i)"

lemma holder_is_locked: "pool_inv p \<Longrightarrow> po_callers p i \<noteq> Locked \<Longrightarrow> po_lock p \<noteq> Some i"
  unfolding pool_inv_def by blast

lemma pool_step_inv: "pool_step i made p p' \<Longrightarrow> pool_inv p \<Longrightarrow> pool_inv p'"
proof (induction rule: pool_step.induct)
  case (seen p i c)
  then have "po_lock p \<noteq> Some i" by (simp add: holder_is_locked)
  with seen show ?case by (auto simp: pool_inv_def becomes_def)
next
  case (missed p i)
  then have "po_lock p \<noteq> Some i" by (simp add: holder_is_locked)
  with missed show ?case by (auto simp: pool_inv_def becomes_def)
qed (auto simp: pool_inv_def becomes_def split: if_splits)

lemma pool_reach_inv: "pool_reach p \<Longrightarrow> pool_inv p"
  by (induction rule: pool_reach.induct) (auto simp: pool_inv_def new_client_pool_def dest: pool_step_inv [unfolded pool_inv_def])

text \<open>One client at most is ever made, and every caller that gets one gets the same.\<close>

theorem one_client_for_all:
  assumes "pool_reach p"
  shows "length (po_made p) \<le> 1 \<and>
    (\<forall>i j c d. po_callers p i = GotClient c \<longrightarrow> po_callers p j = GotClient d \<longrightarrow> c = d)"
  using pool_reach_inv [OF assms] by (auto simp: pool_inv_def split: option.splits)

text \<open>No caller waits for ever: one that has not ended can step, or the owner of the lock can.\<close>

definition ended :: "'c caller \<Rightarrow> bool" where
  "ended x \<longleftrightarrow> (\<exists>c. x = GotClient c) \<or> (\<exists>err. x = CallRaised err)"

lemma locked_steps: "po_callers p i = Locked \<Longrightarrow> \<exists>p'. pool_step i made p p'"
  by (cases "po_client p"; cases made) (blast intro: pool_step.intros)+

theorem pool_never_stuck:
  assumes "pool_reach p" "\<not> ended (po_callers p i)"
  shows "\<exists>j p'. pool_step j made p p' \<and> (j = i \<or> po_lock p = Some j)"
proof (cases "po_callers p i")
  case AtLock
  show ?thesis
  proof (cases "po_lock p")
    case None
    with AtLock show ?thesis by (blast intro: pool_step.intros)
  next
    case (Some j)
    then have "po_callers p j = Locked" using pool_reach_inv [OF assms(1)] by (simp add: pool_inv_def)
    with Some locked_steps [of p j made] show ?thesis by blast
  qed
next
  case Calling
  then show ?thesis by (cases "po_client p") (blast intro: pool_step.intros)+
next
  case Locked
  with locked_steps [of p i made] show ?thesis by blast
qed (use assms(2) in \<open>simp_all add: ended_def\<close>)

section \<open>Requests over the client\<close>

text \<open>
  A request whose client cannot be made reports the exception as any other failure of the exchange, in both
  versions. The warm-up makes its client outside of any handler, so that there the exception is raised.
\<close>

definition client_request_json ::
    "(string \<Rightarrow> py_error + int) \<Rightarrow> platform \<Rightarrow> bool \<Rightarrow> string \<Rightarrow> string \<Rightarrow> dict \<Rightarrow> rat option \<Rightarrow> py_error + pval" where
  "client_request_json number pl present method url headers timeout =
     bindE (case timeout of Some t \<Rightarrow> Inr t | None \<Rightarrow> env_float pl ''DEEPIRI_PROBE_TIMEOUT_S'' ''0.8'') (\<lambda>t.
       case (if present then Inr () else map_sum id (\<lambda>_. ()) (read_limits number pl)) of
         Inl err \<Rightarrow> Inr (read_reply url (HttpRaised (exn_str (\<lambda>_. []) err)))
       | Inr _ \<Rightarrow> Inr (read_reply url (pl_http pl method url headers t)))"

lemma client_request_with_client:
  "client_request_json number pl True = http_request_json pl"
  by (intro ext) (simp add: client_request_json_def http_request_json_def)

lemma client_request_without_client:
  assumes "read_limits number pl = Inl err"
  shows "client_request_json number pl False method url headers (Some t) =
    Inr (probe_result False 0 (PDict [(''error'', PStr (exn_str (\<lambda>_. []) err))]) url)"
  by (simp add: client_request_json_def assms read_reply_def)

definition warmup_urls :: "platform \<Rightarrow> string list" where
  "warmup_urls pl = [auth_base pl @ ''/health'', lis_base pl @ ''/health'']"

text \<open>\<open>warmup_deepiri_http\<close> gives the requests it makes; how they end does not matter.\<close>

definition warmup_http :: "(string \<Rightarrow> py_error + int) \<Rightarrow> platform \<Rightarrow> bool \<Rightarrow> py_error + string list" where
  "warmup_http number pl present =
     (if present then Inr (warmup_urls pl)
      else map_sum id (\<lambda>_. warmup_urls pl) (read_limits number pl))"

text \<open>\<open>warmup_deepiri_http_async\<close>: the asynchronous client is made inside a handler.\<close>

definition warmup_http_async :: "(string \<Rightarrow> py_error + int) \<Rightarrow> platform \<Rightarrow> bool \<Rightarrow> bool \<Rightarrow> py_error + string list" where
  "warmup_http_async number pl present apresent =
     map_sum id (\<lambda>urls. urls @ (if apresent then warmup_urls pl
         else case read_limits number pl of Inl _ \<Rightarrow> [] | Inr _ \<Rightarrow> warmup_urls pl))
       (warmup_http number pl present)"

text \<open>
  A limit that is no number stops the warm-up, and with it the start of the server, although every request
  of the service would go on and report it.
\<close>

theorem bad_limit_stops_warmup:
  assumes "read_limits number pl = Inl err"
  shows "warmup_http_async number pl False apresent = Inl err \<and>
    (\<forall>method url headers t. \<exists>v. client_request_json number pl False method url headers (Some t) = Inr v)"
  using assms by (simp add: warmup_http_async_def warmup_http_def client_request_without_client)

end
