(* ===== verification/ServerLife.thy ===== *)
theory ServerLife
  imports SharedClient
begin

text \<open>
  The process around the endpoints of \<open>src/server.py\<close>: what is configured from the environment, the order of
  starting and stopping (\<open>lifespan\<close>), and the middleware that every request passes. What a part of the start or of the
  stop ends with is an argument.
\<close>

section \<open>Configuration\<close>

datatype backend_kind = InMemory | InRedis string | InPostgres string

definition configure_persistence :: "(string \<Rightarrow> string option) \<Rightarrow> backend_kind" where
  "configure_persistence env =
     (case env ''REDIS_URL'' of
        Some (c # url) \<Rightarrow> InRedis (c # url)
      | _ \<Rightarrow> (case env ''DATABASE_URL'' of Some (c # dsn) \<Rightarrow> InPostgres (c # dsn) | _ \<Rightarrow> InMemory))"

text \<open>The URL of the broker and the base URL of the vectorizer; nothing without a broker.\<close>

definition configure_consumer :: "(string \<Rightarrow> string option) \<Rightarrow> (string \<times> string option) option" where
  "configure_consumer env =
     (case env ''REDIS_URL'' of Some (c # url) \<Rightarrow> Some (c # url, env ''CYREX_BASE_URL'') | _ \<Rightarrow> None)"

lemma consumer_needs_broker:
  "configure_consumer env = None \<longleftrightarrow> (\<forall>url. configure_persistence env \<noteq> InRedis url)"
  by (auto simp: configure_consumer_def configure_persistence_def split: option.splits list.splits)

section \<open>Starting and stopping\<close>

datatype life_act = WarmedUp | Primed | ConsumerStarted | Serving | ConsumerStopped | VectorizerClosed

record life_outcomes =
  lo_warmup :: "py_error + unit"
  lo_start :: "py_error + unit"
  lo_serve :: "py_error + unit"
  lo_stop :: "py_error + unit"
  lo_close :: "py_error + unit"

text \<open>An action that succeeds is listed; one that raises ends the sequence.\<close>

fun acting :: "(life_act \<times> (py_error + unit)) list \<Rightarrow> life_act list \<times> py_error option" where
  "acting [] = ([], None)"
| "acting ((a, Inl err) # rest) = ([], Some err)"
| "acting ((a, Inr _) # rest) = (let (acts, err) = acting rest in (a # acts, err))"

definition startup :: "bool \<Rightarrow> life_outcomes \<Rightarrow> life_act list \<times> py_error option" where
  "startup configured o' =
     acting ([(WarmedUp, lo_warmup o'), (Primed, Inr ())] @ (if configured then [(ConsumerStarted, lo_start o')] else []))"

definition teardown :: "bool \<Rightarrow> life_outcomes \<Rightarrow> life_act list \<times> py_error option" where
  "teardown configured o' =
     acting (if configured then [(ConsumerStopped, lo_stop o'), (VectorizerClosed, lo_close o')] else [])"

text \<open>\<open>finally\<close>: an exception of the tear-down replaces the one that ended the service.\<close>

definition lifespan :: "bool \<Rightarrow> life_outcomes \<Rightarrow> life_act list \<times> py_error option" where
  "lifespan configured o' =
     (case startup configured o' of
        (acts, Some err) \<Rightarrow> (acts, Some err)
      | (acts, None) \<Rightarrow>
          let (ends, err) = teardown configured o'
          in (acts @ Serving # ends,
              case err of Some x \<Rightarrow> Some x | None \<Rightarrow> (case lo_serve o' of Inl x \<Rightarrow> Some x | Inr _ \<Rightarrow> None)))"

lemmas life_defs = lifespan_def startup_def teardown_def

text \<open>The service runs after a complete start, and however it ends, the consumer's stop is attempted.\<close>

lemma serves_after_start:
  "Serving \<in> set (fst (lifespan configured o')) \<longleftrightarrow> snd (startup configured o') = None"
  by (cases "lo_warmup o'"; cases "lo_start o'") (auto simp: life_defs split: prod.splits)

lemma serving_ends_with_stop:
  assumes "Serving \<in> set (fst (lifespan True o'))" "lo_stop o' = Inr ()"
  shows "ConsumerStopped \<in> set (fst (lifespan True o'))"
  using assms
  by (cases "lo_warmup o'"; cases "lo_start o'"; cases "lo_close o'") (auto simp: life_defs)

text \<open>
  The client of the vectorizer stays open when the consumer cannot be started, or when stopping it raises: the
  calls stand one after the other, and the start is outside of the \<open>try\<close>.
\<close>

theorem vectorizer_left_open:
  assumes "lo_start o' = Inl e1 \<or> lo_stop o' = Inl e2"
  shows "VectorizerClosed \<notin> set (fst (lifespan True o')) \<and> snd (lifespan True o') \<noteq> None"
  using assms
  by (cases "lo_warmup o'"; cases "lo_start o'"; cases "lo_stop o'") (auto simp: life_defs)

section \<open>The middleware\<close>

text \<open>
  \<open>add_request_id\<close>: the answer of the application and what is logged, without the duration. The handler of
  exceptions runs outside of the middleware, so that an exception passes through.
\<close>

definition request_line :: "string \<Rightarrow> string \<Rightarrow> string \<Rightarrow> int \<Rightarrow> string" where
  "request_line rid method path status =
     ''['' @ rid @ ''] '' @ method @ '' '' @ path @ '' '' @ show_int status"

text \<open>Names of headers are compared without case; \<open>setdefault\<close> keeps a header that the application has set.\<close>

type_synonym answered = "int \<times> (string \<times> string) list"

definition set_default_header :: "string \<Rightarrow> string \<Rightarrow> (string \<times> string) list \<Rightarrow> (string \<times> string) list" where
  "set_default_header k v hs = (if list_ex (\<lambda>(k', _). lower k' = lower k) hs then hs else hs @ [(k, v)])"

definition add_request_id ::
    "string option \<Rightarrow> string \<Rightarrow> string \<Rightarrow> string \<Rightarrow> py_error + answered \<Rightarrow> (py_error + answered) \<times> string" where
  "add_request_id incoming fresh method path answer =
     (let rid = request_id_of incoming fresh in
      case answer of
        Inl err \<Rightarrow> (Inl err, request_line rid method path 500)
      | Inr (status, hs) \<Rightarrow>
          (Inr (status, set_default_header ''X-Request-ID'' rid hs), request_line rid method path status))"

text \<open>Every answer carries a request identifier, and its status and its other headers are the application's.\<close>

lemma answers_are_identified:
  assumes "add_request_id incoming fresh method path (Inr (status, hs)) = (Inr (status', hs'), line)"
  shows "status' = status \<and> list_ex (\<lambda>(k, _). lower k = lower ''X-Request-ID'') hs' \<and>
    filter (\<lambda>(k, _). lower k \<noteq> lower ''X-Request-ID'') hs' = filter (\<lambda>(k, _). lower k \<noteq> lower ''X-Request-ID'') hs"
  using assms by (auto simp: add_request_id_def set_default_header_def Let_def list_ex_iff split: if_splits)

end
