(* ===== verification/BenchRuns.thy ===== *)
theory BenchRuns
  imports VectorizeRuntime OrganismApi
begin

text \<open>
  The benchmark scenarios of \<open>src/scripts/bench/run_prismpipe_bench.py\<close> on the engine and the nodes of
  \<open>bench_nodes.py\<close>, and what they are to show: identical requests are computed once, and a swarm reduces to the
  sum of its data. Each execution has its own readings of the environment; the clock of the benchmark and the
  events of each race are functions of their number. The scenario of concurrent requests is left out: its
  tasks interleave inside the engine.
\<close>

section \<open>The engine of a benchmark\<close>

definition bench_nodes :: "(string \<Rightarrow> int option) \<Rightarrow> node list" where
  "bench_nodes read =
     [plain_node ''BenchComputeNode'' False ''bench.compute'' (bench_compute_process read),
      plain_node ''PartitionSumNode'' False ''bench.partition_sum'' partition_sum_process,
      plain_node ''FastBranch'' False ''bench.fast'' (branch_process ''fast''),
      plain_node ''SlowBranch'' True ''bench.slow'' (branch_process ''slow'')]"

text \<open>The persistence over a storage in memory is a state of the one scenario that uses it.\<close>

definition bench_engine :: "(string \<Rightarrow> int option) \<Rightarrow> cgraph \<Rightarrow> executor \<Rightarrow> prism" where
  "bench_engine read g x = register_all (bench_nodes read) (new_prism g x)"

record bench_io =
  bi_run :: "nat \<Rightarrow> xio"
  bi_uid :: "nat \<Rightarrow> string"
  bi_now :: "nat \<Rightarrow> rat"
  bi_perf :: "nat \<Rightarrow> rat"
  bi_events :: "nat \<Rightarrow> race_event list"

definition bench_percentile :: "rat list \<Rightarrow> rat \<Rightarrow> rat" where
  "bench_percentile xs p =
     (if xs = [] then 0
      else let ordered = sort xs; last_index = int (length ordered) - 1
           in ordered ! nat (min last_index (max 0 (py_round (p * of_int last_index)))))"

text \<open>\<open>statistics.mean\<close> refuses an empty list.\<close>

definition mean :: "rat list \<Rightarrow> py_error + rat" where
  "mean xs =
     (if xs = [] then Inl (OtherError ''StatisticsError'' ''mean requires at least one data point'')
      else Inr (sum_list xs / of_nat (length xs)))"

lemma percentile_is_sample: "xs \<noteq> [] \<Longrightarrow> bench_percentile xs p \<in> set xs"
proof -
  assume xs: "xs \<noteq> []"
  let ?n = "int (length xs) - 1"
  have "0 \<le> ?n" using xs by (cases xs) auto
  then have "nat (min ?n (max 0 (py_round (p * of_int ?n)))) < length xs" using xs by (cases xs) auto
  then have "sort xs ! nat (min ?n (max 0 (py_round (p * of_int ?n)))) \<in> set (sort xs)" by (intro nth_mem) simp
  with xs show ?thesis by (simp add: bench_percentile_def Let_def)
qed

lemma latency_summary_in_range:
  assumes "mean xs = Inr m"
  shows "Min (set xs) \<le> m \<and> m \<le> Max (set xs) \<and> Min (set xs) \<le> bench_percentile xs p \<and>
    bench_percentile xs p \<le> Max (set xs)"
proof -
  from assms have xs: "xs \<noteq> []" and m: "m = sum_list xs / of_nat (length xs)"
    by (auto simp: mean_def split: if_splits)
  have "sum_list (map (\<lambda>_. Min (set xs)) xs) \<le> sum_list xs" "sum_list xs \<le> sum_list (map (\<lambda>_. Max (set xs)) xs)"
    using sum_list_mono [of xs "\<lambda>_. Min (set xs)" "\<lambda>x. x"] sum_list_mono [of xs "\<lambda>x. x" "\<lambda>_. Max (set xs)"]
    by simp_all
  then have "of_nat (length xs) * Min (set xs) \<le> sum_list xs" "sum_list xs \<le> of_nat (length xs) * Max (set xs)"
    by (simp_all add: sum_list_triv)
  with xs m have "Min (set xs) \<le> m \<and> m \<le> Max (set xs)"
    by (simp add: pos_le_divide_eq pos_divide_le_eq mult.commute)
  with percentile_is_sample [OF xs] show ?thesis by simp
qed

section \<open>Identical requests\<close>

text \<open>\<open>None\<close> is an execution that never returns; an error ends the scenario.\<close>

fun dedup_loop :: "bench_io \<Rightarrow> nat \<Rightarrow> nat \<Rightarrow> prism \<Rightarrow> (py_error option \<times> prism) option" where
  "dedup_loop b i 0 pe = Some (None, pe)"
| "dedup_loop b i (Suc n) pe =
     (let (o', pe1) = spawn_organism (bi_uid b i) (bi_now b i) (Inr ''bench'') [(''n'', PInt 42)]
                        (Some ''bench.compute'') None pe
      in case execute_organism (bi_run b i) (pe_graph pe1) True o' pe1 of
           None \<Rightarrow> None
         | Some (Some err, _, pe2) \<Rightarrow> Some (Some err, pe2)
         | Some (None, _, pe2) \<Rightarrow> dedup_loop b (Suc i) n pe2)"

record dedup_report =
  de_wall_ms :: rat
  de_ratio :: rat
  de_hit_ratio :: rat
  de_unique :: nat
  de_hits :: nat
  de_misses :: nat

definition dedup_report_of :: "bench_io \<Rightarrow> prism \<Rightarrow> dedup_report" where
  "dedup_report_of b pe =
     (let stats = get_deduplication_stats (pe_graph pe)
      in \<lparr>de_wall_ms = (bi_perf b 1 - bi_perf b 0) * 1000, de_ratio = dd_ratio stats,
          de_hit_ratio = dd_hit_ratio stats, de_unique = dd_unique stats, de_hits = dd_hits stats,
          de_misses = dd_misses stats\<rparr>)"

definition scenario_dedup :: "bench_io \<Rightarrow> nat \<Rightarrow> prism \<Rightarrow> ((py_error + dedup_report) \<times> prism) option" where
  "scenario_dedup b n pe =
     map_option (\<lambda>(err, pe'). (case err of Some x \<Rightarrow> Inl x | None \<Rightarrow> Inr (dedup_report_of b pe'), pe'))
       (dedup_loop b 0 n pe)"

text \<open>A cache with one entry, its node's count of executions, and the counts of hits and misses.\<close>

definition one_entry :: "string \<Rightarrow> string \<Rightarrow> coutput \<Rightarrow> int \<Rightarrow> nat \<Rightarrow> nat \<Rightarrow> cgraph \<Rightarrow> bool" where
  "one_entry key i e cnt hits misses g \<longleftrightarrow>
     (\<exists>nd. cg_nodes g = [(i, nd)] \<and> cn_execution_count nd = cnt) \<and> cg_hash g = [(key, i)] \<and>
     cg_outputs g = [(i, e)] \<and> \<not> cg_redis g \<and> cg_hits g = hits \<and> cg_misses g = misses"

definition no_entry :: "nat \<Rightarrow> nat \<Rightarrow> cgraph \<Rightarrow> bool" where
  "no_entry hits misses g \<longleftrightarrow> cg_nodes g = [] \<and> cg_hash g = [] \<and> cg_outputs g = [] \<and> \<not> cg_redis g \<and>
     0 < cg_max_entries g \<and> cg_hits g = hits \<and> cg_misses g = misses"

lemma one_entry_hit:
  assumes "one_entry key i e cnt hits misses g" "\<not> expired e now"
  shows "\<exists>hit g'. get_cached_result_by_key c key u reply ttl now g = Inr (Some hit, g') \<and>
    one_entry key i e (cnt + 1) (Suc hits) misses g' \<and> ca_state hit = co_state e \<and> ca_next hit = co_next e"
  using assms
  by (auto simp: one_entry_def get_cached_result_by_key_def l1_lookup_def bump_node_def move_to_end_def Let_def)

lemma one_entry_stats:
  assumes "one_entry key i e cnt hits misses g"
  shows "dd_unique (get_deduplication_stats g) = 1" "dd_ratio (get_deduplication_stats g) = of_int (cnt - 1)"
    "dd_hits (get_deduplication_stats g) = hits" "dd_misses (get_deduplication_stats g) = misses"
    "dd_hit_ratio (get_deduplication_stats g) = of_nat hits / of_nat (max (hits + misses) 1)"
  using assms
  by (auto simp: one_entry_def get_deduplication_stats_def deduplication_ratio_def total_reuses_def hit_ratio_def)

lemma no_entry_miss:
  assumes "no_entry hits misses g"
  shows "\<exists>g'. get_cached_result_by_key c key True reply ttl now g = Inr (None, g') \<and>
    no_entry hits (Suc misses) g' \<and> (\<forall>k b. ttl_for g' k b = ttl_for g k b)"
  using assms
  by (auto simp: no_entry_def get_cached_result_by_key_def l1_lookup_def hydrate_from_redis_def ttl_for_def
      split: option.split)

lemma no_entry_register:
  assumes "no_entry hits misses g"
  shows "\<exists>nd g' w i e. register_computation uid c h out lat True None nxt persist oh now g = Inr (nd, g', w) \<and>
    one_entry (lookup_key c h) i e 1 hits misses g' \<and> co_state e = out \<and> co_next e = nxt \<and>
    co_expires_at e = Some (now + of_int (ttl_for g c True))"
  using assms
  by (auto simp: no_entry_def one_entry_def register_computation_def register_new_def store_output_def move_to_end_def
      add_child_def evict.simps [of "cgraph.cg_outputs_update _ _"] Let_def)

lemma track_keeps_hops [simp]: "x_max_hops (track_usefulness st x) = x_max_hops x"
  by (simp add: track_usefulness_def Let_def split: pval.split option.split)

text \<open>What a run leaves of the executor's state.\<close>

definition tallied :: "nat \<Rightarrow> nat \<Rightarrow> nat \<Rightarrow> executor \<Rightarrow> bool" where
  "tallied hops cold warm x \<longleftrightarrow> wt_watchers (x_watcher x) = [] \<and> x_max_hops x = hops \<and>
     x_cold_steps x = cold \<and> x_warm_steps x = warm"

lemma tallied_frame [simp]:
  "tallied hops cold warm (xr_exec (publish ev r)) = tallied hops cold warm (xr_exec r)"
  by (simp add: tallied_def)

lemma tallied_notify:
  "tallied hops cold warm (xr_exec r) \<Longrightarrow> tallied hops cold warm (xr_exec (notify_run io ev r)) \<and>
     xr_org (notify_run io ev r) = xr_org r \<and> xr_graph (notify_run io ev r) = xr_graph r"
  by (simp add: tallied_def unwatched_notify_run)

lemma tallied_after_hop:
  assumes "tallied hops cold warm (xr_exec r)"
  shows "tallied hops cold warm (xr_exec (after_hop io oid c before r))"
    "xr_org (after_hop io oid c before r) = xr_org r" "xr_graph (after_hop io oid c before r) = xr_graph r"
  using assms
  by (auto simp: after_hop_def Let_def tallied_def unwatched_notify_run tick_def)

lemma tallied_finish:
  assumes "tallied hops cold warm (xr_exec r)"
  shows "tallied hops cold warm (xr_exec (finish_run io t r))"
    "xr_org (finish_run io t r) = after_run (xr_org r)" "xr_graph (finish_run io t r) = xr_graph r"
proof -
  show "xr_org (finish_run io t r) = after_run (xr_org r)"
    using assms by (simp add: finish_settled unwatched_def tallied_def)
  show "tallied hops cold warm (xr_exec (finish_run io t r))" "xr_graph (finish_run io t r) = xr_graph r"
    using assms
    by (simp_all add: finish_run_def Let_def tallied_def unwatched_notify_run on_exec_def on_org_def tick_def)
qed

lemma lookup_hit:
  assumes "one_entry key i e cnt hits misses (xr_graph r)" "\<And>t. \<not> expired e (xi_now io t)"
  shows "\<exists>hit r'. lookup io c key r = (Inr (Some hit), r') \<and> one_entry key i e (cnt + 1) (Suc hits) misses (xr_graph r') \<and>
    ca_state hit = co_state e \<and> ca_next hit = co_next e \<and> xr_org r' = xr_org r \<and> xr_exec r' = xr_exec r"
  using one_entry_hit [OF assms(1) assms(2) [of "xr_tick r"], where c = c and u = True
      and reply = "xi_get io (xr_tick r)" and ttl = "xi_ttl io (xr_tick r)"]
  by (auto simp: lookup_def tick_def)

lemma lookup_miss:
  assumes "no_entry hits misses (xr_graph r)"
  shows "\<exists>r'. lookup io c key r = (Inr None, r') \<and> no_entry hits (Suc misses) (xr_graph r') \<and>
    (\<forall>k b. ttl_for (xr_graph r') k b = ttl_for (xr_graph r) k b) \<and> xr_org r' = xr_org r \<and>
    xr_exec r' = xr_exec r \<and> xr_env r' = xr_env r"
  using no_entry_miss [OF assms, of c key "xi_get io (xr_tick r)" "xi_ttl io (xr_tick r)" "xi_now io (xr_tick r)"]
  by (auto simp: lookup_def tick_def)

text \<open>A node that succeeds without a timeout of its own and names no next capability.\<close>

definition final_node :: "node \<Rightarrow> envelope \<Rightarrow> dict \<Rightarrow> bool" where
  "final_node nd e st \<longleftrightarrow> nd_timeout_ms nd = None \<and>
     (\<exists>e'. nd_process nd e = Returned (ok_result e') \<and> env_next e' = None \<and> \<not> env_terminated e' \<and> env_state e' = st)"

lemma final_node_result:
  assumes "final_node nd e st"
  shows "\<exists>res. node_execute rt t nd e = Inr res \<and> res_success res \<and> \<not> env_terminated (res_envelope res) \<and>
    env_next (res_envelope res) = None \<and> env_state (res_envelope res) = st"
  using assms
  by (auto simp: final_node_def node_execute_def execute_with_timeout_def effective_timeout_def execute_sync_def ok_result_def)

lemma compute_final:
  fixes start :: rat and h :: string and io :: xio
  assumes "resolve nr c = Inr nd" "final_node nd (xr_env r) st" "no_entry hits misses (xr_graph r)"
    and "tallied hops cold warm (xr_exec r)" "\<not> org_terminated (xr_org r)" "CHR '':'' \<notin> set c"
  defines "r' \<equiv> compute io nr c (lookup_key c h) start r"
  shows "\<exists>i e t. one_entry (lookup_key c h) i e 1 hits misses (xr_graph r') \<and> co_state e = public_items st \<and>
    co_next e = None \<and> co_expires_at e = Some (xi_now io t + of_int (ttl_for (xr_graph r) c True)) \<and>
    tallied hops (Suc cold) warm (xr_exec r') \<and> og_next (xr_org r') = None \<and> og_state (xr_org r') = st \<and>
    \<not> org_terminated (xr_org r')"
proof -
  from final_node_result [OF assms(2)] obtain res where res:
    "node_execute (xi_rt io) (xr_tick r) nd (xr_env r) = Inr res" "res_success res"
    "\<not> env_terminated (res_envelope res)" "env_next (res_envelope res) = None" "env_state (res_envelope res) = st"
    by blast
  let ?r1 = "tick (take_result res r)"
  have r1: "xr_graph ?r1 = xr_graph r" "xr_env ?r1 = res_envelope res" "og_state (xr_org ?r1) = st"
    "og_next (xr_org ?r1) = None" "xr_exec ?r1 = xr_exec r" "org_terminated (xr_org ?r1) = org_terminated (xr_org r)"
    using res by (simp_all add: tick_def take_result_def Let_def org_terminated_def)
  from no_entry_register [OF assms(3), of "xi_uid io (xr_tick ?r1)" c h "public_items st"
      "(xi_perf io (xr_tick ?r1) - start) * 1000" None True "xi_ohash io (xr_tick ?r1)" "xi_now io (xr_tick ?r1)"]
  obtain nd' g' w i e where reg: "register_computation (xi_uid io (xr_tick ?r1)) c h (public_items st)
      ((xi_perf io (xr_tick ?r1) - start) * 1000) True None None True (xi_ohash io (xr_tick ?r1))
      (xi_now io (xr_tick ?r1)) (xr_graph r) = Inr (nd', g', w)"
    and e: "one_entry (lookup_key c h) i e 1 hits misses g'" "co_state e = public_items st" "co_next e = None"
      "co_expires_at e = Some (xi_now io (xr_tick ?r1) + of_int (ttl_for (xr_graph r) c True))" by blast
  have "xr_graph r' = g' \<and> xr_org r' = xr_org ?r1 \<and> tallied hops (Suc cold) warm (xr_exec r')"
    using assms(1,4) res reg r1
    by (simp add: r'_def compute_def after_colon_key [OF assms(6)] Let_def on_exec_def tick_def tallied_def)
  with e r1 assms(5) show ?thesis by auto
qed

lemma start_run_counted:
  assumes "tallied hops cold warm x"
  shows "tallied hops cold warm (xr_exec (start_run o' g x))" "xr_graph (start_run o' g x) = g"
    "xr_org (start_run o' g x) = o'\<lparr>og_status := EXECUTING\<rparr>" "xr_env (start_run o' g x) = to_envelope o'"
  using assms by (simp_all add: start_run_def Let_def tallied_def to_envelope_def)

lemma going_at:
  assumes "og_next (xr_org r) = Some n" "hop_capability (Some n) = Some c" "c \<noteq> []" "\<not> org_terminated (xr_org r)"
  shows "going r"
  using assms by (auto simp: going_def hop_capability_def split: if_splits)

lemma loop_one_hop:
  assumes "0 < n" "going r" "exec_hop io nr oid r = Some (Next r1)" "og_next (xr_org r1) = None"
  shows "exec_loop n io nr oid r = Some (None, r1)"
  using assms by (cases n) (simp_all add: loop_ends going_def)

lemma finished_run:
  assumes "exec_loop hops io nr (og_id o') (start_run o' g x) = Some (None, r1)" "x_max_hops x = hops"
    and "tallied hops cold warm (xr_exec r1)" "\<not> org_terminated (xr_org r1)"
  shows "\<exists>r. org_execute io nr o' g x = Some (None, r) \<and> tallied hops cold warm (xr_exec r) \<and>
    xr_graph r = xr_graph r1 \<and> xr_org r = (xr_org r1)\<lparr>og_status := LEARNING\<rparr>"
  using assms tallied_finish [OF assms(3), of io "xi_perf io 0"] by (auto simp: org_execute_def after_run_def)

text \<open>The first execution computes and leaves one entry; an execution that finds the entry takes it.\<close>

lemma cold_run:
  assumes at: "og_next o' = Some n" "hop_capability (Some n) = Some c" "c \<noteq> []" "CHR '':'' \<notin> set c"
    and nd: "resolve nr c = Inr nd" "final_node nd (to_envelope o') st"
    and g: "no_entry hits misses g" and x: "tallied hops cold warm x" "0 < hops"
  shows "\<exists>r i e t. org_execute io nr o' g x = Some (None, r) \<and>
    one_entry (step_key io c o') i e 1 hits (Suc (Suc misses)) (xr_graph r) \<and> co_state e = public_items st \<and>
    co_next e = None \<and> co_expires_at e = Some (xi_now io t + of_int (ttl_for g c True)) \<and>
    tallied hops (Suc cold) warm (xr_exec r) \<and> og_state (xr_org r) = st"
proof -
  let ?r = "start_run o' g x" and ?key = "step_key io c o'" and ?start = "xi_perf io (xr_tick (start_run o' g x))"
  note start = start_run_counted [OF x(1), of o' g]
  have key: "step_key io c (xr_org ?r) = ?key" by (simp add: start(3) step_key_def)
  have g0: "no_entry hits misses (xr_graph (tick ?r))" using g start(2) by (simp add: tick_def)
  from lookup_miss [OF g0, of io c ?key] obtain r1 where r1: "lookup io c ?key (tick ?r) = (Inr None, r1)"
    "no_entry hits (Suc misses) (xr_graph r1)" "\<forall>k b. ttl_for (xr_graph r1) k b = ttl_for (xr_graph (tick ?r)) k b"
    "xr_org r1 = xr_org (tick ?r)" "xr_exec r1 = xr_exec (tick ?r)" "xr_env r1 = xr_env (tick ?r)" by blast
  from lookup_miss [OF r1(2), of io c ?key] obtain r2 where r2: "lookup io c ?key r1 = (Inr None, r2)"
    "no_entry hits (Suc (Suc misses)) (xr_graph r2)" "\<forall>k b. ttl_for (xr_graph r2) k b = ttl_for (xr_graph r1) k b"
    "xr_org r2 = xr_org r1" "xr_exec r2 = xr_exec r1" "xr_env r2 = xr_env r1" by blast
  define r3 where "r3 = compute io nr c ?key ?start (tick r2)"
  have t2: "xr_env (tick r2) = to_envelope o'" "xr_graph (tick r2) = xr_graph r2"
    "xr_org (tick r2) = o'\<lparr>og_status := EXECUTING\<rparr>" "xr_exec (tick r2) = xr_exec ?r"
    using r1 r2 start by (simp_all add: tick_def)
  have "ttl_for (xr_graph r2) c True = ttl_for g c True" using r1(3) r2(3) start(2) by (simp add: tick_def)
  moreover have "step_key io c o' = lookup_key c (xi_hash io c (og_input o') (public_items (og_state o')))"
    by (simp add: step_key_def)
  ultimately obtain i e t where r3: "one_entry ?key i e 1 hits (Suc (Suc misses)) (xr_graph r3)" "co_state e = public_items st"
    "co_next e = None" "co_expires_at e = Some (xi_now io t + of_int (ttl_for g c True))"
    "tallied hops (Suc cold) warm (xr_exec r3)" "og_next (xr_org r3) = None" "og_state (xr_org r3) = st"
    "\<not> org_terminated (xr_org r3)"
    using compute_final [OF nd(1), of "tick r2" st hits "Suc (Suc misses)" hops cold warm
        "xi_hash io c (og_input o') (public_items (og_state o'))" io ?start] nd(2) r2(2) x(1) start(1) at(4) t2
    by (auto simp: r3_def org_terminated_def)
  have pass: "cold_loop io nr c ?key ?start r1 = Some (Done r3)"
    using r2(1,2) by (subst cold_loop.simps) (simp add: cold_pass_def r3_def no_entry_def)
  let ?r4 = "after_hop io (og_id o') c (og_state (xr_org ?r)) r3"
  note r4 = tallied_after_hop [OF r3(5), of io "og_id o'" c "og_state (xr_org ?r)"]
  have hop: "exec_hop io nr (og_id o') ?r = Some (Next ?r4)"
    using at r1(1) pass r3(8) key by (simp add: exec_hop_def org_capability_def start(3) Let_def)
  have "going ?r" using at by (intro going_at) (simp_all add: start(3) org_terminated_def)
  from loop_one_hop [OF x(2) this hop] have "exec_loop hops io nr (og_id o') ?r = Some (None, ?r4)"
    by (simp add: r4(2) r3(6))
  moreover have "x_max_hops x = hops" using x(1) by (simp add: tallied_def)
  moreover have "\<not> org_terminated (xr_org ?r4)" using r3(8) r4(2) by simp
  ultimately obtain r where "org_execute io nr o' g x = Some (None, r)" "tallied hops (Suc cold) warm (xr_exec r)"
    "xr_graph r = xr_graph ?r4" "xr_org r = (xr_org ?r4)\<lparr>og_status := LEARNING\<rparr>"
    using finished_run [OF _ _ r4(1)] by blast
  with r3 r4(2,3) show ?thesis by (intro exI [of _ r] exI [of _ i] exI [of _ e] exI [of _ t]) simp
qed

lemma warm_run:
  assumes at: "og_next o' = Some n" "hop_capability (Some n) = Some c" "c \<noteq> []"
    and g: "one_entry (step_key io c o') i e cnt hits misses g" "co_next e = None" "\<And>t. \<not> expired e (xi_now io t)"
    and x: "tallied hops cold warm x" "0 < hops"
  shows "\<exists>r hit. org_execute io nr o' g x = Some (None, r) \<and>
    one_entry (step_key io c o') i e (cnt + 1) (Suc hits) misses (xr_graph r) \<and>
    tallied hops cold (Suc warm) (xr_exec r) \<and> ca_state hit = co_state e \<and>
    og_state (xr_org r) = og_state (restored hit o')"
proof -
  let ?r = "start_run o' g x" and ?key = "step_key io c o'"
  note start = start_run_counted [OF x(1), of o' g]
  have key: "step_key io c (xr_org ?r) = ?key" by (simp add: start(3) step_key_def)
  have "one_entry ?key i e cnt hits misses (xr_graph (tick ?r))" using g(1) start(2) by (simp add: tick_def)
  from lookup_hit [OF this g(3)] obtain hit r1 where r1: "lookup io c ?key (tick ?r) = (Inr (Some hit), r1)"
    "one_entry ?key i e (cnt + 1) (Suc hits) misses (xr_graph r1)" "ca_state hit = co_state e" "ca_next hit = co_next e"
    "xr_org r1 = xr_org (tick ?r)" "xr_exec r1 = xr_exec (tick ?r)" by blast
  define r2 where "r2 = publish (BusCacheHit c (og_id (xr_org r1)) (cn_id (ca_node hit))) (restore hit r1)"
  have r2: "xr_org r2 = restored hit (o'\<lparr>og_status := EXECUTING\<rparr>)" "xr_graph r2 = xr_graph r1"
    "tallied hops cold (Suc warm) (xr_exec r2)"
    using r1(5,6) x(1) start by (simp_all add: r2_def restore_def Let_def tallied_def tick_def)
  let ?r3 = "after_hop io (og_id o') c (og_state (xr_org ?r)) r2"
  note r3 = tallied_after_hop [OF r2(3), of io "og_id o'" c "og_state (xr_org ?r)"]
  have hop: "exec_hop io nr (og_id o') ?r = Some (Next ?r3)"
    using at r1(1) key by (simp add: exec_hop_def org_capability_def start(3) r2_def Let_def)
  have live: "\<not> org_terminated (xr_org ?r3)" by (simp add: r3(2) r2(1) org_terminated_def)
  have "going ?r" using at by (intro going_at) (simp_all add: start(3) org_terminated_def)
  from loop_one_hop [OF x(2) this hop] have "exec_loop hops io nr (og_id o') ?r = Some (None, ?r3)"
    using g(2) r1(4) by (simp add: r3(2) r2(1))
  moreover have "og_state (restored hit (o'\<lparr>og_status := EXECUTING\<rparr>)) = og_state (restored hit o')"
    by (simp add: restored_def set_org_state_def Let_def)
  moreover have "x_max_hops x = hops" using x(1) by (simp add: tallied_def)
  ultimately obtain r where "org_execute io nr o' g x = Some (None, r)" "tallied hops cold (Suc warm) (xr_exec r)"
    "xr_graph r = xr_graph ?r3" "xr_org r = (xr_org ?r3)\<lparr>og_status := LEARNING\<rparr>"
    "og_state (restored hit (o'\<lparr>og_status := EXECUTING\<rparr>)) = og_state (restored hit o')"
    using finished_run [OF _ _ r3(1) live] by blast
  with r1(2,3) r2(1,2) r3(2,3) show ?thesis by (intro exI [of _ r] exI [of _ hit]) simp
qed

text \<open>The nodes are found, and the node for computations ends the request with its result.\<close>

lemma bench_routes:
  "resolve (pe_router (bench_engine read g x)) ''bench.compute'' =
     Inr (plain_node ''BenchComputeNode'' False ''bench.compute'' (bench_compute_process read))"
  "resolve (pe_router (bench_engine read g x)) ''bench.partition_sum'' =
     Inr (plain_node ''PartitionSumNode'' False ''bench.partition_sum'' partition_sum_process)"
  "pe_graph (bench_engine read g x) = g" "pe_exec (bench_engine read g x) = x" "pe_swarm (bench_engine read g x) = new_coordinator"
  by (simp_all add: bench_engine_def bench_nodes_def register_all_def register_node_def plain_node_def new_prism_def
      resolve_def resolve_registration_def resolve_capability_def register_def new_router_def dict_simps Let_def)

lemma ok_result_eq [simp]: "ok_result a = ok_result b \<longleftrightarrow> a = b"
  by (simp add: ok_result_def)

lemma public_items_empty [simp]: "public_items [] = []"
  by (simp add: public_items_def)

lemma compute_node_final:
  assumes "og_input o' = [(''n'', PInt k)]" "og_state o' = []"
  shows "final_node (plain_node ty off c (bench_compute_process read)) (to_envelope o') [(''result'', PInt (k * 2))]"
  using assms
  by (simp add: final_node_def plain_node_def bench_compute_process_def with_get_def with_int_def int_of_def got_def
      goes_to_def to_envelope_def set_state_def set_next_def)

text \<open>Spawning without watchers leaves routes, cache and counts alone.\<close>

lemma bench_spawn:
  assumes "tallied hops cold warm (pe_exec pe)" "spawn_organism uid now i inp (Some c) None pe = (o', pe1)" "c \<noteq> []"
  shows "og_next o' = Some c" "og_input o' = inp" "og_state o' = []" "pe_router pe1 = pe_router pe"
    "pe_graph pe1 = pe_graph pe" "tallied hops cold warm (pe_exec pe1)"
proof -
  let ?o = "(new_organism uid now i inp (Some c) None)\<lparr>og_plan := plan_add c (og_plan (new_organism uid now i inp (Some c) None))\<rparr>"
  have "fst (notify now ''spawned'' ?o (x_watcher (pe_exec pe))) = ?o"
    using assms(1) by (simp add: notify_def callbacks_of_def tallied_def)
  then show "og_next o' = Some c" "og_input o' = inp" "og_state o' = []"
    using assms(2,3) by (auto simp: spawn_organism_def new_organism_def Let_def split: prod.splits)
  show "pe_router pe1 = pe_router pe" "pe_graph pe1 = pe_graph pe" "tallied hops cold warm (pe_exec pe1)"
    using assms(1,2) by (auto simp: spawn_organism_def tallied_def Let_def notify_def)
qed

lemma execute_shared:
  assumes "org_execute io (pe_router pe) o' (pe_graph pe) (pe_exec pe) = Some (None, r)"
  shows "\<exists>pe'. execute_organism io fresh True o' pe = Some (None, xr_org r, pe') \<and> pe_graph pe' = xr_graph r \<and>
    pe_exec pe' = xr_exec r \<and> pe_router pe' = pe_router pe"
  using assms by (simp add: execute_organism_def)

abbreviation compute_route :: "(string \<Rightarrow> int option) \<Rightarrow> prism \<Rightarrow> bool" where
  "compute_route read pe \<equiv> resolve (pe_router pe) ''bench.compute'' =
     Inr (plain_node ''BenchComputeNode'' False ''bench.compute'' (bench_compute_process read))"

lemma compute_hop:
  "hop_capability (Some ''bench.compute'') = Some ''bench.compute''" "''bench.compute'' \<noteq> []"
  "CHR '':'' \<notin> set ''bench.compute''"
  by (simp_all add: hop_capability_def cap_prefix_def starts_with_def)

lemma dedup_warm:
  assumes hash: "\<And>j. xi_hash (bi_run b j) = H"
    and "one_entry (lookup_key ''bench.compute'' (H ''bench.compute'' [(''n'', PInt 42)] [])) i e cnt hits misses (pe_graph pe)"
    and e: "co_next e = None" "\<And>j t. \<not> expired e (xi_now (bi_run b j) t)"
    and "tallied hops cold warm (pe_exec pe)" "0 < hops"
  shows "\<exists>pe'. dedup_loop b j n pe = Some (None, pe') \<and>
    one_entry (lookup_key ''bench.compute'' (H ''bench.compute'' [(''n'', PInt 42)] [])) i e (cnt + int n) (hits + n) misses
      (pe_graph pe') \<and> tallied hops cold (warm + n) (pe_exec pe')"
  using assms(2,5)
proof (induction n arbitrary: j pe cnt hits warm)
  case 0
  then show ?case by simp
next
  case (Suc n)
  obtain o' pe1 where sp: "spawn_organism (bi_uid b j) (bi_now b j) (Inr ''bench'') [(''n'', PInt 42)]
      (Some ''bench.compute'') None pe = (o', pe1)" by (cases "spawn_organism (bi_uid b j) (bi_now b j) (Inr ''bench'')
        [(''n'', PInt 42)] (Some ''bench.compute'') None pe")
  note S = bench_spawn [OF Suc.prems(2) sp compute_hop(2)]
  have key: "step_key (bi_run b j) ''bench.compute'' o' = lookup_key ''bench.compute'' (H ''bench.compute'' [(''n'', PInt 42)] [])"
    using S(2,3) hash [of j] by (simp add: step_key_def)
  from warm_run [OF S(1) compute_hop(1,2) _ e(1) e(2) S(6) \<open>0 < hops\<close>, of j i cnt hits misses "pe_graph pe1"]
  obtain r where r: "org_execute (bi_run b j) (pe_router pe1) o' (pe_graph pe1) (pe_exec pe1) = Some (None, r)"
    "one_entry (lookup_key ''bench.compute'' (H ''bench.compute'' [(''n'', PInt 42)] [])) i e (cnt + 1) (Suc hits) misses (xr_graph r)"
    "tallied hops cold (Suc warm) (xr_exec r)"
    using Suc.prems(1) S(5) key by auto
  from execute_shared [OF r(1)] obtain pe2 where pe2:
    "execute_organism (bi_run b j) (pe_graph pe1) True o' pe1 = Some (None, xr_org r, pe2)"
    "pe_graph pe2 = xr_graph r" "pe_exec pe2 = xr_exec r" by blast
  from Suc.IH [of "cnt + 1" "Suc hits" pe2 "Suc warm" "Suc j"] r(2,3) pe2 sp show ?case
    by (simp add: algebra_simps)
qed

text \<open>
  C2: Identical requests are computed once. In a benchmark of any number of equal requests on a fresh engine
  with a local cache, as long as no entry expires meanwhile, the node runs for the first request only and all
  others are served from the cache; the report counts one computation, two misses (the lookup before and the
  one inside the single flight) and a hit for every other request. From three requests on it passes the
  thresholds of the benchmark.
\<close>

theorem identical_requests_computed_once:
  fixes b :: bench_io and ev :: "int option"
  assumes hash: "\<And>j. xi_hash (bi_run b j) = H" and n: "0 < n"
    and clock: "\<And>j t t'. xi_now (bi_run b j) t <
      xi_now (bi_run b 0) t' + of_int (ttl_for (new_graph m ttl neg caps prefix False) ''bench.compute'' True)"
  shows "\<exists>rep pe'. scenario_dedup b n (bench_engine read (new_graph m ttl neg caps prefix False) (new_executor new_watcher bus ev)) =
      Some (Inr rep, pe') \<and> x_cold_steps (pe_exec pe') = 1 \<and> x_warm_steps (pe_exec pe') = n - 1 \<and>
    de_unique rep = 1 \<and> de_misses rep = 2 \<and> de_hits rep = n - 1 \<and> de_ratio rep = of_nat (n - 1) \<and>
    de_hit_ratio rep = of_nat (n - 1) / of_nat (n + 1) \<and>
    (3 \<le> n \<longrightarrow> 2 \<le> de_ratio rep \<and> 1/2 \<le> de_hit_ratio rep)"
proof -
  let ?c = "''bench.compute''" and ?g = "new_graph m ttl neg caps prefix False" and ?x = "new_executor new_watcher bus ev"
  let ?pe = "bench_engine read ?g ?x" and ?key = "lookup_key ''bench.compute'' (H ''bench.compute'' [(''n'', PInt 42)] [])"
  obtain k where k: "n = Suc k" using n by (cases n) auto
  have g: "no_entry 0 0 ?g" by (simp add: no_entry_def new_graph_def)
  have x: "tallied (max_hops_of ev) 0 0 ?x" "0 < max_hops_of ev"
    by (auto simp: tallied_def new_executor_def new_watcher_def max_hops_of_def split: option.split)
  obtain o' pe1 where sp: "spawn_organism (bi_uid b 0) (bi_now b 0) (Inr ''bench'') [(''n'', PInt 42)] (Some ?c) None ?pe = (o', pe1)"
    by (cases "spawn_organism (bi_uid b 0) (bi_now b 0) (Inr ''bench'') [(''n'', PInt 42)] (Some ''bench.compute'') None ?pe")
  note S = bench_spawn [OF _ sp compute_hop(2), unfolded bench_routes, OF x(1)]
  have key: "step_key (bi_run b 0) ?c o' = ?key" using S(2,3) hash [of 0] by (simp add: step_key_def)
  have nd: "resolve (pe_router pe1) ?c = Inr (plain_node ''BenchComputeNode'' False ?c (bench_compute_process read))"
    using S(4) bench_routes(1) [of read ?g ?x] by simp
  from cold_run [OF S(1) compute_hop nd compute_node_final [OF S(2,3)] g S(6) x(2), of "bi_run b 0"]
  obtain r i e t where r: "org_execute (bi_run b 0) (pe_router pe1) o' (pe_graph pe1) (pe_exec pe1) = Some (None, r)"
    "one_entry ?key i e 1 0 2 (xr_graph r)" "co_next e = None"
    "co_expires_at e = Some (xi_now (bi_run b 0) t + of_int (ttl_for ?g ?c True))"
    "tallied (max_hops_of ev) 1 0 (xr_exec r)"
    unfolding S(5) key numeral_2_eq_2 One_nat_def by blast
  have live: "\<not> expired e (xi_now (bi_run b j) t')" for j t'
    using clock [of j t' t] r(4) by (simp add: expired_def not_le)
  from execute_shared [OF r(1)] obtain pe2 where pe2: "execute_organism (bi_run b 0) (pe_graph pe1) True o' pe1 =
      Some (None, xr_org r, pe2)" "pe_graph pe2 = xr_graph r" "pe_exec pe2 = xr_exec r" by blast
  from dedup_warm [OF hash _ r(3) live _ x(2), of i 1 0 2 pe2 1 0 1 k] r(2,5) pe2 obtain pe' where
    pe': "dedup_loop b 1 k pe2 = Some (None, pe')" "one_entry ?key i e (1 + int k) k 2 (pe_graph pe')"
      "tallied (max_hops_of ev) 1 k (pe_exec pe')" by auto
  have run: "scenario_dedup b n ?pe = Some (Inr (dedup_report_of b pe'), pe')"
    using sp pe2(1) pe'(1) by (simp add: k scenario_dedup_def)
  have rep: "de_unique (dedup_report_of b pe') = 1" "de_misses (dedup_report_of b pe') = 2"
    "de_hits (dedup_report_of b pe') = k" "de_ratio (dedup_report_of b pe') = of_nat k"
    "de_hit_ratio (dedup_report_of b pe') = of_nat k / of_nat (k + 2)"
    using one_entry_stats [OF pe'(2)] by (simp_all add: dedup_report_of_def Let_def)
  have "3 \<le> n \<Longrightarrow> (1/2 :: rat) \<le> of_nat k / of_nat (k + 2)" by (simp add: k field_simps)
  with run rep pe'(3) show ?thesis
    by (intro exI [of _ "dedup_report_of b pe'"] exI [of _ pe']) (simp add: k tallied_def)
qed

definition demo_bench :: bench_io where
  "demo_bench = \<lparr>bi_run = (\<lambda>_. demo_io), bi_uid = show_nat, bi_now = (\<lambda>_. 0), bi_perf = of_nat, bi_events = (\<lambda>_. [])\<rparr>"

theorem identical_requests_computed_once_witness:
  "\<exists>rep pe'. scenario_dedup demo_bench 100 (bench_engine (\<lambda>_. None) (new_graph 10 30 3 [] [] False)
       (new_executor new_watcher False None)) = Some (Inr rep, pe') \<and> de_hits rep = 99 \<and> x_cold_steps (pe_exec pe') = 1 \<and>
     2 \<le> de_ratio rep"
proof -
  have hash: "xi_hash (bi_run demo_bench j) = xi_hash demo_io" for j by (simp add: demo_bench_def)
  have clock: "xi_now (bi_run demo_bench j) t < xi_now (bi_run demo_bench 0) t' +
      of_int (ttl_for (new_graph 10 30 3 [] [] False) ''bench.compute'' True)" for j t t'
    by (simp add: demo_bench_def demo_io_def ttl_for_def new_graph_def)
  have "(0 :: nat) < 100" by simp
  from identical_requests_computed_once [OF hash this clock, of "\<lambda>_. None" False None] show ?thesis by auto
qed

section \<open>The other scenarios\<close>

text \<open>The time between two readings of the clock of the benchmark, in milliseconds.\<close>

definition span :: "bench_io \<Rightarrow> nat \<Rightarrow> rat" where
  "span b i = (bi_perf b (2 * i + 1) - bi_perf b (2 * i)) * 1000"

record latency_report =
  lr_avg :: rat
  lr_p95 :: rat

definition latency_report_of :: "rat list \<Rightarrow> py_error + latency_report" where
  "latency_report_of xs = bindE (mean xs) (\<lambda>m. Inr \<lparr>lr_avg = m, lr_p95 = bench_percentile xs (95/100)\<rparr>)"

lemma report_in_range:
  assumes "latency_report_of xs = Inr rep"
  shows "Min (set xs) \<le> lr_avg rep \<and> lr_avg rep \<le> Max (set xs) \<and> Min (set xs) \<le> lr_p95 rep \<and> lr_p95 rep \<le> Max (set xs)"
  using assms latency_summary_in_range by (auto simp: latency_report_of_def bindE_Inr)

text \<open>
  \<open>lineage_spawn_50\<close>: the parent computes, learns its result and spawns children; each looks up the score. What
  the children find is dropped by the code and kept here beside the report.
\<close>

fun lineage_children :: "bench_io \<Rightarrow> nat \<Rightarrow> nat \<Rightarrow> organism \<Rightarrow> atom option list \<times> organism" where
  "lineage_children b i 0 p = ([], p)"
| "lineage_children b i (Suc n) p =
     (let (child, p1) = spawn_child (bi_uid b i) (bi_now b i) None [(''n'', PInt 1)] None p;
          (found, p2) = lineage_children b (Suc i) n p1
      in (get_knowledge ''score'' child # found, p2))"

text \<open>Every child knows what its parent is sure of, a little less surely.\<close>

lemma lineage_children_know:
  assumes "wf_knowledge p" "get_knowledge ''score'' p = Some a" "ka_confidence a = 1"
  shows "length (fst (lineage_children b i n p)) = n \<and>
    (\<forall>f \<in> set (fst (lineage_children b i n p)). \<exists>x. f = Some x \<and> ka_value x = ka_value a \<and> ka_confidence x = 9/10)"
  using assms(1,2)
proof (induction n arbitrary: i p)
  case 0
  then show ?case by simp
next
  case (Suc n)
  obtain c p1 where sp: "spawn_child (bi_uid b i) (bi_now b i) None [(''n'', PInt 1)] None p = (c, p1)" by (metis surj_pair)
  then have "og_knowledge p1 = og_knowledge p" by (auto simp: spawn_child_def Let_def)
  then have p1: "wf_knowledge p1" "get_knowledge ''score'' p1 = Some a"
    using Suc.prems by (simp_all add: wf_knowledge_def get_knowledge_def)
  have "map_option (\<lambda>x. (ka_value x, ka_confidence x)) (get_knowledge ''score'' c) = Some (ka_value a, 9/10)"
    using child_inherits [OF Suc.prems(1), of "bi_uid b i" "bi_now b i" None "[(''n'', PInt 1)]" None] sp Suc.prems(2) assms(3)
    by (simp add: Let_def)
  with Suc.IH [OF p1, of "Suc i"] sp show ?case by (auto split: prod.split)
qed

definition scenario_lineage :: "bench_io \<Rightarrow> nat \<Rightarrow> prism \<Rightarrow> (py_error + latency_report \<times> atom option list) option" where
  "scenario_lineage b n pe =
     (let (p, pe1) = spawn_organism (bi_uid b 0) (bi_now b 0) (Inr ''bench'') [(''n'', PInt 1)] (Some ''bench.compute'') None pe
      in case execute_organism (bi_run b 0) (pe_graph pe1) True p pe1 of
           None \<Rightarrow> None
         | Some (Some err, _, _) \<Rightarrow> Some (Inl err)
         | Some (None, p1, _) \<Rightarrow>
             let p2 = ingest_knowledge (bi_now b 1) ''score'' (dict_get ''result'' (og_state p1)) 1 None [] p1;
                 found = fst (lineage_children b 2 n p2)
             in Some (bindE (latency_report_of (map (span b) [0..<n])) (\<lambda>rep. Inr (rep, found))))"

text \<open>\<open>time_split_3branch\<close>.\<close>

fun split_loop :: "bench_io \<Rightarrow> nat \<Rightarrow> nat \<Rightarrow> nat \<Rightarrow> nat \<Rightarrow> prism \<Rightarrow> prism option" where
  "split_loop b branches hops i 0 pe = Some pe"
| "split_loop b branches hops i (Suc n) pe =
     (let (o', pe1) = spawn_organism (bi_uid b i) (bi_now b i) (Inr ''split'') [] None None pe
      in case execute_organism_time_split (bi_run b i) branches hops o' [''bench.fast'', ''bench.slow''] (bi_events b i) pe1 of
           None \<Rightarrow> None
         | Some (_, pe2) \<Rightarrow> split_loop b branches hops (Suc i) n pe2)"

definition scenario_time_split :: "bench_io \<Rightarrow> nat \<Rightarrow> nat \<Rightarrow> nat \<Rightarrow> prism \<Rightarrow> (py_error + latency_report) option" where
  "scenario_time_split b branches hops n pe =
     map_option (\<lambda>_. latency_report_of (map (span b) [0..<n])) (split_loop b branches hops 0 n pe)"

text \<open>\<open>persist_hibernate_wake\<close>, with the storage in memory. The assertion is the \<open>AssertionError\<close>.\<close>

fun persist_loop :: "bench_io \<Rightarrow> nat \<Rightarrow> nat \<Rightarrow> hibernated pdict \<Rightarrow> hibernated memory \<Rightarrow> prism \<Rightarrow> (py_error option) option" where
  "persist_loop b i 0 p st pe = Some None"
| "persist_loop b i (Suc n) p st pe =
     (let (o', pe1) = spawn_organism (bi_uid b i) (bi_now b i) (Inr ''persist'') [(''n'', PInt (int i))]
                        (Some ''bench.compute'') None pe
      in case execute_organism (bi_run b i) (pe_graph pe1) True o' pe1 of
           None \<Rightarrow> None
         | Some (Some err, _, _) \<Rightarrow> Some (Some err)
         | Some (None, o1, pe2) \<Rightarrow>
             let (hid, d, o2, p1) = hibernate (bi_uid b i) (bi_now b i) o1 p;
                 st1 = mem_save hid d st;
                 (found, p2) = wake (bi_now b i) hid (mem_load hid st1) p1
             in if found = None then Some (Some (OtherError ''AssertionError'' []))
                else persist_loop b (Suc i) n p2 st1 pe2)"

definition scenario_persist :: "bench_io \<Rightarrow> nat \<Rightarrow> prism \<Rightarrow> (py_error + latency_report) option" where
  "scenario_persist b n pe =
     map_option (\<lambda>err. case err of Some x \<Rightarrow> Inl x | None \<Rightarrow> latency_report_of (map (span b) [0..<n]))
       (persist_loop b 0 n [] [] pe)"

text \<open>The assertion never fails: what was just hibernated is found.\<close>

lemma hibernated_is_found:
  assumes "hibernate uid t o' p = (hid, d, o1, p1)" "wake now hid backend p1 = (found, p2)"
  shows "found \<noteq> None"
  using assms by (auto simp: hibernate_def wake_def Let_def dict_simps)

lemma persist_step:
  assumes "spawn_organism (bi_uid b i) (bi_now b i) (Inr ''persist'') [(''n'', PInt (int i))] (Some ''bench.compute'') None pe = (o', pe1)"
    and "execute_organism (bi_run b i) (pe_graph pe1) True o' pe1 = Some (None, o1, pe2)"
  shows "\<exists>p2 st1. persist_loop b i (Suc n) p st pe = persist_loop b (Suc i) n p2 st1 pe2"
proof -
  obtain hid d o2 p1 where h: "hibernate (bi_uid b i) (bi_now b i) o1 p = (hid, d, o2, p1)" by (metis surj_pair)
  obtain found p2 where w: "wake (bi_now b i) hid (mem_load hid (mem_save hid d st)) p1 = (found, p2)" by (metis surj_pair)
  show ?thesis using assms h w hibernated_is_found [OF h w] by (auto simp: Let_def)
qed

end
