(* ===== verification/BenchSwarm.thy ===== *)
theory BenchSwarm
  imports BenchRuns
begin

text \<open>
  \<open>scenario_swarm_mapreduce_1k\<close> of \<open>src/scripts/bench/run_prismpipe_bench.py\<close>: numbers shared out over the
  workers of a swarm by their remainder, summed by each worker and the sums reduced to one. The theorem follows
  it through the whole engine: spawning, the swarm, the partitions, the shared cache, the node and the reducer.
\<close>

section \<open>The scenario\<close>

text \<open>\<open>lambda x: str(x % workers)\<close>, on the integers of \<open>range(n)\<close>.\<close>

fun remainder_key :: "nat \<Rightarrow> pval \<Rightarrow> string" where
  "remainder_key w (PInt k) = show_int (k mod int w)"
| "remainder_key w _ = []"

definition range_values :: "nat \<Rightarrow> pval list" where
  "range_values n = map (\<lambda>i. PInt (int i)) [0..<n]"

text \<open>\<open>lambda xs: sum(xs)\<close>; what is no number is not met here and stands for the \<open>TypeError\<close>.\<close>

definition sum_reducer :: "pval list \<Rightarrow> pval" where
  "sum_reducer xs = (case sum_values (PInt 0) xs of Some v \<Rightarrow> v | None \<Rightarrow> PNone)"

record swarm_report =
  wr_wall_ms :: rat
  wr_reduced :: pval
  wr_expected :: int
  wr_error_rate :: rat
  wr_workers :: nat

definition bench_swarm :: "bench_io \<Rightarrow> nat \<Rightarrow> prism \<Rightarrow> prism" where
  "bench_swarm b w pe =
     (let (template, pe1) = spawn_organism (bi_uid b 0) (bi_now b 0) (Inr ''swarm'') [] None None pe;
          (_, _, pe2) = engine_create_swarm (bi_now b 0) [] (Some ''bench_swarm'') template w pe1
      in pe2\<lparr>pe_swarm := register_reducer ''bench_swarm'' sum_reducer (set_partition_fn (remainder_key w) (pe_swarm pe2))\<rparr>)"

definition scenario_swarm :: "bench_io \<Rightarrow> nat \<Rightarrow> nat \<Rightarrow> prism \<Rightarrow> (py_error + swarm_report) \<times> prism" where
  "scenario_swarm b n w pe =
     (let pe1 = bench_swarm b w pe
      in if w = 0 \<and> 0 < n then (Inl (OtherError ''ZeroDivisionError'' ''integer modulo by zero''), pe1)
         else let (r, pe2) = engine_execute_swarm (bi_run b 0) ''bench_swarm'' ''bench.partition_sum'' (range_values n) False pe1
              in (bindE r (\<lambda>v. Inr \<lparr>wr_wall_ms = span b 0, wr_reduced = v, wr_expected = sum_list (map int [0..<n]),
                    wr_error_rate = swarm_error_rate (pe_swarm pe2), wr_workers = sc_workers (pe_swarm pe2)\<rparr>), pe2))"

section \<open>Sums\<close>

lemma sum_ints: "sum_values (PInt k) (map PInt xs) = Some (PInt (k + sum_list xs))"
  by (induction xs arbitrary: k) (simp_all add: algebra_simps flip: of_int_add)

lemma sum_reducer_ints: "sum_reducer (map PInt xs) = PInt (sum_list xs)"
  by (simp add: sum_reducer_def sum_ints)

lemma sum_of_concat: "sum_list (map sum_list xss) = (sum_list (concat xss) :: int)"
  by (induction xss) simp_all

lemma sum_below: "2 * sum_list (map int [0..<n]) = int n * (int n - 1)"
  by (induction n) (simp_all add: algebra_simps)

section \<open>A key that is not cached\<close>

definition unused :: "string \<Rightarrow> cgraph \<Rightarrow> bool" where
  "unused key g \<longleftrightarrow> map_of (cg_hash g) key = None"

lemma unused_evict: "unused key g \<Longrightarrow> unused key (evict g)"
proof (induction g rule: evict.induct)
  case (1 g)
  have "unused key (evict_one g)" using 1(2) by (auto simp: unused_def evict_one_def delete_conv split: list.split)
  with 1 show ?case by (subst evict.simps) simp
qed

lemma unused_lookup:
  assumes "unused (lookup_key c h) g" "\<not> cg_redis g"
  shows "\<exists>g'. get_cached_result c h True reply ttl now g = Inr (None, g') \<and> \<not> cg_redis g' \<and>
    (\<forall>key. unused key g' \<longleftrightarrow> unused key g)"
  using assms
  by (auto simp: unused_def get_cached_result_def get_cached_result_by_key_def l1_lookup_def hydrate_from_redis_def)

lemma unused_register:
  assumes "unused (lookup_key c h) g" "\<not> cg_redis g"
  shows "\<exists>nd g' wr. register_computation uid c h out lat ok None nxt True oh now g = Inr (nd, g', wr) \<and> \<not> cg_redis g' \<and>
    (\<forall>key. key \<noteq> lookup_key c h \<longrightarrow> unused key g \<longrightarrow> unused key g')"
proof -
  let ?g1 = "\<lambda>e nd. evict (g\<lparr>cg_nodes := AList.update (''comp_'' @ uid) nd (cg_nodes g),
    cg_hash := AList.update (lookup_key c h) (''comp_'' @ uid) (cg_hash g),
    cg_outputs := e\<rparr>)"
  have "unused key (?g1 e nd)" if "key \<noteq> lookup_key c h" "unused key g" for key e nd
    using that by (intro unused_evict) (simp add: unused_def update_conv')
  with assms show ?thesis
    by (auto simp: unused_def register_computation_def register_new_def store_output_def Let_def)
qed

section \<open>A worker\<close>

text \<open>A worker as the benchmark makes it: without a state of its own and with its share of the numbers.\<close>

definition summing :: "organism \<Rightarrow> int list \<Rightarrow> bool" where
  "summing w xs \<longleftrightarrow> og_state w = [] \<and> og_input w = [(''partition_data'', PList (map PInt xs))]"

abbreviation sum_node :: node where
  "sum_node \<equiv> plain_node ''PartitionSumNode'' False ''bench.partition_sum'' partition_sum_process"

abbreviation share_key :: "xio \<Rightarrow> int list \<Rightarrow> string" where
  "share_key io xs \<equiv> xi_hash io ''bench.partition_sum'' [(''partition_data'', PList (map PInt xs))] []"

lemma sum_node_final:
  assumes "summing w xs"
  shows "final_node sum_node ((to_envelope w)\<lparr>env_next := Some c\<rparr>) [(''partition_result'', PInt (sum_list xs))]"
  using assms
  by (simp add: summing_def final_node_def plain_node_def partition_sum_process_def with_get_def got_def sum_ints
      goes_to_def to_envelope_def set_state_def set_next_def)

lemma summing_worker:
  assumes w: "summing w xs" and nr: "resolve nr ''bench.partition_sum'' = Inr sum_node"
    and s: "unused (lookup_key ''bench.partition_sum'' (share_key io xs)) (sr_graph s)" "\<not> cg_redis (sr_graph s)"
  shows "\<exists>w' s'. run_worker io nr ''bench.partition_sum'' ff w s = (None, w', s') \<and>
    sr_results s' = sr_results s @ [PInt (sum_list xs)] \<and> sr_errors s' = sr_errors s \<and> \<not> cg_redis (sr_graph s') \<and>
    (\<forall>h. h \<noteq> share_key io xs \<longrightarrow> unused (lookup_key ''bench.partition_sum'' h) (sr_graph s) \<longrightarrow>
      unused (lookup_key ''bench.partition_sum'' h) (sr_graph s'))"
proof -
  let ?c = "''bench.partition_sum''" and ?t = "sr_tick s" and ?h = "share_key io xs"
  have h: "xi_hash io ?c (og_input w) (public_items (og_state w)) = ?h" using w by (simp add: summing_def)
  from unused_lookup [OF s, of "xi_get io ?t" "xi_ttl io ?t" "xi_now io ?t"] obtain g where g:
    "get_cached_result ?c ?h True (xi_get io ?t) (xi_ttl io ?t) (xi_now io ?t) (sr_graph s) = Inr (None, g)"
    "\<not> cg_redis g" "\<And>key. unused key g \<longleftrightarrow> unused key (sr_graph s)" by blast
  from final_node_result [OF sum_node_final [OF w]] obtain res where res:
    "node_execute (xi_rt io) (?t + 1) sum_node ((to_envelope w)\<lparr>env_next := Some ?c\<rparr>) = Inr res" "res_success res"
    "env_next (res_envelope res) = None" "env_state (res_envelope res) = [(''partition_result'', PInt (sum_list xs))]" by blast
  from unused_register [OF _ g(2), of ?c ?h "xi_uid io (?t + 2)" "public_items (env_state (res_envelope res))" 0 True None
      "xi_ohash io (?t + 2)" "xi_now io (?t + 2)"] s(1) g(3)
  obtain nd g2 wr where g2: "register_computation (xi_uid io (?t + 2)) ?c ?h (public_items (env_state (res_envelope res))) 0 True
      None None True (xi_ohash io (?t + 2)) (xi_now io (?t + 2)) g = Inr (nd, g2, wr)" "\<not> cg_redis g2"
    "\<And>key. key \<noteq> lookup_key ?c ?h \<Longrightarrow> unused key g \<Longrightarrow> unused key g2" by blast
  show ?thesis
    using g(1,3) res g2 nr
    by (simp add: run_worker_def h worker_done_def worker_result_def Let_def) (simp add: lookup_key_def)
qed

lemma summing_workers:
  assumes "list_all2 summing ws xss" and nr: "resolve nr ''bench.partition_sum'' = Inr sum_node"
    and "distinct (map (share_key io) xss)" "\<not> cg_redis (sr_graph s)"
    and "\<forall>xs \<in> set xss. unused (lookup_key ''bench.partition_sum'' (share_key io xs)) (sr_graph s)"
  shows "\<exists>ws' s'. run_workers io nr ''bench.partition_sum'' ff ws s = (None, ws', s') \<and>
    sr_results s' = sr_results s @ map (\<lambda>xs. PInt (sum_list xs)) xss \<and> sr_errors s' = sr_errors s"
  using assms(1,3-)
proof (induction ws xss arbitrary: s rule: list_all2_induct)
  case Nil
  then show ?case by simp
next
  case (Cons w ws xs xss)
  from summing_worker [OF Cons.hyps(1) nr, of io s ff] Cons.prems obtain w' s1 where s1:
    "run_worker io nr ''bench.partition_sum'' ff w s = (None, w', s1)"
    "sr_results s1 = sr_results s @ [PInt (sum_list xs)]" "sr_errors s1 = sr_errors s" "\<not> cg_redis (sr_graph s1)"
    "\<And>h. h \<noteq> share_key io xs \<Longrightarrow> unused (lookup_key ''bench.partition_sum'' h) (sr_graph s) \<Longrightarrow>
      unused (lookup_key ''bench.partition_sum'' h) (sr_graph s1)" by auto
  have "\<forall>ys \<in> set xss. unused (lookup_key ''bench.partition_sum'' (share_key io ys)) (sr_graph s1)"
    using Cons.prems by (intro ballI s1(5)) (auto simp: image_iff)
  with Cons.IH [of s1] Cons.prems(1) s1(1-4) show ?case by auto
qed

section \<open>The groups\<close>

lemma remainder_keys:
  assumes "0 < w" "w \<le> n"
  shows "length (partitions (Some (remainder_key w)) w (range_values n)) = w"
proof -
  have "set (item_keys (Some (remainder_key w)) w (range_values n)) = (\<lambda>i. show_int (int (i mod w))) ` {..<n}"
    by (auto simp: item_keys_def range_values_def zmod_int)
  also have "\<dots> = (\<lambda>i. show_int (int i)) ` {..<w}"
  proof -
    have "x \<in> (\<lambda>i. i mod w) ` {..<n}" if "x < w" for x using that assms by (intro image_eqI [of _ _ x]) auto
    then have "(\<lambda>i. i mod w) ` {..<n} = {..<w}" using assms(1) by auto
    then show ?thesis using image_image [of "\<lambda>i. show_int (int i)" "\<lambda>i. i mod w" "{..<n}"] by simp
  qed
  also have "card \<dots> = w"
    by (subst card_image) (auto intro!: inj_onI dest: show_nat_inj simp: show_int_def)
  finally show ?thesis by (simp add: length_partitions)
qed

text \<open>With as many groups as workers, the workers' shares are non-empty, different, and together the data.\<close>

lemma shares:
  assumes "0 < w" "w \<le> n"
  obtains xss where "assignments (Some (remainder_key w)) w (range_values n) = map (map PInt) xss"
    "length xss = w" "mset (concat xss) = mset (map int [0..<n])" "distinct (concat xss)" "\<forall>xs \<in> set xss. xs \<noteq> []"
proof -
  let ?p = "partitions (Some (remainder_key w)) w (range_values n)"
  note len = remainder_keys [OF assms]
  then have "?p \<noteq> []" using assms(1) by auto
  with len have A: "assignments (Some (remainder_key w)) w (range_values n) = map snd ?p"
    using assignments_prefix [of w "Some (remainder_key w)" "range_values n"] by simp
  have all: "mset (concat (map snd ?p)) = mset (range_values n)" by (rule partitions_spec(3))
  then have "set (concat (map snd ?p)) = set (range_values n)" by (metis set_mset_mset)
  then have ints: "set vs \<subseteq> PInt ` UNIV" if "vs \<in> set (map snd ?p)" for vs
    using that by (auto simp: range_values_def)
  have "\<exists>xs. vs = map PInt xs" if "vs \<in> set (map snd ?p)" for vs
    unfolding ex_map_conv using ints [OF that] by blast
  then have "\<exists>xss. map snd ?p = map (map PInt) xss" by (subst ex_map_conv) blast
  then obtain xss where xss: "map snd ?p = map (map PInt) xss" ..
  have "image_mset PInt (mset (concat xss)) = image_mset PInt (mset (map int [0..<n]))"
    using all xss by (simp add: range_values_def map_concat comp_def flip: mset_map)
  then have m: "mset (concat xss) = mset (map int [0..<n])"
    by (rule injD [OF multiset.inj_map, rotated]) (simp add: inj_def)
  have "distinct (map int [0..<n])" by (simp add: distinct_map)
  with m have d: "distinct (concat xss)" by (metis mset_eq_imp_distinct_iff)
  have "\<forall>vs \<in> set (map snd ?p). vs \<noteq> []"
    using partitions_spec(4) [of "Some (remainder_key w)" w "range_values n"] by (simp add: all_nonempty_def)
  then have "\<forall>xs \<in> set xss. xs \<noteq> []" by (simp add: xss)
  moreover have "length xss = w" using len xss by (metis length_map)
  ultimately show ?thesis using that A xss m d by simp
qed

lemma shares_differ: "distinct (concat xss) \<Longrightarrow> \<forall>xs \<in> set xss. xs \<noteq> [] \<Longrightarrow> distinct xss"
  using removeAll_id [of "[]" xss] by (auto simp: distinct_concat_iff)

lemma heads_apart:
  assumes "distinct (concat xss)" "\<forall>xs \<in> set xss. xs \<noteq> []" "xs \<in> set xss" "ys \<in> set xss" "hd xs = hd ys"
  shows "xs = ys"
proof (rule ccontr)
  assume "xs \<noteq> ys"
  with assms(1,3,4) have "set xs \<inter> set ys = {}" by (auto simp: distinct_concat_iff)
  moreover have "hd xs \<in> set xs" using assms(2,3) by simp
  moreover have "hd xs \<in> set ys" using assms(2,4) by (simp add: assms(5))
  ultimately show False by blast
qed

section \<open>The swarm of the benchmark\<close>

lemma bench_swarm_state:
  assumes "tallied hops cold warm (pe_exec pe)"
  shows "pe_router (bench_swarm b w pe) = pe_router pe" "pe_graph (bench_swarm b w pe) = pe_graph pe"
    "sc_partition (pe_swarm (bench_swarm b w pe)) = Some (remainder_key w)"
    "map_of (sc_reducers (pe_swarm (bench_swarm b w pe))) ''bench_swarm'' = Some sum_reducer"
    "\<exists>ws. map_of (sc_swarms (pe_swarm (bench_swarm b w pe))) ''bench_swarm'' = Some ws \<and> length ws = w \<and>
       (\<forall>x \<in> set ws. og_state x = [] \<and> og_input x = [])"
  using assms
  by (auto simp: bench_swarm_def spawn_organism_def engine_create_swarm_def create_swarm_def register_reducer_def
      set_partition_fn_def notify_def callbacks_of_def tallied_def new_organism_def spawn_worker_def spawn_child_def
      Let_def or_str_def dict_simps dict_update_def)

lemma assigned_workers:
  assumes "length ws = length xss" "\<forall>x \<in> set ws. og_state x = [] \<and> og_input x = []"
  shows "list_all2 summing (map (assign c) (zip ws (map (map PInt) xss))) xss"
  using assms
  by (auto simp: list_all2_conv_all_nth summing_def assign_def org_set_next_def)

text \<open>
  C6: The swarm of the benchmark adds up its numbers. With at least as many numbers as workers, shared out by
  their remainder over the workers of a fresh engine with a local cache, the reduced value is the sum of all
  numbers, no worker fails and every worker is counted, as long as the content hashes of the workers' shares are
  different: otherwise a worker would be served with another one's sum.
\<close>

theorem swarm_reduces_to_the_sum:
  fixes b :: bench_io and ev :: "int option"
  assumes "0 < w" "w \<le> n"
    and hash: "inj_on (\<lambda>vs. xi_hash (bi_run b 0) ''bench.partition_sum'' [(''partition_data'', PList vs)] [])
      (set (assignments (Some (remainder_key w)) w (range_values n)))"
  shows "\<exists>rep pe'. scenario_swarm b n w (bench_engine read (new_graph m ttl neg caps prefix False) (new_executor new_watcher bus ev)) =
      (Inr rep, pe') \<and> wr_reduced rep = PInt (wr_expected rep) \<and> wr_expected rep = sum_list (map int [0..<n]) \<and>
    wr_error_rate rep = 0 \<and> wr_workers rep = w"
proof -
  let ?c = "''bench.partition_sum''" and ?g = "new_graph m ttl neg caps prefix False" and ?io = "bi_run b 0"
  let ?pe = "bench_engine read ?g (new_executor new_watcher bus ev)"
  let ?A = "assignments (Some (remainder_key w)) w (range_values n)"
  have "tallied (max_hops_of ev) 0 0 (pe_exec ?pe)" by (simp add: bench_routes tallied_def new_executor_def new_watcher_def)
  note S = bench_swarm_state [OF this, of b w, unfolded bench_routes]
  from S(5) obtain ws where ws: "map_of (sc_swarms (pe_swarm (bench_swarm b w ?pe))) ''bench_swarm'' = Some ws"
    "length ws = w" "\<forall>x \<in> set ws. og_state x = [] \<and> og_input x = []" by blast
  obtain xss where xss: "?A = map (map PInt) xss" "length xss = w" "mset (concat xss) = mset (map int [0..<n])"
    "distinct (concat xss)" "\<forall>xs \<in> set xss. xs \<noteq> []" using shares [OF assms(1,2)] by blast
  have "distinct ?A" using shares_differ [OF xss(4,5)] by (simp add: xss(1) distinct_map inj_on_def)
  with hash have keys: "distinct (map (share_key ?io) xss)" by (simp add: xss(1) distinct_map inj_on_def)
  have nr: "resolve (pe_router ?pe) ?c = Inr sum_node" by (rule bench_routes(2))
  let ?s = "\<lparr>sr_graph = ?g, sr_tick = 0, sr_results = [], sr_errors = 0\<rparr>"
  have fresh: "\<not> cg_redis (sr_graph ?s)" "\<forall>xs \<in> set xss. unused (lookup_key ?c (share_key ?io xs)) (sr_graph ?s)"
    by (simp_all add: new_graph_def unused_def)
  have "list_all2 summing (map (assign ?c) (zip ws (map (map PInt) xss))) xss"
    using assigned_workers ws(2,3) xss(2) by simp
  from summing_workers [OF this nr keys fresh, of False] obtain ws' s' where run:
    "run_workers ?io (pe_router ?pe) ?c False (map (assign ?c) (zip ws (map (map PInt) xss))) ?s = (None, ws', s')"
    "sr_results s' = map (\<lambda>xs. PInt (sum_list xs)) xss" "sr_errors s' = 0" by auto
  have "sum_list (map sum_list xss) = sum_list (map int [0..<n])"
    using arg_cong [OF xss(3), of sum_mset] by (simp only: sum_mset_sum_list sum_of_concat)
  moreover have "sr_results s' = map PInt (map sum_list xss)" by (simp add: run(2))
  ultimately have red: "sum_reducer (sr_results s') = PInt (sum_list (map int [0..<n]))"
    by (simp only: sum_reducer_ints)
  show ?thesis
    using run(1,3) red ws(1,2) S(1-4) xss(1) assms(1)
    by (simp add: scenario_swarm_def engine_execute_swarm_def execute_swarm_def bindE_Inr swarm_error_rate_def Let_def)
qed

text \<open>The benchmark's own size: a thousand numbers, eight workers, and a hash that tells the shares apart.\<close>

definition demo_share_hash :: "string \<Rightarrow> dict \<Rightarrow> dict \<Rightarrow> string" where
  "demo_share_hash c i st = (case i of [(_, PList (PInt k # _))] \<Rightarrow> show_int k | _ \<Rightarrow> [])"

theorem swarm_reduces_to_the_sum_witness:
  "\<exists>rep pe'. scenario_swarm (demo_bench\<lparr>bi_run := \<lambda>_. demo_io\<lparr>xi_hash := demo_share_hash\<rparr>\<rparr>) 1000 8
       (bench_engine (\<lambda>_. None) (new_graph 10 30 3 [] [] False) (new_executor new_watcher False None)) = (Inr rep, pe') \<and>
     wr_reduced rep = PInt 499500 \<and> wr_workers rep = 8"
proof -
  let ?b = "demo_bench\<lparr>bi_run := \<lambda>_. demo_io\<lparr>xi_hash := demo_share_hash\<rparr>\<rparr>"
  have sizes: "(0 :: nat) < 8" "(8 :: nat) \<le> 1000" by simp_all
  obtain xss where xss: "assignments (Some (remainder_key 8)) 8 (range_values 1000) = map (map PInt) xss" "length xss = 8"
    "mset (concat xss) = mset (map int [0..<1000])" "distinct (concat xss)" "\<forall>xs \<in> set xss. xs \<noteq> []"
    using shares [OF sizes] by blast
  have apart: "xs = ys" if "xs \<in> set xss" "ys \<in> set xss" "hd xs = hd ys" for xs ys
    using that xss(4,5) heads_apart by blast
  have nonneg: "0 \<le> hd xs" if "xs \<in> set xss" for xs
  proof -
    have "hd xs \<in> set (concat xss)" using that xss(5) by (auto intro!: bexI [of _ xs])
    then have "hd xs \<in> set (map int [0..<1000])" using xss(3) by (metis set_mset_mset)
    then show ?thesis by auto
  qed
  have "inj_on (\<lambda>vs. xi_hash (bi_run ?b 0) ''bench.partition_sum'' [(''partition_data'', PList vs)] [])
      (set (assignments (Some (remainder_key 8)) 8 (range_values 1000)))"
  proof (rule inj_onI, unfold xss(1))
    fix vs us assume "vs \<in> set (map (map PInt) xss)" "us \<in> set (map (map PInt) xss)"
      and eq: "xi_hash (bi_run ?b 0) ''bench.partition_sum'' [(''partition_data'', PList vs)] [] =
        xi_hash (bi_run ?b 0) ''bench.partition_sum'' [(''partition_data'', PList us)] []"
    then obtain xs ys where xy: "xs \<in> set xss" "ys \<in> set xss" "vs = map PInt xs" "us = map PInt ys" by auto
    with xss(5) eq have "show_int (hd xs) = show_int (hd ys)"
      by (cases xs; cases ys) (auto simp: demo_share_hash_def)
    with nonneg [OF xy(1)] nonneg [OF xy(2)] have "hd xs = hd ys"
      by (auto simp: show_int_def dest: show_nat_inj)
    with apart xy show "vs = us" by blast
  qed
  from swarm_reduces_to_the_sum [OF sizes this, of "\<lambda>_. None" 10 30 3 "[]" "[]" False None]
  obtain rep pe' where r: "scenario_swarm ?b 1000 8 (bench_engine (\<lambda>_. None) (new_graph 10 30 3 [] [] False)
      (new_executor new_watcher False None)) = (Inr rep, pe')" "wr_reduced rep = PInt (wr_expected rep)"
    "wr_expected rep = sum_list (map int [0..<1000])" "wr_workers rep = 8" by blast
  have "sum_list (map int [0..<1000]) = 499500" using sum_below [of 1000] by (simp del: upt_rec_numeral)
  with r show ?thesis by auto
qed

end
