(* ===== verification/Defaults.thy ===== *)
theory Defaults
  imports Settings Tenancy Genomes Collaboration Experience Computation Storage Sdk
begin

text \<open>
  What a process has one of: the default instances that the modules of \<open>src/src/prismpipe\<close> make on first use
  and hand to every caller, and \<open>create_app\<close> of \<open>__init__.py\<close>. A slot holds the state of the shared instance;
  the locale \<open>default_slot\<close> has the contract of its two functions.
\<close>

section \<open>The contract of a default instance\<close>

locale default_slot =
  fixes get :: "'s \<Rightarrow> 'a \<times> 's" and put :: "'a \<Rightarrow> 's \<Rightarrow> 's"
  assumes get_put: "get (put x s) = (x, put x s)"
    and get_again: "get s = (x, s') \<Longrightarrow> get s' = (x, s')"
    and put_put: "put y (put x s) = put y s"
begin

definition after_gets :: "nat \<Rightarrow> 's \<Rightarrow> 's" where
  "after_gets n = (\<lambda>s. snd (get s)) ^^ n"

lemma get_settled: "get (snd (get s)) = get s"
  using get_again [of s "fst (get s)" "snd (get s)"] by simp

lemma one_instance: "get (after_gets n s) = get s"
  by (induction n) (simp_all add: after_gets_def get_settled)

lemma replaced: "after_gets n (put x s) = put x s" "fst (get (after_gets n (put x s))) = x"
proof -
  show "after_gets n (put x s) = put x s" by (induction n) (simp_all add: after_gets_def get_put)
  then show "fst (get (after_gets n (put x s))) = x" by (simp add: get_put)
qed

end

definition made_once :: "'a \<Rightarrow> 'a option \<Rightarrow> 'a \<times> 'a option" where
  "made_once fresh slot = (case slot of None \<Rightarrow> (fresh, Some fresh) | Some x \<Rightarrow> (x, slot))"

lemma made_once_simps [simp]: "made_once f None = (f, Some f)" "made_once f (Some x) = (x, Some x)"
  by (simp_all add: made_once_def)

section \<open>The modules\<close>

definition get_feature_flags :: "flags option \<Rightarrow> flags \<times> flags option" where
  "get_feature_flags = made_once (new_flags [])"

definition set_feature_flags :: "flags \<Rightarrow> flags option \<Rightarrow> flags option" where
  "set_feature_flags x s = Some x"

definition get_tenant_manager :: "tenants option \<Rightarrow> tenants \<times> tenants option" where
  "get_tenant_manager = made_once new_tenants"

definition set_tenant_manager :: "tenants \<Rightarrow> tenants option \<Rightarrow> tenants option" where
  "set_tenant_manager x s = Some x"

definition get_event_bus :: "event_bus option \<Rightarrow> event_bus \<times> event_bus option" where
  "get_event_bus = made_once new_event_bus"

definition set_event_bus :: "event_bus \<Rightarrow> event_bus option \<Rightarrow> event_bus option" where
  "set_event_bus x s = Some x"

definition get_pipeline_dna :: "dna option \<Rightarrow> dna \<times> dna option" where
  "get_pipeline_dna = made_once new_dna"

definition set_pipeline_dna :: "dna \<Rightarrow> dna option \<Rightarrow> dna option" where
  "set_pipeline_dna x s = Some x"

definition get_swarm_engine :: "swarm_engine option \<Rightarrow> swarm_engine \<times> swarm_engine option" where
  "get_swarm_engine = made_once new_swarm_engine"

definition set_swarm_engine :: "swarm_engine \<Rightarrow> swarm_engine option \<Rightarrow> swarm_engine option" where
  "set_swarm_engine x s = Some x"

definition get_request_memory_graph :: "memory_graph option \<Rightarrow> memory_graph \<times> memory_graph option" where
  "get_request_memory_graph = made_once new_memory_graph"

definition set_request_memory_graph :: "memory_graph \<Rightarrow> memory_graph option \<Rightarrow> memory_graph option" where
  "set_request_memory_graph x s = Some x"

definition get_partial_engine :: "partial_engine option \<Rightarrow> partial_engine \<times> partial_engine option" where
  "get_partial_engine = made_once (new_partial_engine (7 / 10))"

definition set_partial_engine :: "partial_engine \<Rightarrow> partial_engine option \<Rightarrow> partial_engine option" where
  "set_partial_engine x s = Some x"

text \<open>A storage on files is its directory. The default storage in memory cannot be replaced.\<close>

definition get_snapshot_storage :: "string option \<Rightarrow> string \<times> string option" where
  "get_snapshot_storage = made_once ''./snapshots''"

definition set_snapshot_storage :: "string \<Rightarrow> string option \<Rightarrow> string option" where
  "set_snapshot_storage x s = Some x"

definition get_request_storage :: "string option \<Rightarrow> string \<times> string option" where
  "get_request_storage = made_once ''./requests''"

definition set_request_storage :: "string \<Rightarrow> string option \<Rightarrow> string option" where
  "set_request_storage x s = Some x"

definition get_memory_storage :: "pval memory option \<Rightarrow> pval memory \<times> pval memory option" where
  "get_memory_storage = made_once []"

lemmas slot_defs = made_once_def get_feature_flags_def set_feature_flags_def get_tenant_manager_def
  set_tenant_manager_def get_event_bus_def set_event_bus_def get_pipeline_dna_def set_pipeline_dna_def
  get_swarm_engine_def set_swarm_engine_def get_request_memory_graph_def set_request_memory_graph_def
  get_partial_engine_def set_partial_engine_def get_snapshot_storage_def set_snapshot_storage_def
  get_request_storage_def set_request_storage_def get_computation_engine_def set_computation_engine_def

interpretation flags_slot: default_slot get_feature_flags set_feature_flags
  by unfold_locales (auto simp: slot_defs split: option.splits)

interpretation tenants_slot: default_slot get_tenant_manager set_tenant_manager
  by unfold_locales (auto simp: slot_defs split: option.splits)

interpretation bus_slot: default_slot get_event_bus set_event_bus
  by unfold_locales (auto simp: slot_defs split: option.splits)

interpretation dna_slot: default_slot get_pipeline_dna set_pipeline_dna
  by unfold_locales (auto simp: slot_defs split: option.splits)

interpretation swarm_slot: default_slot get_swarm_engine set_swarm_engine
  by unfold_locales (auto simp: slot_defs split: option.splits)

interpretation memory_slot: default_slot get_request_memory_graph set_request_memory_graph
  by unfold_locales (auto simp: slot_defs split: option.splits)

interpretation partial_slot: default_slot get_partial_engine set_partial_engine
  by unfold_locales (auto simp: slot_defs split: option.splits)

interpretation snapshot_slot: default_slot get_snapshot_storage set_snapshot_storage
  by unfold_locales (auto simp: slot_defs split: option.splits)

interpretation request_slot: default_slot get_request_storage set_request_storage
  by unfold_locales (auto simp: slot_defs split: option.splits)

interpretation engine_slot: default_slot "get_computation_engine SAFE" set_computation_engine
  by unfold_locales (auto simp: slot_defs split: option.splits)

text \<open>
  Work through the default instance is seen by every later caller: an event handler subscribed through the
  default bus is on the bus that the server gives to its engine.
\<close>

lemma subscribed_through_default:
  assumes "get_event_bus s = (b, s1)"
  shows "get_event_bus (set_event_bus (bus_subscribe t h b) s1) = (bus_subscribe t h b, Some (bus_subscribe t h b))"
  using bus_slot.get_put by (simp add: set_event_bus_def)

text \<open>Whoever asks first for a dangerous engine decides how \<open>execute_code\<close> runs code from then on.\<close>

lemma first_mode_runs_code:
  assumes "get_computation_engine mode None = (m, s)"
  shows "execute_code ip code (Some c) args s =
    (execute_payload ip mode \<lparr>cp_code = code, cp_language = ''python'', cp_args = args, cp_timeout_ms = 5000\<rparr> c, Some mode)"
  using assms by (auto simp: execute_code_def get_computation_engine_def)

section \<open>\<open>create_app\<close>\<close>

text \<open>
  The keys are looked up as they are, with their dot. \<open>None\<close> stands for values of other types, which are stored
  unchecked.
\<close>

definition default_pipe_config :: pipe_config where
  "default_pipe_config =
     \<lparr>pc_max_iterations = 100, pc_timeout_seconds = None, pc_continue_on_error = False, pc_enable_history = True\<rparr>"

definition setting :: "string \<Rightarrow> pval \<Rightarrow> dict \<Rightarrow> pval" where
  "setting k fallback config = (case map_of config k of Some v \<Rightarrow> v | None \<Rightarrow> fallback)"

fun app_config :: "pval \<Rightarrow> pval \<Rightarrow> pipe_config option" where
  "app_config (PInt n) PNone = Some (default_pipe_config\<lparr>pc_max_iterations := n\<rparr>)"
| "app_config (PInt n) t =
     map_option (\<lambda>q. default_pipe_config\<lparr>pc_max_iterations := n, pc_timeout_seconds := Some q\<rparr>) (num_of t)"
| "app_config _ _ = None"

definition create_app :: "dict option \<Rightarrow> sdk option" where
  "create_app config =
     (case config of
        Some (c # cs) \<Rightarrow>
          map_option new_sdk (app_config (setting ''pipeline.max_iterations'' (PInt 100) (c # cs))
            (setting ''pipeline.timeout_seconds'' (PInt 30) (c # cs)))
      | _ \<Rightarrow> Some (new_sdk default_pipe_config))"

text \<open>
  Settings in the shape of \<open>load_config\<close>, grouped under \<open>pipeline\<close>, are not read: whatever limits they name, the
  application has the default limit of iterations, and a deadline that an application without settings has not.
\<close>

lemma grouped_settings_are_ignored:
  assumes "dom (map_of config) = {''pipeline''}"
  shows "create_app (Some config) =
    Some (new_sdk (default_pipe_config\<lparr>pc_max_iterations := 100, pc_timeout_seconds := Some 30\<rparr>))"
proof -
  have none: "map_of config k = None" if "k \<noteq> ''pipeline''" for k
  proof -
    have "k \<notin> dom (map_of config)" using assms that by simp
    then show ?thesis by (simp only: domIff not_not)
  qed
  have "setting ''pipeline.max_iterations'' (PInt 100) config = PInt 100"
    "setting ''pipeline.timeout_seconds'' (PInt 30) config = PInt 30"
    by (simp_all add: setting_def none)
  moreover obtain c cs where "config = c # cs"
  proof (cases config)
    case Nil
    with assms show thesis by simp
  qed
  ultimately show ?thesis by (simp add: create_app_def default_pipe_config_def del: map_of.simps)
qed

lemma no_settings_no_deadline:
  "map_option (pc_timeout_seconds \<circ> sd_config) (create_app None) = Some None"
  "map_option (pc_timeout_seconds \<circ> sd_config) (create_app (Some [])) = Some None"
  by (simp_all add: create_app_def new_sdk_def default_pipe_config_def)

end
