(* ===== verification/Pools.thy ===== *)
theory Pools
  imports RemoteStorage StageStore
begin

text \<open>
  The connection pools behind \<open>PostgresStorage\<close> (\<open>src/src/prismpipe/storage_postgres.py\<close>) and \<open>CyrexStageStore\<close>
  (\<open>src/src/prismpipe/cyrex_stage_store.py\<close>): given by the caller or opened on first use, prepared once, and closed
  only by their owner. The library asyncpg is an argument: whether it is there, and what opening, preparing and
  closing come to.
\<close>

section \<open>One caller\<close>

record 'p lazy_pool =
  lp_pool :: "'p option"
  lp_owns :: bool

record 'p pg_pool = "'p lazy_pool" +
  pp_ready :: bool

definition new_stage_pool :: "'p option \<Rightarrow> 'p lazy_pool" where
  "new_stage_pool p = \<lparr>lp_pool = p, lp_owns = (p = None)\<rparr>"

definition new_pg_pool :: "'p option \<Rightarrow> 'p pg_pool" where
  "new_pg_pool p = \<lparr>lp_pool = p, lp_owns = (p = None), pp_ready = False\<rparr>"

definition get_pool ::
    "bool \<Rightarrow> py_error + 'p \<Rightarrow> ('p, 'z) lazy_pool_scheme \<Rightarrow> (py_error + 'p) \<times> ('p, 'z) lazy_pool_scheme" where
  "get_pool installed opened s =
     (case lp_pool s of
        Some p \<Rightarrow> (Inr p, s)
      | None \<Rightarrow>
          if \<not> installed then (Inl storage_error_arity, s)
          else (case opened of Inl e \<Rightarrow> (Inl e, s) | Inr p \<Rightarrow> (Inr p, s\<lparr>lp_pool := Some p\<rparr>)))"

definition pg_get_pool ::
    "bool \<Rightarrow> py_error + 'p \<Rightarrow> py_error + unit \<Rightarrow> 'p pg_pool \<Rightarrow> (py_error + 'p) \<times> 'p pg_pool" where
  "pg_get_pool installed opened prepared s =
     (case get_pool installed opened s of
        (Inl e, s1) \<Rightarrow> (Inl e, s1)
      | (Inr p, s1) \<Rightarrow>
          if pp_ready s1 then (Inr p, s1)
          else (case prepared of Inl e \<Rightarrow> (Inl e, s1) | Inr _ \<Rightarrow> (Inr p, s1\<lparr>pp_ready := True\<rparr>)))"

definition stage_close :: "py_error + unit \<Rightarrow> 'p lazy_pool \<Rightarrow> py_error option \<times> 'p lazy_pool" where
  "stage_close ended s =
     (if lp_pool s \<noteq> None \<and> lp_owns s
      then (case ended of Inl e \<Rightarrow> (Some e, s) | Inr _ \<Rightarrow> (None, s\<lparr>lp_pool := None\<rparr>))
      else (None, s))"

definition pg_close :: "py_error + unit \<Rightarrow> 'p pg_pool \<Rightarrow> py_error option \<times> 'p pg_pool" where
  "pg_close ended s =
     (if lp_pool s \<noteq> None \<and> lp_owns s
      then (case ended of Inl e \<Rightarrow> (Some e, s) | Inr _ \<Rightarrow> (None, s\<lparr>lp_pool := None, pp_ready := False\<rparr>))
      else (None, s))"

datatype 'p pool_event = UsePool bool "py_error + 'p" "py_error + unit" | ClosePool "py_error + unit"

fun pg_step :: "'p pool_event \<Rightarrow> 'p pg_pool \<Rightarrow> 'p pg_pool" where
  "pg_step (UsePool i p r) s = snd (pg_get_pool i p r s)"
| "pg_step (ClosePool c) s = snd (pg_close c s)"

text \<open>The schema is never believed to exist without a pool, and a pool that was given is never given up.\<close>

definition pool_ok :: "'p option \<Rightarrow> 'p pg_pool \<Rightarrow> bool" where
  "pool_ok given s \<longleftrightarrow> lp_owns s = (given = None) \<and> (pp_ready s \<longrightarrow> lp_pool s \<noteq> None) \<and> (given \<noteq> None \<longrightarrow> lp_pool s = given)"

interpretation pg: invariant_machine pg_step "\<lambda>_ _. True" "pool_ok given"
proof
  fix s :: "'a pg_pool" and e
  assume "pool_ok given s"
  then show "pool_ok given (pg_step e s)"
    by (cases e) (auto simp: pool_ok_def pg_get_pool_def get_pool_def pg_close_def split: option.splits sum.splits)
qed

lemma new_pool_ok: "pool_ok given (new_pg_pool given)"
  by (simp add: pool_ok_def new_pg_pool_def)

lemma all_ok [simp]: "run_ok step (\<lambda>_ _. True) es s"
  by (induction es arbitrary: s) simp_all

text \<open>After any uses and failures, a caller is handed a prepared pool, and the one that was given if there was one.\<close>

lemma pool_is_prepared:
  assumes "pg_get_pool i p r (run_steps pg_step es (new_pg_pool given)) = (Inr q, s')"
  shows "pp_ready s' \<and> lp_pool s' = Some q \<and> (given \<noteq> None \<longrightarrow> given = Some q)"
proof -
  have "pool_ok given (run_steps pg_step es (new_pg_pool given))" by (rule pg.run_inv [OF new_pool_ok all_ok])
  with assms show ?thesis
    by (auto simp: pool_ok_def pg_get_pool_def get_pool_def split: option.splits sum.splits if_splits)
qed

lemma given_pool_stays_open: "lp_owns s = False \<Longrightarrow> pg_close c s = (None, s)"
  by (simp add: pg_close_def)

section \<open>Overlapping callers\<close>

text \<open>
  The attribute is read before opening is awaited and written after it. \<open>Enter i\<close> is a caller up to its await,
  \<open>Opened i p\<close> its continuation. A caller that found a pool is served at once.
\<close>

datatype 'p open_event = Enter nat | Opened nat 'p

record 'p openings =
  on_pool :: "'p option"
  on_waiting :: "nat list"
  on_opened :: "'p list"
  on_served :: "(nat \<times> 'p) list"

definition nobody :: "'p openings" where
  "nobody = \<lparr>on_pool = None, on_waiting = [], on_opened = [], on_served = []\<rparr>"

fun open_step :: "'p open_event \<Rightarrow> 'p openings \<Rightarrow> 'p openings" where
  "open_step (Enter i) s =
     (case on_pool s of
        Some p \<Rightarrow> s\<lparr>on_served := on_served s @ [(i, p)]\<rparr>
      | None \<Rightarrow> s\<lparr>on_waiting := on_waiting s @ [i]\<rparr>)"
| "open_step (Opened i p) s =
     (if i \<in> set (on_waiting s)
      then s\<lparr>on_pool := Some p, on_waiting := remove1 i (on_waiting s), on_opened := on_opened s @ [p],
             on_served := on_served s @ [(i, p)]\<rparr>
      else s)"

text \<open>
  Every opened pool serves somebody and the attribute has the one opened last; all others are lost to
  \<open>close\<close>. As many are opened as callers entered before the first was open.
\<close>

definition opening_ok :: "'p openings \<Rightarrow> bool" where
  "opening_ok s \<longleftrightarrow> on_pool s = (if on_opened s = [] then None else Some (last (on_opened s))) \<and>
     set (map snd (on_served s)) = set (on_opened s)"

lemma opening_step_ok: "opening_ok s \<Longrightarrow> opening_ok (open_step e s)"
  by (cases e) (auto simp: opening_ok_def split: option.splits if_splits)

interpretation op: invariant_machine open_step "\<lambda>_ _. True" opening_ok
  by unfold_locales (rule opening_step_ok)

lemma entering: "on_pool s = None \<Longrightarrow>
    run_steps open_step (map Enter js) s = s\<lparr>on_waiting := on_waiting s @ js\<rparr>"
  by (induction js arbitrary: s) simp_all

lemma continuing: "distinct js \<Longrightarrow> on_waiting s = js \<Longrightarrow> length ps = length js \<Longrightarrow>
    on_opened (run_steps open_step (map2 Opened js ps) s) = on_opened s @ ps"
  by (induction js ps arbitrary: s rule: list_induct2') simp_all

text \<open>Callers that overlap open a pool each, of which \<open>close\<close> closes the last.\<close>

lemma overlap_opens_a_pool_each:
  fixes ps :: "'p list"
  assumes "distinct js" "length ps = length js" "js \<noteq> []"
  defines "s \<equiv> run_steps open_step (map Enter js @ map2 Opened js ps) nobody"
  shows "on_opened s = ps \<and> on_pool s = Some (last ps)"
proof -
  have "on_opened s = ps"
    using continuing [OF assms(1) _ assms(2), of "nobody\<lparr>on_waiting := js\<rparr>"] entering [of "nobody :: 'p openings" js]
    by (simp add: s_def op.run_append nobody_def)
  moreover have "opening_ok s" unfolding s_def
    by (rule op.run_inv) (simp_all add: opening_ok_def nobody_def)
  moreover have "ps \<noteq> []" using assms(2,3) by auto
  ultimately show ?thesis by (simp add: opening_ok_def)
qed

end
