(* ===== verification/Spec2Isabelle.thy ===== *)
theory Spec2Isabelle
  imports Prism_Prelude Envelope Router Node Pipeline ComputationGraph Organism Errors Storage Lifecycle Executor SingleFlight Registry Discovery Swarm TimeSplit Planner Replay Engine Resilience DocumentOps CyrexVectorizer DocumentProcessing Transport IntentPaths HttpServer PlatformNodes Genomes Tenancy Experience StageStore Sdk Collaboration RemoteStorage ConsumerTasks AsyncNode OrganismApi Settings Computation ExpPlanning ExpData VectorizeRuntime RedisStreams SharedClient ServerLife BenchRuns BenchSwarm Defaults Pools
begin

text \<open>
  PrismPipe, a capability-routed request pipeline.

  A request is an envelope that names the next capability it needs. A router finds the node for the
  capability, the node changes the envelope, and the engine repeats this until no capability is left. On top
  of this the program runs organisms, long-lived requests whose steps are shared through a content-addressed
  cache, and a durable document service that takes vectorization requests from a message broker. The paths
  below are relative to \<open>src/src/\<close>, except for \<open>src/server.py\<close>.

  \<^bold>\<open>Foundations.\<close> \<open>Prism_Prelude\<close> has Python's values, insertion-ordered dictionaries as association lists, the
  exceptions, selection and stable sorting, and the locale \<open>invariant_machine\<close> of a transition function that
  keeps an invariant. \<open>Results\<close> has computations that may fail, \<open>Text_Util\<close> and \<open>Errors\<close> the text helpers
  and the text of exceptions (\<open>exceptions.py\<close>).

  \<^bold>\<open>Core\<close> (\<open>prismpipe/core\<close>). \<open>Envelope\<close> (\<open>envelope.py\<close>), \<open>Router\<close> (\<open>router.py\<close>, with the locale \<open>routing\<close>),
  \<open>Node\<close> (\<open>node.py\<close>: the bounded executor as a state machine over futures, and the execution of a node with
  its timeout; \<open>AsyncNode\<close>: the asynchronous execution over the events of a call), \<open>Pipeline\<close> (\<open>pipeline.py\<close>: the loop with hooks, deadline and iteration bound). The lemmas
  show that the executor keeps its bounds and leaves no future pending, that routing finds what was
  registered, and which route a pipeline takes, refined to the list of visited capabilities.

  \<^bold>\<open>Engine\<close> (\<open>prismpipe/engine/__init__.py\<close>). \<open>ComputationGraph\<close> is the shared cache with expiry, eviction and
  its second level in Redis; \<open>Organism\<close>, \<open>Lifecycle\<close> and \<open>Registry\<close> are organisms, what is kept around them and
  how they are found; \<open>Executor\<close> drives one organism through cache and nodes, and \<open>SingleFlight\<close> is the
  protocol of its concurrent steps as an \<open>inductive\<close> step relation over labels; \<open>Discovery\<close>, \<open>Planner\<close>, \<open>Swarm\<close>,
  \<open>TimeSplit\<close> and \<open>Replay\<close> are the remaining parts, and \<open>Engine\<close> is the facade that composes them. The
  lemmas show the bounds and the coherence of the cache, that executions end and what a warm step restores,
  that one task owns each key, how races of branches end, and what plain requests visit.

  \<^bold>\<open>Documents\<close> (\<open>prismpipe/document\<close>). \<open>DocumentContract\<close> and \<open>VectorizeNode\<close> are \<open>vectorize.py\<close>: reading and
  printing of requests with every check in the order of the source, the checks of a backend's result, and
  the node; \<open>VectorizeRuntime\<close> routes a payload through the engine. \<open>CyrexVectorizer\<close> is
  \<open>cyrex_vectorizer.py\<close>. \<open>DocumentOps\<close> is \<open>operations.py\<close>, the table of operations with
  claims, leases, fencing tokens and the outbox, as serialised transactions of any number of workers.
  \<open>DocumentProcessing\<close> is \<open>processing.py\<close>, the processor and the handling of a message, where other workers may
  act between any two transactions. \<open>ConsumerTasks\<close> is the consumer around it: its dispatcher, tasks, semaphore,
  start and stop, in every interleaving. \<open>Transport\<close> is \<open>deepiri_bus.py\<close>, with a consumer running
  on the in-memory transport, and \<open>RedisStreams\<close> is \<open>redis_streams_transport.py\<close> over the answers of its server.
  \<open>StageStore\<close> is \<open>cyrex_stage_store.py\<close>, its SQL statements as list
  operations. The lemmas show that accepted payloads are exactly the valid ones, that settled operations stay
  settled, that a stale worker cannot write, when a message is acknowledged, and that retries end.

  \<^bold>\<open>Services.\<close> \<open>HttpServer\<close>, \<open>OrganismApi\<close> and \<open>ServerLife\<close> (\<open>src/server.py\<close>, \<open>bench_nodes.py\<close>),
  \<open>PlatformNodes\<close> and \<open>SharedClient\<close> (\<open>deepiri_nodes.py\<close>), \<open>Storage\<close> (\<open>storage.py\<close>, with the locale
  \<open>kv_store\<close> and its two interpretations), \<open>Resilience\<close> (\<open>resilience.py\<close>), \<open>IntentPaths\<close> (\<open>intent.py\<close>),
  \<open>Genomes\<close> (\<open>dna.py\<close>), \<open>Tenancy\<close> (\<open>features.py\<close>, \<open>tenancy.py\<close>), \<open>Experience\<close> (\<open>memory_graph.py\<close>, \<open>partial.py\<close>) and
  \<open>Sdk\<close> (\<open>sdk\<close>), \<open>Collaboration\<close> (the swarm engine and the event bus) and \<open>RemoteStorage\<close> (\<open>storage_redis.py\<close>,
  \<open>storage_postgres.py\<close> over the commands they send; \<open>Pools\<close>: opening and closing of connections). \<open>Settings\<close> is \<open>config.py\<close>, \<open>logging.py\<close> and \<open>metrics.py\<close>: dotted
  keys, environment variables in texts, the redaction of log events, the counters. \<open>Computation\<close> is
  \<open>computation.py\<close> and \<open>organic/computation\<close>: what code a request may carry, over an interpreter that is an
  argument. \<open>Defaults\<close> has the instances that modules make on first use, under the locale \<open>default_slot\<close>, and
  \<open>create_app\<close> (\<open>prismpipe/__init__.py\<close>).

  \<^bold>\<open>Benchmarks\<close> (\<open>src/scripts/bench/run_prismpipe_bench.py\<close>). \<open>BenchRuns\<close> and \<open>BenchSwarm\<close> run the scenarios on the
  engine: their theorems follow requests through spawning, executor, cache, nodes and swarm together, and show
  that equal requests are computed once and that the swarm adds up its numbers.

  \<^bold>\<open>Experimental packages\<close> (\<open>prismpipe/organic\<close>; nothing in production imports them). \<open>ExpPlanning\<close> is \<open>organic/dna\<close>
  and \<open>organic/intent\<close>, \<open>ExpData\<close> is \<open>organic/partial\<close>, \<open>organic/memory_graph\<close> and \<open>organic/swarm\<close>. The lemmas show what
  a genetic search keeps of its population, that the learned path is the best known one, and what partitions
  of work and their merges account for.

  \<^bold>\<open>Conventions.\<close> A class is a record of its attributes and a method a function that returns the new state; an
  exception is the left side of a sum. Clocks, fresh identifiers, random draws, hashes, the text of floats and
  of nested values, and everything that a network peer, a database server or a library answers are arguments,
  usually functions of a counter of the calls so far, so that theorems hold for all of their behaviours.
  Concurrent components are step functions over events, and a theorem about them speaks of every sequence.
  Finite floats are rationals, so that rounding is not modelled, and infinities and not-a-number are values of
  their own. Free-form texts are ASCII where their case or their white space matters.

  \<^bold>\<open>Termination.\<close> Loops bounded by the code are total functions: the pipeline and the organism executor stop at
  their own iteration bounds, and no fuel is added. Loops that may not end are \<open>partial_function (option)\<close>: the
  engine's loop over a plain request, the wait for another replica, the search along parents. For these, both
  that they return and when they do not is proved. The only fuel is the number of turns of a consumer in
  \<open>Transport\<close>, and the theorem about it shows that the number of allowed attempts is enough.

  \<^bold>\<open>Not modelled.\<close> Mutable values shared between the states of two requests; cancellation inside a node; Python's
  own grammar and semantics, which \<open>Computation\<close> takes as an argument; the database servers, the message broker's
  server and the web framework; the benchmark of concurrent requests, whose tasks interleave inside the engine
  (\<open>SingleFlight\<close> has their protocol), and the reading of its arguments. The package exports, the abstract base
  classes, \<open>organic_api.py\<close> (which only re-exports) and the demonstration scripts hold no logic of the program.
\<close>

end
